(* ===== verification/Prelude.thy ===== *)
theory Prelude
  imports Main "HOL-Library.Sublist" "HOL-Library.Word"
begin

text \<open>
  Shared vocabulary of the development.

  \<^item> The fragment of Rust's \<open>str\<close> interface the sources use: whitespace classes, \<open>trim\<close>,
    \<open>split_whitespace\<close>, \<open>strip_prefix\<close>, \<open>contains\<close>, \<open>rfind\<close>, \<open>split_once\<close>, and decimal
    printing and parsing of unsigned integers. A Rust string is a HOL \<open>string\<close>; the model is
    about ASCII text, where a byte, a \<open>char\<close> and a HOL character are the same thing.
  \<^item> Facts on machine words read as naturals, and saturating arithmetic.
  \<^item> The locale \<open>transition_system\<close>: the interface between a component's step relation and its
    invariant. Every stateful component interprets it once and gets its reachability theorem.
\<close>

named_theorems result_splits \<open>case distinctions over error and option results\<close>
named_theorems str_simps \<open>characterisations of the Rust string operations\<close>

declare option.splits [result_splits] sum.splits [result_splits] if_splits [result_splits]

section \<open>Characters\<close>

text \<open>\<open>char::is_whitespace\<close> restricted to ASCII, and \<open>u8::is_ascii_whitespace\<close>, which leaves out
  the vertical tab.\<close>

definition is_whitespace :: "char \<Rightarrow> bool" where
  "is_whitespace c \<longleftrightarrow>
     c = CHR 0x20 \<or> c = CHR 0x09 \<or> c = CHR 0x0A \<or> c = CHR 0x0B \<or> c = CHR 0x0C \<or> c = CHR 0x0D"

definition is_ascii_whitespace :: "char \<Rightarrow> bool" where
  "is_ascii_whitespace c \<longleftrightarrow>
     c = CHR 0x20 \<or> c = CHR 0x09 \<or> c = CHR 0x0A \<or> c = CHR 0x0C \<or> c = CHR 0x0D"

definition is_ascii_digit :: "char \<Rightarrow> bool" where
  "is_ascii_digit c \<longleftrightarrow> c \<in> set ''0123456789''"

definition to_ascii_lowercase :: "char \<Rightarrow> char" where
  "to_ascii_lowercase c =
     (let n = of_char c :: nat in if 65 \<le> n \<and> n \<le> 90 then char_of (n + 32) else c)"

lemma is_ascii_whitespace_imp [simp]: "is_ascii_whitespace c \<Longrightarrow> is_whitespace c"
  by (auto simp: is_ascii_whitespace_def is_whitespace_def)

section \<open>String slices\<close>

definition trim_start :: "string \<Rightarrow> string" where
  "trim_start s = dropWhile is_whitespace s"

definition trim_end :: "string \<Rightarrow> string" where
  "trim_end s = rev (dropWhile is_whitespace (rev s))"

definition trim :: "string \<Rightarrow> string" where
  "trim s = trim_end (trim_start s)"

fun strip_prefix :: "string \<Rightarrow> string \<Rightarrow> string option" where
  "strip_prefix [] s = Some s"
| "strip_prefix (p # ps) [] = None"
| "strip_prefix (p # ps) (c # cs) = (if p = c then strip_prefix ps cs else None)"

definition starts_with :: "string \<Rightarrow> string \<Rightarrow> bool" where
  "starts_with s p \<longleftrightarrow> strip_prefix p s \<noteq> None"

definition starts_with_ws :: "string \<Rightarrow> bool" where
  "starts_with_ws s \<longleftrightarrow> (case s of [] \<Rightarrow> False | c # _ \<Rightarrow> is_whitespace c)"

fun contains_str :: "string \<Rightarrow> string \<Rightarrow> bool" where
  "contains_str [] p = (p = [])"
| "contains_str (c # cs) p = (starts_with (c # cs) p \<or> contains_str cs p)"

text \<open>\<open>rfind\<close>: the byte position of the last occurrence.\<close>

fun rfind_from :: "nat \<Rightarrow> string \<Rightarrow> string \<Rightarrow> nat option" where
  "rfind_from i [] p = (if p = [] then Some i else None)"
| "rfind_from i (c # cs) p =
     (case rfind_from (Suc i) cs p of
        Some j \<Rightarrow> Some j
      | None \<Rightarrow> if starts_with (c # cs) p then Some i else None)"

definition rfind :: "string \<Rightarrow> string \<Rightarrow> nat option" where
  "rfind s p = rfind_from 0 s p"

text \<open>\<open>split_once(char::is_whitespace).unwrap_or((s, ""))\<close>, and the optional form.\<close>

definition split_once_ws :: "string \<Rightarrow> (string \<times> string) option" where
  "split_once_ws s =
     (case dropWhile (\<lambda>c. \<not> is_whitespace c) s of
        [] \<Rightarrow> None
      | _ # rest \<Rightarrow> Some (takeWhile (\<lambda>c. \<not> is_whitespace c) s, rest))"

definition split_once_ws_or :: "string \<Rightarrow> string \<times> string" where
  "split_once_ws_or s = (case split_once_ws s of None \<Rightarrow> (s, []) | Some p \<Rightarrow> p)"

text \<open>\<open>rsplit('/').next()\<close>: what follows the last slash, the whole word when there is none.\<close>

definition basename :: "string \<Rightarrow> string" where
  "basename w = rev (takeWhile (\<lambda>c. c \<noteq> CHR ''/'') (rev w))"

function split_whitespace :: "string \<Rightarrow> string list" where
  "split_whitespace s =
     (case dropWhile is_whitespace s of
        [] \<Rightarrow> []
      | c # cs \<Rightarrow>
          (c # takeWhile (\<lambda>x. \<not> is_whitespace x) cs)
            # split_whitespace (dropWhile (\<lambda>x. \<not> is_whitespace x) cs))"
  by pat_completeness auto
termination
proof (relation "measure length", simp)
  fix s cs :: string and c :: char
  assume "dropWhile is_whitespace s = c # cs"
  then have "length (c # cs) \<le> length s"
    by (metis length_dropWhile_le)
  moreover have "length (dropWhile (\<lambda>x. \<not> is_whitespace x) cs) \<le> length cs"
    by (rule length_dropWhile_le)
  ultimately show "(dropWhile (\<lambda>x. \<not> is_whitespace x) cs, s) \<in> measure length" by simp
qed

declare split_whitespace.simps [simp del]

subsection \<open>What the slices are\<close>

lemma strip_prefix_iff [str_simps]: "strip_prefix p s = Some r \<longleftrightarrow> s = p @ r"
  by (induction p s rule: strip_prefix.induct) auto

lemma starts_with_iff [str_simps]: "starts_with s p \<longleftrightarrow> prefix p s"
  by (auto simp: starts_with_def prefix_def strip_prefix_iff)

lemma contains_str_iff [str_simps]: "contains_str s p \<longleftrightarrow> sublist p s"
proof (induction s)
  case Nil
  then show ?case by simp
next
  case (Cons c cs)
  then show ?case by (auto simp: starts_with_iff sublist_Cons_right)
qed

lemma sublist_single [simp]: "sublist [c] s \<longleftrightarrow> c \<in> set s"
  by (induction s) (auto simp: sublist_Cons_right)

lemma trim_start_Nil [simp]: "trim_start [] = []"
  by (simp add: trim_start_def)

lemma trim_Nil [simp]: "trim [] = []"
  by (simp add: trim_def trim_end_def)

lemma suffix_trim_start [simp]: "suffix (trim_start s) s"
  by (simp add: trim_start_def suffix_dropWhile)

lemma length_trim_start [simp]: "length (trim_start s) \<le> length s"
  by (simp add: trim_start_def length_dropWhile_le)

lemma prefix_trim_end [simp]: "prefix (trim_end s) s"
  using suffix_dropWhile [of is_whitespace "rev s"]
  by (simp add: trim_end_def suffix_to_prefix)

lemma length_trim_end [simp]: "length (trim_end s) \<le> length s"
  by (simp add: prefix_length_le)

lemma length_trim [simp]: "length (trim s) \<le> length s"
  unfolding trim_def by (meson le_trans length_trim_end length_trim_start)

lemma set_trim: "set (trim s) \<subseteq> set s"
  unfolding trim_def
  by (meson order_trans prefix_trim_end set_mono_prefix set_mono_suffix suffix_trim_start)

lemma sublist_trim: "sublist (trim s) s"
  unfolding trim_def
  by (meson prefix_imp_sublist prefix_trim_end sublist_order.order_trans suffix_imp_sublist
        suffix_trim_start)

lemma trim_start_idem [simp]: "trim_start (trim_start s) = trim_start s"
  by (simp add: trim_start_def)

lemma trim_start_eq: "s = [] \<or> \<not> is_whitespace (hd s) \<Longrightarrow> trim_start s = s"
  by (cases s) (auto simp: trim_start_def)

lemma trim_start_hd: "trim_start s \<noteq> [] \<Longrightarrow> \<not> is_whitespace (hd (trim_start s))"
  unfolding trim_start_def by (rule hd_dropWhile)

lemma trim_end_idem [simp]: "trim_end (trim_end s) = trim_end s"
  by (simp add: trim_end_def)

lemma trim_end_hd: "trim_end s \<noteq> [] \<Longrightarrow> s \<noteq> [] \<and> hd (trim_end s) = hd s"
  using prefix_trim_end [of s] by (cases s; cases "trim_end s") (auto simp: prefix_def)

lemma trim_start_trim [simp]: "trim_start (trim s) = trim s"
proof (rule trim_start_eq)
  show "trim s = [] \<or> \<not> is_whitespace (hd (trim s))"
    unfolding trim_def using trim_end_hd [of "trim_start s"] trim_start_hd [of s] by metis
qed

lemma trim_idem [simp]: "trim (trim s) = trim s"
proof -
  have "trim (trim s) = trim_end (trim s)" by (simp add: trim_def [of "trim s"])
  then show ?thesis by (simp add: trim_def)
qed

lemma rfind_from_Some:
  "rfind_from i s p = Some j \<Longrightarrow> i \<le> j \<and> j \<le> i + length s \<and> prefix p (drop (j - i) s)"
proof (induction s arbitrary: i)
  case Nil
  then show ?case by (auto split: if_splits)
next
  case (Cons c cs)
  show ?case
  proof (cases "rfind_from (Suc i) cs p")
    case None
    with Cons.prems show ?thesis by (auto simp: starts_with_iff split: if_splits)
  next
    case (Some k)
    with Cons.prems have "rfind_from (Suc i) cs p = Some j" by simp
    then have ih: "Suc i \<le> j \<and> j \<le> Suc i + length cs \<and> prefix p (drop (j - Suc i) cs)"
      by (rule Cons.IH)
    then have "drop (j - i) (c # cs) = drop (j - Suc i) cs" by (simp add: drop_Cons')
    with ih show ?thesis by simp
  qed
qed

lemma rfind_Some: "rfind s p = Some j \<Longrightarrow> j \<le> length s \<and> prefix p (drop j s)"
  using rfind_from_Some [of 0 s p j] by (simp add: rfind_def)

lemma rfind_from_None:
  "rfind_from i s p = None \<Longrightarrow> \<not> sublist p s"
proof (induction s arbitrary: i)
  case Nil
  then show ?case by (auto split: if_splits)
next
  case (Cons c cs)
  then show ?case
    by (auto simp: starts_with_iff sublist_Cons_right split: option.splits if_splits)
qed

lemma rfind_sublist: "sublist p s \<Longrightarrow> \<exists>j. rfind s p = Some j"
  using rfind_from_None [of 0 s p] by (cases "rfind_from 0 s p") (auto simp: rfind_def)

lemma rfind_from_last:
  assumes "rfind_from i (a @ p @ b) p = Some j"
  shows "i + length a \<le> j"
  using assms
proof (induction a arbitrary: i)
  case Nil
  then show ?case using rfind_from_Some by fastforce
next
  case (Cons c a)
  have "rfind_from (Suc i) (a @ p @ b) p \<noteq> None"
    using rfind_from_None [of "Suc i" "a @ p @ b" p] by (auto simp: sublist_def)
  with Cons.prems have "rfind_from (Suc i) (a @ p @ b) p = Some j" by auto
  from Cons.IH [OF this] show ?case by simp
qed

text \<open>The last occurrence leaves no more behind it than any other does.\<close>

lemma rfind_rest:
  assumes "rfind (a @ p @ b) p = Some j"
  shows "\<exists>r. drop j (a @ p @ b) = p @ r \<and> set r \<subseteq> set b"
proof -
  have j: "length a \<le> j" using rfind_from_last [of 0] assms by (simp add: rfind_def)
  obtain r where r: "drop j (a @ p @ b) = p @ r"
    using rfind_Some [OF assms] by (auto simp: prefix_def)
  then have "r = drop (j + length p) (a @ p @ b)"
    by (metis add.commute append_eq_conv_conj drop_drop)
  also have "\<dots> = drop (j - length a) b" using j by simp
  finally show ?thesis using r set_drop_subset by fastforce
qed

subsection \<open>Words\<close>

lemma split_whitespace_word:
  assumes "w \<noteq> []" "list_all (\<lambda>c. \<not> is_whitespace c) w" "r = [] \<or> is_whitespace (hd r)"
  shows "split_whitespace (w @ r) = w # split_whitespace r"
proof -
  obtain c cs where w: "w = c # cs" using assms(1) by (cases w) auto
  have "takeWhile (\<lambda>x. \<not> is_whitespace x) (cs @ r) = cs"
    "dropWhile (\<lambda>x. \<not> is_whitespace x) (cs @ r) = r"
    using assms(2,3) unfolding w
    by (cases r; simp add: list_all_iff takeWhile_append dropWhile_append)+
  with assms(2) w show ?thesis by (simp add: split_whitespace.simps [of "c # cs @ r"])
qed

lemma split_whitespace_Nil [simp]: "split_whitespace [] = []"
  by (simp add: split_whitespace.simps)

lemma first_word_starts_with:
  assumes "starts_with n (w @ '' '')" "w \<noteq> []" "list_all (\<lambda>c. \<not> is_whitespace c) w"
  shows "hd (split_whitespace n) = w"
proof -
  obtain r where "n = w @ (CHR '' '' # r)"
    using assms(1) by (auto simp: starts_with_iff prefix_def)
  with split_whitespace_word [OF assms(2,3), of "CHR '' '' # r"] show ?thesis
    by (simp add: is_whitespace_def)
qed

section \<open>Machine words\<close>

lemma append_Cons_eq_split:
  "xs @ c # ys = xs' @ c # ys' \<Longrightarrow> c \<notin> set xs \<Longrightarrow> c \<notin> set xs' \<Longrightarrow> xs = xs' \<and> ys = ys'"
proof (induction xs arbitrary: xs')
  case Nil
  then show ?case by (cases xs') auto
next
  case (Cons x xs)
  then show ?case by (cases xs') auto
qed

type_synonym byte = "8 word"

lemma unat_bound: "unat (y :: 'a :: len word) < 2 ^ LENGTH('a)"
  by (rule unsigned_less)

lemma unat_plus_no_overflow:
  "unat x + unat y < 2 ^ LENGTH('a) \<Longrightarrow> unat (x + y) = unat x + unat (y :: 'a :: len word)"
  by (simp add: unat_word_ariths)

lemma unat_plus_1: "unat x < unat (y :: 'a :: len word) \<Longrightarrow> unat (x + 1) = unat (x :: 'a word) + 1"
proof -
  assume "unat x < unat y"
  then have "Suc (unat x) < 2 ^ LENGTH('a)" using unat_bound [of y] by linarith
  then show ?thesis by (simp add: unat_word_ariths)
qed

lemma word_dec_le: "0 < x \<Longrightarrow> x \<le> m \<Longrightarrow> x - 1 \<le> (m :: 'a :: len word)"
  by (simp add: word_le_nat_alt unat_minus_one word_gt_0)

text \<open>\<open>saturating_add\<close> and \<open>saturating_sub\<close> at any width.\<close>

definition saturating_add :: "'a :: len word \<Rightarrow> 'a word \<Rightarrow> 'a word" where
  "saturating_add a b = (if unat a + unat b < 2 ^ LENGTH('a) then a + b else - 1)"

definition saturating_sub :: "'a :: len word \<Rightarrow> 'a word \<Rightarrow> 'a word" where
  "saturating_sub a b = (if b \<le> a then a - b else 0)"

lemma unat_max [simp]: "unat (- 1 :: 'a :: len word) = 2 ^ LENGTH('a) - 1"
  by (simp add: unsigned_minus_1_eq_mask mask_eq_exp_minus_1)

lemma unat_saturating_add:
  "unat (saturating_add a b) = min (unat a + unat b) (2 ^ LENGTH('a) - 1)"
  for a b :: "'a :: len word"
  by (auto simp: saturating_add_def unat_plus_no_overflow unat_max)

lemma unat_less_max: "t \<noteq> - 1 \<Longrightarrow> unat t < 2 ^ LENGTH('a) - 1" for t :: "'a :: len word"
proof -
  assume "t \<noteq> - 1"
  then have "unat t \<noteq> 2 ^ LENGTH('a) - 1" by (metis unat_max word_unat_eq_iff)
  with unat_bound [of t] show ?thesis by linarith
qed

lemma saturating_add_gt: "t \<noteq> - 1 \<Longrightarrow> t < saturating_add a b \<longleftrightarrow> unat t < unat a + unat b"
  by (auto simp: word_less_nat_alt unat_saturating_add dest: unat_less_max)

lemma unat_saturating_sub: "unat (saturating_sub a b) = unat a - unat b"
  by (auto simp: saturating_sub_def word_le_nat_alt unat_sub)

section \<open>Numbers as text\<close>

text \<open>Decimal printing, and parsing as Rust's unsigned \<open>FromStr\<close> does it: an optional plus sign, at
  least one digit, only digits, and a value that fits.\<close>

definition digit_char :: "nat \<Rightarrow> char" where
  "digit_char d = char_of (48 + d)"

definition digit_value :: "char \<Rightarrow> nat" where
  "digit_value c = of_char c - 48"

fun show_nat :: "nat \<Rightarrow> string" where
  "show_nat n = (if n < 10 then [digit_char n] else show_nat (n div 10) @ [digit_char (n mod 10)])"

declare show_nat.simps [simp del]

definition parse_digits :: "string \<Rightarrow> nat" where
  "parse_digits s = foldl (\<lambda>acc c. 10 * acc + digit_value c) 0 s"

definition parse_unsigned :: "string \<Rightarrow> 'a :: len word option" where
  "parse_unsigned s =
     (let ds = (case s of c # r \<Rightarrow> if c = CHR ''+'' then r else s | [] \<Rightarrow> [])
      in if ds = [] \<or> \<not> list_all is_ascii_digit ds then None
         else if parse_digits ds < 2 ^ LENGTH('a) then Some (of_nat (parse_digits ds)) else None)"

lemma digit_char_simps:
  assumes "d < 10"
  shows "is_ascii_digit (digit_char d)" "digit_value (digit_char d) = d"
proof -
  have "of_char (digit_char d) = 48 + d" using assms by (simp add: digit_char_def)
  then show "digit_value (digit_char d) = d" by (simp add: digit_value_def)
  have "\<forall>d < 10. is_ascii_digit (digit_char d)" by code_simp
  with assms show "is_ascii_digit (digit_char d)" by blast
qed

lemma show_nat_digits: "list_all is_ascii_digit (show_nat n) \<and> show_nat n \<noteq> []"
proof (induction n rule: show_nat.induct)
  case (1 n)
  then show ?case by (simp add: show_nat.simps [of n] digit_char_simps)
qed

lemma parse_show_nat: "parse_digits (show_nat n) = n"
  by (induction n rule: show_nat.induct)
    (subst show_nat.simps, auto simp: parse_digits_def digit_char_simps)

lemma show_nat_no:
  assumes "\<not> is_ascii_digit c"
  shows "c \<notin> set (show_nat n)"
  using show_nat_digits [of n] assms by (auto simp: list_all_iff)

lemma parse_unsigned_show: "parse_unsigned (show_nat (unat (w :: 'a :: len word))) = Some w"
proof -
  have plus: "CHR ''+'' \<notin> set (show_nat (unat w))" by (rule show_nat_no) code_simp
  obtain c r where s: "show_nat (unat w) = c # r" "c \<noteq> CHR ''+''"
    using show_nat_digits [of "unat w"] plus by (cases "show_nat (unat w)") auto
  show ?thesis
    using s show_nat_digits [of "unat w"] parse_show_nat [of "unat w"] unat_bound [of w]
    by (auto simp: parse_unsigned_def Let_def)
qed

text \<open>Lower-case hexadecimal digits.\<close>

definition hex_digit :: "nat \<Rightarrow> char" where
  "hex_digit d = ''0123456789abcdef'' ! d"

lemma hex_digit_inject: "a < 16 \<Longrightarrow> b < 16 \<Longrightarrow> hex_digit a = hex_digit b \<Longrightarrow> a = b"
proof -
  have "distinct ''0123456789abcdef''" by simp
  then show "a < 16 \<Longrightarrow> b < 16 \<Longrightarrow> hex_digit a = hex_digit b \<Longrightarrow> a = b"
    by (simp add: hex_digit_def nth_eq_iff_index_eq)
qed

lemma hex_digit_in: "a < 16 \<Longrightarrow> hex_digit a \<in> set ''0123456789abcdef''"
  by (simp add: hex_digit_def nth_mem del: set_simps)

section \<open>Transition systems\<close>

text \<open>
  A component hands over its step relation, its start states and its invariant, and promises
  that the invariant holds at the start and across every step. What it gets back is the
  invariant on every reachable state.
\<close>

inductive reach_from :: "('s \<Rightarrow> bool) \<Rightarrow> ('s \<Rightarrow> 's \<Rightarrow> bool) \<Rightarrow> 's \<Rightarrow> bool"
  for start :: "'s \<Rightarrow> bool" and move :: "'s \<Rightarrow> 's \<Rightarrow> bool" where
  reach_start: "start s \<Longrightarrow> reach_from start move s"
| reach_move: "reach_from start move s \<Longrightarrow> move s t \<Longrightarrow> reach_from start move t"

lemma reach_to:
  "reach_from start move s \<Longrightarrow> move s t \<Longrightarrow> t = t' \<Longrightarrow> reach_from start move t'"
  using reach_move by metis

locale transition_system =
  fixes start :: "'s \<Rightarrow> bool"
    and move :: "'s \<Rightarrow> 's \<Rightarrow> bool"
    and good :: "'s \<Rightarrow> bool"
  assumes start_good: "start s \<Longrightarrow> good s"
    and move_good: "good s \<Longrightarrow> move s t \<Longrightarrow> good t"
begin

lemma reachable_good: "reach_from start move s \<Longrightarrow> good s"
  by (induction rule: reach_from.induct) (auto intro: start_good move_good)

lemma moves_good: "move\<^sup>*\<^sup>* s t \<Longrightarrow> good s \<Longrightarrow> good t"
  by (induction rule: rtranclp_induct) (auto intro: move_good)

end

end
