(* ===== verification/Shell_Scan.thy ===== *)
theory Shell_Scan
  imports Prelude
begin

text \<open>
  The quote-aware scanners of \<open>rch-common/src/patterns.rs\<close>: \<open>check_structure\<close> (Tier 1),
  \<open>has_file_redirect\<close>, \<open>find_first_structural_boundary\<close>, \<open>suffix_is_benign\<close> and the
  command splitters. Every scanner starts each iteration with the same few lines, which track the
  escape flag and the two quote flags; they are \<open>lex_step\<close> here. The byte index of the source
  is the position in the list still to be read, and \<open>bytes[i - 1]\<close> is carried along as \<open>prev\<close>.

  The specification is \<open>exposed_text\<close>: the characters of a command that stand outside every quote
  and are not escaped. The lemmas say what each scanner decides in terms of it.
\<close>

section \<open>Quote state\<close>

abbreviation single_quote :: char where "single_quote \<equiv> CHR 0x27"
abbreviation double_quote :: char where "double_quote \<equiv> CHR 0x22"
abbreviation backslash :: char where "backslash \<equiv> CHR 0x5C"
abbreviation backtick :: char where "backtick \<equiv> CHR 0x60"
abbreviation newline :: char where "newline \<equiv> CHR 0x0A"
abbreviation carriage_return :: char where "carriage_return \<equiv> CHR 0x0D"

record lex_state =
  in_single :: bool
  in_double :: bool
  escaped :: bool

definition lex_start :: lex_state where
  "lex_start = \<lparr>in_single = False, in_double = False, escaped = False\<rparr>"

text \<open>\<open>Some s\<close>: the byte only moved the quote state. \<open>None\<close>: it is exposed and the
  scanner looks at it.\<close>

definition lex_step :: "lex_state \<Rightarrow> char \<Rightarrow> lex_state option" where
  "lex_step s b =
     (if escaped s then Some (s\<lparr>escaped := False\<rparr>)
      else if b = backslash \<and> \<not> in_single s then Some (s\<lparr>escaped := True\<rparr>)
      else if b = single_quote \<and> \<not> in_double s then Some (s\<lparr>in_single := \<not> in_single s\<rparr>)
      else if b = double_quote \<and> \<not> in_single s then Some (s\<lparr>in_double := \<not> in_double s\<rparr>)
      else if in_single s \<or> in_double s then Some s
      else None)"

fun exposed_text :: "lex_state \<Rightarrow> string \<Rightarrow> string" where
  "exposed_text s [] = []"
| "exposed_text s (b # rest) =
     (case lex_step s b of Some s' \<Rightarrow> exposed_text s' rest | None \<Rightarrow> b # exposed_text s rest)"

definition exposed_chars :: "string \<Rightarrow> char set" where
  "exposed_chars cmd = set (exposed_text lex_start cmd)"

definition next_is :: "char \<Rightarrow> string \<Rightarrow> bool" where
  "next_is c rest \<longleftrightarrow> (case rest of [] \<Rightarrow> False | x # _ \<Rightarrow> x = c)"

definition next_is_digit :: "string \<Rightarrow> bool" where
  "next_is_digit rest \<longleftrightarrow> (case rest of [] \<Rightarrow> False | x # _ \<Rightarrow> is_ascii_digit x)"

section \<open>Tier 1: structure analysis\<close>

record structure_found =
  found_backgrounded :: bool
  found_piped :: bool
  found_subshell :: bool
  found_output_redirect :: bool
  found_input_redirect :: bool
  found_semicolon :: bool
  found_and_chain :: bool
  found_or_chain :: bool
  found_subshell_capture :: bool

definition nothing_found :: structure_found where
  "nothing_found =
     \<lparr>found_backgrounded = False, found_piped = False, found_subshell = False,
      found_output_redirect = False, found_input_redirect = False, found_semicolon = False,
      found_and_chain = False, found_or_chain = False, found_subshell_capture = False\<rparr>"

text \<open>The \<open>match b\<close> of the loop on an exposed byte: the updated flags and how many of the bytes
  after it are skipped.\<close>

definition structure_match :: "char \<Rightarrow> structure_found \<Rightarrow> char \<Rightarrow> string \<Rightarrow> structure_found \<times> nat" where
  "structure_match prev f b rest =
     (if b = CHR ''&'' then
        (if next_is (CHR ''&'') rest then (f\<lparr>found_and_chain := True\<rparr>, 1)
         else if prev \<noteq> CHR ''>'' \<and> \<not> next_is (CHR ''>'') rest
         then (f\<lparr>found_backgrounded := True\<rparr>, 0)
         else (f, 0))
      else if b = CHR ''|'' then
        (if next_is (CHR ''|'') rest then (f\<lparr>found_or_chain := True\<rparr>, 1)
         else (f\<lparr>found_piped := True\<rparr>, 0))
      else if b = CHR ''('' then (f\<lparr>found_subshell := True\<rparr>, 0)
      else if b = CHR ''>'' then
        (if next_is (CHR ''('') rest then (f\<lparr>found_subshell := True\<rparr>, 0)
         else if next_is (CHR ''&'') rest then (f, if next_is_digit (drop 1 rest) then 2 else 1)
         else if next_is (CHR ''>'') rest then (f\<lparr>found_output_redirect := True\<rparr>, 1)
         else (f\<lparr>found_output_redirect := True\<rparr>, 0))
      else if b = CHR ''<'' then
        (if next_is (CHR ''('') rest then (f\<lparr>found_subshell := True\<rparr>, 0)
         else (f\<lparr>found_input_redirect := True\<rparr>, 0))
      else if b = CHR '';'' then (f\<lparr>found_semicolon := True\<rparr>, 0)
      else if b = backtick then (f\<lparr>found_subshell_capture := True\<rparr>, 0)
      else if b = CHR ''$'' \<and> next_is (CHR ''('') rest then (f\<lparr>found_subshell_capture := True\<rparr>, 0)
      else (f, 0))"

text \<open>The byte before the one the loop continues at.\<close>

definition prev_after :: "char \<Rightarrow> nat \<Rightarrow> string \<Rightarrow> char" where
  "prev_after b k rest = (b # rest) ! k"

text \<open>\<open>None\<close> is the early return on an exposed line break.\<close>

fun check_structure_loop ::
  "lex_state \<Rightarrow> char \<Rightarrow> structure_found \<Rightarrow> string \<Rightarrow> structure_found option" where
  "check_structure_loop s prev f [] = Some f"
| "check_structure_loop s prev f (b # rest) =
     (case lex_step s b of
        Some s' \<Rightarrow> check_structure_loop s' b f rest
      | None \<Rightarrow>
          if b = newline \<or> b = carriage_return then None
          else
            check_structure_loop s (prev_after b (snd (structure_match prev f b rest)) rest)
              (fst (structure_match prev f b rest))
              (drop (snd (structure_match prev f b rest)) rest))"

definition structure_verdict :: "structure_found \<Rightarrow> string option" where
  "structure_verdict f =
     (if found_backgrounded f then Some ''backgrounded command''
      else if found_piped f \<and> \<not> found_or_chain f then Some ''piped command''
      else if found_subshell f then Some ''subshell execution''
      else if found_output_redirect f then Some ''output redirected''
      else if found_input_redirect f then Some ''input redirected''
      else if found_semicolon f then Some ''chained command (;)''
      else if found_and_chain f then Some ''chained command (&&)''
      else if found_or_chain f then Some ''chained command (||)''
      else if found_subshell_capture f then Some ''subshell capture''
      else None)"

definition check_structure :: "string \<Rightarrow> string option" where
  "check_structure cmd =
     (case check_structure_loop lex_start (CHR 0x00) nothing_found cmd of
        None \<Rightarrow> Some ''contains embedded newline''
      | Some f \<Rightarrow> structure_verdict f)"

section \<open>File redirects\<close>

fun has_file_redirect_loop :: "lex_state \<Rightarrow> string \<Rightarrow> bool" where
  "has_file_redirect_loop s [] = False"
| "has_file_redirect_loop s (b # rest) =
     (case lex_step s b of
        Some s' \<Rightarrow> has_file_redirect_loop s' rest
      | None \<Rightarrow>
          if b = CHR ''>'' then
            (if next_is (CHR ''&'') rest
             then has_file_redirect_loop s (drop (if next_is_digit (drop 1 rest) then 2 else 1) rest)
             else if next_is (CHR ''('') rest then has_file_redirect_loop s rest
             else True)
          else if b = CHR ''<'' then
            (if next_is (CHR ''('') rest then has_file_redirect_loop s rest else True)
          else has_file_redirect_loop s rest)"

definition has_file_redirect :: "string \<Rightarrow> bool" where
  "has_file_redirect cmd = has_file_redirect_loop lex_start cmd"

section \<open>The first structural boundary and benign suffixes\<close>

datatype boundary_kind = Pipe | Background | OutputRedirect | InputRedirect

record structural_boundary =
  byte_pos :: nat
  bkind :: boundary_kind

fun find_boundary_loop ::
  "lex_state \<Rightarrow> nat \<Rightarrow> char \<Rightarrow> string \<Rightarrow> structural_boundary option" where
  "find_boundary_loop s i prev [] = None"
| "find_boundary_loop s i prev (b # rest) =
     (case lex_step s b of
        Some s' \<Rightarrow> find_boundary_loop s' (Suc i) b rest
      | None \<Rightarrow>
          if b = CHR ''|'' then
            (if next_is (CHR ''|'') rest then None else Some \<lparr>byte_pos = i, bkind = Pipe\<rparr>)
          else if b = CHR ''&'' then
            (if next_is (CHR ''&'') rest then None
             else if prev = CHR ''>'' then find_boundary_loop s (Suc i) b rest
             else Some \<lparr>byte_pos = i, bkind = Background\<rparr>)
          else if b = CHR ''>'' then
            (if next_is (CHR ''&'') rest then
               (let k = (if next_is_digit (drop 1 rest) then 2 else 1)
                in find_boundary_loop s (Suc i + k) (prev_after b k rest) (drop k rest))
             else if next_is (CHR ''('') rest then None
             else Some \<lparr>byte_pos = i, bkind = OutputRedirect\<rparr>)
          else if b = CHR ''<'' then
            (if next_is (CHR ''('') rest then None
             else Some \<lparr>byte_pos = i, bkind = InputRedirect\<rparr>)
          else find_boundary_loop s (Suc i) b rest)"

definition find_first_structural_boundary :: "string \<Rightarrow> structural_boundary option" where
  "find_first_structural_boundary cmd = find_boundary_loop lex_start 0 (CHR 0x00) cmd"

text \<open>The loop re-enters the boundary search just past each benign output redirect.\<close>

function suffix_has_disallowed_followup :: "string \<Rightarrow> bool" where
  "suffix_has_disallowed_followup rest =
     (case find_first_structural_boundary rest of
        None \<Rightarrow> False
      | Some b \<Rightarrow>
          if bkind b = Pipe \<or> bkind b = Background \<or> bkind b = InputRedirect then True
          else if Suc (byte_pos b) \<ge> length rest then False
          else suffix_has_disallowed_followup (drop (Suc (byte_pos b)) rest))"
  by pat_completeness auto
termination
  by (relation "measure length") auto

declare suffix_has_disallowed_followup.simps [simp del]

definition BENIGN_PAGER_COMMANDS :: "string list" where
  "BENIGN_PAGER_COMMANDS =
     [''tee'', ''head'', ''cat'', ''grep'', ''less'', ''more'', ''tail'', ''wc'', ''rg'']"

definition suffix_is_benign :: "boundary_kind \<Rightarrow> string \<Rightarrow> bool" where
  "suffix_is_benign k sfx =
     (case k of
        InputRedirect \<Rightarrow> False
      | Background \<Rightarrow> trim (dropWhile (\<lambda>c. c = CHR ''&'') sfx) = []
      | OutputRedirect \<Rightarrow> \<not> suffix_has_disallowed_followup sfx
      | Pipe \<Rightarrow>
          (let rhs = trim (dropWhile (\<lambda>c. c = CHR ''|'') sfx)
           in if rhs = [] then False
              else
                let rhs_cmd = (case split_whitespace rhs of [] \<Rightarrow> [] | w # _ \<Rightarrow> w)
                in if basename rhs_cmd \<notin> set BENIGN_PAGER_COMMANDS then False
                   else \<not> suffix_has_disallowed_followup rhs))"

section \<open>Splitters\<close>

text \<open>\<open>cur\<close> is \<open>cmd[current_start..i]\<close>, reversed; \<open>segs\<close> the segments pushed so far, reversed.\<close>

definition push_segment :: "string \<Rightarrow> string list \<Rightarrow> string list" where
  "push_segment cur segs = (let t = trim (rev cur) in if t = [] then segs else t # segs)"

fun split_and_loop :: "lex_state \<Rightarrow> string \<Rightarrow> string list \<Rightarrow> string \<Rightarrow> string list" where
  "split_and_loop s cur segs [] = rev (push_segment cur segs)"
| "split_and_loop s cur segs (b # rest) =
     (case lex_step s b of
        Some s' \<Rightarrow> split_and_loop s' (b # cur) segs rest
      | None \<Rightarrow>
          if b = CHR ''&'' \<and> next_is (CHR ''&'') rest
          then split_and_loop s [] (push_segment cur segs) (drop 1 rest)
          else split_and_loop s (b # cur) segs rest)"

definition split_and_chain :: "string \<Rightarrow> string list option" where
  "split_and_chain cmd =
     (if \<not> contains_str cmd ''&&'' then None
      else
        let segments = split_and_loop lex_start [] [] cmd
        in if length segments > 1 then Some segments else None)"

fun split_multi_loop :: "lex_state \<Rightarrow> string \<Rightarrow> string list \<Rightarrow> string \<Rightarrow> string list" where
  "split_multi_loop s cur segs [] = rev (push_segment cur segs)"
| "split_multi_loop s cur segs (b # rest) =
     (case lex_step s b of
        Some s' \<Rightarrow> split_multi_loop s' (b # cur) segs rest
      | None \<Rightarrow>
          if b = CHR '';'' then split_multi_loop s [] (push_segment cur segs) rest
          else if b = CHR ''&'' \<and> next_is (CHR ''&'') rest
          then split_multi_loop s [] (push_segment cur segs) (drop 1 rest)
          else if b = CHR ''|'' \<and> next_is (CHR ''|'') rest
          then split_multi_loop s [] (push_segment cur segs) (drop 1 rest)
          else split_multi_loop s (b # cur) segs rest)"

definition split_multi_command :: "string \<Rightarrow> string list option" where
  "split_multi_command cmd =
     (if \<not> contains_str cmd ''&&'' \<and> \<not> contains_str cmd ''||'' \<and> \<not> contains_str cmd '';''
      then None
      else
        let segments = split_multi_loop lex_start [] [] cmd
        in if length segments > 1 then Some segments else None)"

text \<open>\<open>split_shell_commands\<close> also treats backticks as a quote.\<close>

fun split_shell_loop ::
  "bool \<Rightarrow> bool \<Rightarrow> bool \<Rightarrow> bool \<Rightarrow> string \<Rightarrow> string list \<Rightarrow> string \<Rightarrow> string list" where
  "split_shell_loop sgl dbl tick esc cur segs [] = rev (push_segment cur segs)"
| "split_shell_loop sgl dbl tick esc cur segs (b # rest) =
     (if esc then split_shell_loop sgl dbl tick False (b # cur) segs rest
      else if b = backslash \<and> \<not> sgl then split_shell_loop sgl dbl tick True (b # cur) segs rest
      else if \<not> dbl \<and> \<not> tick \<and> b = single_quote
      then split_shell_loop (\<not> sgl) dbl tick False (b # cur) segs rest
      else if \<not> sgl \<and> \<not> tick \<and> b = double_quote
      then split_shell_loop sgl (\<not> dbl) tick False (b # cur) segs rest
      else if \<not> sgl \<and> \<not> dbl \<and> b = backtick
      then split_shell_loop sgl dbl (\<not> tick) False (b # cur) segs rest
      else if sgl \<or> dbl \<or> tick then split_shell_loop sgl dbl tick False (b # cur) segs rest
      else if b = CHR ''&'' \<and> next_is (CHR ''&'') rest
      then split_shell_loop sgl dbl tick False [] (push_segment cur segs) (drop 1 rest)
      else if b = CHR ''|'' \<and> next_is (CHR ''|'') rest
      then split_shell_loop sgl dbl tick False [] (push_segment cur segs) (drop 1 rest)
      else if b = CHR '';''
      then split_shell_loop sgl dbl tick False [] (push_segment cur segs) rest
      else split_shell_loop sgl dbl tick False (b # cur) segs rest)"

definition split_shell_commands :: "string \<Rightarrow> string list" where
  "split_shell_commands cmd = split_shell_loop False False False False [] [] cmd"

section \<open>Facts about the quote state\<close>

lemma lex_step_None:
  "lex_step s b = None \<Longrightarrow>
     s = lex_start \<and> b \<noteq> backslash \<and> b \<noteq> single_quote \<and> b \<noteq> double_quote"
  by (cases s) (auto simp: lex_step_def lex_start_def split: if_splits)

lemma lex_step_start:
  "lex_step lex_start b = None \<longleftrightarrow> b \<noteq> backslash \<and> b \<noteq> single_quote \<and> b \<noteq> double_quote"
  by (auto simp: lex_step_def lex_start_def)

lemma exposed_text_subset: "set (exposed_text s cmd) \<subseteq> set cmd"
  by (induction s cmd rule: exposed_text.induct) (auto split: option.splits)

lemma lex_step_plain [simp]:
  "b \<noteq> backslash \<Longrightarrow> b \<noteq> single_quote \<Longrightarrow> b \<noteq> double_quote \<Longrightarrow> lex_step lex_start b = None"
  by (simp add: lex_step_start)

lemma next_is_Cons: "next_is c rest \<longleftrightarrow> (\<exists>r. rest = c # r)"
  by (cases rest) (auto simp: next_is_def)

lemma next_is_digit_Cons: "next_is_digit rest \<longleftrightarrow> (\<exists>x r. rest = x # r \<and> is_ascii_digit x)"
  by (cases rest) (auto simp: next_is_digit_def)

lemma digit_not_quote:
  "is_ascii_digit x \<Longrightarrow> x \<noteq> backslash \<and> x \<noteq> single_quote \<and> x \<noteq> double_quote"
  by (auto simp: is_ascii_digit_def)

lemma next_is_distinct: "next_is c rest \<Longrightarrow> c \<noteq> d \<Longrightarrow> \<not> next_is d rest"
  by (auto simp: next_is_Cons)

text \<open>Skipping the target of \<open>N>&M\<close> drops exposed characters only.\<close>

lemma exposed_text_skip_dup:
  assumes "next_is (CHR ''&'') rest"
  shows "set (exposed_text lex_start rest) \<subseteq>
           {CHR ''&''} \<union> {x. is_ascii_digit x}
             \<union> set (exposed_text lex_start (drop (if next_is_digit (drop 1 rest) then 2 else 1) rest))"
proof -
  from assms obtain r where r: "rest = CHR ''&'' # r" by (auto simp: next_is_Cons)
  show ?thesis
  proof (cases "next_is_digit r")
    case True
    then obtain x r' where "r = x # r'" and "is_ascii_digit x" by (auto simp: next_is_digit_Cons)
    with r True show ?thesis using digit_not_quote [of x] by auto
  next
    case False
    with r show ?thesis by auto
  qed
qed

section \<open>What Tier 1 guarantees\<close>

lemma structure_verdict_None: "structure_verdict f = None \<longleftrightarrow> f = nothing_found"
  by (cases f) (auto simp: structure_verdict_def nothing_found_def)

lemma structure_match_mono:
  "fst (structure_match prev f b rest) = nothing_found \<Longrightarrow> f = nothing_found"
  by (cases f) (auto simp: structure_match_def nothing_found_def split: if_splits)

lemma check_structure_loop_mono:
  "check_structure_loop s prev f cmd = Some nothing_found \<Longrightarrow> f = nothing_found"
  by (induction s prev f cmd rule: check_structure_loop.induct)
    (auto split: option.splits if_splits dest: structure_match_mono)

text \<open>The characters an accepted command never exposes.\<close>

definition shell_operators :: "char set" where
  "shell_operators = {CHR ''|'', CHR '';'', CHR ''('', CHR ''<'', backtick, newline, carriage_return}"

lemma structure_match_nothing:
  assumes "fst (structure_match prev nothing_found b rest) = nothing_found"
    and "b \<noteq> newline" and "b \<noteq> carriage_return"
  shows "b \<notin> shell_operators"
    and "b = CHR ''>'' \<Longrightarrow> next_is (CHR ''&'') rest"
    and "snd (structure_match prev nothing_found b rest) =
           (if b = CHR ''>'' then if next_is_digit (drop 1 rest) then 2 else 1 else 0)"
  using assms
  by (auto simp: structure_match_def nothing_found_def shell_operators_def split: if_splits)

lemma check_structure_loop_sound:
  assumes "check_structure_loop s prev f cmd = Some nothing_found"
  shows "set (exposed_text s cmd) \<inter> shell_operators = {} \<and> \<not> has_file_redirect_loop s cmd"
  using assms
proof (induction s prev f cmd rule: check_structure_loop.induct)
  case (1 s prev f)
  then show ?case by simp
next
  case (2 s prev f b rest)
  show ?case
  proof (cases "lex_step s b")
    case (Some s')
    with 2 show ?thesis by simp
  next
    case None
    let ?m = "structure_match prev f b rest"
    have s: "s = lex_start" using lex_step_None [OF None] by simp
    have b: "b \<noteq> newline" "b \<noteq> carriage_return" and
      loop: "check_structure_loop s (prev_after b (snd ?m) rest) (fst ?m) (drop (snd ?m) rest)
               = Some nothing_found"
      using "2.prems" None by (auto split: if_splits)
    have m: "fst ?m = nothing_found" using check_structure_loop_mono [OF loop] .
    have f: "f = nothing_found" using structure_match_mono [OF m] .
    note facts = structure_match_nothing [OF m [unfolded f] b]
    have ih: "set (exposed_text s (drop (snd ?m) rest)) \<inter> shell_operators = {}
                \<and> \<not> has_file_redirect_loop s (drop (snd ?m) rest)"
      using "2.IH"(1) [OF None _ loop] b by simp
    show ?thesis
    proof (cases "b = CHR ''>''")
      case True
      have dup: "next_is (CHR ''&'') rest" using facts(2) [OF True] .
      have "set (exposed_text s rest) \<inter> shell_operators = {}"
        using exposed_text_skip_dup [OF dup] ih facts(3) True f s
        by (auto simp: shell_operators_def is_ascii_digit_def split: if_splits)
      with True None dup ih facts(1,3) f show ?thesis by (auto split: if_splits)
    next
      case False
      with ih facts f None show ?thesis by (auto simp: shell_operators_def)
    qed
  qed
qed

lemma check_structure_sound:
  assumes "check_structure cmd = None"
  shows "exposed_chars cmd \<inter> shell_operators = {}" and "\<not> has_file_redirect cmd"
proof -
  have "check_structure_loop lex_start (CHR 0x00) nothing_found cmd = Some nothing_found"
    using assms by (auto simp: check_structure_def structure_verdict_None split: option.splits)
  from check_structure_loop_sound [OF this]
  show "exposed_chars cmd \<inter> shell_operators = {}" "\<not> has_file_redirect cmd"
    by (auto simp: exposed_chars_def has_file_redirect_def)
qed

section \<open>The boundary search\<close>

text \<open>A boundary lies inside the command, and what precedes it exposes neither a pipe nor an
  input redirect. The guards are the ones the caller checks before it searches.\<close>

definition boundary_guard :: "string \<Rightarrow> bool" where
  "boundary_guard cmd \<longleftrightarrow> \<not> contains_str cmd ''||'' \<and> \<not> contains_str cmd ''&&'' \<and> CHR ''('' \<notin> set cmd"

lemma boundary_guard_Cons:
  "boundary_guard (b # rest) \<Longrightarrow>
     boundary_guard rest \<and> b \<noteq> CHR ''('' \<and> \<not> next_is (CHR ''('') rest \<and>
     (b = CHR ''|'' \<longrightarrow> \<not> next_is (CHR ''|'') rest) \<and> (b = CHR ''&'' \<longrightarrow> \<not> next_is (CHR ''&'') rest)"
  by (cases rest) (auto simp: boundary_guard_def next_is_def starts_with_def)

lemma boundary_guard_drop: "boundary_guard cmd \<Longrightarrow> boundary_guard (drop n cmd)"
proof (induction n arbitrary: cmd)
  case 0
  then show ?case by simp
next
  case (Suc n)
  then show ?case by (cases cmd) (auto dest: boundary_guard_Cons)
qed

lemma find_boundary_None:
  assumes "find_boundary_loop s i prev cmd = None" and "boundary_guard cmd"
  shows "set (exposed_text s cmd) \<inter> {CHR ''|'', CHR ''<''} = {}"
  using assms
proof (induction s i prev cmd rule: find_boundary_loop.induct)
  case (1 s i prev)
  then show ?case by simp
next
  case (2 s i prev b rest)
  note g = boundary_guard_Cons [OF "2.prems"(2)]
  show ?case
  proof (cases "lex_step s b")
    case (Some s')
    with 2 g show ?thesis by simp
  next
    case None
    have s: "s = lex_start" using lex_step_None [OF None] by simp
    show ?thesis
    proof (cases "b = CHR ''>'' \<and> next_is (CHR ''&'') rest")
      case True
      let ?k = "if next_is_digit (drop 1 rest) then 2 else 1 :: nat"
      have "set (exposed_text s (drop ?k rest)) \<inter> {CHR ''|'', CHR ''<''} = {}"
        using "2.IH"(2) [OF None _ _ _ _ refl] "2.prems"(1) None True g boundary_guard_drop [of rest ?k]
        by (simp add: Let_def)
      then show ?thesis using exposed_text_skip_dup [of rest] True None s
        by (auto simp: is_ascii_digit_def split: if_splits)
    next
      case False
      then show ?thesis using 2 None g by (auto split: if_splits)
    qed
  qed
qed

definition boundary_char :: "boundary_kind \<Rightarrow> char" where
  "boundary_char k =
     (case k of Pipe \<Rightarrow> CHR ''|'' | Background \<Rightarrow> CHR ''&'' | OutputRedirect \<Rightarrow> CHR ''>''
        | InputRedirect \<Rightarrow> CHR ''<'')"

definition boundary_at :: "lex_state \<Rightarrow> nat \<Rightarrow> string \<Rightarrow> structural_boundary \<Rightarrow> bool" where
  "boundary_at s i cmd b \<longleftrightarrow>
     i \<le> byte_pos b \<and> byte_pos b < i + length cmd
     \<and> cmd ! (byte_pos b - i) = boundary_char (bkind b)
     \<and> set (exposed_text s cmd) \<subseteq>
         - {CHR ''|'', CHR ''<''} \<union> {boundary_char (bkind b)}
           \<union> set (exposed_text lex_start (drop (Suc (byte_pos b - i)) cmd))"

lemma boundary_at_shift:
  assumes "set (exposed_text s (c # rest)) \<subseteq> - {CHR ''|'', CHR ''<''} \<union> set (exposed_text s' (drop k rest))"
    and "boundary_at s' (Suc i + k) (drop k rest) b"
  shows "boundary_at s i (c # rest) b"
proof -
  obtain n where n: "byte_pos b = Suc i + k + n" "k + n < length rest"
    using assms(2) by (auto simp: boundary_at_def dest: le_Suc_ex)
  then have "drop (Suc (byte_pos b - i)) (c # rest) = drop (Suc n) (drop k rest)"
    by (simp add: add.commute)
  with assms n show ?thesis by (auto simp: boundary_at_def)
qed

lemma find_boundary_Some:
  "find_boundary_loop s i prev cmd = Some b \<Longrightarrow> boundary_at s i cmd b"
proof (induction s i prev cmd rule: find_boundary_loop.induct)
  case (1 s i prev)
  then show ?case by simp
next
  case (2 s i prev c rest)
  show ?case
  proof (cases "lex_step s c")
    case (Some s')
    then show ?thesis
      using boundary_at_shift [of s c rest s' 0] "2.IH"(4) [OF Some] "2.prems" by auto
  next
    case None
    have s: "s = lex_start" using lex_step_None [OF None] by simp
    consider "c = CHR ''>'' \<and> next_is (CHR ''&'') rest" | "c = CHR ''|'' \<or> c = CHR ''<''"
      | "c = CHR ''>'' \<and> \<not> next_is (CHR ''&'') rest" | "c \<notin> {CHR ''|'', CHR ''<'', CHR ''>''}"
      by blast
    then show ?thesis
    proof cases
      case 1
      let ?k = "if next_is_digit (drop 1 rest) then 2 else 1 :: nat"
      show ?thesis
      proof (rule boundary_at_shift [of s c rest s ?k])
        show "set (exposed_text s (c # rest)) \<subseteq>
          - {CHR ''|'', CHR ''<''} \<union> set (exposed_text s (drop ?k rest))"
          using exposed_text_skip_dup [of rest] 1 None s by (auto simp: is_ascii_digit_def)
      qed (use "2.IH"(2) [OF None _ _ _ _ refl] "2.prems" None 1 in \<open>simp add: Let_def\<close>)
    next
      case 4
      then show ?thesis
        using "2.IH"(1,3) [OF None] "2.prems" None s boundary_at_shift [of s c rest s 0]
        by (auto simp: boundary_at_def boundary_char_def split: if_splits)
    qed (use "2.prems" None s in \<open>auto simp: boundary_at_def boundary_char_def split: if_splits\<close>)
  qed
qed

lemma find_first_structural_boundary_Some:
  "find_first_structural_boundary cmd = Some b \<Longrightarrow> byte_pos b < length cmd"
  unfolding find_first_structural_boundary_def
  by (drule find_boundary_Some) (simp add: boundary_at_def)

text \<open>A suffix that passes the follow-up check exposes no pipe and no input redirect at all.\<close>

lemma suffix_has_disallowed_followup_sound:
  "\<not> suffix_has_disallowed_followup sfx \<Longrightarrow> boundary_guard sfx \<Longrightarrow>
     exposed_chars sfx \<inter> {CHR ''|'', CHR ''<''} = {}"
proof (induction sfx rule: suffix_has_disallowed_followup.induct)
  case (1 rest)
  show ?case
  proof (cases "find_first_structural_boundary rest")
    case None
    with "1.prems"(2) show ?thesis
      unfolding find_first_structural_boundary_def exposed_chars_def by (intro find_boundary_None)
  next
    case (Some b)
    have at: "boundary_at lex_start 0 rest b"
      using Some find_boundary_Some by (simp add: find_first_structural_boundary_def)
    have kind: "bkind b = OutputRedirect"
      using "1.prems"(1) Some
      by (cases "bkind b") (simp_all add: suffix_has_disallowed_followup.simps [of rest])
    show ?thesis
    proof (cases "Suc (byte_pos b) \<ge> length rest")
      case True
      with at kind show ?thesis by (auto simp: boundary_at_def boundary_char_def exposed_chars_def)
    next
      case False
      with "1.prems"(1) Some kind
      have "\<not> suffix_has_disallowed_followup (drop (Suc (byte_pos b)) rest)"
        by (simp add: suffix_has_disallowed_followup.simps [of rest])
      then have "exposed_chars (drop (Suc (byte_pos b)) rest) \<inter> {CHR ''|'', CHR ''<''} = {}"
        using "1.IH" [OF Some] kind False "1.prems"(2) boundary_guard_drop by auto
      with at kind show ?thesis by (auto simp: boundary_at_def boundary_char_def exposed_chars_def)
    qed
  qed
qed

section \<open>The splitters\<close>

lemma trim_decomp: "\<exists>a b. s = a @ trim s @ b \<and> set a \<subseteq> Collect is_whitespace \<and> set b \<subseteq> Collect is_whitespace"
proof -
  have "s = takeWhile is_whitespace s @ trim_start s" by (simp add: trim_start_def)
  moreover have "trim_start s = trim s @ rev (takeWhile is_whitespace (rev (trim_start s)))"
    unfolding trim_def trim_end_def
    by (metis rev_append rev_rev_ident takeWhile_dropWhile_id)
  ultimately have "s = takeWhile is_whitespace s @ trim s @ rev (takeWhile is_whitespace (rev (trim_start s)))"
    by simp
  moreover have "set (takeWhile is_whitespace s) \<subseteq> Collect is_whitespace"
    "set (rev (takeWhile is_whitespace (rev (trim_start s)))) \<subseteq> Collect is_whitespace"
    by (auto dest: set_takeWhileD)
  ultimately show ?thesis by blast
qed

text \<open>\<open>tail_is\<close>: a segment ends the text, up to white space and ampersands.\<close>

definition tail_is :: "string \<Rightarrow> string \<Rightarrow> bool" where
  "tail_is seg t \<longleftrightarrow> (\<exists>a b. t = a @ seg @ b \<and> set b \<subseteq> Collect is_whitespace \<union> {CHR ''&''})"

lemma tail_is_append:
  "tail_is seg t \<Longrightarrow> set u \<subseteq> Collect is_whitespace \<union> {CHR ''&''} \<Longrightarrow> tail_is seg (t @ u)"
proof -
  assume "tail_is seg t" and u: "set u \<subseteq> Collect is_whitespace \<union> {CHR ''&''}"
  then obtain a b where "t @ u = a @ seg @ (b @ u)"
      and "set b \<subseteq> Collect is_whitespace \<union> {CHR ''&''}"
    by (auto simp: tail_is_def)
  with u show ?thesis unfolding tail_is_def by (intro exI [of _ a] exI [of _ "b @ u"]) auto
qed

lemma push_segment_tail:
  assumes "segs = [] \<or> tail_is (hd segs) d"
  shows "push_segment cur segs = [] \<or> tail_is (hd (push_segment cur segs)) (d @ rev cur)"
proof -
  obtain a b where ab: "rev cur = a @ trim (rev cur) @ b"
    "set a \<subseteq> Collect is_whitespace" "set b \<subseteq> Collect is_whitespace"
    using trim_decomp by blast
  show ?thesis
  proof (cases "trim (rev cur) = []")
    case True
    with ab have "set (rev cur) \<subseteq> Collect is_whitespace \<union> {CHR ''&''}" by auto
    then have "tail_is (hd segs) d \<Longrightarrow> tail_is (hd segs) (d @ rev cur)" by (rule tail_is_append [rotated])
    with assms True show ?thesis by (auto simp: push_segment_def)
  next
    case False
    have "d @ rev cur = (d @ a) @ trim (rev cur) @ b" using ab(1) by simp
    then have "tail_is (trim (rev cur)) (d @ rev cur)"
      using ab(3) unfolding tail_is_def by blast
    with False show ?thesis by (simp add: push_segment_def Let_def)
  qed
qed

lemma split_and_loop_last:
  assumes "segs = [] \<or> tail_is (hd segs) d"
  shows "split_and_loop s cur segs cmd = [] \<or>
           tail_is (last (split_and_loop s cur segs cmd)) (d @ rev cur @ cmd)"
  using assms
proof (induction s cur segs cmd arbitrary: d rule: split_and_loop.induct)
  case (1 s cur segs)
  then show ?case using push_segment_tail [of segs d cur] by (auto simp: last_rev)
next
  case (2 s cur segs b rest)
  show ?case
  proof (cases "lex_step s b")
    case (Some s')
    with "2.IH"(3) [OF Some "2.prems"] show ?thesis by simp
  next
    case None
    show ?thesis
    proof (cases "b = CHR ''&'' \<and> next_is (CHR ''&'') rest")
      case True
      then obtain r where r: "rest = CHR ''&'' # r" by (auto simp: next_is_Cons)
      have "push_segment cur segs = [] \<or>
          tail_is (hd (push_segment cur segs)) ((d @ rev cur) @ ''&&'')"
        using push_segment_tail [OF "2.prems", of cur]
          tail_is_append [of "hd (push_segment cur segs)" "d @ rev cur" "''&&''"] by auto
      from "2.IH"(1) [OF None True this] None True r show ?thesis by simp
    next
      case False
      with "2.IH"(2) [OF None False "2.prems"] None show ?thesis by auto
    qed
  qed
qed

lemma split_and_chain_last:
  assumes "split_and_chain cmd = Some segments"
  shows "segments \<noteq> [] \<and> length segments > 1 \<and> tail_is (last segments) cmd"
  using assms split_and_loop_last [of "[]" "[]" lex_start "[]" cmd]
  by (auto simp: split_and_chain_def Let_def split: if_splits)

text \<open>Without backticks the two general splitters see the same segments.\<close>

lemma split_shell_loop_eq:
  assumes "backtick \<notin> set cmd"
  shows "split_shell_loop sgl dbl False esc cur segs cmd =
           split_multi_loop \<lparr>in_single = sgl, in_double = dbl, escaped = esc\<rparr> cur segs cmd"
  using assms
proof (induction cmd arbitrary: sgl dbl esc cur segs rule: length_induct)
  case (1 cmd)
  show ?case
  proof (cases cmd)
    case Nil
    then show ?thesis by simp
  next
    case (Cons b rest)
    have ih: "split_shell_loop g d False e c t (drop n rest) =
        split_multi_loop \<lparr>in_single = g, in_double = d, escaped = e\<rparr> c t (drop n rest)" for g d e c t n
    proof -
      have "length (drop n rest) < length cmd" using Cons by simp
      moreover have "backtick \<notin> set (drop n rest)" using Cons "1.prems" by (auto dest: in_set_dropD)
      ultimately show ?thesis using "1.IH" by blast
    qed
    from ih [of _ _ _ _ _ 0] ih [of _ _ _ _ _ 1] Cons "1.prems"
    show ?thesis by (auto simp: lex_step_def)
  qed
qed

lemma split_multi_loop_plain:
  assumes "\<not> sublist ''&&'' cmd" "\<not> sublist ''||'' cmd" "CHR '';'' \<notin> set cmd"
  shows "split_multi_loop s cur segs cmd = rev (push_segment (rev cmd @ cur) segs)"
  using assms
proof (induction cmd arbitrary: s cur)
  case Nil
  then show ?case by simp
next
  case (Cons b rest)
  then have "\<not> (b = CHR ''&'' \<and> next_is (CHR ''&'') rest)" "\<not> (b = CHR ''|'' \<and> next_is (CHR ''|'') rest)"
    by (auto simp: next_is_Cons sublist_Cons_right)
  with Cons show ?case by (auto simp: sublist_Cons_right split: option.splits)
qed

lemma push_segment_length: "length (push_segment cur segs) \<le> Suc (length segs)"
  by (simp add: push_segment_def Let_def)

lemma split_multi_command_eq:
  assumes "backtick \<notin> set cmd"
  shows "split_multi_command cmd =
           (if length (split_shell_commands cmd) > 1 then Some (split_shell_commands cmd) else None)"
proof -
  have loops: "split_shell_commands cmd = split_multi_loop lex_start [] [] cmd"
    using split_shell_loop_eq [OF assms] by (simp add: split_shell_commands_def lex_start_def)
  show ?thesis
  proof (cases "\<not> contains_str cmd ''&&'' \<and> \<not> contains_str cmd ''||'' \<and> \<not> contains_str cmd '';''")
    case True
    then have "split_shell_commands cmd = rev (push_segment (rev cmd) [])"
      unfolding loops by (subst split_multi_loop_plain) (auto simp: str_simps)
    then have "\<not> length (split_shell_commands cmd) > 1"
      using push_segment_length [of "rev cmd" "[]"] by simp
    with True show ?thesis by (simp add: split_multi_command_def)
  next
    case False
    then show ?thesis by (auto simp: split_multi_command_def loops Let_def)
  qed
qed

text \<open>Every segment is a trimmed, nonempty slice of the command.\<close>

definition proper_segment :: "string \<Rightarrow> string \<Rightarrow> bool" where
  "proper_segment cmd t \<longleftrightarrow> t \<noteq> [] \<and> trim t = t \<and> sublist t cmd"

lemma push_segment_proper:
  assumes "\<forall>t \<in> set segs. proper_segment cmd t" and "sublist (rev cur) cmd"
  shows "\<forall>t \<in> set (push_segment cur segs). proper_segment cmd t"
  using assms sublist_trim [of "rev cur"]
  by (auto simp: push_segment_def proper_segment_def Let_def intro: sublist_order.order_trans)

lemma split_shell_loop_proper:
  assumes "cmd = d @ rev cur @ rest" and "\<forall>t \<in> set segs. proper_segment cmd t"
  shows "\<forall>t \<in> set (split_shell_loop sgl dbl tick esc cur segs rest). proper_segment cmd t"
  using assms
proof (induction rest arbitrary: sgl dbl tick esc cur segs d rule: length_induct)
  case (1 rest)
  have push: "\<forall>t \<in> set (push_segment cur segs). proper_segment cmd t"
    using "1.prems" by (intro push_segment_proper) auto
  show ?case
  proof (cases rest)
    case Nil
    with push show ?thesis by simp
  next
    case (Cons b r)
    have keep: "\<forall>t \<in> set (split_shell_loop g e k x (b # cur) segs r). proper_segment cmd t" for g e k x
    proof -
      have "cmd = d @ rev (b # cur) @ r" "length r < length rest"
        using "1.prems"(1) Cons by simp_all
      then show ?thesis using "1.IH" "1.prems"(2) by metis
    qed
    have cut: "\<forall>t \<in> set (split_shell_loop g e k x [] (push_segment cur segs) (drop n r)). proper_segment cmd t"
      for g e k x n
    proof -
      have "cmd = (d @ rev cur @ b # take n r) @ rev [] @ drop n r"
        using "1.prems"(1) Cons by simp
      then show ?thesis using "1.IH" push Cons by (metis (no_types, lifting) length_Cons
            length_drop less_Suc_eq_le diff_le_self)
    qed
    show ?thesis using keep cut [of _ _ _ _ 0] cut [of _ _ _ _ 1] Cons by auto
  qed
qed

lemma split_shell_commands_proper:
  "t \<in> set (split_shell_commands cmd) \<Longrightarrow> proper_segment cmd t"
  using split_shell_loop_proper [of cmd "[]" "[]" cmd "[]"] by (auto simp: split_shell_commands_def)

end
