(* ===== verification/Normalize.thy ===== *)
theory Normalize
  imports Shell_Scan
begin

text \<open>
  \<open>normalize_command\<close> of \<open>rch-common/src/patterns.rs\<close>: wrappers (\<open>sudo\<close>, \<open>env\<close>, \<open>timeout\<close>,
  \<dots>) with their flags, leading \<open>VAR=value\<close> assignments and an absolute path on the command word
  are stripped until nothing changes. The loop is a \<open>function\<close> whose termination proof is that
  every pass that reports a change shortens the text; \<open>normalize_command_fixed\<close> says what a
  normal form looks like.
\<close>

section \<open>One pass\<close>

definition wrapper_flag_takes_value :: "string \<Rightarrow> string \<Rightarrow> bool" where
  "wrapper_flag_takes_value wrapper flag =
     (if wrapper = ''env'' then flag \<in> set [''-u'', ''--unset'']
      else if wrapper = ''nice'' then flag \<in> set [''-n'', ''--adjustment'']
      else if wrapper = ''ionice''
      then flag \<in> set [''-c'', ''--class'', ''-n'', ''--classdata'', ''-p'', ''--pid'']
      else if wrapper = ''taskset'' then flag \<in> set [''-c'', ''--cpu-list'', ''-p'', ''--pid'']
      else if wrapper = ''chrt'' then flag \<in> set [''-p'', ''--pid'']
      else if wrapper = ''timeout'' then flag \<in> set [''-s'', ''--signal'', ''-k'', ''--kill-after'']
      else False)"

definition looks_like_duration_or_priority :: "string \<Rightarrow> bool" where
  "looks_like_duration_or_priority token =
     (case token of [] \<Rightarrow> False | c # _ \<Rightarrow> is_ascii_digit c)"

definition wrappers :: "string list" where
  "wrappers =
     [''sudo'', ''env'', ''time'', ''timeout'', ''nice'', ''ionice'', ''chrt'', ''strace'', ''ltrace'',
      ''perf'', ''taskset'', ''numactl'']"

lemma split_once_ws_or_le: "length (snd (split_once_ws_or s)) \<le> length s"
proof -
  have "length (dropWhile (\<lambda>c. \<not> is_whitespace c) s) \<le> length s" by (rule length_dropWhile_le)
  then show ?thesis
    by (auto simp: split_once_ws_or_def split_once_ws_def split: list.splits)
qed

lemma split_once_ws_or_less: "s \<noteq> [] \<Longrightarrow> length (snd (split_once_ws_or s)) < length s"
proof -
  assume "s \<noteq> []"
  have "length (dropWhile (\<lambda>c. \<not> is_whitespace c) s) \<le> length s" by (rule length_dropWhile_le)
  with \<open>s \<noteq> []\<close> show ?thesis
    by (auto simp: split_once_ws_or_def split_once_ws_def split: list.splits)
qed

text \<open>The \<open>while result.starts_with('-')\<close> loop over the flags of a wrapper.\<close>

definition strip_one_flag :: "string \<Rightarrow> string \<Rightarrow> string" where
  "strip_one_flag wrapper r =
     (let (flag, rest_after_flag) = split_once_ws_or r;
          r' = trim_start rest_after_flag
      in if wrapper_flag_takes_value wrapper flag
         then trim_start (snd (split_once_ws_or r')) else r')"

lemma strip_one_flag_less: "r \<noteq> [] \<Longrightarrow> length (strip_one_flag wrapper r) < length r"
proof -
  assume "r \<noteq> []"
  then have "length (trim_start (snd (split_once_ws_or r))) < length r"
    using split_once_ws_or_less length_trim_start le_less_trans by blast
  moreover have "length (trim_start (snd (split_once_ws_or (trim_start (snd (split_once_ws_or r)))))) \<le>
      length (trim_start (snd (split_once_ws_or r)))"
    using split_once_ws_or_le length_trim_start le_trans by blast
  ultimately show ?thesis
    by (auto simp: strip_one_flag_def Let_def split: prod.splits)
qed

function strip_wrapper_flags :: "string \<Rightarrow> string \<Rightarrow> string" where
  "strip_wrapper_flags wrapper r =
     (if starts_with r ''-'' then strip_wrapper_flags wrapper (strip_one_flag wrapper r) else r)"
  by pat_completeness auto
termination
proof (relation "measure (\<lambda>(w, r). length r)", simp)
  fix wrapper r :: string
  assume "starts_with r ''-''"
  then have "r \<noteq> []" by (auto simp: starts_with_iff)
  then show "((wrapper, strip_one_flag wrapper r), wrapper, r) \<in> measure (\<lambda>(w, r). length r)"
    using strip_one_flag_less by simp
qed

declare strip_wrapper_flags.simps [simp del]

text \<open>\<open>None\<close>: the wrapper does not lead the command, nothing changes.\<close>

definition strip_wrapper :: "string \<Rightarrow> string \<Rightarrow> string option" where
  "strip_wrapper wrapper r =
     (case strip_prefix wrapper r of
        None \<Rightarrow> None
      | Some rest \<Rightarrow>
          if rest = [] \<or> starts_with_ws rest then
            let r1 = strip_wrapper_flags wrapper (trim_start rest)
            in Some
                 (if wrapper = ''timeout'' \<or> wrapper = ''chrt'' then
                    case split_once_ws r1 of
                      None \<Rightarrow> r1
                    | Some (first, after_first) \<Rightarrow>
                        if \<not> starts_with first ''-'' \<and> looks_like_duration_or_priority first
                        then trim_start after_first else r1
                  else r1)
          else None)"

text \<open>The \<open>for wrapper in wrappers\<close> loop; the flag is \<open>changed\<close>.\<close>

fun strip_wrappers :: "string list \<Rightarrow> string \<times> bool \<Rightarrow> string \<times> bool" where
  "strip_wrappers [] st = st"
| "strip_wrappers (w # ws) (r, changed) =
     strip_wrappers ws (case strip_wrapper w r of None \<Rightarrow> (r, changed) | Some r' \<Rightarrow> (r', True))"

text \<open>The scan of the first token for a \<open>VAR=val\<close> assignment: \<open>token_len\<close>, \<open>in_quote\<close>,
  \<open>has_equals\<close> and \<open>has_space\<close> when the loop ends.\<close>

fun env_token_scan ::
  "nat \<Rightarrow> char option \<Rightarrow> bool \<Rightarrow> bool \<Rightarrow> string \<Rightarrow> nat \<times> char option \<times> bool \<times> bool" where
  "env_token_scan n in_quote esc has_equals [] = (n, in_quote, has_equals, False)"
| "env_token_scan n in_quote esc has_equals (c # cs) =
     (if esc then env_token_scan (Suc n) in_quote False has_equals cs
      else if c = backslash then env_token_scan (Suc n) in_quote True has_equals cs
      else
        case in_quote of
          Some q \<Rightarrow>
            if c = q then env_token_scan (Suc n) None False has_equals cs
            else env_token_scan (Suc n) in_quote False (has_equals \<or> c = CHR ''='') cs
        | None \<Rightarrow>
            if c = double_quote \<or> c = single_quote
            then env_token_scan (Suc n) (Some c) False has_equals cs
            else if is_whitespace c then (n, in_quote, has_equals, True)
            else env_token_scan (Suc n) in_quote False (has_equals \<or> c = CHR ''='') cs)"

definition strip_env_assignment :: "string \<Rightarrow> string option" where
  "strip_env_assignment r =
     (case env_token_scan 0 None False False r of
        (token_len, in_quote, has_equals, has_space) \<Rightarrow>
          if has_equals \<and> in_quote = None \<and> has_space
          then Some (trim_start (drop token_len r)) else None)"

text \<open>\<open>/usr/bin/cargo\<close> becomes \<open>cargo\<close>. The command word ends at the first space.\<close>

definition strip_absolute_path :: "string \<Rightarrow> string option" where
  "strip_absolute_path r =
     (if starts_with r ''/'' then
        (case rfind (takeWhile (\<lambda>c. c \<noteq> CHR '' '') r) ''/'' of
           None \<Rightarrow> None
         | Some last_slash \<Rightarrow> Some (drop (Suc last_slash) r))
      else None)"

definition normalize_pass :: "string \<Rightarrow> string \<times> bool" where
  "normalize_pass r =
     (let (r1, c1) = strip_wrappers wrappers (r, False);
          (r2, c2) = (case strip_env_assignment r1 of None \<Rightarrow> (r1, c1) | Some x \<Rightarrow> (x, True))
      in case strip_absolute_path r2 of None \<Rightarrow> (r2, c2) | Some x \<Rightarrow> (x, True))"

section \<open>A pass that changes something shortens the text\<close>

lemma strip_wrapper_flags_le: "length (strip_wrapper_flags w r) \<le> length r"
proof (induction w r rule: strip_wrapper_flags.induct)
  case (1 w r)
  show ?case
  proof (cases "starts_with r ''-''")
    case True
    then have "r \<noteq> []" by (auto simp: starts_with_iff)
    then show ?thesis
      using "1.IH" [OF True] strip_one_flag_less [of r w] True
      by (simp add: strip_wrapper_flags.simps [of w r])
  next
    case False
    then show ?thesis by (simp add: strip_wrapper_flags.simps [of w r])
  qed
qed

lemma split_once_ws_less: "split_once_ws s = Some (a, b) \<Longrightarrow> length b < length s"
proof -
  assume "split_once_ws s = Some (a, b)"
  moreover from this have "s \<noteq> []" by (auto simp: split_once_ws_def)
  ultimately show ?thesis using split_once_ws_or_less [of s] by (simp add: split_once_ws_or_def)
qed

lemma strip_wrapper_less:
  assumes "strip_wrapper w r = Some r'" and "w \<noteq> []"
  shows "length r' < length r"
proof -
  obtain rest where rest: "r = w @ rest" using assms(1)
    by (auto simp: strip_wrapper_def str_simps split: option.splits)
  define r1 where "r1 = strip_wrapper_flags w (trim_start rest)"
  have "length r1 \<le> length rest"
    unfolding r1_def using strip_wrapper_flags_le length_trim_start le_trans by blast
  moreover have "length (trim_start b) < length r1" if "split_once_ws r1 = Some (a, b)" for a b
    using split_once_ws_less [OF that] length_trim_start le_less_trans by blast
  moreover have "strip_prefix w r = Some rest" using rest by (simp add: strip_prefix_iff)
  ultimately have "length r' \<le> length rest"
    using assms(1) unfolding strip_wrapper_def r1_def [symmetric]
    by (fastforce simp: Let_def r1_def [symmetric] split: option.splits if_splits prod.splits)
  with rest assms(2) show ?thesis by (cases w) auto
qed

lemma strip_wrappers_less:
  "strip_wrappers ws (r, ch) = (r', ch') \<Longrightarrow> [] \<notin> set ws \<Longrightarrow>
     length r' \<le> length r \<and> (ch' \<noteq> ch \<longrightarrow> length r' < length r) \<and> (r' \<noteq> r \<longrightarrow> ch') \<and> (ch \<longrightarrow> ch')"
proof (induction ws arbitrary: r ch)
  case Nil
  then show ?case by simp
next
  case (Cons w ws)
  show ?case
  proof (cases "strip_wrapper w r")
    case None
    with Cons.IH [of r ch] Cons.prems show ?thesis by simp
  next
    case (Some x)
    have "length x < length r" using strip_wrapper_less [OF Some] Cons.prems(2) by auto
    with Cons.IH [of x True] Cons.prems Some show ?thesis by auto
  qed
qed

text \<open>Where the scan of a token starting at \<open>n\<close> may end.\<close>

definition scan_ok :: "nat \<Rightarrow> bool \<Rightarrow> string \<Rightarrow> nat \<times> char option \<times> bool \<times> bool \<Rightarrow> bool" where
  "scan_ok n h cs r \<longleftrightarrow> n \<le> fst r \<and> fst r \<le> n + length cs \<and> (fst (snd (snd r)) \<and> \<not> h \<longrightarrow> n < fst r)"

lemma scan_ok_step: "scan_ok (Suc n) h' cs r \<Longrightarrow> scan_ok n h (c # cs) r"
  by (simp add: scan_ok_def)

lemma scan_ok_stop: "scan_ok n h cs (n, q, h, True)"
  by (simp add: scan_ok_def)

lemma env_token_scan_ok: "scan_ok n h cs (env_token_scan n q e h cs)"
proof (induction cs arbitrary: n q e h)
  case Nil
  then show ?case by (simp add: scan_ok_def)
next
  case (Cons c cs)
  show ?case
    by (simp only: env_token_scan.simps split: if_split option.split)
      (intro conjI impI allI scan_ok_stop scan_ok_step [OF Cons.IH])
qed

lemma env_token_scan_len:
  "env_token_scan n q e h cs = (m, q', h', sp) \<Longrightarrow>
     n \<le> m \<and> m \<le> n + length cs \<and> (h' \<and> \<not> h \<longrightarrow> n < m)"
  using env_token_scan_ok [of n h cs q e] by (simp add: scan_ok_def)

lemma strip_env_assignment_less:
  assumes "strip_env_assignment r = Some r'"
  shows "length r' < length r"
proof -
  obtain m q h sp where scan: "env_token_scan 0 None False False r = (m, q, h, sp)"
    by (metis prod_cases4)
  then have h: "h" and r': "r' = trim_start (drop m r)"
    using assms by (auto simp: strip_env_assignment_def split: if_splits)
  have "0 < m" "m \<le> length r" using env_token_scan_len [OF scan] h by auto
  then have "length (drop m r) < length r" by simp
  then show ?thesis unfolding r' using length_trim_start le_less_trans by blast
qed

lemma strip_absolute_path_less:
  assumes "strip_absolute_path r = Some r'"
  shows "length r' < length r"
proof -
  have "r \<noteq> []" using assms by (auto simp: strip_absolute_path_def starts_with_iff)
  then show ?thesis using assms
    by (auto simp: strip_absolute_path_def split: if_splits option.splits)
qed

lemma strip_absolute_path_Some:
  "starts_with r ''/'' \<Longrightarrow> \<exists>r'. strip_absolute_path r = Some r'"
proof -
  assume start: "starts_with r ''/''"
  then obtain t where "r = CHR ''/'' # t" by (auto simp: starts_with_iff prefix_def)
  then have "sublist ''/'' (takeWhile (\<lambda>c. c \<noteq> CHR '' '') r)" by simp
  from rfind_sublist [OF this] start show ?thesis by (auto simp: strip_absolute_path_def)
qed

lemma wrappers_nonempty: "[] \<notin> set wrappers"
  by (simp add: wrappers_def)

lemma normalize_pass_less:
  assumes "normalize_pass r = (r', ch)"
  shows "ch \<Longrightarrow> length r' < length r" and "\<not> ch \<Longrightarrow> r' = r"
proof -
  obtain r1 c1 where s1: "strip_wrappers wrappers (r, False) = (r1, c1)" by fastforce
  note f1 = strip_wrappers_less [OF s1 wrappers_nonempty]
  show "ch \<Longrightarrow> length r' < length r" "\<not> ch \<Longrightarrow> r' = r"
    using assms s1 f1 strip_env_assignment_less [of r1] strip_absolute_path_less
    by (fastforce simp: normalize_pass_def Let_def split: option.splits)+
qed

section \<open>The loop\<close>

function normalize_loop :: "string \<Rightarrow> string" where
  "normalize_loop r =
     (if snd (normalize_pass r) then normalize_loop (fst (normalize_pass r)) else fst (normalize_pass r))"
  by pat_completeness auto
termination
proof (relation "measure length", simp)
  fix r :: string
  assume "snd (normalize_pass r)"
  then show "(fst (normalize_pass r), r) \<in> measure length"
    using normalize_pass_less(1) [OF prod.collapse [symmetric]] by simp
qed

declare normalize_loop.simps [simp del]

definition normalize_command :: "string \<Rightarrow> string" where
  "normalize_command cmd = normalize_loop (trim cmd)"

section \<open>Normal forms\<close>

lemma normalize_loop_fixed: "normalize_pass (normalize_loop r) = (normalize_loop r, False)"
proof (induction r rule: normalize_loop.induct)
  case (1 r)
  show ?case
  proof (cases "snd (normalize_pass r)")
    case True
    with "1.IH" show ?thesis by (simp add: normalize_loop.simps [of r])
  next
    case False
    obtain r' ch where p: "normalize_pass r = (r', ch)" by fastforce
    with False have "r' = r" using normalize_pass_less(2) by auto
    with False p show ?thesis by (simp add: normalize_loop.simps [of r])
  qed
qed

lemma normalize_loop_le: "length (normalize_loop r) \<le> length r"
proof (induction r rule: normalize_loop.induct)
  case (1 r)
  show ?case
  proof (cases "snd (normalize_pass r)")
    case True
    then have "length (fst (normalize_pass r)) < length r"
      using normalize_pass_less(1) by (metis prod.collapse)
    with "1.IH" [OF True] True show ?thesis by (simp add: normalize_loop.simps [of r])
  next
    case False
    then have "fst (normalize_pass r) = r" using normalize_pass_less(2) by (metis prod.collapse)
    with False show ?thesis by (simp add: normalize_loop.simps [of r])
  qed
qed

lemma strip_wrappers_quiet:
  "strip_wrappers ws (r, False) = (r', False) \<Longrightarrow> [] \<notin> set ws \<Longrightarrow> w \<in> set ws \<Longrightarrow> strip_wrapper w r = None"
proof (induction ws arbitrary: r)
  case Nil
  then show ?case by simp
next
  case (Cons v ws)
  then show ?case using strip_wrappers_less [of ws _ True r' False]
    by (auto split: option.splits)
qed

lemma normalize_pass_quiet:
  assumes "normalize_pass r = (r, False)"
  shows "w \<in> set wrappers \<Longrightarrow> strip_wrapper w r = None"
    and "strip_env_assignment r = None" and "strip_absolute_path r = None"
proof -
  obtain r1 c1 where s1: "strip_wrappers wrappers (r, False) = (r1, c1)" by fastforce
  have c1: "\<not> c1" "strip_env_assignment r1 = None" "strip_absolute_path r1 = None"
    using assms s1 by (auto simp: normalize_pass_def Let_def split: option.splits)
  then have "r1 = r" using strip_wrappers_less [OF s1 wrappers_nonempty] by auto
  with c1 show "strip_env_assignment r = None" "strip_absolute_path r = None" by simp_all
  show "strip_wrapper w r = None" if "w \<in> set wrappers"
    using strip_wrappers_quiet [OF _ wrappers_nonempty that] s1 c1(1) by simp
qed

definition command_word_matches :: "string \<Rightarrow> string \<Rightarrow> bool" where
  "command_word_matches cmd keyword =
     (case strip_prefix keyword cmd of
        None \<Rightarrow> False
      | Some rest \<Rightarrow> rest = [] \<or> starts_with_ws rest)"

lemma normalize_command_fixed:
  shows "w \<in> set wrappers \<Longrightarrow> \<not> command_word_matches (normalize_command cmd) w"
    and "\<not> starts_with (normalize_command cmd) ''/''"
    and "strip_env_assignment (normalize_command cmd) = None"
proof -
  note q = normalize_pass_quiet [OF normalize_loop_fixed [of "trim cmd"]]
  show "\<not> command_word_matches (normalize_command cmd) w" if "w \<in> set wrappers"
    using q(1) [OF that]
    by (auto simp: normalize_command_def command_word_matches_def strip_wrapper_def Let_def
        split: option.splits if_splits)
  show "\<not> starts_with (normalize_command cmd) ''/''"
    using q(3) strip_absolute_path_Some [of "normalize_command cmd"]
    by (auto simp: normalize_command_def)
  show "strip_env_assignment (normalize_command cmd) = None"
    using q(2) by (simp add: normalize_command_def)
qed

end
