(* ===== verification/Classifier.thy ===== *)
theory Classifier
  imports Complex_Main Normalize
begin

text \<open>
  The command classifier of \<open>rch-common/src/patterns.rs\<close>: the data (\<open>Classification\<close>,
  \<open>CompilationKind\<close>, the keyword and never-intercept tables), the per-tool classifiers of Tier 4,
  the tiers in order, and the three forms that are taken apart first (\<open>&&\<close> chains, \<open>bash -c\<close>
  wrappers, benign suffixes). \<open>confidence\<close> is a \<open>rat\<close>: the source only writes decimal literals
  into it and compares them.

  \<open>classify_command_inner\<close> recurses through the \<open>bash -c\<close> wrapper; its termination proof is that
  the quoted argument is shorter than the command. A call at depth 1 never recurses, so it is the
  plain definition \<open>classify_segment\<close>, which the splitting forms use.
\<close>

section \<open>Data\<close>

datatype compilation_kind =
    CargoBuild | CargoTest | CargoCheck | CargoClippy | CargoDoc | CargoNextest | CargoBench
  | CargoZigbuild | Rustc | Gcc | Gpp | Clang | Clangpp | Make | CmakeBuild | Ninja | Meson
  | BunTest | BunTypecheck | GoBuild | GoTest | GoVet | Tsc | NixBuild

record classification =
  is_compilation :: bool
  confidence :: rat
  kind :: "compilation_kind option"
  reason :: string
  command_prefix :: "string option"
  extracted_command :: "string option"

definition not_compilation :: "string \<Rightarrow> classification" where
  "not_compilation r =
     \<lparr>is_compilation = False, confidence = 0, kind = None, reason = r,
      command_prefix = None, extracted_command = None\<rparr>"

definition compilation :: "compilation_kind \<Rightarrow> rat \<Rightarrow> string \<Rightarrow> classification" where
  "compilation k conf r =
     \<lparr>is_compilation = True, confidence = conf, kind = Some k, reason = r,
      command_prefix = None, extracted_command = None\<rparr>"

definition compound_compilation ::
  "compilation_kind \<Rightarrow> rat \<Rightarrow> string \<Rightarrow> string \<Rightarrow> string \<Rightarrow> classification" where
  "compound_compilation k conf r pfx ext =
     \<lparr>is_compilation = True, confidence = conf, kind = Some k, reason = r,
      command_prefix = Some pfx, extracted_command = Some ext\<rparr>"

definition is_test_command :: "compilation_kind \<Rightarrow> bool" where
  "is_test_command k \<longleftrightarrow> k \<in> {CargoTest, CargoNextest, CargoBench, BunTest, GoTest}"

fun command_base :: "compilation_kind \<Rightarrow> string" where
  "command_base CargoBuild = ''cargo''"
| "command_base CargoTest = ''cargo''"
| "command_base CargoCheck = ''cargo''"
| "command_base CargoClippy = ''cargo''"
| "command_base CargoDoc = ''cargo''"
| "command_base CargoBench = ''cargo''"
| "command_base CargoNextest = ''cargo''"
| "command_base CargoZigbuild = ''cargo''"
| "command_base Rustc = ''rustc''"
| "command_base Gcc = ''gcc''"
| "command_base Gpp = ''g++''"
| "command_base Clang = ''clang''"
| "command_base Clangpp = ''clang++''"
| "command_base Make = ''make''"
| "command_base CmakeBuild = ''cmake''"
| "command_base Ninja = ''ninja''"
| "command_base Meson = ''meson''"
| "command_base BunTest = ''bun''"
| "command_base BunTypecheck = ''bun''"
| "command_base NixBuild = ''nix''"
| "command_base GoBuild = ''go''"
| "command_base GoTest = ''go''"
| "command_base GoVet = ''go''"
| "command_base Tsc = ''tsc''"

definition COMPILATION_KEYWORDS :: "string list" where
  "COMPILATION_KEYWORDS =
     [''cargo'', ''cargo-zigbuild'', ''rustc'', ''gcc'', ''g++'', ''clang'', ''clang++'', ''make'',
      ''cmake'', ''ninja'', ''meson'', ''cc'', ''c++'', ''bun'', ''nextest'', ''nix'', ''nix-build'',
      ''go'', ''tsc'', ''npx'']"

definition NEVER_INTERCEPT :: "string list" where
  "NEVER_INTERCEPT =
     [''cargo install'', ''cargo publish'', ''cargo login'', ''cargo fmt'', ''cargo fix'',
      ''cargo clean'', ''cargo new'', ''cargo init'', ''cargo add'', ''cargo remove'',
      ''cargo update'', ''cargo generate-lockfile'', ''cargo watch'', ''cargo --version'',
      ''cargo -V'',
      ''rustc --version'', ''rustc -V'', ''gcc --version'', ''gcc -v'', ''clang --version'',
      ''clang -v'', ''make --version'', ''make -v'', ''cmake --version'',
      ''bun install'', ''bun add'', ''bun remove'', ''bun link'', ''bun unlink'', ''bun pm'',
      ''bun init'', ''bun create'', ''bun upgrade'', ''bun completions'',
      ''bun run'', ''bun build'', ''bun --help'', ''bun -h'', ''bun --version'', ''bun -v'',
      ''bun dev'', ''bun repl'',
      ''cargo nextest list'', ''cargo nextest archive'', ''cargo nextest show'',
      ''go get'', ''go mod'', ''go work'', ''go install'', ''go run'', ''go generate'', ''go fmt'',
      ''go clean'', ''go env'', ''go doc'', ''go version'', ''go tool'', ''go list'',
      ''tsc --version'', ''tsc -v'', ''tsc --init'']"

section \<open>Tier 4: one classifier per tool\<close>

text \<open>The subcommand of a cargo command line and the tokens after it: \<open>+toolchain\<close> overrides and
  leading global flags, with their values, are skipped.\<close>

definition CARGO_VALUE_FLAGS :: "string list" where
  "CARGO_VALUE_FLAGS = [''--color'', ''-Z'', ''-C'', ''--config'']"

fun cargo_subcommand :: "string list \<Rightarrow> (string \<times> string list) option" where
  "cargo_subcommand [] = None"
| "cargo_subcommand (tok # rest) =
     (if starts_with tok ''+'' then cargo_subcommand rest
      else if starts_with tok ''-'' then
        (if \<not> contains_str tok ''='' \<and> tok \<in> set CARGO_VALUE_FLAGS
         then cargo_subcommand (drop 1 rest) else cargo_subcommand rest)
      else Some (tok, rest))"

definition classify_cargo :: "string \<Rightarrow> classification" where
  "classify_cargo cmd =
     (case cargo_subcommand (drop 1 (split_whitespace cmd)) of
        None \<Rightarrow> not_compilation ''bare cargo command''
      | Some (sub, rest) \<Rightarrow>
          if sub = ''build'' \<or> sub = ''b'' then compilation CargoBuild (95/100) ''cargo build''
          else if sub = ''test'' \<or> sub = ''t'' then compilation CargoTest (95/100) ''cargo test''
          else if sub = ''check'' \<or> sub = ''c'' then compilation CargoCheck (90/100) ''cargo check''
          else if sub = ''clippy'' then compilation CargoClippy (90/100) ''cargo clippy''
          else if sub = ''doc'' then compilation CargoDoc (85/100) ''cargo doc''
          else if sub = ''run'' \<or> sub = ''r''
          then compilation CargoBuild (85/100) ''cargo run (includes build)''
          else if sub = ''bench'' then compilation CargoBench (90/100) ''cargo bench''
          else if sub = ''zigbuild'' then compilation CargoZigbuild (95/100) ''cargo zigbuild''
          else if sub = ''nextest'' then
            (case rest of
               [] \<Rightarrow> not_compilation ''bare cargo nextest without subcommand''
             | n # _ \<Rightarrow>
                 if n = ''run'' \<or> n = ''r'' then compilation CargoNextest (95/100) ''cargo nextest run''
                 else not_compilation ''cargo nextest subcommand not interceptable'')
          else not_compilation ''cargo subcommand not interceptable'')"

definition classify_cargo_zigbuild :: "string \<Rightarrow> classification" where
  "classify_cargo_zigbuild cmd =
     (case cargo_subcommand (drop 1 (split_whitespace cmd)) of
        None \<Rightarrow> not_compilation ''bare cargo-zigbuild command''
      | Some (sub, _) \<Rightarrow>
          if sub = ''zigbuild'' \<or> sub = ''build'' \<or> sub = ''b''
          then compilation CargoZigbuild (95/100) ''cargo-zigbuild build''
          else not_compilation ''cargo-zigbuild subcommand not interceptable'')"

definition NIX_GLOBAL_VALUE_FLAGS :: "string list" where
  "NIX_GLOBAL_VALUE_FLAGS =
     [''--extra-experimental-features'', ''--experimental-features'', ''--log-format'',
      ''--max-jobs'', ''-j'', ''--cores'', ''--builders'', ''--store'', ''--file'', ''-f'', ''-I'',
      ''--include'']"

fun nix_subcommand :: "string list \<Rightarrow> (string \<times> string list) option" where
  "nix_subcommand [] = None"
| "nix_subcommand (tok # rest) =
     (if starts_with tok ''-'' then
        (if tok = ''--option'' then nix_subcommand (drop 2 rest)
         else if \<not> contains_str tok ''='' \<and> tok \<in> set NIX_GLOBAL_VALUE_FLAGS
         then nix_subcommand (drop 1 rest)
         else nix_subcommand rest)
      else Some (tok, rest))"

definition classify_nix :: "string \<Rightarrow> classification" where
  "classify_nix cmd =
     (if cmd = ''nix-build'' \<or> starts_with cmd ''nix-build ''
      then compilation NixBuild (9/10) ''nix-build (legacy) derivation build''
      else
        case nix_subcommand (drop 1 (split_whitespace cmd)) of
          None \<Rightarrow> not_compilation ''bare nix command (no subcommand)''
        | Some (sub, rest) \<Rightarrow>
            if ''--help'' \<in> set rest \<or> ''-h'' \<in> set rest
            then not_compilation ''nix --help (not a build)''
            else if sub = ''build'' then compilation NixBuild (9/10) ''nix build derivation''
            else if sub = ''flake'' then
              (if find (\<lambda>t. \<not> starts_with t ''-'') rest = Some ''check''
               then compilation NixBuild (9/10) ''nix flake check (evaluates + builds all outputs)''
               else not_compilation ''nix flake subcommand is not a build'')
            else if sub = ''develop'' \<or> sub = ''shell'' then
              (if ''-c'' \<in> set rest \<or> ''--command'' \<in> set rest
               then
                 compilation NixBuild (9/10)
                   (if sub = ''develop''
                    then ''nix develop -c (non-interactive command in dev shell)''
                    else ''nix shell -c (non-interactive command with packages)'')
               else not_compilation ''interactive nix shell (no -c/--command; not intercepted)'')
            else not_compilation ''nix subcommand is not an offloadable build'')"

definition classify_go :: "string \<Rightarrow> classification" where
  "classify_go cmd =
     (case drop 1 (split_whitespace cmd) of
        [] \<Rightarrow> not_compilation ''bare `go` is not a compilation command''
      | sub # args \<Rightarrow>
          if sub = ''build'' then
            (if list_ex (\<lambda>a. a = ''-o'' \<or> starts_with a ''-o='' \<or> a = ''--output'') args
             then not_compilation ''go build -o emits a local binary (not intercepted)''
             else compilation GoBuild (95/100) ''go build command'')
          else if sub = ''test'' then
            (if list_ex (\<lambda>a. a = ''-exec'' \<or> starts_with a ''-exec='') args
             then not_compilation ''go test -exec runs a local wrapper (not intercepted)''
             else if ''-c'' \<in> set args
             then not_compilation ''go test -c emits a local test binary (not intercepted)''
             else compilation GoTest (95/100) ''go test command'')
          else if sub = ''vet'' then compilation GoVet (95/100) ''go vet command''
          else not_compilation ''go subcommand is not a compilation command'')"

text \<open>\<open>None\<close> is the early return on a watch flag, \<open>Some b\<close> the final value of \<open>no_emit\<close>.\<close>

fun tsc_scan :: "bool \<Rightarrow> string list \<Rightarrow> bool option" where
  "tsc_scan no_emit [] = Some no_emit"
| "tsc_scan no_emit (token # rest) =
     (if token = ''-w'' \<or> token = ''--watch'' \<or> token = ''--watchFile'' then None
      else tsc_scan (no_emit \<or> map to_ascii_lowercase token = ''--noemit'') rest)"

definition classify_tsc :: "string \<Rightarrow> classification" where
  "classify_tsc args =
     (case tsc_scan False (split_whitespace args) of
        None \<Rightarrow> not_compilation ''tsc --watch is interactive (not intercepted)''
      | Some no_emit \<Rightarrow>
          if \<not> no_emit
          then not_compilation ''tsc without --noEmit emits output files locally (not intercepted)''
          else compilation Tsc (95/100) ''tsc --noEmit typecheck'')"

fun build_targets :: "string list \<Rightarrow> string list \<Rightarrow> string list" where
  "build_targets value_flags [] = []"
| "build_targets value_flags (tok # rest) =
     (if tok \<in> set value_flags then build_targets value_flags (drop 1 rest)
      else if starts_with tok ''-'' \<or> contains_str tok ''='' then build_targets value_flags rest
      else tok # build_targets value_flags rest)"

definition positional_build_targets :: "string \<Rightarrow> string list \<Rightarrow> string list" where
  "positional_build_targets cmd value_flags = build_targets value_flags (drop 1 (split_whitespace cmd))"

fun adjacent :: "'a \<Rightarrow> 'a \<Rightarrow> 'a list \<Rightarrow> bool" where
  "adjacent a b (x # y # rest) = ((x = a \<and> y = b) \<or> adjacent a b (y # rest))"
| "adjacent a b _ = False"

text \<open>The bun branch falls through (\<open>None\<close>) when the subcommand is none of the three.\<close>

definition classify_bun :: "string list \<Rightarrow> classification option" where
  "classify_bun tokens =
     (case tokens of
        b # sub # args \<Rightarrow>
          if b \<noteq> ''bun'' then None
          else if sub = ''test'' then
            Some
              (if ''-w'' \<in> set args \<or> ''--watch'' \<in> set args
               then not_compilation ''bun test --watch is interactive (not intercepted)''
               else compilation BunTest (95/100) ''bun test command'')
          else if sub = ''typecheck'' then
            Some
              (if ''-w'' \<in> set args \<or> ''--watch'' \<in> set args
               then not_compilation ''bun typecheck --watch is interactive (not intercepted)''
               else compilation BunTypecheck (95/100) ''bun typecheck command'')
          else if sub = ''x'' then Some (not_compilation ''bun x runs arbitrary packages'')
          else None
      | _ \<Rightarrow> None)"

definition has_c_input :: "string \<Rightarrow> bool" where
  "has_c_input cmd \<longleftrightarrow> contains_str cmd '' -c '' \<or> contains_str cmd '' -o '' \<or> contains_str cmd ''.c''"

definition has_cpp_input :: "string \<Rightarrow> bool" where
  "has_cpp_input cmd \<longleftrightarrow>
     contains_str cmd '' -c '' \<or> contains_str cmd '' -o '' \<or> contains_str cmd ''.cpp''
     \<or> contains_str cmd ''.cc''"

definition MAKE_VALUE_FLAGS :: "string list" where
  "MAKE_VALUE_FLAGS =
     [''-f'', ''-C'', ''-I'', ''-o'', ''-W'', ''--file'', ''--directory'', ''--include-dir'']"

definition MAKE_MAINTENANCE_TARGETS :: "string list" where
  "MAKE_MAINTENANCE_TARGETS = [''clean'', ''install'', ''distclean'', ''uninstall'']"

definition NINJA_VALUE_FLAGS :: "string list" where
  "NINJA_VALUE_FLAGS = [''-C'', ''-f'', ''-j'', ''-k'', ''-l'', ''-d'', ''-t'', ''-w'']"

definition classify_full :: "string \<Rightarrow> classification" where
  "classify_full cmd =
     (if starts_with cmd ''cargo '' \<or> cmd = ''cargo'' then classify_cargo cmd
      else if starts_with cmd ''cargo-zigbuild '' \<or> cmd = ''cargo-zigbuild''
      then classify_cargo_zigbuild cmd
      else if starts_with cmd ''rustc '' \<or> cmd = ''rustc''
      then compilation Rustc (95/100) ''rustc invocation''
      else if starts_with cmd ''gcc '' \<and> has_c_input cmd
      then compilation Gcc (90/100) ''gcc compilation''
      else if starts_with cmd ''g++ '' \<and> has_cpp_input cmd
      then compilation Gpp (90/100) ''g++ compilation''
      else if starts_with cmd ''clang '' \<and> \<not> starts_with cmd ''clang++ '' \<and> has_c_input cmd
      then compilation Clang (90/100) ''clang compilation''
      else if starts_with cmd ''clang++ '' \<and> has_cpp_input cmd
      then compilation Clangpp (90/100) ''clang++ compilation''
      else if starts_with cmd ''cc '' \<and> has_c_input cmd
      then compilation Gcc (85/100) ''cc compilation''
      else if starts_with cmd ''c++ '' \<and> has_cpp_input cmd
      then compilation Gpp (85/100) ''c++ compilation''
      else if starts_with cmd ''make'' \<and> (cmd = ''make'' \<or> starts_with cmd ''make '') then
        (if list_ex (\<lambda>t. t \<in> set MAKE_MAINTENANCE_TARGETS) (positional_build_targets cmd MAKE_VALUE_FLAGS)
         then not_compilation ''make maintenance command''
         else compilation Make (85/100) ''make build'')
      else if (starts_with cmd ''cmake '' \<or> cmd = ''cmake'')
           \<and> list_ex (\<lambda>t. t = ''--build'' \<or> starts_with t ''--build='') (drop 1 (split_whitespace cmd))
      then compilation CmakeBuild (90/100) ''cmake --build''
      else if starts_with cmd ''ninja'' \<and> (cmd = ''ninja'' \<or> starts_with cmd ''ninja '') then
        (if adjacent ''-t'' ''clean'' (split_whitespace cmd)
            \<or> ''clean'' \<in> set (positional_build_targets cmd NINJA_VALUE_FLAGS)
         then not_compilation ''ninja clean''
         else compilation Ninja (90/100) ''ninja build'')
      else if (starts_with cmd ''meson '' \<or> cmd = ''meson'')
           \<and> find (\<lambda>t. \<not> starts_with t ''-'') (drop 1 (split_whitespace cmd)) = Some ''compile''
      then compilation Meson (85/100) ''meson compile''
      else if cmd = ''nix-build'' \<or> starts_with cmd ''nix-build '' \<or> cmd = ''nix''
           \<or> starts_with cmd ''nix ''
      then classify_nix cmd
      else
        case classify_bun (split_whitespace cmd) of
          Some c \<Rightarrow> c
        | None \<Rightarrow>
            if starts_with cmd ''go '' then classify_go cmd
            else
              case strip_prefix ''tsc '' cmd of
                Some rest \<Rightarrow> classify_tsc rest
              | None \<Rightarrow>
                  (case strip_prefix ''npx tsc '' cmd of
                     Some rest \<Rightarrow> classify_tsc rest
                   | None \<Rightarrow> not_compilation ''no matching pattern''))"

section \<open>Tiers 1 to 4\<close>

definition starts_with_compilation_command :: "string \<Rightarrow> bool" where
  "starts_with_compilation_command cmd =
     list_ex (command_word_matches (trim_start cmd)) COMPILATION_KEYWORDS"

definition never_intercept_match :: "string \<Rightarrow> string \<Rightarrow> bool" where
  "never_intercept_match normalized pat =
     (case strip_prefix pat normalized of
        None \<Rightarrow> False
      | Some rest \<Rightarrow> rest = [] \<or> starts_with rest '' '')"

definition classify_tiers :: "string \<Rightarrow> classification" where
  "classify_tiers cmd =
     (case check_structure cmd of
        Some r \<Rightarrow> not_compilation r
      | None \<Rightarrow>
          let normalized = normalize_command cmd
          in if \<not> starts_with_compilation_command normalized
             then not_compilation ''no compilation keyword''
             else if list_ex (never_intercept_match normalized) NEVER_INTERCEPT
             then not_compilation ''matches never-intercept pattern''
             else classify_full normalized)"

text \<open>\<open>classify_command_inner\<close> at depth 1: no splitting, no wrapper handling.\<close>

definition classify_segment :: "string \<Rightarrow> classification" where
  "classify_segment cmd =
     (let c = trim cmd in if c = [] then not_compilation ''empty command'' else classify_tiers c)"

section \<open>Compound commands\<close>

definition try_classify_compound_command :: "string \<Rightarrow> classification option" where
  "try_classify_compound_command cmd =
     (if \<not> contains_str cmd ''&&'' then None
      else if contains_str cmd ''|'' then None
      else if has_file_redirect cmd then None
      else if contains_str cmd ''('' \<or> contains_str cmd [backtick] \<or> contains_str cmd ''$('' then None
      else if contains_str cmd '';'' then None
      else
        case split_and_chain cmd of
          None \<Rightarrow> None
        | Some segments \<Rightarrow>
            if segments = [] then None
            else
              let last_segment = trim (last segments)
              in if last_segment = [] then None
                 else
                   let c = classify_segment last_segment
                   in if \<not> is_compilation c then None
                      else if length segments = 1 then None
                      else
                        case rfind cmd last_segment of
                          None \<Rightarrow> None
                        | Some last_pos \<Rightarrow>
                            (case kind c of
                               None \<Rightarrow> None
                             | Some k \<Rightarrow>
                                 Some (compound_compilation k (confidence c)
                                         ''compound command with compilation suffix''
                                         (take last_pos cmd) last_segment)))"

section \<open>Shell wrappers\<close>

definition shell_basename_is :: "string \<Rightarrow> string \<Rightarrow> bool" where
  "shell_basename_is word name \<longleftrightarrow> basename word = name"

text \<open>\<open>next_word_end\<close>: the word at the front, \<open>None\<close> at the end of input or on white space.\<close>

definition next_word :: "string \<Rightarrow> (string \<times> string) option" where
  "next_word s =
     (case s of
        [] \<Rightarrow> None
      | c # _ \<Rightarrow>
          if is_ascii_whitespace c then None
          else Some (takeWhile (\<lambda>x. \<not> is_ascii_whitespace x) s, dropWhile (\<lambda>x. \<not> is_ascii_whitespace x) s))"

definition skip_spaces :: "string \<Rightarrow> string" where
  "skip_spaces s = dropWhile is_ascii_whitespace s"

definition strip_shell_dash_c_prefix :: "string \<Rightarrow> string option" where
  "strip_shell_dash_c_prefix cmd =
     (case next_word (trim_start cmd) of
        None \<Rightarrow> None
      | Some (shell, r1) \<Rightarrow>
          if \<not> shell_basename_is shell ''bash'' \<and> \<not> shell_basename_is shell ''sh'' then None
          else
            case next_word (skip_spaces r1) of
              None \<Rightarrow> None
            | Some (flag, r2) \<Rightarrow>
                if flag \<noteq> ''-c'' then None
                else if skip_spaces r2 = [] then None
                else Some (skip_spaces r2))"

text \<open>\<open>out\<close> is reversed.\<close>

fun extract_quoted_loop :: "char \<Rightarrow> string \<Rightarrow> string \<Rightarrow> string option" where
  "extract_quoted_loop quote out [] = None"
| "extract_quoted_loop quote out (b # rest) =
     (if quote = double_quote \<and> b = backslash \<and> rest \<noteq> []
      then extract_quoted_loop quote (hd rest # out) (tl rest)
      else if b = quote then (if trim rest = [] then Some (rev out) else None)
      else extract_quoted_loop quote (b # out) rest)"

definition extract_single_quoted_argument :: "string \<Rightarrow> string option" where
  "extract_single_quoted_argument s =
     (case trim s of
        quote # rest \<Rightarrow>
          if rest = [] then None
          else if quote \<noteq> double_quote \<and> quote \<noteq> single_quote then None
          else extract_quoted_loop quote [] rest
      | [] \<Rightarrow> None)"

text \<open>The inner command of a shell wrapper, up to the recursive classification.\<close>

definition wrapped_inner_command :: "string \<Rightarrow> string option" where
  "wrapped_inner_command cmd =
     (case strip_shell_dash_c_prefix (trim cmd) of
        None \<Rightarrow> None
      | Some rest \<Rightarrow>
          (case extract_single_quoted_argument (trim_start rest) of
             None \<Rightarrow> None
           | Some inner \<Rightarrow> if trim inner = [] then None else Some inner))"

text \<open>The rest of \<open>try_classify_wrapped_command\<close>, given the inner classification.\<close>

definition wrap_inner_classification :: "string \<Rightarrow> classification \<Rightarrow> classification option" where
  "wrap_inner_classification inner c =
     (if \<not> is_compilation c then None
      else
        let (pfx, ext) =
          (case (command_prefix c, extracted_command c) of
             (Some p, Some e) \<Rightarrow> (p, e)
           | _ \<Rightarrow> ([], trim inner))
        in (case kind c of
              None \<Rightarrow> None
            | Some k \<Rightarrow>
                Some (compound_compilation k (confidence c)
                        ''shell -c wrapper with compilation command'' pfx ext)))"

section \<open>Benign suffixes\<close>

definition try_classify_benign_suffix_command :: "string \<Rightarrow> classification option" where
  "try_classify_benign_suffix_command cmd0 =
     (let cmd = trim cmd0
      in if newline \<in> set cmd \<or> carriage_return \<in> set cmd then None
         else if contains_str cmd ''&&'' \<or> contains_str cmd ''||'' \<or> contains_str cmd '';'' then None
         else if contains_str cmd ''('' \<or> contains_str cmd [backtick] \<or> contains_str cmd ''$('' then None
         else
           case find_first_structural_boundary cmd of
             None \<Rightarrow> None
           | Some b \<Rightarrow>
               let leading = trim (take (byte_pos b) cmd);
                   sfx = drop (byte_pos b) cmd
               in if leading = [] then None
                  else if \<not> suffix_is_benign (bkind b) sfx then None
                  else
                    let c = classify_segment leading
                    in if \<not> is_compilation c then None
                       else
                         (case kind c of
                            None \<Rightarrow> None
                          | Some k \<Rightarrow>
                              Some (compound_compilation k (confidence c)
                                ''compilation command with benign trailing redirect/pipe/background''
                                [] cmd)))"

section \<open>The classifier\<close>

definition MAX_SPLIT_INPUT_LEN :: nat where
  "MAX_SPLIT_INPUT_LEN = 10 * 1024"

lemma extract_quoted_loop_length:
  "extract_quoted_loop q out s = Some r \<Longrightarrow> length r < length out + length s"
proof (induction q out s rule: extract_quoted_loop.induct)
  case (1 quote out)
  then show ?case by simp
next
  case (2 quote out b rest)
  then show ?case by (cases rest) (fastforce split: if_splits)+
qed

lemma skip_spaces_le: "length (skip_spaces s) \<le> length s"
  by (simp add: skip_spaces_def length_dropWhile_le)

lemma next_word_le: "next_word s = Some (w, r) \<Longrightarrow> length r \<le> length s"
  by (auto simp: next_word_def le_SucI [OF length_dropWhile_le] split: list.splits if_splits)

lemma strip_shell_dash_c_prefix_le:
  assumes "strip_shell_dash_c_prefix cmd = Some rest"
  shows "length rest \<le> length cmd"
proof -
  obtain w1 r1 w2 r2 where w: "next_word (trim_start cmd) = Some (w1, r1)"
    "next_word (skip_spaces r1) = Some (w2, r2)" "rest = skip_spaces r2"
    using assms
    by (auto simp: strip_shell_dash_c_prefix_def split: option.splits prod.splits if_splits)
  note next_word_le [OF w(1)] next_word_le [OF w(2)] skip_spaces_le [of r1] skip_spaces_le [of r2]
    length_trim_start [of cmd]
  then show ?thesis unfolding w(3) by linarith
qed

lemma wrapped_inner_command_less:
  assumes "wrapped_inner_command cmd = Some inner"
  shows "length inner < length cmd"
proof -
  obtain rest where rest: "strip_shell_dash_c_prefix (trim cmd) = Some rest"
    "extract_single_quoted_argument (trim_start rest) = Some inner"
    using assms by (auto simp: wrapped_inner_command_def split: option.splits if_splits)
  obtain q r where q: "trim (trim_start rest) = q # r" "extract_quoted_loop q [] r = Some inner"
    using rest(2) by (auto simp: extract_single_quoted_argument_def split: list.splits if_splits)
  have "length inner < length (q # r)" using extract_quoted_loop_length [OF q(2)] by simp
  also have "length (q # r) \<le> length rest"
    unfolding q(1) [symmetric] by (meson le_trans length_trim length_trim_start)
  also have "length rest \<le> length cmd"
    using strip_shell_dash_c_prefix_le [OF rest(1)] le_trans length_trim by blast
  finally show ?thesis .
qed

function classify_command_inner :: "string \<Rightarrow> nat \<Rightarrow> classification" where
  "classify_command_inner cmd0 depth =
     (let cmd = trim cmd0
      in if cmd = [] then not_compilation ''empty command''
         else if depth = 0 \<and> length cmd < MAX_SPLIT_INPUT_LEN then
           (case try_classify_compound_command cmd of
              Some r \<Rightarrow> r
            | None \<Rightarrow>
                (case (case wrapped_inner_command cmd of
                         None \<Rightarrow> None
                       | Some inner \<Rightarrow>
                           wrap_inner_classification inner (classify_command_inner inner 0)) of
                   Some r \<Rightarrow> r
                 | None \<Rightarrow>
                     (case try_classify_benign_suffix_command cmd of
                        Some r \<Rightarrow> r
                      | None \<Rightarrow> classify_tiers cmd)))
         else classify_tiers cmd)"
  by pat_completeness auto
termination
proof (relation "measure (\<lambda>(cmd, d). length cmd)", simp)
  fix cmd0 cmd inner :: string and depth :: nat
  assume "cmd = trim cmd0" "wrapped_inner_command cmd = Some inner"
  then have "length inner < length cmd0"
    using wrapped_inner_command_less less_le_trans length_trim by blast
  then show "((inner, 0), cmd0, depth) \<in> measure (\<lambda>(cmd, d). length cmd)" by simp
qed

declare classify_command_inner.simps [simp del]

definition classify_command :: "string \<Rightarrow> classification" where
  "classify_command cmd = classify_command_inner cmd 0"

definition try_classify_wrapped_command :: "string \<Rightarrow> classification option" where
  "try_classify_wrapped_command cmd =
     (case wrapped_inner_command cmd of
        None \<Rightarrow> None
      | Some inner \<Rightarrow> wrap_inner_classification inner (classify_command_inner inner 0))"

definition declined_compilation_due_to_structure :: "string \<Rightarrow> string option" where
  "declined_compilation_due_to_structure cmd =
     (let trimmed = trim cmd
      in if trimmed = [] then None
         else if is_compilation (classify_command trimmed) then None
         else
           case check_structure trimmed of
             None \<Rightarrow> None
           | Some r \<Rightarrow>
               if starts_with_compilation_command (normalize_command trimmed) then Some r else None)"

text \<open>Best sub-command of a segment list, first among equals.\<close>

fun best_compilation :: "nat \<Rightarrow> classification option \<Rightarrow> string list \<Rightarrow> classification option" where
  "best_compilation depth best [] = best"
| "best_compilation depth best (seg # segs) =
     (let r = classify_command_inner seg (Suc depth)
      in if is_compilation r \<and> (case best of Some p \<Rightarrow> confidence r > confidence p | None \<Rightarrow> True)
         then best_compilation depth (Some r) segs
         else best_compilation depth best segs)"

definition classify_multi_command :: "string list \<Rightarrow> nat \<Rightarrow> classification" where
  "classify_multi_command segments depth =
     (case best_compilation depth None segments of
        Some c \<Rightarrow> c
      | None \<Rightarrow> not_compilation ''no sub-command is compilation'')"

section \<open>The diagnostic classifier\<close>

datatype tier_decision = Pass | Reject

record classification_tier =
  tier :: nat
  tier_name :: string
  decision :: tier_decision
  tier_reason :: string

record classification_details =
  original :: string
  normalized :: string
  tiers :: "classification_tier list"
  classification :: classification

definition mk_tier :: "nat \<Rightarrow> tier_decision \<Rightarrow> string \<Rightarrow> classification_tier" where
  "mk_tier n d r =
     \<lparr>tier = n,
      tier_name =
        [''instant_reject'', ''structure_analysis'', ''keyword_filter'', ''never_intercept'',
         ''full_classification''] ! n,
      decision = d, tier_reason = r\<rparr>"

definition mk_details ::
  "string \<Rightarrow> string \<Rightarrow> classification_tier list \<Rightarrow> classification \<Rightarrow> classification_details" where
  "mk_details orig nrm ts c =
     \<lparr>original = orig, normalized = nrm, tiers = ts, classification = c\<rparr>"

text \<open>The three splitting forms in order, each with the reason recorded for Tier 1.\<close>

definition try_split_forms :: "string \<Rightarrow> (classification \<times> string) option" where
  "try_split_forms cmd =
     (case try_classify_compound_command cmd of
        Some c \<Rightarrow> Some (c, ''safe compound command with compilation suffix'')
      | None \<Rightarrow>
          (case try_classify_wrapped_command cmd of
             Some c \<Rightarrow> Some (c, ''shell -c wrapper with compilation command'')
           | None \<Rightarrow>
               (case try_classify_benign_suffix_command cmd of
                  Some c \<Rightarrow>
                    Some (c, ''compilation command with benign trailing redirect/pipe/background'')
                | None \<Rightarrow> None)))"

definition classify_command_detailed :: "string \<Rightarrow> classification_details" where
  "classify_command_detailed cmd0 =
     (let cmd = trim cmd0
      in if cmd = [] then
           mk_details cmd0 cmd [mk_tier 0 Reject ''empty command''] (not_compilation ''empty command'')
         else
           let t0 = mk_tier 0 Pass ''command present''
           in case (if length cmd < MAX_SPLIT_INPUT_LEN then try_split_forms cmd else None) of
                Some (c, structure_reason) \<Rightarrow>
                  mk_details cmd0
                    (case extracted_command c of Some e \<Rightarrow> e | None \<Rightarrow> cmd)
                    [t0, mk_tier 1 Pass structure_reason,
                     mk_tier 2 Pass ''keyword present in extracted command'',
                     mk_tier 3 Pass ''extracted command passed never-intercept checks'',
                     mk_tier 4 Pass (reason c)]
                    c
              | None \<Rightarrow>
                  (case check_structure cmd of
                     Some r \<Rightarrow> mk_details cmd0 cmd [t0, mk_tier 1 Reject r] (not_compilation r)
                   | None \<Rightarrow>
                       let t1 = mk_tier 1 Pass ''no pipes/redirects/backgrounding'';
                           nrm = normalize_command cmd
                       in if \<not> starts_with_compilation_command nrm
                          then
                            mk_details cmd0 nrm
                              [t0, t1, mk_tier 2 Reject ''no compilation keyword'']
                              (not_compilation ''no compilation keyword'')
                          else
                            let t2 = mk_tier 2 Pass ''keyword present''
                            in case find (never_intercept_match nrm) NEVER_INTERCEPT of
                                 Some pat \<Rightarrow>
                                   let r = ''matches never-intercept: '' @ pat
                                   in mk_details cmd0 nrm [t0, t1, t2, mk_tier 3 Reject r]
                                        (not_compilation r)
                               | None \<Rightarrow>
                                   let t3 = mk_tier 3 Pass ''no never-intercept match'';
                                       c = classify_full nrm
                                   in mk_details cmd0 nrm
                                        [t0, t1, t2, t3,
                                         mk_tier 4 (if is_compilation c then Pass else Reject) (reason c)]
                                        c))"

section \<open>Tier 4 names the program it saw\<close>

text \<open>The program names a kind stands for.\<close>

fun programs :: "compilation_kind \<Rightarrow> string list" where
  "programs CargoZigbuild = [''cargo'', ''cargo-zigbuild'']"
| "programs Gcc = [''gcc'', ''cc'']"
| "programs Gpp = [''g++'', ''c++'']"
| "programs NixBuild = [''nix'', ''nix-build'']"
| "programs Tsc = [''tsc'', ''npx'']"
| "programs k = [command_base k]"

definition plain_verdict :: "string \<Rightarrow> classification \<Rightarrow> bool" where
  "plain_verdict n c \<longleftrightarrow>
     command_prefix c = None \<and> extracted_command c = None \<and>
     (if is_compilation c
      then (\<exists>k. kind c = Some k \<and> hd (split_whitespace n) \<in> set (programs k))
           \<and> 85/100 \<le> confidence c \<and> confidence c \<le> 95/100
      else kind c = None \<and> confidence c = 0)"

lemma plain_verdict_not [simp]: "plain_verdict n (not_compilation r)"
  by (simp add: plain_verdict_def not_compilation_def)

lemma plain_verdict_compilation [simp]:
  "plain_verdict n (compilation k conf r) \<longleftrightarrow>
     hd (split_whitespace n) \<in> set (programs k) \<and> 85/100 \<le> conf \<and> conf \<le> 95/100"
  by (auto simp: plain_verdict_def compilation_def)
















section \<open>What an accepted command looks like\<close>

text \<open>A command that may be sent to a worker on its own: nothing outside quotes is a shell
  operator, the program is a compiler or build tool of the reported kind, and the never-intercept
  table does not list it.\<close>

definition offloadable :: "string \<Rightarrow> compilation_kind \<Rightarrow> bool" where
  "offloadable cmd k \<longleftrightarrow>
     exposed_chars cmd \<inter> shell_operators = {} \<and> \<not> has_file_redirect cmd \<and>
     starts_with_compilation_command (normalize_command cmd) \<and>
     \<not> list_ex (never_intercept_match (normalize_command cmd)) NEVER_INTERCEPT \<and>
     hd (split_whitespace (normalize_command cmd)) \<in> set (programs k)"



lemma compound_fields [simp]:
  "is_compilation (compound_compilation k conf r p e)"
  "kind (compound_compilation k conf r p e) = Some k"
  "confidence (compound_compilation k conf r p e) = conf"
  "command_prefix (compound_compilation k conf r p e) = Some p"
  "extracted_command (compound_compilation k conf r p e) = Some e"
  by (simp_all add: compound_compilation_def)

text \<open>An accepted \<open>&&\<close> chain: the last segment is sent, the text before it is kept, and what the
  rewrite drops behind it is white space and ampersands.\<close>

lemma compound_accepts:
  assumes "try_classify_compound_command cmd = Some c"
  shows "\<exists>k p e r. c = compound_compilation k (confidence (classify_segment e))
             ''compound command with compilation suffix'' p e
           \<and> is_compilation (classify_segment e) \<and> kind (classify_segment e) = Some k
           \<and> cmd = p @ e @ r \<and> set r \<subseteq> Collect is_whitespace \<union> {CHR ''&''} \<and> trim e = e"
proof -
  obtain segments e j k where s: "split_and_chain cmd = Some segments" "e = trim (last segments)"
    "is_compilation (classify_segment e)" "kind (classify_segment e) = Some k" "rfind cmd e = Some j"
    "c = compound_compilation k (confidence (classify_segment e))
           ''compound command with compilation suffix'' (take j cmd) e"
    using assms
    by (auto simp: try_classify_compound_command_def Let_def split: if_splits option.splits)
  obtain a b where ab: "cmd = a @ last segments @ b" "set b \<subseteq> Collect is_whitespace \<union> {CHR ''&''}"
    using split_and_chain_last [OF s(1)] by (auto simp: tail_is_def)
  obtain x y where xy: "last segments = x @ e @ y" "set y \<subseteq> Collect is_whitespace"
    using trim_decomp [of "last segments"] s(2) by auto
  have cmd: "cmd = (a @ x) @ e @ (y @ b)" using ab(1) xy(1) by simp
  obtain r where r: "drop j cmd = e @ r" "set r \<subseteq> set (y @ b)"
    using rfind_rest [of "a @ x" e "y @ b" j] s(5) cmd by auto
  then have "cmd = take j cmd @ e @ r" by (metis append_take_drop_id)
  moreover have "set r \<subseteq> Collect is_whitespace \<union> {CHR ''&''}" using r(2) xy(2) ab(2) by auto
  ultimately show ?thesis using s by (metis trim_idem)
qed

text \<open>A trailing structure the source calls benign: backgrounding at the very end, output
  redirects, or one pipe into a pager. Neither of the last two exposes a further pipe or an input
  redirect.\<close>

definition benign_tail :: "string \<Rightarrow> bool" where
  "benign_tail sfx \<longleftrightarrow>
     (\<exists>rest. sfx = CHR ''&'' # rest \<and> trim rest = []) \<or>
     (\<exists>rest. sfx = CHR ''>'' # rest \<and> exposed_chars sfx \<inter> {CHR ''|'', CHR ''<''} = {}) \<or>
     (\<exists>rest. sfx = CHR ''|'' # rest \<and> split_whitespace (trim rest) \<noteq> []
        \<and> basename (hd (split_whitespace (trim rest))) \<in> set BENIGN_PAGER_COMMANDS
        \<and> exposed_chars (trim rest) \<inter> {CHR ''|'', CHR ''<''} = {})"

lemma boundary_guard_sublist:
  assumes "boundary_guard t" "sublist s t"
  shows "boundary_guard s"
proof -
  have "set s \<subseteq> set t" using assms(2) by (rule set_mono_sublist)
  moreover have "sublist p s \<Longrightarrow> sublist p t" for p using assms(2) sublist_order.order_trans by blast
  ultimately show ?thesis using assms(1) by (auto simp: boundary_guard_def contains_str_iff)
qed

lemma trim_take:
  "\<exists>w. take n (trim s) = trim (take n (trim s)) @ w \<and> set w \<subseteq> Collect is_whitespace"
proof -
  obtain a b where ab: "take n (trim s) = a @ trim (take n (trim s)) @ b"
    "set a \<subseteq> Collect is_whitespace" "set b \<subseteq> Collect is_whitespace"
    using trim_decomp by blast
  have "a = []"
  proof (cases a)
    case (Cons c cs)
    with ab(1) have "trim s \<noteq> []" "hd (trim s) = c" by (cases "trim s"; cases n; simp)+
    with trim_start_hd [of "trim s"] ab(2) Cons show ?thesis by simp
  qed
  with ab show ?thesis by auto
qed

lemma pager_nonempty: "basename [] \<notin> set BENIGN_PAGER_COMMANDS"
  by (simp add: basename_def BENIGN_PAGER_COMMANDS_def)

lemma suffix_is_benign_tail:
  assumes "suffix_is_benign k (boundary_char k # rest)" "boundary_guard (boundary_char k # rest)"
  shows "benign_tail (boundary_char k # rest)"
proof (cases k)
  case Pipe
  have d: "dropWhile (\<lambda>c. c = CHR ''|'') rest = rest"
    using boundary_guard_Cons [OF assms(2)] Pipe
    by (cases rest) (auto simp: boundary_char_def next_is_def)
  have "boundary_guard (trim rest)"
    using boundary_guard_Cons [OF assms(2)] boundary_guard_sublist sublist_trim by blast
  with assms(1) Pipe show ?thesis
    using suffix_has_disallowed_followup_sound [of "trim rest"]
    by (auto simp: suffix_is_benign_def benign_tail_def boundary_char_def d Let_def pager_nonempty
        split: if_splits list.splits)
next
  case Background
  have "dropWhile (\<lambda>c. c = CHR ''&'') rest = rest"
    using boundary_guard_Cons [OF assms(2)] Background
    by (cases rest) (auto simp: boundary_char_def next_is_def)
  with assms(1) Background show ?thesis
    by (simp add: suffix_is_benign_def benign_tail_def boundary_char_def)
next
  case OutputRedirect
  with assms suffix_has_disallowed_followup_sound show ?thesis
    by (simp add: suffix_is_benign_def benign_tail_def boundary_char_def)
next
  case InputRedirect
  with assms(1) show ?thesis by (simp add: suffix_is_benign_def)
qed

lemma benign_suffix_accepts:
  assumes "try_classify_benign_suffix_command cmd = Some c"
  shows "\<exists>k core w sfx. c = compound_compilation k (confidence (classify_segment core))
             ''compilation command with benign trailing redirect/pipe/background'' [] (trim cmd)
           \<and> is_compilation (classify_segment core) \<and> kind (classify_segment core) = Some k
           \<and> trim cmd = core @ w @ sfx \<and> trim core = core \<and> set w \<subseteq> Collect is_whitespace
           \<and> benign_tail sfx"
proof -
  let ?t = "trim cmd"
  obtain b k where b: "find_first_structural_boundary ?t = Some b"
    "suffix_is_benign (bkind b) (drop (byte_pos b) ?t)"
    "is_compilation (classify_segment (trim (take (byte_pos b) ?t)))"
    "kind (classify_segment (trim (take (byte_pos b) ?t))) = Some k"
    "c = compound_compilation k (confidence (classify_segment (trim (take (byte_pos b) ?t))))
           ''compilation command with benign trailing redirect/pipe/background'' [] ?t"
    and guard: "boundary_guard ?t"
    using assms
    by (auto simp: try_classify_benign_suffix_command_def Let_def boundary_guard_def contains_str_iff
        split: if_splits option.splits)
  have at: "boundary_at lex_start 0 ?t b"
    using b(1) find_boundary_Some by (simp add: find_first_structural_boundary_def)
  then obtain rest where rest: "drop (byte_pos b) ?t = boundary_char (bkind b) # rest"
    by (auto simp: boundary_at_def Cons_nth_drop_Suc [symmetric])
  have "benign_tail (drop (byte_pos b) ?t)"
    using suffix_is_benign_tail b(2) boundary_guard_drop [OF guard, of "byte_pos b"]
    unfolding rest by blast
  moreover obtain w where "take (byte_pos b) ?t = trim (take (byte_pos b) ?t) @ w"
    "set w \<subseteq> Collect is_whitespace"
    using trim_take by blast
  moreover from this have "?t = trim (take (byte_pos b) ?t) @ w @ drop (byte_pos b) ?t"
    by (metis append.assoc append_take_drop_id)
  ultimately show ?thesis using b(3-5) by (metis trim_idem)
qed











section \<open>Agreement of the other entry points\<close>

lemma compound_compiles: "try_classify_compound_command cmd = Some c \<Longrightarrow> is_compilation c"
  by (drule compound_accepts) auto

lemma benign_suffix_compiles: "try_classify_benign_suffix_command cmd = Some c \<Longrightarrow> is_compilation c"
  by (drule benign_suffix_accepts) auto

lemma wrapped_compiles: "wrap_inner_classification inner c' = Some c \<Longrightarrow> is_compilation c"
  by (auto simp: wrap_inner_classification_def Let_def split: if_splits option.splits)

text \<open>\<open>classify_command\<close> through the same split forms the diagnostic entry point uses.\<close>

lemma classify_command_forms:
  "classify_command cmd =
     (if trim cmd = [] then not_compilation ''empty command''
      else case (if length (trim cmd) < MAX_SPLIT_INPUT_LEN then try_split_forms (trim cmd) else None) of
             Some (c, _) \<Rightarrow> c
           | None \<Rightarrow> classify_tiers (trim cmd))"
  by (auto simp: classify_command_def classify_command_inner.simps [of cmd] Let_def try_split_forms_def
      try_classify_wrapped_command_def split: option.split)

lemma try_split_forms_compile: "try_split_forms cmd = Some (c, r) \<Longrightarrow> is_compilation c"
  by (auto simp: try_split_forms_def try_classify_wrapped_command_def split: option.splits
      dest: compound_compiles benign_suffix_compiles wrapped_compiles)

lemma classify_tiers_structure: "check_structure cmd = Some r \<Longrightarrow> classify_tiers cmd = not_compilation r"
  by (simp add: classify_tiers_def)

lemma not_compilation_fields [simp]:
  "\<not> is_compilation (not_compilation r)" "reason (not_compilation r) = r"
  by (simp_all add: not_compilation_def)

lemma details_fields [simp]:
  "classification (mk_details a b c d) = d" "tiers (mk_details a b c d) = c"
  by (simp_all add: mk_details_def)

lemma tier_fields [simp]: "tier (mk_tier n d r) = n" "decision (mk_tier n d r) = d"
  by (simp_all add: mk_tier_def)

text \<open>C32: The diagnostic classifier and the hook classifier return the same verdict on every
  command: acceptance, kind, confidence and rewrite are equal, only the wording of the reason may
  differ (the diagnostic one names the never-intercept pattern that matched).\<close>

theorem classify_command_detailed_agrees:
  "(classification (classify_command_detailed cmd)) \<lparr>reason := reason (classify_command cmd)\<rparr>
     = classify_command cmd"
proof -
  have "list_ex (never_intercept_match n) NEVER_INTERCEPT \<longleftrightarrow>
      find (never_intercept_match n) NEVER_INTERCEPT \<noteq> None" for n
    by (auto simp: find_None_iff list_ex_iff)
  then show ?thesis
    by (auto simp: classify_command_detailed_def classify_command_forms classify_tiers_def Let_def
        not_compilation_def split: option.split prod.split)
qed

text \<open>A trace records an initial run of the tiers, all but the last passed, and the verdict is
  acceptance exactly when the last passed too.\<close>

definition trace_ok :: "classification_details \<Rightarrow> bool" where
  "trace_ok d \<longleftrightarrow>
     map tier (tiers d) = [0..<length (tiers d)] \<and> 1 \<le> length (tiers d) \<and> length (tiers d) \<le> 5
     \<and> list_all (\<lambda>t. decision t = Pass) (butlast (tiers d))
     \<and> (is_compilation (classification d) \<longleftrightarrow> list_all (\<lambda>t. decision t = Pass) (tiers d))"

lemma trace_ok_runs:
  "trace_ok (mk_details a b [mk_tier 0 d r0] c) \<longleftrightarrow> (is_compilation c \<longleftrightarrow> d = Pass)"
  "trace_ok (mk_details a b [mk_tier 0 Pass r0, mk_tier 1 d r1] c) \<longleftrightarrow> (is_compilation c \<longleftrightarrow> d = Pass)"
  "trace_ok (mk_details a b [mk_tier 0 Pass r0, mk_tier 1 Pass r1, mk_tier 2 d r2] c) \<longleftrightarrow>
     (is_compilation c \<longleftrightarrow> d = Pass)"
  "trace_ok (mk_details a b [mk_tier 0 Pass r0, mk_tier 1 Pass r1, mk_tier 2 Pass r2, mk_tier 3 d r3] c)
     \<longleftrightarrow> (is_compilation c \<longleftrightarrow> d = Pass)"
  "trace_ok (mk_details a b
     [mk_tier 0 Pass r0, mk_tier 1 Pass r1, mk_tier 2 Pass r2, mk_tier 3 Pass r3, mk_tier 4 d r4] c)
     \<longleftrightarrow> (is_compilation c \<longleftrightarrow> d = Pass)"
  by (simp_all add: trace_ok_def upt_conv_Cons)

text \<open>The tier trace of the diagnostic classifier is an initial run 0, 1, 2, ... of the five
  tiers in order, all but the last passed, and the command is accepted exactly when every recorded
  tier passed.\<close>

theorem classify_command_detailed_trace: "trace_ok (classify_command_detailed cmd)"
proof (cases "trim cmd = []")
  case True
  then show ?thesis by (simp add: classify_command_detailed_def trace_ok_runs)
next
  case False
  then show ?thesis
    unfolding classify_command_detailed_def Let_def
    by (auto simp: trace_ok_runs simp del: One_nat_def split: option.split dest: try_split_forms_compile)
qed

text \<open>A structural decline is reported only for a command that the classifier rejects, for
  exactly the structural reason the classifier gives, and whose program is a compilation tool.\<close>

theorem declined_compilation_reports_reason:
  assumes "declined_compilation_due_to_structure cmd = Some r"
  shows "classify_command cmd = not_compilation r
         \<and> starts_with_compilation_command (normalize_command (trim cmd))"
proof -
  have d: "trim cmd \<noteq> []" "\<not> is_compilation (classify_command (trim cmd))"
    "check_structure (trim cmd) = Some r" "starts_with_compilation_command (normalize_command (trim cmd))"
    using assms
    by (auto simp: declined_compilation_due_to_structure_def Let_def split: if_splits option.splits)
  have "classify_command (trim cmd) = classify_command cmd" 
    by (simp add: classify_command_forms split: option.split)
  with d try_split_forms_compile [of "trim cmd"] classify_tiers_structure [OF d(3)] show ?thesis
    by (auto simp: classify_command_forms split: option.splits if_splits)
qed

theorem declined_compilation_reports_reason_witness:
  "classify_command ''cargo build | sort'' = not_compilation ''piped command''"
proof -
  have "declined_compilation_due_to_structure ''cargo build | sort'' = Some ''piped command''"
    by code_simp
  from declined_compilation_reports_reason [OF this] show ?thesis ..
qed

section \<open>Several sub-commands\<close>

lemma best_compilation_ge:
  "best_compilation d best segs = Some b \<Longrightarrow>
     pred_option (\<lambda>p. confidence p \<le> confidence b) best \<and>
     list_all (\<lambda>s. is_compilation (classify_command_inner s (Suc d)) \<longrightarrow>
       confidence (classify_command_inner s (Suc d)) \<le> confidence b) segs"
proof (induction segs arbitrary: best)
  case Nil
  then show ?case by simp
next
  case (Cons seg segs)
  let ?r = "classify_command_inner seg (Suc d)"
  let ?best = "if is_compilation ?r \<and> (case best of Some p \<Rightarrow> confidence ?r > confidence p | None \<Rightarrow> True)
    then Some ?r else best"
  have "best_compilation d ?best segs = Some b" using Cons.prems by (auto simp: Let_def split: if_splits)
  from Cons.IH [OF this] show ?case
    by (cases best; cases "is_compilation ?r") (auto split: if_splits)
qed

lemma best_compilation_from:
  "best_compilation d best segs = Some b \<Longrightarrow>
     best = Some b \<or> is_compilation b \<and> (\<exists>s\<in>set segs. b = classify_command_inner s (Suc d))"
  by (induction segs arbitrary: best) (auto simp: Let_def split: if_splits)

lemma best_compilation_None:
  "best_compilation d best segs = None \<Longrightarrow>
     best = None \<and> list_all (\<lambda>s. \<not> is_compilation (classify_command_inner s (Suc d))) segs"
proof (induction segs arbitrary: best)
  case (Cons seg segs)
  then show ?case by (cases best) (auto simp: Let_def split: if_splits)
qed simp

text \<open>The verdict on a list of sub-commands is a compilation exactly when some sub-command is
  one, and then it is the verdict of a sub-command of maximal confidence.\<close>

theorem classify_multi_command_best:
  "let c = classify_multi_command segs d;
       sub = map (\<lambda>s. classify_command_inner s (Suc d)) segs
   in (is_compilation c \<longleftrightarrow> list_ex is_compilation sub)
      \<and> (is_compilation c \<longrightarrow>
           c \<in> set sub \<and> list_all (\<lambda>x. is_compilation x \<longrightarrow> confidence x \<le> confidence c) sub)"
proof (cases "best_compilation d None segs")
  case None
  then show ?thesis using best_compilation_None [OF None]
    by (auto simp: classify_multi_command_def list_ex_iff list_all_iff)
next
  case (Some b)
  then show ?thesis using best_compilation_ge [OF Some] best_compilation_from [OF Some]
    by (auto simp: classify_multi_command_def list_ex_iff list_all_iff)
qed

theorem classify_multi_command_best_witness:
  "confidence (classify_command_inner ''cargo doc'' 1) \<le> confidence (classify_multi_command [''cargo doc'', ''cargo build''] 0)"
proof -
  have "is_compilation (classify_multi_command [''cargo doc'', ''cargo build''] 0)"
    "is_compilation (classify_command_inner ''cargo doc'' (Suc 0))"
    by code_simp+
  then show ?thesis
    using classify_multi_command_best [of "[''cargo doc'', ''cargo build'']" 0] by (simp add: Let_def)
qed

section \<open>The shell wrapper\<close>

text \<open>Text as it stands inside double quotes: quotes and backslashes are escaped.\<close>

fun double_quoted :: "string \<Rightarrow> string" where
  "double_quoted [] = []"
| "double_quoted (c # cs) =
     (if c = double_quote \<or> c = backslash then backslash # c # double_quoted cs else c # double_quoted cs)"

lemma extract_double_quoted:
  "extract_quoted_loop double_quote out (double_quoted s @ [double_quote]) = Some (rev out @ s)"
proof (induction s arbitrary: out)
  case (Cons c cs)
  then show ?case by (cases "double_quoted cs") auto
qed simp

lemma extract_single_quoted:
  "single_quote \<notin> set s \<Longrightarrow> extract_quoted_loop single_quote out (s @ [single_quote]) = Some (rev out @ s)"
  by (induction s arbitrary: out) auto

lemma trim_quoted: "is_whitespace q = False \<Longrightarrow> trim (q # s @ [q]) = q # s @ [q]"
  by (simp add: trim_def trim_start_def trim_end_def)

lemma quotes_not_whitespace [simp]: "\<not> is_whitespace double_quote" "\<not> is_whitespace single_quote"
  by (simp_all add: is_whitespace_def)

text \<open>Extracting the argument of a shell wrapper inverts quoting: any text in double quotes
  with its quotes and backslashes escaped, and any text without a single quote in single quotes,
  is returned unchanged.\<close>

theorem extract_single_quoted_argument_quote:
  "extract_single_quoted_argument (double_quote # double_quoted s @ [double_quote]) = Some s
   \<and> (single_quote \<notin> set s \<longrightarrow>
        extract_single_quoted_argument (single_quote # s @ [single_quote]) = Some s)"
  using extract_double_quoted [of "[]" s] extract_single_quoted [of s "[]"]
  by (simp add: extract_single_quoted_argument_def trim_quoted)

theorem extract_single_quoted_argument_quote_witness:
  "extract_single_quoted_argument (single_quote # ''cargo test'' @ [single_quote]) = Some ''cargo test''"
  using extract_single_quoted_argument_quote [of "''cargo test''"] by simp

section \<open>Safety of interception\<close>



text \<open>C10: An accepted \<open>&&\<close> chain is rewritten without loss: the prefix and the extracted command
  are consecutive slices of the input, and what follows them is only white space and ampersands.
  The extracted command alone is accepted, with the same kind and confidence.\<close>

theorem compound_rewrite_lossless:
  assumes "try_classify_compound_command cmd = Some c"
  obtains p e r where
    "command_prefix c = Some p" "extracted_command c = Some e" "cmd = p @ e @ r"
    "set r \<subseteq> Collect is_whitespace \<union> {CHR ''&''}" "trim e = e"
    "is_compilation (classify_segment e)" "kind c = kind (classify_segment e)"
    "confidence c = confidence (classify_segment e)"
proof -
  obtain k p e r where "c = compound_compilation k (confidence (classify_segment e))
      ''compound command with compilation suffix'' p e"
    "is_compilation (classify_segment e)" "kind (classify_segment e) = Some k"
    "cmd = p @ e @ r" "set r \<subseteq> Collect is_whitespace \<union> {CHR ''&''}" "trim e = e"
    using compound_accepts [OF assms] by blast
  then show ?thesis by (intro that [of p e r]) simp_all
qed

theorem compound_rewrite_lossless_witness:
  "\<exists>c p e r. try_classify_compound_command ''cd a && cargo build'' = Some c
     \<and> ''cd a && cargo build'' = p @ e @ r \<and> is_compilation (classify_segment e)"
proof -
  have "try_classify_compound_command ''cd a && cargo build'' =
      Some (compound_compilation CargoBuild (95/100) ''compound command with compilation suffix''
              ''cd a && '' ''cargo build'')"
    by code_simp
  from compound_rewrite_lossless [OF this] this show ?thesis by metis
qed

text \<open>A command with a benign suffix is accepted verbatim: there is no prefix, the extracted
  command is the trimmed input, and it is an accepted single command followed by white space and a
  benign tail (no further pipe, no input redirect, pipes only into pagers).\<close>

theorem benign_suffix_verbatim:
  assumes "try_classify_benign_suffix_command cmd = Some c"
  obtains core w sfx where
    "command_prefix c = Some []" "extracted_command c = Some (trim cmd)"
    "trim cmd = core @ w @ sfx" "set w \<subseteq> Collect is_whitespace" "benign_tail sfx"
    "is_compilation (classify_segment core)" "kind c = kind (classify_segment core)"
proof -
  obtain k core w sfx where "c = compound_compilation k (confidence (classify_segment core))
      ''compilation command with benign trailing redirect/pipe/background'' [] (trim cmd)"
    "is_compilation (classify_segment core)" "kind (classify_segment core) = Some k"
    "trim cmd = core @ w @ sfx" "set w \<subseteq> Collect is_whitespace" "benign_tail sfx"
    using benign_suffix_accepts [OF assms] by blast
  then show ?thesis by (intro that [of core w sfx]) simp_all
qed

theorem benign_suffix_verbatim_witness:
  "\<exists>c core w sfx. try_classify_benign_suffix_command '' cargo test 2>&1 | head '' = Some c
     \<and> extracted_command c = Some ''cargo test 2>&1 | head''
     \<and> ''cargo test 2>&1 | head'' = core @ w @ sfx \<and> benign_tail sfx"
proof -
  have e: "try_classify_benign_suffix_command '' cargo test 2>&1 | head '' =
      Some (compound_compilation CargoTest (95/100)
              ''compilation command with benign trailing redirect/pipe/background''
              [] ''cargo test 2>&1 | head'')"
    and t: "trim '' cargo test 2>&1 | head '' = ''cargo test 2>&1 | head''"
    by code_simp+
  from benign_suffix_verbatim [OF e] e show ?thesis unfolding t by metis
qed

text \<open>A program given by an absolute path is cut from its directory only at a space, so a tab
  after it makes the path of its first argument part of the program word. A command that removes a
  file named like a compiler is then accepted for interception.\<close>

theorem absolute_path_tab_accepted:
  "let cmd = ''/bin/rm'' @ [CHR 0x09] @ ''/x/rustc y''
   in normalize_command cmd = ''rustc y''
      \<and> classify_command cmd = compilation Rustc (95/100) ''rustc invocation''
      \<and> \<not> is_compilation (classify_command ''/bin/rm /x/rustc y'')"
  by code_simp

text \<open>The never-intercept table is matched on single spaces, so a query that only prints a
  version is accepted for interception when two spaces separate its words.\<close>

theorem never_intercept_single_space:
  "\<not> is_compilation (classify_command ''rustc --version'')
   \<and> is_compilation (classify_command ''rustc  --version'')"
  by code_simp

end
