(* ===== verification/Lifecycle.thy ===== *)
theory Lifecycle
  imports Prelude
begin

text \<open>
  The two-axis worker lifecycle of \<open>rchd/src/workers.rs\<close> (\<open>WorkerLifecycle\<close>): the operator's
  intent and the live eligibility driven by health probes, with the bridge to the legacy
  single-axis status of \<open>rch-common/src/types.rs\<close>. Constructors that occur in several enums are
  written qualified, as in the source. The lemmas show that the axes are independent, that a
  quarantined worker rejoins only through a recovery probe and a canary, and that the legacy status
  schedules exactly the workers the lifecycle schedules.
\<close>

section \<open>Data\<close>

datatype worker_status = Healthy | Degraded | Unreachable | Draining | Drained | Disabled

datatype admin_intent = Active | Draining | Drained | Disabled

datatype eligibility_state = Healthy | Degraded | Unreachable | TemporaryBypass | RecoveredPendingCanary

datatype bypass_failure_class =
    Ssh | WorkerBinary | RuntimeToolchain | DiskInodePressure | StaleTelemetry | PathSync
  | ArtifactRetrieval | CircuitBreaker | OsArchMismatch

record illegal_lifecycle_transition =
  illegal_from :: eligibility_state
  illegal_to :: eligibility_state
  illegal_reason :: string

record worker_lifecycle =
  admin :: admin_intent
  eligibility :: eligibility_state
  bypass_cause :: "bypass_failure_class option"

definition lifecycle_new :: worker_lifecycle where
  "lifecycle_new = \<lparr>admin = Active, eligibility = eligibility_state.Healthy, bypass_cause = None\<rparr>"

section \<open>Operations\<close>

fun from_worker_status :: "worker_status \<Rightarrow> worker_lifecycle" where
  "from_worker_status worker_status.Healthy = lifecycle_new"
| "from_worker_status worker_status.Degraded =
     \<lparr>admin = Active, eligibility = eligibility_state.Degraded, bypass_cause = None\<rparr>"
| "from_worker_status worker_status.Unreachable =
     \<lparr>admin = Active, eligibility = eligibility_state.Unreachable, bypass_cause = None\<rparr>"
| "from_worker_status worker_status.Draining =
     \<lparr>admin = admin_intent.Draining, eligibility = eligibility_state.Healthy, bypass_cause = None\<rparr>"
| "from_worker_status worker_status.Drained =
     \<lparr>admin = admin_intent.Drained, eligibility = eligibility_state.Healthy, bypass_cause = None\<rparr>"
| "from_worker_status worker_status.Disabled =
     \<lparr>admin = admin_intent.Disabled, eligibility = eligibility_state.Healthy, bypass_cause = None\<rparr>"

definition legacy_status :: "worker_lifecycle \<Rightarrow> worker_status" where
  "legacy_status l =
     (case admin l of
        admin_intent.Disabled \<Rightarrow> worker_status.Disabled
      | admin_intent.Draining \<Rightarrow> worker_status.Draining
      | admin_intent.Drained \<Rightarrow> worker_status.Drained
      | Active \<Rightarrow>
          (case eligibility l of
             eligibility_state.Healthy \<Rightarrow> worker_status.Healthy
           | eligibility_state.Degraded \<Rightarrow> worker_status.Degraded
           | eligibility_state.Unreachable \<Rightarrow> worker_status.Unreachable
           | TemporaryBypass \<Rightarrow> worker_status.Unreachable
           | RecoveredPendingCanary \<Rightarrow> worker_status.Unreachable))"

definition is_schedulable :: "worker_lifecycle \<Rightarrow> bool" where
  "is_schedulable l \<longleftrightarrow>
     admin l = Active \<and> eligibility l \<in> {eligibility_state.Healthy, eligibility_state.Degraded}"

definition is_canary_pending :: "worker_lifecycle \<Rightarrow> bool" where
  "is_canary_pending l \<longleftrightarrow> admin l = Active \<and> eligibility l = RecoveredPendingCanary"

definition set_admin :: "admin_intent \<Rightarrow> worker_lifecycle \<Rightarrow> worker_lifecycle" where
  "set_admin i l = l\<lparr>admin := i\<rparr>"

definition observe_health :: "eligibility_state \<Rightarrow> worker_lifecycle \<Rightarrow> worker_lifecycle \<times> bool" where
  "observe_health health l =
     (let is_plain_health =
            health \<in> {eligibility_state.Healthy, eligibility_state.Degraded, eligibility_state.Unreachable};
          currently_quarantined = eligibility l \<in> {TemporaryBypass, RecoveredPendingCanary}
      in if \<not> is_plain_health \<or> currently_quarantined then (l, False)
         else (l\<lparr>eligibility := health\<rparr>, True))"

definition enter_bypass :: "bypass_failure_class \<Rightarrow> worker_lifecycle \<Rightarrow> worker_lifecycle" where
  "enter_bypass cause l = l\<lparr>eligibility := TemporaryBypass, bypass_cause := Some cause\<rparr>"

definition recover_to_canary ::
  "worker_lifecycle \<Rightarrow> illegal_lifecycle_transition + worker_lifecycle" where
  "recover_to_canary l =
     (if eligibility l \<noteq> TemporaryBypass
      then Inl \<lparr>illegal_from = eligibility l, illegal_to = RecoveredPendingCanary,
                illegal_reason = ''recovery to canary is only legal from temporary_bypass''\<rparr>
      else Inr (l\<lparr>eligibility := RecoveredPendingCanary, bypass_cause := None\<rparr>))"

definition promote_from_canary ::
  "worker_lifecycle \<Rightarrow> illegal_lifecycle_transition + worker_lifecycle" where
  "promote_from_canary l =
     (if eligibility l \<noteq> RecoveredPendingCanary
      then Inl \<lparr>illegal_from = eligibility l, illegal_to = eligibility_state.Healthy,
                illegal_reason = ''promotion is only legal from recovered_pending_canary''\<rparr>
      else Inr (l\<lparr>eligibility := eligibility_state.Healthy, bypass_cause := None\<rparr>))"

fun health_status_to_eligibility :: "worker_status \<Rightarrow> eligibility_state option" where
  "health_status_to_eligibility worker_status.Healthy = Some eligibility_state.Healthy"
| "health_status_to_eligibility worker_status.Degraded = Some eligibility_state.Degraded"
| "health_status_to_eligibility worker_status.Unreachable = Some eligibility_state.Unreachable"
| "health_status_to_eligibility _ = None"

definition lifecycle_accepts_new_builds :: "worker_lifecycle \<Rightarrow> bool" where
  "lifecycle_accepts_new_builds l \<longleftrightarrow>
     admin l \<notin> {admin_intent.Draining, admin_intent.Drained, admin_intent.Disabled}
     \<and> eligibility l \<notin> {TemporaryBypass, RecoveredPendingCanary}"

section \<open>The legacy status\<close>

definition legacy_schedulable :: "worker_status \<Rightarrow> bool" where
  "legacy_schedulable s \<longleftrightarrow> s = worker_status.Healthy \<or> s = worker_status.Degraded"

lemma legacy_schedulable_iff: "legacy_schedulable (legacy_status l) \<longleftrightarrow> is_schedulable l"
  by (cases "admin l"; cases "eligibility l")
    (simp_all add: legacy_schedulable_def legacy_status_def is_schedulable_def)

text \<open>The legacy status is a faithful view of the lifecycle: it admits a worker to scheduling
  exactly when the lifecycle does, every schedulable worker accepts slot reservations, a canary
  worker is never schedulable, and converting a status to a lifecycle and back is the identity.\<close>

theorem legacy_status_faithful:
  "legacy_schedulable (legacy_status l) = is_schedulable l
   \<and> (is_schedulable l \<longrightarrow> lifecycle_accepts_new_builds l)
   \<and> \<not> (is_schedulable l \<and> is_canary_pending l)
   \<and> legacy_status (from_worker_status s) = s"
proof -
  have "legacy_status (from_worker_status s) = s"
    by (cases s) (simp_all add: legacy_status_def lifecycle_new_def)
  then show ?thesis
    by (auto simp: legacy_schedulable_iff is_schedulable_def lifecycle_accepts_new_builds_def
        is_canary_pending_def)
qed

theorem legacy_status_faithful_witness:
  "lifecycle_accepts_new_builds lifecycle_new"
  using legacy_status_faithful [of lifecycle_new]
  by (simp add: is_schedulable_def lifecycle_new_def)

section \<open>The eligibility axis\<close>

text \<open>What probes and canaries do to a worker between two operator actions.\<close>

datatype live_event =
    Observe eligibility_state
  | Bypass bypass_failure_class
  | Recover
  | Promote

definition live_apply :: "live_event \<Rightarrow> worker_lifecycle \<Rightarrow> worker_lifecycle" where
  "live_apply e l =
     (case e of
        Observe h \<Rightarrow> fst (observe_health h l)
      | Bypass c \<Rightarrow> enter_bypass c l
      | Recover \<Rightarrow> (case recover_to_canary l of Inl _ \<Rightarrow> l | Inr l' \<Rightarrow> l')
      | Promote \<Rightarrow> (case promote_from_canary l of Inl _ \<Rightarrow> l | Inr l' \<Rightarrow> l'))"

primrec live_run :: "live_event list \<Rightarrow> worker_lifecycle \<Rightarrow> worker_lifecycle" where
  "live_run [] l = l"
| "live_run (e # es) l = live_run es (live_apply e l)"

lemmas lifecycle_defs =
  live_apply_def observe_health_def enter_bypass_def recover_to_canary_def promote_from_canary_def
  set_admin_def

lemma live_apply_admin [simp]: "admin (live_apply e l) = admin l"
  by (cases e) (simp_all add: lifecycle_defs Let_def)

lemma live_run_admin [simp]: "admin (live_run es l) = admin l"
  by (induction es arbitrary: l) simp_all

text \<open>No sequence of health observations, bypasses, recovery probes and canary promotions moves
  the operator's intent; so a worker the operator drained or disabled is not schedulable and takes no
  canary after any of them.\<close>

theorem live_events_keep_admin:
  "admin (live_run es l) = admin l
   \<and> (admin l \<noteq> Active \<longrightarrow> \<not> is_schedulable (live_run es l) \<and> \<not> is_canary_pending (live_run es l))"
  by (simp add: is_schedulable_def is_canary_pending_def)

theorem live_events_keep_admin_witness:
  "\<not> is_schedulable (live_run [Bypass Ssh, Recover, Promote, Observe eligibility_state.Healthy]
      (from_worker_status worker_status.Disabled))"
  using live_events_keep_admin [of "[Bypass Ssh, Recover, Promote, Observe eligibility_state.Healthy]"
      "from_worker_status worker_status.Disabled"] by simp

definition lifecycle_inv :: "worker_lifecycle \<Rightarrow> bool" where
  "lifecycle_inv l \<longleftrightarrow> (bypass_cause l \<noteq> None \<longleftrightarrow> eligibility l = TemporaryBypass)"

lemma lifecycle_inv_status [simp]: "lifecycle_inv (from_worker_status s)"
  by (cases s) (simp_all add: lifecycle_inv_def lifecycle_new_def)

lemma lifecycle_inv_ops [simp]:
  "lifecycle_inv lifecycle_new"
  "lifecycle_inv l \<Longrightarrow> lifecycle_inv (set_admin i l)"
  "lifecycle_inv l \<Longrightarrow> lifecycle_inv (live_apply e l)"
  by (auto simp: lifecycle_inv_def lifecycle_new_def lifecycle_defs Let_def
      split: live_event.split)

text \<open>A quarantine is explained exactly while it lasts: from a lifecycle in which the failure
  class is set if and only if the worker is bypassed, every sequence of live events and operator
  intents leads to another such lifecycle.\<close>

theorem bypass_cause_iff_bypassed:
  assumes "lifecycle_inv l"
  shows "lifecycle_inv (live_run es l) \<and> lifecycle_inv (set_admin i (live_run es l))"
proof -
  have "lifecycle_inv (live_run es l)" using assms by (induction es arbitrary: l) simp_all
  then show ?thesis by simp
qed

theorem bypass_cause_iff_bypassed_witness:
  "lifecycle_inv (live_run [Bypass Ssh] lifecycle_new)"
  using bypass_cause_iff_bypassed [of lifecycle_new "[Bypass Ssh]"] by simp

lemma live_apply_canary:
  assumes "eligibility l = RecoveredPendingCanary" "e \<noteq> Promote"
  shows "eligibility (live_apply e l) \<in> {TemporaryBypass, RecoveredPendingCanary}"
  using assms by (cases e) (simp_all add: lifecycle_defs Let_def)

lemma live_apply_bypassed:
  assumes "eligibility l = TemporaryBypass"
  shows "eligibility (live_apply e l) = (if e = Recover then RecoveredPendingCanary else TemporaryBypass)"
  using assms by (cases e) (simp_all add: lifecycle_defs Let_def)

lemma rejoin_needs_canary:
  assumes "is_schedulable (live_run es l)"
  shows "(eligibility l = TemporaryBypass \<longrightarrow> (\<exists>a b c. es = a @ Recover # b @ Promote # c)) \<and>
         (eligibility l = RecoveredPendingCanary \<longrightarrow> Promote \<in> set es)"
  using assms
proof (induction es arbitrary: l)
  case Nil
  then show ?case by (auto simp: is_schedulable_def)
next
  case (Cons e es)
  then have ih: "(eligibility (live_apply e l) = TemporaryBypass \<longrightarrow> (\<exists>a b c. es = a @ Recover # b @ Promote # c)) \<and>
      (eligibility (live_apply e l) = RecoveredPendingCanary \<longrightarrow> Promote \<in> set es)"
    by simp
  show ?case
  proof (intro conjI impI)
    assume byp: "eligibility l = TemporaryBypass"
    show "\<exists>a b c. e # es = a @ Recover # b @ Promote # c"
    proof (cases "e = Recover")
      case True
      with byp ih have "Promote \<in> set es" by (simp add: live_apply_bypassed)
      then obtain b c where "es = b @ Promote # c" by (meson split_list)
      with True have "e # es = [] @ Recover # b @ Promote # c" by simp
      then show ?thesis by blast
    next
      case False
      with byp ih obtain a b c where "es = a @ Recover # b @ Promote # c"
        by (auto simp: live_apply_bypassed)
      then have "e # es = (e # a) @ Recover # b @ Promote # c" by simp
      then show ?thesis by blast
    qed
  next
    assume can: "eligibility l = RecoveredPendingCanary"
    show "Promote \<in> set (e # es)"
    proof (cases "e = Promote")
      case False
      from live_apply_canary [OF can False] ih show ?thesis by auto
    qed simp
  qed
qed

text \<open>A quarantined worker rejoins only through the probe and canary path: if live events take
  a bypassed worker to a schedulable state, they contain a recovery probe and, after it, a canary
  promotion. Health observations alone never clear a quarantine.\<close>

theorem quarantine_needs_canary:
  assumes "eligibility l = TemporaryBypass" "is_schedulable (live_run es l)"
  shows "\<exists>a b c. es = a @ Recover # b @ Promote # c"
  using rejoin_needs_canary [OF assms(2)] assms(1) by blast

theorem quarantine_needs_canary_witness:
  "\<exists>a b c. [Recover, Observe eligibility_state.Healthy, Promote] = a @ Recover # b @ Promote # c"
  by (rule quarantine_needs_canary [of "enter_bypass Ssh lifecycle_new"])
    (simp_all add: lifecycle_defs lifecycle_new_def is_schedulable_def Let_def)

end
