(* ===== verification/Circuit.thy ===== *)
theory Circuit
  imports Complex_Main Prelude
begin

text \<open>
  The circuit breaker of \<open>rch-common/src/types.rs\<close> (\<open>CircuitStats\<close>), which gates a worker after
  failures and lets it back after a run of clean probes. Counters are \<open>32 word\<close> and times are
  \<open>64 word\<close>, so \<open>+= 1\<close> and \<open>* 1000\<close> wrap as they do in a release build. The error rate is a
  \<open>rat\<close>. The wall clock is an argument: \<open>apply_health_outcome\<close> takes one reading for each of its
  three steps, in the order it reads them, and nothing is assumed about their order.
\<close>

section \<open>Data\<close>

datatype circuit_state = Closed | Open | HalfOpen

record circuit_breaker_config =
  failure_threshold :: "32 word"
  success_threshold :: "32 word"
  error_rate_threshold :: rat
  window_secs :: "64 word"
  open_cooldown_secs :: "64 word"
  half_open_max_probes :: "32 word"

definition default_circuit_breaker_config :: circuit_breaker_config where
  "default_circuit_breaker_config =
     \<lparr>failure_threshold = 3, success_threshold = 2, error_rate_threshold = 1/2, window_secs = 60,
      open_cooldown_secs = 30, half_open_max_probes = 1\<rparr>"

record circuit_stats =
  cstate :: circuit_state
  consecutive_failures :: "32 word"
  consecutive_successes :: "32 word"
  window_successes :: "32 word"
  window_failures :: "32 word"
  opened_at :: "64 word option"
  last_state_change :: "64 word"
  active_probes :: "32 word"
  recent_results :: "bool list"

definition CIRCUIT_HISTORY_SIZE :: nat where
  "CIRCUIT_HISTORY_SIZE = 10"

definition circuit_new :: "64 word \<Rightarrow> circuit_stats" where
  "circuit_new now =
     \<lparr>cstate = Closed, consecutive_failures = 0, consecutive_successes = 0, window_successes = 0,
      window_failures = 0, opened_at = None, last_state_change = now, active_probes = 0,
      recent_results = []\<rparr>"

section \<open>Recording results\<close>

definition error_rate :: "circuit_stats \<Rightarrow> rat" where
  "error_rate s =
     (if recent_results s = [] then 0
      else of_nat (length (filter Not (recent_results s))) / of_nat (length (recent_results s)))"

definition push_result :: "bool \<Rightarrow> circuit_stats \<Rightarrow> circuit_stats" where
  "push_result ok s =
     s\<lparr>recent_results :=
         (if length (recent_results s) \<ge> CIRCUIT_HISTORY_SIZE then tl (recent_results s)
          else recent_results s) @ [ok]\<rparr>"

definition record_success :: "circuit_stats \<Rightarrow> circuit_stats" where
  "record_success s =
     (let s1 = push_result True
                 (s\<lparr>window_successes := window_successes s + 1, consecutive_failures := 0\<rparr>)
      in if cstate s1 = HalfOpen
         then s1\<lparr>consecutive_successes := consecutive_successes s1 + 1,
                 active_probes := (if active_probes s1 > 0 then active_probes s1 - 1 else active_probes s1)\<rparr>
         else s1)"

definition record_failure :: "circuit_stats \<Rightarrow> circuit_stats" where
  "record_failure s =
     (let s1 = push_result False
                 (s\<lparr>window_failures := window_failures s + 1,
                    consecutive_failures := consecutive_failures s + 1\<rparr>)
      in if cstate s1 = HalfOpen
         then s1\<lparr>consecutive_successes := 0,
                 active_probes := (if active_probes s1 > 0 then active_probes s1 - 1 else active_probes s1)\<rparr>
         else s1)"

section \<open>Decisions\<close>

definition should_open :: "circuit_breaker_config \<Rightarrow> circuit_stats \<Rightarrow> bool" where
  "should_open cfg s =
     (if cstate s \<noteq> Closed then False
      else if consecutive_failures s \<ge> failure_threshold cfg then True
      else length (recent_results s) \<ge> 5 \<and> error_rate s \<ge> error_rate_threshold cfg)"

definition should_half_open :: "circuit_breaker_config \<Rightarrow> 64 word \<Rightarrow> circuit_stats \<Rightarrow> bool" where
  "should_half_open cfg now s =
     (if cstate s \<noteq> Open then False
      else
        case opened_at s of
          None \<Rightarrow> False
        | Some t \<Rightarrow> saturating_sub now t \<ge> open_cooldown_secs cfg * 1000)"

definition should_close :: "circuit_breaker_config \<Rightarrow> circuit_stats \<Rightarrow> bool" where
  "should_close cfg s =
     (if cstate s \<noteq> HalfOpen then False else consecutive_successes s \<ge> success_threshold cfg)"

definition can_probe :: "circuit_breaker_config \<Rightarrow> circuit_stats \<Rightarrow> bool" where
  "can_probe cfg s = (if cstate s \<noteq> HalfOpen then False else active_probes s < half_open_max_probes cfg)"

definition start_probe :: "circuit_breaker_config \<Rightarrow> circuit_stats \<Rightarrow> circuit_stats \<times> bool" where
  "start_probe cfg s =
     (if \<not> can_probe cfg s then (s, False) else (s\<lparr>active_probes := active_probes s + 1\<rparr>, True))"

definition recovery_remaining_secs ::
  "circuit_breaker_config \<Rightarrow> 64 word \<Rightarrow> circuit_stats \<Rightarrow> 64 word option" where
  "recovery_remaining_secs cfg now s =
     (if cstate s \<noteq> Open then None
      else
        case opened_at s of
          None \<Rightarrow> None
        | Some t \<Rightarrow>
            let cooldown_ms = open_cooldown_secs cfg * 1000; elapsed_ms = saturating_sub now t
            in if elapsed_ms < cooldown_ms then Some ((cooldown_ms - elapsed_ms) div 1000) else None)"

section \<open>Transitions\<close>

definition circuit_open :: "64 word \<Rightarrow> circuit_stats \<Rightarrow> circuit_stats" where
  "circuit_open now s =
     (if cstate s \<noteq> Open
      then s\<lparr>cstate := Open, opened_at := Some now, last_state_change := now,
             consecutive_successes := 0, active_probes := 0\<rparr>
      else s)"

definition circuit_half_open :: "64 word \<Rightarrow> circuit_stats \<Rightarrow> circuit_stats" where
  "circuit_half_open now s =
     (if cstate s \<noteq> HalfOpen
      then s\<lparr>cstate := HalfOpen, last_state_change := now, consecutive_successes := 0,
             active_probes := 0\<rparr>
      else s)"

definition circuit_close :: "64 word \<Rightarrow> circuit_stats \<Rightarrow> circuit_stats" where
  "circuit_close now s =
     (if cstate s \<noteq> Closed
      then s\<lparr>cstate := Closed, last_state_change := now, opened_at := None, consecutive_failures := 0,
             consecutive_successes := 0, active_probes := 0, window_successes := 0,
             window_failures := 0, recent_results := []\<rparr>
      else s)"

definition reset_window :: "circuit_stats \<Rightarrow> circuit_stats" where
  "reset_window s = s\<lparr>window_successes := 0, window_failures := 0, recent_results := []\<rparr>"

text \<open>The step before and the step after the outcome: an open circuit past its cooldown probes.\<close>

definition nudge_half_open :: "circuit_breaker_config \<Rightarrow> 64 word \<Rightarrow> circuit_stats \<Rightarrow> circuit_stats" where
  "nudge_half_open cfg now s =
     (if cstate s = Open \<and> should_half_open cfg now s then circuit_half_open now s else s)"

definition apply_health_outcome ::
  "bool \<Rightarrow> bool \<Rightarrow> circuit_breaker_config \<Rightarrow> 64 word \<Rightarrow> 64 word \<Rightarrow> 64 word \<Rightarrow> circuit_stats
     \<Rightarrow> circuit_stats \<times> circuit_state" where
  "apply_health_outcome healthy transient cfg t1 t2 t3 s =
     (let s2 =
        (if healthy then
           (let s1 = record_success (nudge_half_open cfg t1 s)
            in if should_close cfg s1 then circuit_close t2 s1 else s1)
         else
           (let was_half_open = (cstate s = HalfOpen); s1 = record_failure s
            in if should_open cfg s1 then circuit_open t2 s1
               else if was_half_open \<and> \<not> transient then circuit_open t2 s1
               else s1));
        s3 = nudge_half_open cfg t3 s2
      in (s3, cstate s3))"

section \<open>The invariant\<close>

text \<open>The history is bounded, \<open>opened_at\<close> is set while \<open>Open\<close> and clear while \<open>Closed\<close>, and the
  probe counters are zero outside \<open>HalfOpen\<close>. With it, an open circuit always has a cooldown to wait for.\<close>

definition circuit_inv :: "circuit_breaker_config \<Rightarrow> circuit_stats \<Rightarrow> bool" where
  "circuit_inv cfg s \<longleftrightarrow>
     length (recent_results s) \<le> CIRCUIT_HISTORY_SIZE \<and>
     (cstate s = Open \<longrightarrow> opened_at s \<noteq> None) \<and> (cstate s = Closed \<longrightarrow> opened_at s = None) \<and>
     (cstate s \<noteq> HalfOpen \<longrightarrow> consecutive_successes s = 0 \<and> active_probes s = 0) \<and>
     active_probes s \<le> half_open_max_probes cfg"

lemmas circuit_defs =
  circuit_new_def push_result_def record_success_def record_failure_def start_probe_def can_probe_def
  circuit_open_def circuit_half_open_def circuit_close_def reset_window_def

lemma push_result_fields [simp]:
  "cstate (push_result b s) = cstate s" "opened_at (push_result b s) = opened_at s"
  "consecutive_successes (push_result b s) = consecutive_successes s"
  "consecutive_failures (push_result b s) = consecutive_failures s"
  "active_probes (push_result b s) = active_probes s"
  by (simp_all add: push_result_def)

lemma push_result_bounded:
  "length (recent_results s) \<le> CIRCUIT_HISTORY_SIZE \<Longrightarrow>
     length (recent_results (push_result b s)) \<le> CIRCUIT_HISTORY_SIZE"
  by (auto simp: push_result_def CIRCUIT_HISTORY_SIZE_def)

lemma circuit_inv_new: "circuit_inv cfg (circuit_new now)"
  by (simp add: circuit_inv_def circuit_new_def)

lemma circuit_inv_record:
  "circuit_inv cfg s \<Longrightarrow> circuit_inv cfg (record_success s)"
  "circuit_inv cfg s \<Longrightarrow> circuit_inv cfg (record_failure s)"
  unfolding circuit_inv_def record_success_def record_failure_def Let_def
  by (auto intro: word_dec_le push_result_bounded)

lemma circuit_inv_transitions:
  "circuit_inv cfg s \<Longrightarrow> circuit_inv cfg (circuit_open now s)"
  "circuit_inv cfg s \<Longrightarrow> circuit_inv cfg (circuit_half_open now s)"
  "circuit_inv cfg s \<Longrightarrow> circuit_inv cfg (circuit_close now s)"
  "circuit_inv cfg s \<Longrightarrow> circuit_inv cfg (reset_window s)"
  by (auto simp: circuit_inv_def circuit_open_def circuit_half_open_def circuit_close_def
      reset_window_def)

lemma circuit_inv_start_probe: "circuit_inv cfg s \<Longrightarrow> circuit_inv cfg (fst (start_probe cfg s))"
  by (auto simp: circuit_inv_def start_probe_def can_probe_def inc_le)

lemma circuit_inv_nudge: "circuit_inv cfg s \<Longrightarrow> circuit_inv cfg (nudge_half_open cfg now s)"
  by (simp add: nudge_half_open_def circuit_inv_transitions)

lemma circuit_inv_outcome:
  "circuit_inv cfg s \<Longrightarrow> circuit_inv cfg (fst (apply_health_outcome h tr cfg t1 t2 t3 s))"
  by (simp add: apply_health_outcome_def Let_def circuit_inv_record circuit_inv_transitions
      circuit_inv_nudge)

section \<open>The breaker as a transition system\<close>

text \<open>Every call a consumer can make on the breaker of a worker.\<close>

inductive circuit_step :: "circuit_breaker_config \<Rightarrow> circuit_stats \<Rightarrow> circuit_stats \<Rightarrow> bool"
  for cfg where
  step_outcome: "circuit_step cfg s (fst (apply_health_outcome h tr cfg t1 t2 t3 s))"
| step_success: "circuit_step cfg s (record_success s)"
| step_failure: "circuit_step cfg s (record_failure s)"
| step_probe: "circuit_step cfg s (fst (start_probe cfg s))"
| step_open: "circuit_step cfg s (circuit_open now s)"
| step_close: "circuit_step cfg s (circuit_close now s)"
| step_half_open: "circuit_step cfg s (circuit_half_open now s)"
| step_reset: "circuit_step cfg s (reset_window s)"

lemma circuit_step_inv: "circuit_step cfg s s' \<Longrightarrow> circuit_inv cfg s \<Longrightarrow> circuit_inv cfg s'"
  by (induction rule: circuit_step.induct)
    (simp_all add: circuit_inv_outcome circuit_inv_record circuit_inv_start_probe
      circuit_inv_transitions)

interpretation breaker: transition_system "\<lambda>s. \<exists>now. s = circuit_new now" "circuit_step cfg" "circuit_inv cfg"
  for cfg
  by unfold_locales (auto intro: circuit_inv_new circuit_step_inv)

text \<open>C30: In every state the breaker of a worker can reach, the result history holds at most ten
  entries, an opening time is recorded while the circuit is open and cleared while it is closed, no
  more probes are active than the configuration allows, and outside half-open no probe is active
  and no success is counted towards recovery.\<close>

theorem circuit_reachable_inv:
  assumes "reach_from (\<lambda>s. \<exists>now. s = circuit_new now) (circuit_step cfg) s"
  shows "length (recent_results s) \<le> CIRCUIT_HISTORY_SIZE
    \<and> (cstate s = Open \<longrightarrow> opened_at s \<noteq> None) \<and> (cstate s = Closed \<longrightarrow> opened_at s = None)
    \<and> (cstate s \<noteq> HalfOpen \<longrightarrow> consecutive_successes s = 0 \<and> active_probes s = 0)
    \<and> active_probes s \<le> half_open_max_probes cfg"
  using breaker.reachable_good [OF assms] by (simp add: circuit_inv_def)

theorem circuit_reachable_inv_witness:
  "length (recent_results (circuit_open 5 (record_failure (circuit_new 1)))) \<le> CIRCUIT_HISTORY_SIZE"
proof -
  let ?cfg = default_circuit_breaker_config
  let ?start = "\<lambda>s. \<exists>now. s = circuit_new now"
  have "reach_from ?start (circuit_step ?cfg) (circuit_new 1)" by (rule reach_start) blast
  then have "reach_from ?start (circuit_step ?cfg) (record_failure (circuit_new 1))"
    by (rule reach_move) (rule step_failure)
  then have "reach_from ?start (circuit_step ?cfg) (circuit_open 5 (record_failure (circuit_new 1)))"
    by (rule reach_move) (rule step_open)
  from circuit_reachable_inv [OF this] show ?thesis by blast
qed

section \<open>Recovery\<close>

lemma error_rate_Nil [simp]: "recent_results s = [] \<Longrightarrow> error_rate s = 0"
  by (simp add: error_rate_def)

lemma record_success_half_open:
  "cstate s = HalfOpen \<Longrightarrow>
     cstate (record_success s) = HalfOpen \<and>
     consecutive_successes (record_success s) = consecutive_successes s + 1"
  by (simp add: record_success_def Let_def)

lemma nudge_not_open: "cstate s \<noteq> Open \<Longrightarrow> nudge_half_open cfg now s = s"
  by (simp add: nudge_half_open_def)

lemma close_state [simp]: "cstate (circuit_close now s) = Closed"
  by (simp add: circuit_close_def)

text \<open>One healthy outcome on a circuit that is probing, or that starts to probe with it.\<close>

lemma healthy_probe:
  assumes "cstate (nudge_half_open cfg t1 s) = HalfOpen"
  defines "n \<equiv> consecutive_successes (nudge_half_open cfg t1 s) + 1"
  shows "cstate (fst (apply_health_outcome True tr cfg t1 t2 t3 s)) =
           (if success_threshold cfg \<le> n then Closed else HalfOpen)"
    and "\<not> success_threshold cfg \<le> n \<Longrightarrow>
           consecutive_successes (fst (apply_health_outcome True tr cfg t1 t2 t3 s)) = n"
  using assms record_success_half_open [OF assms(1)]
  by (auto simp: apply_health_outcome_def Let_def nudge_not_open should_close_def)

text \<open>A run of healthy outcomes, one list element of clock readings each.\<close>

primrec healthy_run :: "circuit_breaker_config \<Rightarrow> (64 word \<times> 64 word \<times> 64 word) list
    \<Rightarrow> circuit_stats \<Rightarrow> circuit_stats" where
  "healthy_run cfg [] s = s"
| "healthy_run cfg (t # ts) s =
     healthy_run cfg ts
       (fst (apply_health_outcome True False cfg (fst t) (fst (snd t)) (snd (snd t)) s))"

lemma healthy_run_half_open:
  assumes "cstate s = HalfOpen" "unat (consecutive_successes s) + length ts < unat (success_threshold cfg)"
  shows "cstate (healthy_run cfg ts s) = HalfOpen
    \<and> unat (consecutive_successes (healthy_run cfg ts s)) = unat (consecutive_successes s) + length ts"
  using assms
proof (induction ts arbitrary: s)
  case (Cons t ts)
  let ?s = "fst (apply_health_outcome True False cfg (fst t) (fst (snd t)) (snd (snd t)) s)"
  have n: "nudge_half_open cfg (fst t) s = s" using Cons.prems(1) by (simp add: nudge_not_open)
  have lt: "unat (consecutive_successes s) + 1 < unat (success_threshold cfg)"
    using Cons.prems(2) by simp
  then have u: "unat (consecutive_successes s + 1) = unat (consecutive_successes s) + 1"
    using unat_plus_1 [of "consecutive_successes s" "success_threshold cfg"] by simp
  then have "\<not> success_threshold cfg \<le> consecutive_successes s + 1"
    using lt by (simp add: word_le_nat_alt)
  with healthy_probe [of cfg "fst t" s] n Cons.prems(1)
  have "cstate ?s = HalfOpen" "consecutive_successes ?s = consecutive_successes s + 1" by simp_all
  with Cons.IH [of ?s] Cons.prems(2) u show ?case by simp
qed simp

lemma healthy_run_append: "healthy_run cfg (ts @ us) s = healthy_run cfg us (healthy_run cfg ts s)"
  by (induction ts arbitrary: s) simp_all

text \<open>The outcome that completes the run.\<close>

lemma healthy_last:
  assumes "cstate s = HalfOpen" "Suc (unat (consecutive_successes s)) = unat (success_threshold cfg)"
  shows "cstate (healthy_run cfg [t] s) = Closed \<and> recent_results (healthy_run cfg [t] s) = []"
proof -
  have "unat (consecutive_successes s + 1) = unat (success_threshold cfg)"
    using assms(2) unat_plus_1 [of "consecutive_successes s" "success_threshold cfg"] by simp
  then have "success_threshold cfg \<le> consecutive_successes s + 1" by (simp add: word_le_nat_alt)
  with assms(1) record_success_half_open [OF assms(1)] show ?thesis
    by (simp add: apply_health_outcome_def Let_def nudge_not_open should_close_def circuit_close_def)
qed

text \<open>An open circuit whose cooldown has elapsed recovers after exactly \<open>success_threshold\<close>
  healthy outcomes: during any shorter run it stays half-open, and the outcome that completes the
  run closes it with an empty history. The opening time and the failures before the cooldown do not
  matter, because the circuit turns half-open before the first success is counted.\<close>

theorem recovery_needs_success_threshold:
  assumes "cstate s = Open" "should_half_open cfg (fst t) s" "0 < success_threshold cfg"
  shows "(length (t # ts) < unat (success_threshold cfg) \<longrightarrow>
           cstate (healthy_run cfg (t # ts) s) = HalfOpen)
       \<and> (length (t # ts) = unat (success_threshold cfg) \<longrightarrow>
           cstate (healthy_run cfg (t # ts) s) = Closed
           \<and> recent_results (healthy_run cfg (t # ts) s) = [])"
proof -
  let ?n = "nudge_half_open cfg (fst t) s"
  have n: "cstate ?n = HalfOpen" "consecutive_successes ?n = 0"
    using assms(1,2) by (simp_all add: nudge_half_open_def circuit_half_open_def)
  have run: "healthy_run cfg (t # ts) s = healthy_run cfg (t # ts) ?n"
    using n(1) by (simp add: apply_health_outcome_def nudge_not_open Let_def)
  have early: "cstate (healthy_run cfg (t # ts) s) = HalfOpen" if "length (t # ts) < unat (success_threshold cfg)"
    unfolding run using that healthy_run_half_open [OF n(1), of "t # ts"] n(2) by simp
  have last: "cstate (healthy_run cfg (t # ts) s) = Closed \<and> recent_results (healthy_run cfg (t # ts) s) = []"
    if len: "length (t # ts) = unat (success_threshold cfg)"
  proof -
    obtain us u where us: "t # ts = us @ [u]" by (metis list.distinct(1) rev_exhaust)
    have half: "cstate (healthy_run cfg us ?n) = HalfOpen"
      "unat (consecutive_successes (healthy_run cfg us ?n)) = length us"
      using healthy_run_half_open [OF n(1), of us] n(2) len us by simp_all
    have "healthy_run cfg (t # ts) s = healthy_run cfg [u] (healthy_run cfg us ?n)"
      using run us healthy_run_append by metis
    then show ?thesis using healthy_last [OF half(1), of cfg u] half(2) len us by simp
  qed
  from early last show ?thesis by blast
qed

theorem recovery_needs_success_threshold_witness:
  "cstate (healthy_run default_circuit_breaker_config [(40000, 0, 0), (0, 0, 0)]
     (circuit_open 5 (circuit_new 1))) = Closed"
proof -
  let ?s = "circuit_open 5 (circuit_new 1)"
  have "cstate ?s = Open" "0 < success_threshold default_circuit_breaker_config"
    "should_half_open default_circuit_breaker_config (fst (40000, 0, 0)) ?s"
    "length [(40000, 0, 0), (0, 0, 0) :: 64 word \<times> 64 word \<times> 64 word] =
       unat (success_threshold default_circuit_breaker_config)"
    by (simp_all add: circuit_open_def circuit_new_def should_half_open_def saturating_sub_def
        default_circuit_breaker_config_def)
  with recovery_needs_success_threshold [OF this(1,3,2), of "[(0, 0, 0)]"] show ?thesis by blast
qed

section \<open>Failures\<close>

lemma record_failure_fields [simp]:
  "cstate (record_failure s) = cstate s" "opened_at (record_failure s) = opened_at s"
  "consecutive_failures (record_failure s) = consecutive_failures s + 1"
  by (simp_all add: record_failure_def Let_def)

text \<open>A transient failure while half-open leaves the circuit half-open and does not touch the
  opening time, so it neither reopens the circuit nor restarts the cooldown; any other failure while
  half-open opens it at the time of the failure, or, when no cooldown is configured, sends it
  straight back to probing. Either way the successes counted so far are lost.\<close>

theorem half_open_failure:
  assumes "cstate s = HalfOpen"
  shows "let s' = fst (apply_health_outcome False transient cfg t1 t2 t3 s)
         in consecutive_successes s' = 0 \<and>
            (if transient then cstate s' = HalfOpen \<and> opened_at s' = opened_at s
             else opened_at s' = Some t2 \<and>
                  cstate s' = (if saturating_sub t3 t2 \<ge> open_cooldown_secs cfg * 1000
                               then HalfOpen else Open))"
  using assms
  by (simp add: apply_health_outcome_def Let_def should_open_def nudge_half_open_def
      should_half_open_def circuit_open_def circuit_half_open_def)
    (simp add: record_failure_def Let_def)

theorem half_open_failure_witness:
  "cstate (fst (apply_health_outcome False True default_circuit_breaker_config 9 9 9
     (circuit_half_open 8 (circuit_open 5 (circuit_new 1))))) = HalfOpen"
  using half_open_failure [of "circuit_half_open 8 (circuit_open 5 (circuit_new 1))"
      True default_circuit_breaker_config 9 9 9]
  by (simp add: circuit_half_open_def Let_def)

text \<open>A closed circuit is taken out of service by a failure exactly when the run of
  consecutive failures reaches the threshold, or at least five of the last ten results are known
  and the share of failures among them reaches the error-rate threshold. Otherwise it stays
  closed.\<close>

theorem closed_failure_opens:
  assumes "cstate s = Closed" "length (recent_results s) \<le> CIRCUIT_HISTORY_SIZE"
  shows "cstate (fst (apply_health_outcome False transient cfg t1 t2 t3 s)) \<noteq> Closed \<longleftrightarrow>
           failure_threshold cfg \<le> consecutive_failures s + 1 \<or>
           (let h = drop (length (recent_results s) - 9) (recent_results s) @ [False]
            in 5 \<le> length h \<and>
               error_rate_threshold cfg * of_nat (length h) \<le> of_nat (length (filter Not h)))"
proof -
  let ?h = "drop (length (recent_results s) - 9) (recent_results s) @ [False]"
  have h: "recent_results (record_failure s) = ?h"
    using assms
    by (cases "recent_results s")
      (auto simp: record_failure_def push_result_def CIRCUIT_HISTORY_SIZE_def Let_def)
  have "error_rate (record_failure s) \<ge> error_rate_threshold cfg \<longleftrightarrow>
      error_rate_threshold cfg * of_nat (length ?h) \<le> of_nat (length (filter Not ?h))"
    unfolding error_rate_def h by (subst if_not_P, simp) (subst pos_le_divide_eq; simp)
  then have "should_open cfg (record_failure s) \<longleftrightarrow> failure_threshold cfg \<le> consecutive_failures s + 1
      \<or> (5 \<le> length ?h \<and> error_rate_threshold cfg * of_nat (length ?h) \<le> of_nat (length (filter Not ?h)))"
    using assms by (simp add: should_open_def h)
  moreover have "cstate (fst (apply_health_outcome False transient cfg t1 t2 t3 s)) \<noteq> Closed \<longleftrightarrow>
      should_open cfg (record_failure s)"
    using assms
    by (auto simp: apply_health_outcome_def Let_def nudge_half_open_def circuit_open_def circuit_half_open_def)
  ultimately show ?thesis by (simp add: Let_def)
qed

theorem closed_failure_opens_witness:
  "cstate (fst (apply_health_outcome False False default_circuit_breaker_config 1 2 3 (circuit_new 0))) = Closed"
  using closed_failure_opens [of "circuit_new 0" False default_circuit_breaker_config 1 2 3]
  by (simp add: circuit_new_def default_circuit_breaker_config_def Let_def word_le_nat_alt)

text \<open>A circuit that has just closed does not reopen on its own: with a positive failure
  threshold \<open>should_open\<close> is false, and a single further failure keeps it closed whenever the
  threshold is above one.\<close>

theorem closed_circuit_does_not_flap:
  assumes "cstate s \<noteq> Closed" "1 < failure_threshold cfg"
  shows "\<not> should_open cfg (circuit_close now s)
    \<and> cstate (fst (apply_health_outcome False transient cfg t1 t2 t3 (circuit_close now s))) = Closed"
  using assms
  by (auto simp: should_open_def circuit_close_def apply_health_outcome_def Let_def
      nudge_half_open_def record_failure_def push_result_def CIRCUIT_HISTORY_SIZE_def)

theorem closed_circuit_does_not_flap_witness:
  "\<not> should_open default_circuit_breaker_config (circuit_close 9 (circuit_open 5 (circuit_new 1)))"
  using closed_circuit_does_not_flap [of "circuit_open 5 (circuit_new 1)" default_circuit_breaker_config]
  by (simp add: circuit_open_def circuit_new_def default_circuit_breaker_config_def)

text \<open>On every reachable open circuit the remaining time shown to the operator and the switch to
  probing agree: a remaining time is shown exactly while the circuit may not turn half-open, and it
  never exceeds the configured cooldown.\<close>

theorem recovery_remaining_agrees:
  assumes "circuit_inv cfg s" "cstate s = Open"
  shows "(recovery_remaining_secs cfg now s \<noteq> None \<longleftrightarrow> \<not> should_half_open cfg now s)
    \<and> (\<forall>r. recovery_remaining_secs cfg now s = Some r \<longrightarrow> r \<le> open_cooldown_secs cfg * 1000 div 1000)"
proof -
  obtain t where t: "opened_at s = Some t" using assms by (auto simp: circuit_inv_def)
  let ?c = "open_cooldown_secs cfg * 1000" and ?e = "saturating_sub now t"
  have "(?c - ?e) div 1000 \<le> ?c div 1000" if "?e < ?c"
  proof -
    have "?c - ?e \<le> ?c" 
      using unat_sub [OF less_imp_le [OF that]] by (simp add: word_le_nat_alt)
    then show ?thesis by (simp add: word_le_nat_alt unat_div div_le_mono)
  qed
  with t assms(2) show ?thesis
    by (auto simp: recovery_remaining_secs_def should_half_open_def Let_def not_le)
qed

theorem recovery_remaining_agrees_witness:
  "recovery_remaining_secs default_circuit_breaker_config 9 (circuit_open 5 (circuit_new 1)) \<noteq> None"
  using recovery_remaining_agrees [of default_circuit_breaker_config "circuit_open 5 (circuit_new 1)" 9]
  by (simp add: circuit_inv_def circuit_open_def circuit_new_def should_half_open_def
      saturating_sub_def default_circuit_breaker_config_def)

end
