(* ===== verification/Worker.thy ===== *)
theory Worker
  imports Lifecycle Circuit
begin

text \<open>
  One worker and the pool of workers, \<open>rchd/src/workers.rs\<close> (\<open>WorkerState\<close>, \<open>WorkerPool\<close>). The
  record has the fields the operations below read or write; the configuration has the identifier
  and the slot count, and the capability, preflight, pressure and benchmark fields, which no
  operation here reads, are left out. Each lock-protected operation is one function on the state;
  \<open>used_slots\<close> is a \<open>32 word\<close>, as the \<open>AtomicU32\<close> is. The theory \<open>Slot_Race\<close> takes the
  compare-and-swap loops apart into atomic steps.

  The pool is an association list from identifiers to workers, standing for the \<open>HashMap\<close> in its
  iteration order, beside the separately kept \<open>worker_count\<close>.
\<close>

section \<open>Data\<close>

datatype drain_completion_action =
    StayDrained
  | RemoveFromPool
  | Disable "string option"

record worker_config =
  config_id :: string
  total_slots :: "32 word"

record worker_state =
  config :: worker_config
  lifecycle :: worker_lifecycle
  used_slots :: "32 word"
  last_latency :: "64 word"
  cached_projects :: "string list"
  circuit :: circuit_stats
  last_error_msg :: "string option"
  disabled_reason :: "string option"
  drain_completion :: drain_completion_action
  disabled_at_secs :: int

definition worker_new :: "64 word \<Rightarrow> worker_config \<Rightarrow> worker_state" where
  "worker_new now cfg =
     \<lparr>config = cfg, lifecycle = lifecycle_new, used_slots = 0, last_latency = 0,
      cached_projects = [], circuit = circuit_new now, last_error_msg = None,
      disabled_reason = None, drain_completion = StayDrained, disabled_at_secs = 0\<rparr>"

section \<open>Configuration and status\<close>

definition update_config :: "worker_config \<Rightarrow> worker_state \<Rightarrow> worker_state" where
  "update_config new_config w =
     (let w1 = w\<lparr>config := new_config\<rparr>;
          cancelled_pending_removal = (drain_completion w1 = RemoveFromPool);
          w2 = (if cancelled_pending_removal then w1\<lparr>drain_completion := StayDrained\<rparr> else w1)
      in if cancelled_pending_removal
            \<and> admin (lifecycle w2) \<in> {admin_intent.Draining, admin_intent.Drained}
         then w2\<lparr>lifecycle := set_admin Active (lifecycle w2)\<rparr>
         else w2)"

definition status :: "worker_state \<Rightarrow> worker_status" where
  "status w = legacy_status (lifecycle w)"

definition set_status :: "worker_status \<Rightarrow> worker_state \<Rightarrow> worker_state" where
  "set_status s w = w\<lparr>lifecycle := from_worker_status s\<rparr>"

definition apply_health_status :: "worker_status \<Rightarrow> worker_state \<Rightarrow> worker_state \<times> worker_status" where
  "apply_health_status health_status w =
     (let l = (case health_status_to_eligibility health_status of
                 None \<Rightarrow> lifecycle w
               | Some e \<Rightarrow> fst (observe_health e (lifecycle w)))
      in (w\<lparr>lifecycle := l\<rparr>, legacy_status l))"

section \<open>Slots\<close>

definition available_slots :: "worker_state \<Rightarrow> 32 word" where
  "available_slots w = saturating_sub (total_slots (config w)) (used_slots w)"

section \<open>Draining\<close>

text \<open>\<open>now\<close> is the wall clock in seconds; \<open>0\<close> in \<open>disabled_at_secs\<close> stands for no time.\<close>

definition current_unix_secs_for_disabled_at :: "int \<Rightarrow> int" where
  "current_unix_secs_for_disabled_at now = max 1 now"

definition check_drain_complete :: "int \<Rightarrow> worker_state \<Rightarrow> worker_state" where
  "check_drain_complete now w =
     (if used_slots w \<noteq> 0 \<or> admin (lifecycle w) \<noteq> admin_intent.Draining then w
      else
        case drain_completion w of
          StayDrained \<Rightarrow> w\<lparr>lifecycle := set_admin admin_intent.Drained (lifecycle w)\<rparr>
        | RemoveFromPool \<Rightarrow> w\<lparr>lifecycle := set_admin admin_intent.Drained (lifecycle w)\<rparr>
        | Disable r \<Rightarrow>
            w\<lparr>lifecycle := set_admin admin_intent.Disabled (lifecycle w), disabled_reason := r,
              disabled_at_secs := current_unix_secs_for_disabled_at now,
              drain_completion := StayDrained\<rparr>)"

definition disable :: "int \<Rightarrow> string option \<Rightarrow> worker_state \<Rightarrow> worker_state" where
  "disable now r w =
     w\<lparr>drain_completion := StayDrained,
       lifecycle := set_admin admin_intent.Disabled (lifecycle w), disabled_reason := r,
       disabled_at_secs := current_unix_secs_for_disabled_at now\<rparr>"

definition start_drain :: "drain_completion_action \<Rightarrow> int \<Rightarrow> worker_state \<Rightarrow> worker_state" where
  "start_drain action now w =
     check_drain_complete now
       (w\<lparr>drain_completion := action,
          lifecycle := set_admin admin_intent.Draining (lifecycle w)\<rparr>)"

definition drain :: "int \<Rightarrow> worker_state \<Rightarrow> worker_state" where
  "drain = start_drain StayDrained"

definition drain_for_removal :: "int \<Rightarrow> worker_state \<Rightarrow> worker_state" where
  "drain_for_removal = start_drain RemoveFromPool"

definition drain_then_disable :: "string option \<Rightarrow> int \<Rightarrow> worker_state \<Rightarrow> worker_state" where
  "drain_then_disable r = start_drain (Disable r)"

definition enable :: "64 word \<Rightarrow> worker_state \<Rightarrow> worker_state" where
  "enable now w =
     w\<lparr>drain_completion := StayDrained, lifecycle := lifecycle_new, disabled_reason := None,
       disabled_at_secs := 0, circuit := circuit_close now (circuit w), last_error_msg := None\<rparr>"

definition remove_after_drain_pending :: "worker_state \<Rightarrow> bool" where
  "remove_after_drain_pending w \<longleftrightarrow> drain_completion w = RemoveFromPool"

definition disabled_at :: "worker_state \<Rightarrow> int option" where
  "disabled_at w = (if disabled_at_secs w = 0 then None else Some (disabled_at_secs w))"

text \<open>Without interference the compare-and-swap succeeds at once.\<close>

definition release_slots :: "int \<Rightarrow> 32 word \<Rightarrow> worker_state \<Rightarrow> worker_state" where
  "release_slots now n w =
     check_drain_complete now (w\<lparr>used_slots := saturating_sub (used_slots w) n\<rparr>)"

definition reserve_slots :: "32 word \<Rightarrow> worker_state \<Rightarrow> worker_state \<times> bool" where
  "reserve_slots n w =
     (if n = 0 then (w, False)
      else if \<not> lifecycle_accepts_new_builds (lifecycle w) then (w, False)
      else if saturating_add (used_slots w) n > total_slots (config w) then (w, False)
      else (w\<lparr>used_slots := used_slots w + n\<rparr>, True))"

section \<open>Cache list, latency and circuit\<close>

definition has_cached_project :: "string \<Rightarrow> worker_state \<Rightarrow> bool" where
  "has_cached_project project w \<longleftrightarrow> project \<in> set (cached_projects w)"

definition add_cached_project :: "string \<Rightarrow> worker_state \<Rightarrow> worker_state" where
  "add_cached_project project w =
     (if project \<in> set (cached_projects w) then w
      else
        let cache = (if length (cached_projects w) \<ge> 100 then tl (cached_projects w)
                     else cached_projects w)
        in w\<lparr>cached_projects := cache @ [project]\<rparr>)"

definition set_last_latency_ms :: "64 word option \<Rightarrow> worker_state \<Rightarrow> worker_state" where
  "set_last_latency_ms v w = w\<lparr>last_latency := (case v of None \<Rightarrow> 0 | Some x \<Rightarrow> x)\<rparr>"

definition last_latency_ms :: "worker_state \<Rightarrow> 64 word option" where
  "last_latency_ms w = (if last_latency w = 0 then None else Some (last_latency w))"

definition record_health_check ::
  "bool \<Rightarrow> bool \<Rightarrow> circuit_breaker_config \<Rightarrow> 64 word \<Rightarrow> 64 word \<Rightarrow> 64 word \<Rightarrow> worker_state
     \<Rightarrow> worker_state \<times> circuit_state \<times> circuit_state" where
  "record_health_check healthy transient cfg t1 t2 t3 w =
     (let previous = cstate (circuit w);
          (c, new) = apply_health_outcome healthy transient cfg t1 t2 t3 (circuit w)
      in (w\<lparr>circuit := c\<rparr>, previous, new))"

definition worker_record_failure :: "string option \<Rightarrow> worker_state \<Rightarrow> worker_state" where
  "worker_record_failure error_msg w =
     (let w1 = w\<lparr>circuit := record_failure (circuit w)\<rparr>
      in case error_msg of None \<Rightarrow> w1 | Some m \<Rightarrow> w1\<lparr>last_error_msg := Some m\<rparr>)"

definition close_circuit :: "64 word \<Rightarrow> worker_state \<Rightarrow> worker_state" where
  "close_circuit now w = w\<lparr>circuit := circuit_close now (circuit w), last_error_msg := None\<rparr>"

section \<open>The pool\<close>

record worker_pool =
  workers :: "(string \<times> worker_state) list"
  worker_count :: nat

definition pool_new :: worker_pool where
  "pool_new = \<lparr>workers = [], worker_count = 0\<rparr>"

definition pool_get :: "string \<Rightarrow> worker_pool \<Rightarrow> worker_state option" where
  "pool_get i p = map_of (workers p) i"

definition pool_update :: "string \<Rightarrow> (worker_state \<Rightarrow> worker_state) \<Rightarrow> worker_pool \<Rightarrow> worker_pool" where
  "pool_update i f p = p\<lparr>workers := map (\<lambda>(k, w). (k, if k = i then f w else w)) (workers p)\<rparr>"

definition add_worker :: "64 word \<Rightarrow> worker_config \<Rightarrow> worker_pool \<Rightarrow> worker_pool" where
  "add_worker now cfg p =
     (case pool_get (config_id cfg) p of
        Some _ \<Rightarrow> pool_update (config_id cfg) (update_config cfg) p
      | None \<Rightarrow>
          p\<lparr>workers := (config_id cfg, worker_new now cfg) # workers p,
            worker_count := worker_count p + 1\<rparr>)"

definition remove_worker :: "string \<Rightarrow> worker_pool \<Rightarrow> worker_pool \<times> bool" where
  "remove_worker i p =
     (case pool_get i p of
        Some _ \<Rightarrow>
          (p\<lparr>workers := filter (\<lambda>(k, w). k \<noteq> i) (workers p), worker_count := worker_count p - 1\<rparr>, True)
      | None \<Rightarrow> (p, False))"

definition prunable :: "worker_state \<Rightarrow> bool" where
  "prunable w \<longleftrightarrow>
     status w = worker_status.Drained \<and> used_slots w = 0 \<and> remove_after_drain_pending w"

text \<open>The first pass marks, the second rechecks the marked workers and removes them.\<close>

definition prune_drained :: "int \<Rightarrow> worker_pool \<Rightarrow> worker_pool \<times> nat" where
  "prune_drained now p =
     (let checked = map (\<lambda>(k, w). (k, check_drain_complete now w)) (workers p);
          to_remove = map fst (filter (\<lambda>(k, w). prunable w) checked);
          rechecked = map (\<lambda>(k, w). (k, if k \<in> set to_remove then check_drain_complete now w else w)) checked;
          kept = filter (\<lambda>(k, w). \<not> (k \<in> set to_remove \<and> prunable w)) rechecked;
          n = length rechecked - length kept
      in (p\<lparr>workers := kept, worker_count := worker_count p - n\<rparr>, n))"

definition healthy_workers :: "worker_pool \<Rightarrow> (string \<times> worker_state) list" where
  "healthy_workers p =
     filter (\<lambda>(k, w). status w = worker_status.Healthy \<or> status w = worker_status.Degraded) (workers p)"

definition pool_set_status :: "string \<Rightarrow> worker_status \<Rightarrow> worker_pool \<Rightarrow> worker_pool" where
  "pool_set_status i s p = pool_update i (set_status s) p"

definition pool_release_slots :: "int \<Rightarrow> string \<Rightarrow> 32 word \<Rightarrow> worker_pool \<Rightarrow> worker_pool" where
  "pool_release_slots now i slots p = pool_update i (release_slots now slots) p"

section \<open>Slots: behaviour\<close>

lemma reserve_slots_cases:
  assumes "total_slots (config w) \<noteq> - 1"
  shows "snd (reserve_slots n w) \<longleftrightarrow>
           n \<noteq> 0 \<and> lifecycle_accepts_new_builds (lifecycle w)
           \<and> unat (used_slots w) + unat n \<le> unat (total_slots (config w))"
    and "snd (reserve_slots n w) \<Longrightarrow>
           unat (used_slots (fst (reserve_slots n w))) = unat (used_slots w) + unat n
           \<and> used_slots (fst (reserve_slots n w)) \<le> total_slots (config w)
           \<and> fst (reserve_slots n w) = w\<lparr>used_slots := used_slots w + n\<rparr>"
    and "\<not> snd (reserve_slots n w) \<Longrightarrow> fst (reserve_slots n w) = w"
proof -
  show iff: "snd (reserve_slots n w) \<longleftrightarrow>
      n \<noteq> 0 \<and> lifecycle_accepts_new_builds (lifecycle w)
      \<and> unat (used_slots w) + unat n \<le> unat (total_slots (config w))"
    using saturating_add_gt [OF assms, of "used_slots w" n] by (auto simp: reserve_slots_def)
  show "fst (reserve_slots n w) = w" if "\<not> snd (reserve_slots n w)"
    using that by (auto simp: reserve_slots_def split: if_splits)
  assume ok: "snd (reserve_slots n w)"
  then have w: "fst (reserve_slots n w) = w\<lparr>used_slots := used_slots w + n\<rparr>"
    by (auto simp: reserve_slots_def split: if_splits)
  have "unat (used_slots w + n) = unat (used_slots w) + unat n"
    using iff ok unat_bound [of "total_slots (config w)"] by (intro unat_plus_no_overflow) simp
  with iff ok w show "unat (used_slots (fst (reserve_slots n w))) = unat (used_slots w) + unat n
      \<and> used_slots (fst (reserve_slots n w)) \<le> total_slots (config w)
      \<and> fst (reserve_slots n w) = w\<lparr>used_slots := used_slots w + n\<rparr>"
    by (simp add: word_le_nat_alt)
qed

text \<open>On a worker whose configured slot count is below the largest 32-bit value, a reservation
  succeeds exactly when it asks for at least one slot, the lifecycle accepts new builds and the slots
  fit; then the used slots grow by the request and stay within the configured count, and nothing else
  changes. A refused reservation changes nothing.\<close>

theorem reserve_slots_spec:
  assumes "total_slots (config w) \<noteq> - 1"
  shows "(snd (reserve_slots n w) \<longleftrightarrow>
            n \<noteq> 0 \<and> lifecycle_accepts_new_builds (lifecycle w)
            \<and> unat (used_slots w) + unat n \<le> unat (total_slots (config w)))
       \<and> fst (reserve_slots n w) =
            (if snd (reserve_slots n w) then w\<lparr>used_slots := used_slots w + n\<rparr> else w)
       \<and> unat (used_slots (fst (reserve_slots n w))) =
            unat (used_slots w) + (if snd (reserve_slots n w) then unat n else 0)"
  using reserve_slots_cases [OF assms, of n] by auto

theorem reserve_slots_spec_witness:
  "let w = worker_new 0 \<lparr>config_id = ''w1'', total_slots = 8\<rparr>
   in snd (reserve_slots 3 w) \<and> unat (used_slots (fst (reserve_slots 3 w))) = 3"
proof -
  let ?w = "worker_new 0 \<lparr>config_id = ''w1'', total_slots = 8\<rparr>"
  have t: "total_slots (config ?w) \<noteq> - 1" by (simp add: worker_new_def)
  show ?thesis
    using reserve_slots_spec [OF t, of 3]
    by (simp add: worker_new_def lifecycle_new_def lifecycle_accepts_new_builds_def)
qed

text \<open>The guard of a reservation does not protect a worker configured with the largest 32-bit
  slot count: the saturating sum equals that count, the guard passes, and the plain sum written to
  the counter wraps, so a reservation succeeds and leaves fewer slots in use than before.\<close>

theorem reserve_slots_wraps_at_max:
  assumes "total_slots (config w) = - 1" "lifecycle_accepts_new_builds (lifecycle w)" "n \<noteq> 0"
    "2 ^ 32 \<le> unat (used_slots w) + unat n"
  shows "snd (reserve_slots n w) \<and> used_slots (fst (reserve_slots n w)) < used_slots w"
proof -
  have "unat (used_slots w + n) = unat (used_slots w) + unat n - 2 ^ 32"
    using assms(4) unat_bound [of "used_slots w"] unat_bound [of n]
    by (simp add: unat_word_ariths mod_if)
  then have "used_slots w + n < used_slots w"
    using assms(4) unat_bound [of n] by (simp add: word_less_nat_alt)
  with assms show ?thesis by (simp add: reserve_slots_def)
qed

theorem reserve_slots_wraps_at_max_witness:
  "let w = (worker_new 0 \<lparr>config_id = ''w1'', total_slots = - 1\<rparr>)\<lparr>used_slots := 2\<rparr>
   in used_slots (fst (reserve_slots (- 1) w)) < used_slots w"
  using reserve_slots_wraps_at_max
    [of "(worker_new 0 \<lparr>config_id = ''w1'', total_slots = - 1\<rparr>)\<lparr>used_slots := 2\<rparr>" "- 1"]
  by (simp add: worker_new_def lifecycle_new_def lifecycle_accepts_new_builds_def)

text \<open>Releasing what was reserved restores the worker, and the slots reported as available drop
  by exactly the reservation in between.\<close>

theorem reserve_release_roundtrip:
  assumes "total_slots (config w) \<noteq> - 1" "snd (reserve_slots n w)"
  shows "release_slots now n (fst (reserve_slots n w)) = w
    \<and> unat (available_slots (fst (reserve_slots n w))) + unat n = unat (available_slots w)"
proof -
  have acc: "lifecycle_accepts_new_builds (lifecycle w)"
    and fst: "fst (reserve_slots n w) = w\<lparr>used_slots := used_slots w + n\<rparr>"
    using assms(2) by (auto simp: reserve_slots_def split: if_splits)
  have le: "unat (used_slots w) + unat n \<le> unat (total_slots (config w))"
    using assms saturating_add_gt [OF assms(1), of "used_slots w" n]
    by (auto simp: reserve_slots_def split: if_splits)
  then have u: "unat (used_slots w + n) = unat (used_slots w) + unat n"
    using unat_bound [of "total_slots (config w)"] by (intro unat_plus_no_overflow) simp
  have "release_slots now n (fst (reserve_slots n w)) = w"
    using acc u
    by (simp add: release_slots_def fst saturating_sub_def word_le_nat_alt check_drain_complete_def
        lifecycle_accepts_new_builds_def)
  moreover have "unat (available_slots (fst (reserve_slots n w))) + unat n = unat (available_slots w)"
    using le u by (simp add: fst available_slots_def saturating_sub_def word_le_nat_alt unat_sub)
  ultimately show ?thesis ..
qed

theorem reserve_release_roundtrip_witness:
  "release_slots 0 3 (fst (reserve_slots 3 (worker_new 0 \<lparr>config_id = ''w1'', total_slots = 8\<rparr>)))
     = worker_new 0 \<lparr>config_id = ''w1'', total_slots = 8\<rparr>"
  using reserve_release_roundtrip [of "worker_new 0 \<lparr>config_id = ''w1'', total_slots = 8\<rparr>" 3 0]
  by (simp add: reserve_slots_def worker_new_def lifecycle_new_def lifecycle_accepts_new_builds_def
      saturating_add_def word_less_nat_alt)

section \<open>Draining: behaviour\<close>

lemma check_drain_slots [simp]:
  "used_slots (check_drain_complete now w) = used_slots w" "config (check_drain_complete now w) = config w"
  by (simp_all add: check_drain_complete_def split: drain_completion_action.split)

lemma check_drain_admin:
  "admin (lifecycle (check_drain_complete now w)) =
     (if used_slots w = 0 \<and> admin (lifecycle w) = admin_intent.Draining
      then (case drain_completion w of Disable _ \<Rightarrow> admin_intent.Disabled | _ \<Rightarrow> admin_intent.Drained)
      else admin (lifecycle w))"
  by (simp add: check_drain_complete_def set_admin_def split: drain_completion_action.split)

lemma check_drain_idem: "check_drain_complete now (check_drain_complete now w) = check_drain_complete now w"
  by (simp add: check_drain_complete_def set_admin_def split: drain_completion_action.split)

text \<open>A drain takes effect at once and completes with the last job: after it the worker refuses
  every reservation; while slots are in use it stays draining; and releasing the last slots turns it
  into a drained worker, or, for a drain before disabling, into a disabled one with the given reason
  and a recorded time.\<close>

theorem drain_contract:
  assumes "used_slots w \<noteq> 0"
  shows "let d = start_drain action now w; e = release_slots later n d
         in \<not> snd (reserve_slots k d) \<and> status d = worker_status.Draining
            \<and> used_slots d = used_slots w
            \<and> (used_slots w \<le> n \<longrightarrow> used_slots e = 0 \<and> \<not> snd (reserve_slots k e) \<and>
                 (case action of
                    Disable r \<Rightarrow> status e = worker_status.Disabled \<and> disabled_reason e = r
                                 \<and> disabled_at e \<noteq> None
                  | _ \<Rightarrow> status e = worker_status.Drained))
            \<and> (\<not> used_slots w \<le> n \<longrightarrow> status e = worker_status.Draining)"
  using assms
  by (auto simp: start_drain_def release_slots_def reserve_slots_def Let_def status_def
      check_drain_complete_def set_admin_def legacy_status_def lifecycle_accepts_new_builds_def
      saturating_sub_def disabled_at_def current_unix_secs_for_disabled_at_def
      split: drain_completion_action.split if_splits)

theorem drain_contract_witness:
  "status (release_slots 9 2 (start_drain (Disable (Some ''hot'')) 5
     ((worker_new 0 \<lparr>config_id = ''w1'', total_slots = 8\<rparr>)\<lparr>used_slots := 2\<rparr>))) = worker_status.Disabled"
  using drain_contract [of "(worker_new 0 \<lparr>config_id = ''w1'', total_slots = 8\<rparr>)\<lparr>used_slots := 2\<rparr>"
      "Disable (Some ''hot'')" 5 9 2]
  by (simp add: Let_def)

text \<open>Enabling a worker is a complete override, whatever state it was in: it is schedulable, its
  circuit is closed, no removal or disabling is pending, and neither a disable reason nor a disable
  time nor an old error remains; the slots in use are not touched.\<close>

theorem enable_restores_service:
  "let e = enable now w
   in is_schedulable (lifecycle e) \<and> cstate (circuit e) = Closed \<and> drain_completion e = StayDrained
      \<and> disabled_reason e = None \<and> disabled_at e = None \<and> last_error_msg e = None
      \<and> used_slots e = used_slots w"
  by (simp add: enable_def Let_def is_schedulable_def lifecycle_new_def disabled_at_def)

text \<open>An operator's disable does not survive a removal from the configuration followed by a
  re-addition while jobs are running: the pending removal overwrites the disabled intent, and the
  configuration update that cancels the removal makes the worker active, although the worker was
  never enabled and still carries its disable reason and time.\<close>

theorem disabled_worker_revived_by_config_update:
  assumes "used_slots w \<noteq> 0" "eligibility (lifecycle w) = eligibility_state.Healthy"
  shows "let v = update_config cfg (drain_for_removal t (disable now r w))
         in is_schedulable (lifecycle v) \<and> disabled_reason v = r \<and> disabled_at v \<noteq> None"
  using assms
  by (simp add: Let_def update_config_def drain_for_removal_def start_drain_def disable_def
      check_drain_complete_def set_admin_def is_schedulable_def disabled_at_def
      current_unix_secs_for_disabled_at_def)

theorem disabled_worker_revived_by_config_update_witness:
  "is_schedulable (lifecycle (update_config \<lparr>config_id = ''w1'', total_slots = 8\<rparr>
     (drain_for_removal 2 (disable 1 (Some ''bad disk'')
       ((worker_new 0 \<lparr>config_id = ''w1'', total_slots = 8\<rparr>)\<lparr>used_slots := 2\<rparr>)))))"
  using disabled_worker_revived_by_config_update
    [of "(worker_new 0 \<lparr>config_id = ''w1'', total_slots = 8\<rparr>)\<lparr>used_slots := 2\<rparr>"
      "\<lparr>config_id = ''w1'', total_slots = 8\<rparr>" 2 1 "Some ''bad disk''"]
  by (simp add: Let_def worker_new_def lifecycle_new_def)

text \<open>Applying a health-derived status changes neither the operator's intent nor a quarantine,
  never makes an unschedulable draining, disabled, bypassed or canary worker schedulable, and returns
  the status the worker then has.\<close>

theorem apply_health_status_safe:
  "let (v, s) = apply_health_status h w
   in admin (lifecycle v) = admin (lifecycle w) \<and> s = status v
      \<and> (eligibility (lifecycle w) \<in> {TemporaryBypass, RecoveredPendingCanary} \<longrightarrow> lifecycle v = lifecycle w)
      \<and> (\<not> lifecycle_accepts_new_builds (lifecycle w) \<longrightarrow> \<not> is_schedulable (lifecycle v))"
proof -
  have acc: "\<not> lifecycle_accepts_new_builds l \<longleftrightarrow>
      admin l \<noteq> Active \<or> eligibility l \<in> {TemporaryBypass, RecoveredPendingCanary}" for l
    by (cases "admin l") (simp_all add: lifecycle_accepts_new_builds_def)
  show ?thesis
    unfolding acc
    by (auto simp: apply_health_status_def observe_health_def Let_def status_def is_schedulable_def
        split: option.split)
qed

theorem apply_health_status_safe_witness:
  "let w = (worker_new 0 \<lparr>config_id = ''w1'', total_slots = 8\<rparr>)\<lparr>lifecycle := enter_bypass Ssh lifecycle_new\<rparr>
   in admin (lifecycle (fst (apply_health_status worker_status.Healthy w))) = Active
      \<and> \<not> is_schedulable (lifecycle (fst (apply_health_status worker_status.Healthy w)))"
  using apply_health_status_safe [of worker_status.Healthy
      "(worker_new 0 \<lparr>config_id = ''w1'', total_slots = 8\<rparr>)\<lparr>lifecycle := enter_bypass Ssh lifecycle_new\<rparr>"]
  by (auto simp: Let_def split_def enter_bypass_def lifecycle_new_def lifecycle_accepts_new_builds_def)

section \<open>The pool: behaviour\<close>

text \<open>Identifiers are unique, every worker is filed under its own identifier, and the atomic counter
  is the number of workers.\<close>

definition pool_inv :: "worker_pool \<Rightarrow> bool" where
  "pool_inv p \<longleftrightarrow>
     distinct (map fst (workers p)) \<and> worker_count p = length (workers p) \<and>
     list_all (\<lambda>(k, w). config_id (config w) = k) (workers p)"

lemma keys_map [simp]: "map (fst \<circ> (\<lambda>(k, w). (k, g k w))) xs = map fst xs"
  by (induction xs) auto

lemma map_of_update:
  "map_of (map (\<lambda>(k, w). (k, if k = i then f w else w)) xs) j =
     (if j = i then map_option f (map_of xs j) else map_of xs j)"
  by (induction xs) auto

lemma pool_get_update:
  "pool_get j (pool_update i f p) = (if j = i then map_option f (pool_get j p) else pool_get j p)"
  by (simp add: pool_get_def pool_update_def map_of_update)

lemma pool_inv_update:
  assumes "pool_inv p" "\<And>w. config_id (config w) = i \<Longrightarrow> config_id (config (f w)) = i"
  shows "pool_inv (pool_update i f p)"
  using assms by (auto simp: pool_inv_def pool_update_def list_all_iff)

lemma update_config_config [simp]: "config (update_config cfg w) = cfg"
  by (simp add: update_config_def Let_def)

lemma pool_inv_add: "pool_inv p \<Longrightarrow> pool_inv (add_worker now cfg p)"
proof (cases "pool_get (config_id cfg) p")
  case None
  assume "pool_inv p"
  moreover from None have "config_id cfg \<notin> fst ` set (workers p)"
    by (simp add: pool_get_def map_of_eq_None_iff)
  ultimately show ?thesis using None by (simp add: add_worker_def pool_inv_def worker_new_def)
next
  case (Some w)
  assume "pool_inv p"
  with Some show ?thesis by (simp add: add_worker_def pool_inv_update)
qed

lemma distinct_filter_keys:
  "distinct (map fst xs) \<Longrightarrow> distinct (map fst (filter P xs))"
  by (simp add: distinct_map_filter)

lemma length_filter_key:
  "distinct (map fst xs) \<Longrightarrow> map_of xs i \<noteq> None \<Longrightarrow>
     Suc (length (filter (\<lambda>(k, w). k \<noteq> i) xs)) = length xs"
proof (induction xs)
  case (Cons x xs)
  show ?case
  proof (cases "fst x = i")
    case True
    with Cons.prems(1) have "filter (\<lambda>(k, w). k \<noteq> i) xs = xs"
      by (intro filter_True) (auto simp: image_iff)
    with True show ?thesis by (simp add: split_def)
  next
    case False
    with Cons show ?thesis by (auto simp: split_def split: if_splits)
  qed
qed simp

lemma pool_inv_remove:
  assumes "pool_inv p"
  shows "pool_inv (fst (remove_worker i p))"
proof (cases "pool_get i p")
  case (Some w)
  then have "Suc (length (filter (\<lambda>(k, w). k \<noteq> i) (workers p))) = length (workers p)"
    using assms by (intro length_filter_key) (simp_all add: pool_inv_def pool_get_def)
  with assms Some show ?thesis
    by (auto simp: remove_worker_def pool_inv_def distinct_filter_keys list_all_iff)
qed (use assms in \<open>simp add: remove_worker_def\<close>)

lemma key_selected:
  assumes "distinct (map fst c)" "x \<in> set c"
  shows "fst x \<in> set (map fst (filter (\<lambda>(k, w). P w) c)) \<longleftrightarrow> P (snd x)"
proof
  assume "fst x \<in> set (map fst (filter (\<lambda>(k, w). P w) c))"
  then obtain w where w: "(fst x, w) \<in> set c" "P w" by auto
  with assms have "w = snd x" by (metis eq_key_imp_eq_value prod.collapse)
  with w show "P (snd x)" by simp
qed (use assms in force)

text \<open>One pass suffices to say what pruning keeps.\<close>

lemma prune_drained_workers:
  assumes "distinct (map fst (workers p))"
  shows "workers (fst (prune_drained now p)) =
    filter (\<lambda>(k, w). \<not> prunable w) (map (\<lambda>(k, w). (k, check_drain_complete now w)) (workers p))"
proof -
  let ?c = "map (\<lambda>(k, w). (k, check_drain_complete now w)) (workers p)"
  let ?r = "map fst (filter (\<lambda>(k, w). prunable w) ?c)"
  have d: "distinct (map fst ?c)" using assms by simp
  have mem: "fst x \<in> set ?r \<longleftrightarrow> prunable (snd x)" if "x \<in> set ?c" for x
    using key_selected [OF d that] .
  have e1: "map (\<lambda>(k, w). (k, if k \<in> set ?r then check_drain_complete now w else w)) ?c = ?c"
    by (auto simp: check_drain_idem)
  have e2: "filter (\<lambda>(k, w). \<not> (k \<in> set ?r \<and> prunable w)) ?c = filter (\<lambda>(k, w). \<not> prunable w) ?c"
    using mem unfolding split_def by (intro filter_cong refl) blast
  show ?thesis unfolding prune_drained_def Let_def e1 e2 by simp
qed

lemma prune_drained_count:
  "snd (prune_drained now p) = length (workers p) - length (workers (fst (prune_drained now p)))"
  unfolding prune_drained_def Let_def by simp

lemma pool_inv_prune:
  assumes "pool_inv p"
  shows "pool_inv (fst (prune_drained now p))"
proof -
  let ?q = "fst (prune_drained now p)"
  have d: "distinct (map fst (workers p))" using assms by (simp add: pool_inv_def)
  have "worker_count ?q = worker_count p - snd (prune_drained now p)"
    by (simp add: prune_drained_def Let_def)
  then have "worker_count ?q = length (workers ?q)"
    using assms unfolding prune_drained_count prune_drained_workers [OF d] pool_inv_def
    by (simp add: le_trans [OF length_filter_le])
  moreover have "distinct (map fst (workers ?q))"
    unfolding prune_drained_workers [OF d] using d by (intro distinct_filter_keys) simp
  moreover have "list_all (\<lambda>(k, w). config_id (config w) = k) (workers ?q)"
    using assms unfolding prune_drained_workers [OF d] by (auto simp: pool_inv_def list_all_iff)
  ultimately show ?thesis by (simp add: pool_inv_def)
qed

text \<open>Every call on the pool, and every call on one of its workers that keeps its configuration.\<close>

inductive pool_step :: "worker_pool \<Rightarrow> worker_pool \<Rightarrow> bool" where
  pool_add: "pool_step p (add_worker now cfg p)"
| pool_remove: "pool_step p (fst (remove_worker i p))"
| pool_prune: "pool_step p (fst (prune_drained now p))"
| pool_status: "pool_step p (pool_set_status i s p)"
| pool_release: "pool_step p (pool_release_slots now i n p)"
| pool_reserve: "pool_step p (pool_update i (\<lambda>w. fst (reserve_slots n w)) p)"
| pool_drain: "pool_step p (pool_update i (start_drain action now) p)"
| pool_disable: "pool_step p (pool_update i (disable now r) p)"
| pool_enable: "pool_step p (pool_update i (enable t) p)"
| pool_health: "pool_step p (pool_update i (\<lambda>w. fst (apply_health_status s w)) p)"

lemma worker_ops_config [simp]:
  "config (set_status s w) = config w" "config (release_slots now n w) = config w"
  "config (fst (reserve_slots n w)) = config w" "config (start_drain action now w) = config w"
  "config (disable now r w) = config w" "config (enable t w) = config w"
  "config (fst (apply_health_status h w)) = config w"
  by (simp_all add: set_status_def release_slots_def reserve_slots_def start_drain_def disable_def
      enable_def apply_health_status_def Let_def)

lemma pool_inv_new: "pool_inv pool_new"
  by (simp add: pool_inv_def pool_new_def)

lemma pool_step_inv: "pool_inv p \<Longrightarrow> pool_step p q \<Longrightarrow> pool_inv q"
  by (erule pool_step.cases)
    (simp_all add: pool_inv_add pool_inv_remove pool_inv_prune pool_set_status_def
      pool_release_slots_def pool_inv_update)

interpretation pool: transition_system "\<lambda>p. p = pool_new" pool_step pool_inv
  by unfold_locales (simp_all add: pool_inv_new pool_step_inv)

lemma map_of_kept:
  "distinct (map fst xs) \<Longrightarrow>
     map_of (filter (\<lambda>(k, w). \<not> P w) (map (\<lambda>(k, w). (k, f w)) xs)) i =
       (case map_of xs i of None \<Rightarrow> None | Some w \<Rightarrow> if P (f w) then None else Some (f w))"
proof (induction xs)
  case (Cons x xs)
  have "map_of xs (fst x) = None" using Cons.prems by (simp add: map_of_eq_None_iff)
  with Cons show ?case by (cases x) auto
qed simp

lemma prune_drained_parts:
  assumes "reach_from (\<lambda>p. p = pool_new) pool_step p"
  shows "worker_count p = length (workers p) \<and> distinct (map fst (workers p))"
    and "pool_get i (fst (prune_drained now p)) =
           (case pool_get i p of
              None \<Rightarrow> None
            | Some w \<Rightarrow>
                if used_slots w = 0 \<and> drain_completion w = RemoveFromPool
                   \<and> admin (lifecycle w) \<in> {admin_intent.Draining, admin_intent.Drained}
                then None else Some (check_drain_complete now w))"
    and "worker_count (fst (prune_drained now p)) + snd (prune_drained now p) = worker_count p"
proof -
  have inv: "pool_inv p" using assms by (rule pool.reachable_good)
  then show "worker_count p = length (workers p) \<and> distinct (map fst (workers p))"
    by (simp add: pool_inv_def)
  have d: "distinct (map fst (workers p))" using inv by (simp add: pool_inv_def)
  show "worker_count (fst (prune_drained now p)) + snd (prune_drained now p) = worker_count p"
    using inv pool_inv_prune [OF inv, of now]
    by (auto simp: pool_inv_def prune_drained_count prune_drained_workers [OF d]
        le_trans [OF length_filter_le])
  have pr: "prunable (check_drain_complete now w) \<longleftrightarrow>
      used_slots w = 0 \<and> drain_completion w = RemoveFromPool
      \<and> admin (lifecycle w) \<in> {admin_intent.Draining, admin_intent.Drained}" for w
    by (cases "admin (lifecycle w)"; cases "eligibility (lifecycle w)")
      (auto simp: prunable_def status_def legacy_status_def remove_after_drain_pending_def
        check_drain_complete_def set_admin_def split: drain_completion_action.splits)
  show "pool_get i (fst (prune_drained now p)) =
      (case pool_get i p of
         None \<Rightarrow> None
       | Some w \<Rightarrow>
           if used_slots w = 0 \<and> drain_completion w = RemoveFromPool
              \<and> admin (lifecycle w) \<in> {admin_intent.Draining, admin_intent.Drained}
           then None else Some (check_drain_complete now w))"
    unfolding pool_get_def prune_drained_workers [OF d] pr [symmetric]
    by (rule map_of_kept [OF d])
qed

text \<open>In every reachable pool the atomic counter equals the number of workers and identifiers are
  unique, and pruning then removes exactly the workers whose drain for removal is complete: none with
  a slot in use, none the operator merely drained, and it returns how many it removed.\<close>

theorem prune_drained_exact:
  assumes "reach_from (\<lambda>p. p = pool_new) pool_step p"
  shows "worker_count p = length (workers p) \<and> distinct (map fst (workers p))
    \<and> pool_get i (fst (prune_drained now p)) =
         (case pool_get i p of
            None \<Rightarrow> None
          | Some w \<Rightarrow>
              if used_slots w = 0 \<and> drain_completion w = RemoveFromPool
                 \<and> admin (lifecycle w) \<in> {admin_intent.Draining, admin_intent.Drained}
              then None else Some (check_drain_complete now w))
    \<and> worker_count (fst (prune_drained now p)) + snd (prune_drained now p) = worker_count p"
  by (intro conjI prune_drained_parts [OF assms] prune_drained_parts(1) [OF assms, THEN conjunct1]
      prune_drained_parts(1) [OF assms, THEN conjunct2])

theorem prune_drained_exact_witness:
  "let p = pool_update ''w1'' (start_drain RemoveFromPool 5) (add_worker 0 \<lparr>config_id = ''w1'', total_slots = 8\<rparr> pool_new)
   in pool_get ''w1'' (fst (prune_drained 6 p)) = None"
proof -
  let ?p = "pool_update ''w1'' (start_drain RemoveFromPool 5)
    (add_worker 0 \<lparr>config_id = ''w1'', total_slots = 8\<rparr> pool_new)"
  have "reach_from (\<lambda>p. p = pool_new) pool_step pool_new" by (rule reach_start) simp
  then have "reach_from (\<lambda>p. p = pool_new) pool_step
      (add_worker 0 \<lparr>config_id = ''w1'', total_slots = 8\<rparr> pool_new)"
    by (rule reach_move) (rule pool_add)
  then have "reach_from (\<lambda>p. p = pool_new) pool_step ?p" by (rule reach_move) (rule pool_drain)
  from prune_drained_exact [OF this, of "''w1''" 6, THEN conjunct2, THEN conjunct2, THEN conjunct1] show ?thesis
    by (simp add: pool_update_def add_worker_def pool_get_def pool_new_def worker_new_def
        lifecycle_new_def start_drain_def check_drain_complete_def set_admin_def Let_def)
qed

text \<open>The workers offered for job assignment are exactly the members of the pool whose lifecycle
  is schedulable, so a draining, disabled, unreachable, bypassed or canary worker is never offered.\<close>

theorem healthy_workers_schedulable:
  "set (healthy_workers p) = {(i, w) \<in> set (workers p). is_schedulable (lifecycle w)}"
  using legacy_schedulable_iff by (auto simp: healthy_workers_def status_def legacy_schedulable_def)

text \<open>The cache list never holds a project twice and never more than a hundred.\<close>

definition cache_inv :: "worker_state \<Rightarrow> bool" where
  "cache_inv w \<longleftrightarrow> distinct (cached_projects w) \<and> length (cached_projects w) \<le> 100"

lemma add_cached_project_inv:
  assumes "cache_inv w"
  shows "cache_inv (add_cached_project p w) \<and> has_cached_project p (add_cached_project p w)"
proof (cases "length (cached_projects w) \<ge> 100")
  case True
  with assms show ?thesis
    by (cases "cached_projects w") (auto simp: cache_inv_def add_cached_project_def has_cached_project_def)
next
  case False
  with assms show ?thesis
    by (auto simp: cache_inv_def add_cached_project_def has_cached_project_def)
qed

end
