(* ===== verification/Slot_Race.thy ===== *)
theory Slot_Race
  imports Worker "HOL-Library.Multiset"
begin

text \<open>
  Concurrent reservations on one worker. \<open>reserve_slots\<close> and \<open>release_slots\<close> of
  \<open>rchd/src/workers.rs\<close> are compare-and-swap loops that run in many tasks at once, interleaved with
  operator actions, health probes, configuration updates and the completion of drains. Here each
  atomic access is one step. A task is its control point; the tasks form a multiset. The lock
  around the lifecycle is explicit where the code holds it across two accesses, in the second half
  of \<open>check_drain_complete\<close>.

  \<open>release_slots\<close> takes any count. A build that ends returns the count it reserved; a release request
  without a build identifier (\<open>handle_release_worker\<close> of \<open>rchd/src/api.rs\<close>) returns whatever the caller
  says. Both are tasks here, and the slots returned by the second kind are summed up.

  The main invariant is that the counter is what the tasks hold, up to the slots returned without a
  reservation, and never exceeds the largest slot count the worker was configured with. From it
  follows that a worker marked drained has no committed job, as long as nothing was returned without
  a reservation.
\<close>

section \<open>Tasks\<close>

datatype task =
    Loaded "32 word" "32 word"
  | Life_Ok "32 word" "32 word"
  | Checked "32 word" "32 word"
  | Reserved "32 word"
  | Committed "32 word"
  | Releasing "32 word"
  | Release_Loaded "32 word" "32 word"
  | Unbacked "32 word"
  | Unbacked_Loaded "32 word" "32 word"

record race_state =
  r_used :: "32 word"
  r_total :: "32 word"
  r_lifecycle :: worker_lifecycle
  r_drain_lock :: bool
  r_tasks :: "task multiset"
  r_unbacked :: nat

text \<open>The slots a task has added to the counter and not yet taken back.\<close>

fun held :: "task \<Rightarrow> nat" where
  "held (Reserved n) = unat n"
| "held (Committed n) = unat n"
| "held (Releasing n) = unat n"
| "held (Release_Loaded n _) = unat n"
| "held _ = 0"

definition held_total :: "task multiset \<Rightarrow> nat" where
  "held_total M = sum_mset (image_mset held M)"

definition move_task :: "race_state \<Rightarrow> task multiset \<Rightarrow> task \<Rightarrow> race_state" where
  "move_task s M t = s\<lparr>r_tasks := add_mset t M\<rparr>"

text \<open>One atomic access. \<open>T\<close> bounds every slot count the worker is ever configured with. The
  lifecycle is only read and written while the drain check does not hold its lock.\<close>

inductive race_step :: "nat \<Rightarrow> race_state \<Rightarrow> race_state \<Rightarrow> bool" for T where
  \<comment> \<open>\<open>reserve_slots\<close>: load, lifecycle check, slot check, compare-and-swap, recheck\<close>
  reserve_load: "n \<noteq> 0 \<Longrightarrow> race_step T s (s\<lparr>r_tasks := add_mset (Loaded n (r_used s)) (r_tasks s)\<rparr>)"
| reserve_refused: "r_tasks s = add_mset (Loaded n cur) M \<Longrightarrow> \<not> r_drain_lock s \<Longrightarrow>
    \<not> lifecycle_accepts_new_builds (r_lifecycle s) \<Longrightarrow> race_step T s (s\<lparr>r_tasks := M\<rparr>)"
| reserve_life: "r_tasks s = add_mset (Loaded n cur) M \<Longrightarrow> \<not> r_drain_lock s \<Longrightarrow>
    lifecycle_accepts_new_builds (r_lifecycle s) \<Longrightarrow> race_step T s (move_task s M (Life_Ok n cur))"
| reserve_full: "r_tasks s = add_mset (Life_Ok n cur) M \<Longrightarrow>
    saturating_add cur n > r_total s \<Longrightarrow> race_step T s (s\<lparr>r_tasks := M\<rparr>)"
| reserve_fits: "r_tasks s = add_mset (Life_Ok n cur) M \<Longrightarrow>
    \<not> saturating_add cur n > r_total s \<Longrightarrow> race_step T s (move_task s M (Checked n cur))"
| reserve_cas: "r_tasks s = add_mset (Checked n cur) M \<Longrightarrow> r_used s = cur \<Longrightarrow>
    race_step T s (move_task (s\<lparr>r_used := cur + n\<rparr>) M (Reserved n))"
| reserve_cas_failed: "r_tasks s = add_mset (Checked n cur) M \<Longrightarrow> r_used s \<noteq> cur \<Longrightarrow>
    race_step T s (move_task s M (Loaded n (r_used s)))"
| reserve_commit: "r_tasks s = add_mset (Reserved n) M \<Longrightarrow> \<not> r_drain_lock s \<Longrightarrow>
    lifecycle_accepts_new_builds (r_lifecycle s) \<Longrightarrow> race_step T s (move_task s M (Committed n))"
| reserve_rollback: "r_tasks s = add_mset (Reserved n) M \<Longrightarrow> \<not> r_drain_lock s \<Longrightarrow>
    \<not> lifecycle_accepts_new_builds (r_lifecycle s) \<Longrightarrow> race_step T s (move_task s M (Releasing n))"
  \<comment> \<open>\<open>release_slots\<close>: load and compare-and-swap\<close>
| release_start: "r_tasks s = add_mset (Committed n) M \<Longrightarrow> race_step T s (move_task s M (Releasing n))"
| release_load: "r_tasks s = add_mset (Releasing n) M \<Longrightarrow>
    race_step T s (move_task s M (Release_Loaded n (r_used s)))"
| release_cas: "r_tasks s = add_mset (Release_Loaded n cur) M \<Longrightarrow> r_used s = cur \<Longrightarrow>
    race_step T s (s\<lparr>r_used := saturating_sub cur n, r_tasks := M\<rparr>)"
| release_cas_failed: "r_tasks s = add_mset (Release_Loaded n cur) M \<Longrightarrow> r_used s \<noteq> cur \<Longrightarrow>
    race_step T s (move_task s M (Release_Loaded n (r_used s)))"
  \<comment> \<open>\<open>release_slots\<close> with a count that no reservation backs\<close>
| unbacked_start: "race_step T s (s\<lparr>r_tasks := add_mset (Unbacked n) (r_tasks s)\<rparr>)"
| unbacked_load: "r_tasks s = add_mset (Unbacked n) M \<Longrightarrow>
    race_step T s (move_task s M (Unbacked_Loaded n (r_used s)))"
| unbacked_cas: "r_tasks s = add_mset (Unbacked_Loaded n cur) M \<Longrightarrow> r_used s = cur \<Longrightarrow>
    race_step T s (s\<lparr>r_used := saturating_sub cur n, r_tasks := M, r_unbacked := r_unbacked s + unat n\<rparr>)"
| unbacked_cas_failed: "r_tasks s = add_mset (Unbacked_Loaded n cur) M \<Longrightarrow> r_used s \<noteq> cur \<Longrightarrow>
    race_step T s (move_task s M (Unbacked_Loaded n (r_used s)))"
  \<comment> \<open>\<open>check_drain_complete\<close>: under the write lock, read the counter, then set the intent\<close>
| drain_lock: "\<not> r_drain_lock s \<Longrightarrow> admin (r_lifecycle s) = admin_intent.Draining \<Longrightarrow> r_used s = 0 \<Longrightarrow>
    race_step T s (s\<lparr>r_drain_lock := True\<rparr>)"
| drain_done: "r_drain_lock s \<Longrightarrow> i \<in> {admin_intent.Drained, admin_intent.Disabled} \<Longrightarrow>
    race_step T s (s\<lparr>r_drain_lock := False, r_lifecycle := set_admin i (r_lifecycle s)\<rparr>)"
  \<comment> \<open>the operator, probes and configuration updates\<close>
| operator: "\<not> r_drain_lock s \<Longrightarrow> i \<in> {Active, admin_intent.Draining, admin_intent.Disabled} \<Longrightarrow>
    race_step T s (s\<lparr>r_lifecycle := set_admin i (r_lifecycle s)\<rparr>)"
| probe: "\<not> r_drain_lock s \<Longrightarrow> race_step T s (s\<lparr>r_lifecycle := live_apply e (r_lifecycle s)\<rparr>)"
| reconfigure: "unat t \<le> T \<Longrightarrow> race_step T s (s\<lparr>r_total := t\<rparr>)"

definition race_start :: "nat \<Rightarrow> race_state \<Rightarrow> bool" where
  "race_start T s \<longleftrightarrow>
     r_used s = 0 \<and> unat (r_total s) \<le> T \<and> r_lifecycle s = lifecycle_new \<and> \<not> r_drain_lock s
     \<and> r_tasks s = {#} \<and> r_unbacked s = 0"

section \<open>The invariant\<close>

fun request_ok :: "task \<Rightarrow> bool" where
  "request_ok (Committed n) = (n \<noteq> 0)"
| "request_ok (Reserved n) = (n \<noteq> 0)"
| "request_ok (Loaded n _) = (n \<noteq> 0)"
| "request_ok (Life_Ok n _) = (n \<noteq> 0)"
| "request_ok (Checked n _) = (n \<noteq> 0)"
| "request_ok _ = True"

fun fits :: "nat \<Rightarrow> task \<Rightarrow> bool" where
  "fits T (Checked n cur) = (unat cur + unat n \<le> T)"
| "fits T _ = True"

definition committed :: "task \<Rightarrow> bool" where
  "committed t \<longleftrightarrow> (\<exists>n. t = Committed n)"

lemma committed_simps [simp]:
  "committed (Committed n)" "\<not> committed (Loaded n c)" "\<not> committed (Life_Ok n c)"
  "\<not> committed (Checked n c)" "\<not> committed (Reserved n)" "\<not> committed (Releasing n)"
  "\<not> committed (Release_Loaded n c)" "\<not> committed (Unbacked n)" "\<not> committed (Unbacked_Loaded n c)"
  by (simp_all add: committed_def)

definition race_inv :: "nat \<Rightarrow> race_state \<Rightarrow> bool" where
  "race_inv T s \<longleftrightarrow>
     unat (r_used s) \<le> held_total (r_tasks s) \<and> held_total (r_tasks s) \<le> unat (r_used s) + r_unbacked s
     \<and> unat (r_used s) \<le> T \<and> unat (r_total s) \<le> T
     \<and> (\<forall>t\<in>#r_tasks s. request_ok t \<and> fits T t)
     \<and> (r_drain_lock s \<longrightarrow> admin (r_lifecycle s) = admin_intent.Draining)
     \<and> (r_unbacked s = 0 \<and> (r_drain_lock s \<or> admin (r_lifecycle s) = admin_intent.Drained) \<longrightarrow>
          (\<forall>t\<in>#r_tasks s. \<not> committed t))"

lemma held_total_simps [simp]:
  "held_total {#} = 0" "held_total (add_mset t M) = held t + held_total M"
  by (simp_all add: held_total_def)

lemma held_total_zero:
  assumes "held_total M = 0" "\<forall>t\<in>#M. request_ok t" "t \<in># M"
  shows "\<not> committed t"
proof
  assume "committed t"
  then obtain n where t: "t = Committed n" by (auto simp: committed_def)
  have "held t = 0" using assms(1,3) by (auto simp: held_total_def)
  with t assms(2,3) show False by (auto simp: unat_eq_0)
qed

lemma accepts_not_drained:
  "lifecycle_accepts_new_builds l \<Longrightarrow> admin l \<noteq> admin_intent.Drained"
  by (auto simp: lifecycle_accepts_new_builds_def)

lemma fits_checked:
  assumes "unat (t :: 32 word) \<le> T" "T < 2 ^ 32 - 1" "\<not> saturating_add cur n > t"
  shows "unat cur + unat n \<le> T"
proof -
  have "t \<noteq> - 1" using assms(1,2) by auto
  from saturating_add_gt [OF this, of cur n] assms(1,3) show ?thesis by simp
qed

lemma race_step_inv:
  assumes "T < 2 ^ 32 - 1" "race_step T s s'" "race_inv T s"
  shows "race_inv T s'"
  using assms(2,3)
proof (cases rule: race_step.cases)
  case (reserve_fits n cur M)
  with assms(1,3) fits_checked [of "r_total s" T cur n] show ?thesis
    by (auto simp: race_inv_def move_task_def)
next
  case (reserve_cas n cur M)
  with assms(3) have f: "unat (r_used s) + unat n \<le> T" by (auto simp: race_inv_def)
  then have "unat (r_used s + n) = unat (r_used s) + unat n"
    using assms(1) by (intro unat_plus_no_overflow) simp
  with reserve_cas assms(3) f show ?thesis by (auto simp: race_inv_def move_task_def)
next
  case (release_cas n cur M)
  with assms(3) have h: "unat (r_used s) \<le> unat n + held_total M" "unat n + held_total M \<le> unat (r_used s) + r_unbacked s"
    by (auto simp: race_inv_def)
  have "unat (saturating_sub (r_used s) n) = unat (r_used s) - unat n" by (rule unat_saturating_sub)
  with release_cas assms(3) h show ?thesis by (auto simp: race_inv_def)
next
  case (unbacked_cas n cur M)
  with assms(3) have h: "unat (r_used s) \<le> held_total M" "held_total M \<le> unat (r_used s) + r_unbacked s"
    by (auto simp: race_inv_def)
  have "unat (saturating_sub (r_used s) n) = unat (r_used s) - unat n" by (rule unat_saturating_sub)
  with unbacked_cas assms(3) h show ?thesis by (auto simp: race_inv_def)
next
  case drain_lock
  with assms(3) held_total_zero [of "r_tasks s"] show ?thesis by (auto simp: race_inv_def)
qed (use accepts_not_drained in \<open>auto simp: race_inv_def move_task_def set_admin_def\<close>)

interpretation race: transition_system "race_start T" "race_step T" "\<lambda>s. T < 2 ^ 32 - 1 \<longrightarrow> race_inv T s"
  for T
proof unfold_locales
  show "race_start T s \<Longrightarrow> T < 2 ^ 32 - 1 \<longrightarrow> race_inv T s" for s
    by (simp add: race_start_def race_inv_def lifecycle_new_def)
  show "T < 2 ^ 32 - 1 \<longrightarrow> race_inv T s \<Longrightarrow> race_step T s t \<Longrightarrow> T < 2 ^ 32 - 1 \<longrightarrow> race_inv T t" for s t
    using race_step_inv by blast
qed


text \<open>A worker that a drain has marked drained has no committed job, if nothing was released without a
  reservation: a reservation that slipped in beside the drain check is rolled back, never handed to a build.\<close>

theorem drained_has_no_job:
  assumes "reach_from (race_start T) (race_step T) s" "T < 2 ^ 32 - 1"
    "admin (r_lifecycle s) = admin_intent.Drained" "r_unbacked s = 0"
  shows "\<forall>n. Committed n \<notin># r_tasks s"
  using race.reachable_good [OF assms(1)] assms(2,3,4) by (auto simp: race_inv_def committed_def)

section \<open>Witnesses\<close>

definition race_example :: race_state where
  "race_example =
     \<lparr>r_used = 0, r_total = 4, r_lifecycle = lifecycle_new, r_drain_lock = False, r_tasks = {#}, r_unbacked = 0\<rparr>"

text \<open>One reservation passes its checks, the drain check reads the counter, the reservation swaps in,
  and the drain completes around it.\<close>

definition race_slipped :: race_state where
  "race_slipped = race_example\<lparr>r_used := 2, r_lifecycle := set_admin admin_intent.Drained lifecycle_new,
     r_tasks := {#Reserved 2#}\<rparr>"

lemma race_slipped_reachable: "reach_from (race_start 4) (race_step 4) race_slipped"
proof -
  let ?R = "reach_from (race_start 4) (race_step 4)"
  let ?e = race_example
  let ?d = "?e\<lparr>r_lifecycle := set_admin admin_intent.Draining lifecycle_new, r_tasks := {#Checked 2 0#}\<rparr>"
  note d = race_example_def move_task_def
  have "?R ?e" by (rule reach_start) (simp add: race_start_def race_example_def)
  then have "?R (?e\<lparr>r_tasks := {#Loaded 2 0#}\<rparr>)"
    by - (erule reach_to, rule reserve_load [of 2],
      simp_all add: d)
  then have "?R (?e\<lparr>r_tasks := {#Life_Ok 2 0#}\<rparr>)"
    by - (erule reach_to, rule reserve_life [of _ 2 0 "{#}"],
      simp_all add: d lifecycle_accepts_new_builds_def lifecycle_new_def)
  then have "?R (?e\<lparr>r_tasks := {#Checked 2 0#}\<rparr>)"
    by - (erule reach_to, rule reserve_fits [of _ 2 0 "{#}"],
      simp_all add: d saturating_add_def word_less_nat_alt)
  then have "?R ?d"
    by - (erule reach_to, rule operator [of _ admin_intent.Draining],
      simp_all add: d)
  then have "?R (?d\<lparr>r_drain_lock := True\<rparr>)"
    by - (erule reach_to, rule drain_lock,
      simp_all add: d set_admin_def)
  then have "?R (?d\<lparr>r_drain_lock := True, r_used := 2, r_tasks := {#Reserved 2#}\<rparr>)"
    by - (erule reach_to, rule reserve_cas [of _ 2 0 "{#}"],
      simp_all add: d)
  then show ?thesis
    by - (erule reach_to, rule drain_done [of _ admin_intent.Drained],
      simp_all add: d race_slipped_def set_admin_def lifecycle_new_def)
qed


theorem drained_has_no_job_witness: "\<forall>n. Committed n \<notin># r_tasks race_slipped"
  using drained_has_no_job [OF race_slipped_reachable]
  by (simp add: race_slipped_def race_example_def set_admin_def)

end
