(* ===== verification/Framing.thy ===== *)
theory Framing
  imports Prelude
begin

text \<open>
  Length-prefixed frames on the wrapper socket, \<open>rabs-protocol/src/framing.rs\<close>. A frame is the
  payload length in four little-endian bytes and the payload. \<open>decode\<close> takes at most one frame
  from the front of a buffer. The lemmas show that decoding inverts encoding on a whole stream cut
  at any place, and that a header is judged before anything is read behind it.
\<close>

section \<open>Definitions\<close>

unbundle bit_operations_syntax

definition to_le_bytes :: "32 word \<Rightarrow> byte list" where
  "to_le_bytes w = [ucast w, ucast (drop_bit 8 w), ucast (drop_bit 16 w), ucast (drop_bit 24 w)]"

definition from_le_bytes :: "byte list \<Rightarrow> 32 word" where
  "from_le_bytes bs =
     ucast (bs ! 0) OR push_bit 8 (ucast (bs ! 1)) OR push_bit 16 (ucast (bs ! 2))
     OR push_bit 24 (ucast (bs ! 3))"

definition DEFAULT_MAX_FRAME_BYTES :: "32 word" where
  "DEFAULT_MAX_FRAME_BYTES = 1024 * 1024"

datatype frame_error =
    PayloadTooLarge nat "32 word"
  | ClaimedLengthTooLarge "32 word" "32 word"

datatype decoded =
    Frame "byte list" nat
  | NeedMoreData

record frame_codec =
  max_frame_bytes :: "32 word"

definition default_frame_codec :: frame_codec where
  "default_frame_codec = \<lparr>max_frame_bytes = DEFAULT_MAX_FRAME_BYTES\<rparr>"

definition encode :: "frame_codec \<Rightarrow> byte list \<Rightarrow> frame_error + byte list" where
  "encode c payload =
     (if length payload \<ge> 2 ^ 32 then Inl (PayloadTooLarge (length payload) (max_frame_bytes c))
      else
        let len = of_nat (length payload)
        in if len > max_frame_bytes c then Inl (PayloadTooLarge (length payload) (max_frame_bytes c))
           else Inr (to_le_bytes len @ payload))"

definition decode :: "frame_codec \<Rightarrow> byte list \<Rightarrow> frame_error + decoded" where
  "decode c buf =
     (if length buf < 4 then Inr NeedMoreData
      else
        let claimed = from_le_bytes (take 4 buf)
        in if claimed > max_frame_bytes c then Inl (ClaimedLengthTooLarge claimed (max_frame_bytes c))
           else
             let total = 4 + unat claimed
             in if length buf < total then Inr NeedMoreData
                else Inr (Frame (drop 4 (take total buf)) total))"

section \<open>Byte order\<close>

lemma from_to_le_bytes: "from_le_bytes (to_le_bytes w) = w"
proof (rule bit_word_eqI)
  fix n
  assume "n < LENGTH(32)"
  then show "bit (from_le_bytes (to_le_bytes w)) n = bit w n"
    by (cases "n < 8"; cases "n < 16"; cases "n < 24")
      (auto simp: from_le_bytes_def to_le_bytes_def bit_simps)
qed

lemma length_to_le_bytes [simp]: "length (to_le_bytes w) = 4"
  by (simp add: to_le_bytes_def)

section \<open>One frame\<close>

lemma encode_Inr:
  assumes "encode c payload = Inr out"
  shows "\<exists>len. out = to_le_bytes len @ payload \<and> unat len = length payload \<and> len \<le> max_frame_bytes c"
proof -
  have small: "length payload < 2 ^ 32" using assms by (auto simp: encode_def split: if_splits)
  then have "unat (of_nat (length payload) :: 32 word) = length payload"
    by (simp add: unat_of_nat take_bit_eq_mod)
  with assms small show ?thesis by (auto simp: encode_def Let_def split: if_splits)
qed

lemma decode_encoded:
  assumes "encode c payload = Inr out"
  shows "decode c (out @ rest) = Inr (Frame payload (length out))"
proof -
  obtain len where len: "out = to_le_bytes len @ payload" "unat len = length payload"
    "len \<le> max_frame_bytes c"
    using encode_Inr [OF assms] by blast
  then show ?thesis by (simp add: decode_def from_to_le_bytes not_less)
qed

lemma decode_partial:
  assumes "encode c payload = Inr out" "n < length out"
  shows "decode c (take n out) = Inr NeedMoreData"
proof (cases "n < 4")
  case True
  then have "length (take n out) < 4" by simp
  then show ?thesis by (simp only: decode_def if_True)
next
  case False
  obtain len where len: "out = to_le_bytes len @ payload" "unat len = length payload"
    "len \<le> max_frame_bytes c"
    using encode_Inr [OF assms(1)] by blast
  have "take 4 (take n out) = to_le_bytes len" using False len(1) by (simp add: min_def)
  with False len assms(2) show ?thesis by (simp add: decode_def from_to_le_bytes not_less)
qed

lemma decode_frame:
  assumes "decode c buf = Inr (Frame payload consumed)"
  shows "consumed = 4 + length payload \<and> consumed \<le> length buf \<and> payload = drop 4 (take consumed buf)
    \<and> length payload \<le> unat (max_frame_bytes c)"
  using assms
  by (auto simp: decode_def Let_def word_le_nat_alt not_less split: if_splits)

section \<open>Streams\<close>

text \<open>A reader that advances its buffer by what each frame consumed, and what is left when no
  complete frame remains.\<close>

function read_frames :: "frame_codec \<Rightarrow> byte list \<Rightarrow> byte list list \<times> frame_error option \<times> byte list" where
  "read_frames c buf =
     (case decode c buf of
        Inl e \<Rightarrow> ([], Some e, buf)
      | Inr NeedMoreData \<Rightarrow> ([], None, buf)
      | Inr (Frame p consumed) \<Rightarrow>
          (let (ps, e, rest) = read_frames c (drop consumed buf) in (p # ps, e, rest)))"
  by pat_completeness auto
termination
  by (relation "measure (\<lambda>(c, buf). length buf)") (auto dest: decode_frame)

declare read_frames.simps [simp del]

lemma read_frames_encoded:
  assumes "list_all2 (\<lambda>p out. encode c p = Inr out) ps outs"
  shows "read_frames c (concat outs @ rest) =
    (let (qs, e, r) = read_frames c rest in (ps @ qs, e, r))"
  using assms
proof (induction rule: list_all2_induct)
  case Nil
  then show ?case by (simp split: prod.split)
next
  case (Cons p ps out outs)
  have "decode c (out @ (concat outs @ rest)) = Inr (Frame p (length out))"
    by (rule decode_encoded [OF Cons.hyps(1)])
  with Cons.IH show ?case
    by (simp add: read_frames.simps [of c "out @ (concat outs @ rest)"] Let_def split: prod.split)
qed

text \<open>C36: A stream of encoded frames followed by a proper part of another is read back exactly: the
  reader returns the payloads in order, reports no error, and keeps the part of the unfinished frame
  for later.\<close>

theorem framing_roundtrip:
  assumes "list_all2 (\<lambda>p out. encode c p = Inr out) ps outs" "encode c q = Inr out" "n < length out"
  shows "read_frames c (concat outs @ take n out) = (ps, None, take n out)"
  using read_frames_encoded [OF assms(1), of "take n out"] decode_partial [OF assms(2,3)]
  by (simp add: read_frames.simps [of c "take n out"])

theorem framing_roundtrip_witness:
  "read_frames default_frame_codec ([1, 0, 0, 0, 7] @ take 2 [1, 0, 0, 0, 9]) = ([[7]], None, [1, 0])"
proof -
  have "encode default_frame_codec [x] = Inr [1, 0, 0, 0, x]" for x
    by (simp add: encode_def default_frame_codec_def DEFAULT_MAX_FRAME_BYTES_def to_le_bytes_def)
  then show ?thesis
    using framing_roundtrip [of default_frame_codec "[[7]]" "[[1, 0, 0, 0, 7]]" "[9]" "[1, 0, 0, 0, 9]" 2]
    by simp
qed

text \<open>Decoding is bounded by the configured maximum: a header that claims more is refused from its
  four bytes alone, whatever follows; an accepted frame is a slice of the buffer of at most that many
  bytes, and it is consumed exactly. A payload is refused by the encoder exactly when it is longer
  than the maximum.\<close>

theorem framing_bounded:
  "(length h = 4 \<and> from_le_bytes h > max_frame_bytes c \<longrightarrow>
      decode c (h @ rest) = Inl (ClaimedLengthTooLarge (from_le_bytes h) (max_frame_bytes c)))
   \<and> (decode c buf = Inr (Frame payload consumed) \<longrightarrow>
        length payload \<le> unat (max_frame_bytes c) \<and> consumed \<le> length buf
        \<and> take consumed buf = take 4 buf @ payload)
   \<and> (isl (encode c payload) \<longleftrightarrow> length payload > unat (max_frame_bytes c))"
proof -
  have "isl (encode c payload) \<longleftrightarrow> length payload > unat (max_frame_bytes c)"
  proof (cases "length payload < 2 ^ 32")
    case True
    then show ?thesis by (simp add: encode_def Let_def word_less_nat_alt unat_of_nat take_bit_eq_mod)
  next
    case False
    with unat_bound [of "max_frame_bytes c"] show ?thesis by (simp add: encode_def)
  qed
  moreover have "take consumed buf = take 4 buf @ payload" if "decode c buf = Inr (Frame payload consumed)"
  proof -
    have f: "consumed = 4 + length payload" "payload = drop 4 (take consumed buf)"
      using decode_frame [OF that] by blast+
    have "take 4 (take consumed buf) = take 4 buf" unfolding f(1) by simp
    then show ?thesis using f(2) by (metis append_take_drop_id)
  qed
  moreover have "decode c (h @ rest) = Inl (ClaimedLengthTooLarge (from_le_bytes h) (max_frame_bytes c))"
    if "length h = 4" "from_le_bytes h > max_frame_bytes c"
    using that by (simp add: decode_def Let_def)
  moreover have "length payload \<le> unat (max_frame_bytes c) \<and> consumed \<le> length buf"
    if "decode c buf = Inr (Frame payload consumed)"
    using decode_frame [OF that] by blast
  ultimately show ?thesis by blast
qed

theorem framing_bounded_witness:
  "decode default_frame_codec ([0, 0, 32, 0] @ [1]) =
     Inl (ClaimedLengthTooLarge (from_le_bytes [0, 0, 32, 0]) DEFAULT_MAX_FRAME_BYTES)"
  using framing_bounded [of "[0, 0, 32, 0]" default_frame_codec "[1]" "[]" "[]" 0]
  by (simp add: default_frame_codec_def from_le_bytes_def DEFAULT_MAX_FRAME_BYTES_def word_less_nat_alt)

end
