(* ===== verification/Breaker.thy ===== *)
theory Breaker
  imports Prelude
begin

text \<open>
  Connect gating of the wrapper, \<open>rabs-protocol/src/wrapper_breaker.rs\<close>, and the process that uses it,
  \<open>rabs-wrap/src/main.rs\<close>: every intercepted command is a fresh process, so the breaker lives in a small
  state file. The theory has the decision, the outcome fold, the text codec of that file, and the
  wrapper's run between loading and storing it. Times are \<open>64 word\<close> milliseconds from the caller,
  the failure count is a \<open>32 word\<close>; a state file is text (the source first rejects bytes that are
  not UTF-8).
\<close>

section \<open>Policy and state\<close>

record breaker_policy =
  connect_timeout_ms :: "32 word"
  decision_timeout_ms :: "32 word"
  open_after_consecutive_failures :: "32 word"
  cooldown_ms :: "64 word"

definition default_breaker_policy :: breaker_policy where
  "default_breaker_policy =
     \<lparr>connect_timeout_ms = 25, decision_timeout_ms = 50, open_after_consecutive_failures = 3,
      cooldown_ms = 5000\<rparr>"

datatype breaker_state =
    Closed "32 word"
  | Open "64 word" "64 word option"

definition fresh :: breaker_state where
  "fresh = Closed 0"

fun probe_started :: "breaker_state \<Rightarrow> 64 word \<Rightarrow> breaker_state" where
  "probe_started (Closed n) now = Closed n"
| "probe_started (Open opened _) now = Open opened (Some now)"

datatype connect_decision =
    Attempt "32 word" "32 word"
  | Probe "32 word" "32 word"
  | SkipToLocal

datatype attempt_outcome = Succeeded | Failed

fun cooldown_reference :: "breaker_state \<Rightarrow> 64 word" where
  "cooldown_reference (Closed _) = 0"
| "cooldown_reference (Open opened (Some probe)) = (if probe > opened then probe else opened)"
| "cooldown_reference (Open opened None) = opened"

definition decide :: "breaker_policy \<Rightarrow> breaker_state \<Rightarrow> 64 word \<Rightarrow> connect_decision" where
  "decide policy state now =
     (let attempt = Attempt (connect_timeout_ms policy) (decision_timeout_ms policy)
      in case state of
           Closed _ \<Rightarrow> attempt
         | Open _ _ \<Rightarrow>
             let reference = cooldown_reference state
             in if reference > saturating_add now (cooldown_ms policy) then attempt
                else if saturating_sub now reference \<ge> cooldown_ms policy
                then Probe (connect_timeout_ms policy) (decision_timeout_ms policy)
                else SkipToLocal)"

definition on_outcome ::
  "breaker_policy \<Rightarrow> breaker_state \<Rightarrow> attempt_outcome \<Rightarrow> 64 word \<Rightarrow> breaker_state" where
  "on_outcome policy state outcome now =
     (case outcome of
        Succeeded \<Rightarrow> fresh
      | Failed \<Rightarrow>
          (case state of
             Closed consecutive_failures \<Rightarrow>
               let failures = saturating_add consecutive_failures 1
               in if failures \<ge> open_after_consecutive_failures policy then Open now None
                  else Closed failures
           | Open _ _ \<Rightarrow> Open now None))"

section \<open>The state file\<close>

text \<open>\<open>str::lines\<close>: the terminator is a newline, with a carriage return before it if there is one; a
  last line without a terminator counts, an empty rest does not.\<close>

fun lines_from :: "string \<Rightarrow> string \<Rightarrow> string list" where
  "lines_from cur [] = (if cur = [] then [] else [rev cur])"
| "lines_from cur (c # cs) =
     (if c = CHR 0x0A
      then rev (case cur of d # ds \<Rightarrow> if d = CHR 0x0D then ds else cur | [] \<Rightarrow> []) # lines_from [] cs
      else lines_from (c # cur) cs)"

definition str_lines :: "string \<Rightarrow> string list" where
  "str_lines s = lines_from [] s"

text \<open>\<open>str::split(' ')\<close>: empty fields are kept.\<close>

fun split_space :: "string \<Rightarrow> string \<Rightarrow> string list" where
  "split_space cur [] = [rev cur]"
| "split_space cur (c # cs) =
     (if c = CHR '' '' then rev cur # split_space [] cs else split_space (c # cur) cs)"

definition encode_state :: "breaker_state \<Rightarrow> string" where
  "encode_state state =
     (case state of
        Closed n \<Rightarrow> ''rabs-breaker v1'' @ [CHR 0x0A] @ ''closed '' @ show_nat (unat n) @ [CHR 0x0A]
      | Open opened probe \<Rightarrow>
          ''rabs-breaker v1'' @ [CHR 0x0A] @ ''open '' @ show_nat (unat opened) @ '' ''
          @ (case probe of None \<Rightarrow> ''-'' | Some p \<Rightarrow> show_nat (unat p)) @ [CHR 0x0A])"

definition decode_record :: "string list \<Rightarrow> breaker_state option" where
  "decode_record parts =
     (case parts of
        [k, a] \<Rightarrow>
          if k = ''closed'' then map_option Closed (parse_unsigned a) else None
      | [k, a, b] \<Rightarrow>
          if k = ''open'' then
            (case parse_unsigned a of
               None \<Rightarrow> None
             | Some opened \<Rightarrow>
                 if b = ''-'' then Some (Open opened None)
                 else (case parse_unsigned b of
                         None \<Rightarrow> None
                       | Some p \<Rightarrow> Some (Open opened (Some p))))
          else None
      | _ \<Rightarrow> None)"

definition decode_state :: "string \<Rightarrow> breaker_state option" where
  "decode_state text =
     (case str_lines text of
        [l1, l2] \<Rightarrow> if l1 \<noteq> ''rabs-breaker v1'' then None else decode_record (split_space [] l2)
      | _ \<Rightarrow> None)"

section \<open>Round trip of the state file\<close>

lemma lines_from_plain:
  "CHR 0x0A \<notin> set s \<Longrightarrow> CHR 0x0D \<notin> set (s @ cur) \<Longrightarrow>
     lines_from cur (s @ CHR 0x0A # rest) = (rev cur @ s) # lines_from [] rest"
proof (induction s arbitrary: cur)
  case Nil
  then show ?case by (cases cur) auto
next
  case (Cons a s)
  then show ?case by (cases "a = CHR 0x0A") auto
qed

lemma split_space_plain:
  "CHR '' '' \<notin> set s \<Longrightarrow> split_space cur s = [rev cur @ s]"
  "CHR '' '' \<notin> set s \<Longrightarrow> split_space cur (s @ CHR '' '' # rest) = (rev cur @ s) # split_space [] rest"
  by (induction s arbitrary: cur) auto

text \<open>The second line of the file, its fields, and what they decode to.\<close>

definition state_line :: "breaker_state \<Rightarrow> string" where
  "state_line s =
     (case s of
        Closed n \<Rightarrow> ''closed'' @ CHR '' '' # show_nat (unat n)
      | Open opened probe \<Rightarrow>
          ''open'' @ CHR '' '' # show_nat (unat opened) @ CHR '' ''
          # (case probe of None \<Rightarrow> ''-'' | Some p \<Rightarrow> show_nat (unat p)))"

definition state_fields :: "breaker_state \<Rightarrow> string list" where
  "state_fields s =
     (case s of
        Closed n \<Rightarrow> [''closed'', show_nat (unat n)]
      | Open opened probe \<Rightarrow>
          [''open'', show_nat (unat opened), case probe of None \<Rightarrow> ''-'' | Some p \<Rightarrow> show_nat (unat p)])"

lemma show_nat_no_sep: "c \<in> {CHR 0x0A, CHR 0x0D, CHR '' ''} \<Longrightarrow> c \<notin> set (show_nat n)"
  by (rule show_nat_no) (auto simp: is_ascii_digit_def)

lemma show_nat_not_dash: "show_nat n \<noteq> ''-''"
  using show_nat_digits [of n] by (auto simp: is_ascii_digit_def)

lemma state_line_fields: "split_space [] (state_line s) = state_fields s"
proof (cases s)
  case (Closed n)
  have "split_space [] (show_nat (unat n)) = [show_nat (unat n)]"
    using split_space_plain(1) [of "show_nat (unat n)" "[]"] show_nat_no_sep by simp
  with Closed show ?thesis
    using split_space_plain(2) [of "''closed''" "[]" "show_nat (unat n)"]
    by (simp add: state_line_def state_fields_def)
next
  case (Open opened probe)
  define p where "p = (case probe of None \<Rightarrow> ''-'' | Some p \<Rightarrow> show_nat (unat p))"
  have "CHR '' '' \<notin> set p" using show_nat_no_sep by (auto simp: p_def split: option.split)
  then have "split_space [] p = [p]" using split_space_plain(1) [of p "[]"] by simp
  moreover have "split_space [] (show_nat (unat opened) @ CHR '' '' # p) =
      show_nat (unat opened) # split_space [] p"
    using split_space_plain(2) [of "show_nat (unat opened)" "[]" p] show_nat_no_sep by simp
  ultimately show ?thesis
    using Open split_space_plain(2) [of "''open''" "[]" "show_nat (unat opened) @ CHR '' '' # p"]
    by (simp add: state_line_def state_fields_def p_def)
qed

lemma decode_state_fields: "decode_record (state_fields s) = Some s"
proof (cases s)
  case (Closed n)
  then show ?thesis by (simp add: state_fields_def decode_record_def parse_unsigned_show)
next
  case (Open opened probe)
  then show ?thesis
    by (cases probe)
      (simp_all add: state_fields_def decode_record_def parse_unsigned_show show_nat_not_dash)
qed

lemma state_line_no_break: "CHR 0x0A \<notin> set (state_line s)" "CHR 0x0D \<notin> set (state_line s)"
  using show_nat_no_sep by (auto simp: state_line_def split: breaker_state.split option.split)

lemma encode_state_lines: "str_lines (encode_state s) = [''rabs-breaker v1'', state_line s]"
proof -
  have "encode_state s = ''rabs-breaker v1'' @ CHR 0x0A # state_line s @ CHR 0x0A # []"
    by (simp add: encode_state_def state_line_def split: breaker_state.split)
  then show ?thesis
    using lines_from_plain [of "''rabs-breaker v1''" "[]" "state_line s @ CHR 0x0A # []"]
      lines_from_plain [of "state_line s" "[]" "[]"] state_line_no_break [of s]
    by (simp add: str_lines_def)
qed

text \<open>The persisted breaker state survives the state file: decoding what was encoded returns the
  same state, for every failure count and every pair of times.\<close>

theorem breaker_state_roundtrip: "decode_state (encode_state s) = Some s"
  by (simp add: decode_state_def encode_state_lines state_line_fields decode_state_fields)

section \<open>When the wrapper skips and when it probes\<close>

lemma decide_open:
  "decide policy (Open a b) now =
     (let r = unat (cooldown_reference (Open a b)); n = unat now; c = unat (cooldown_ms policy)
      in if r > min (n + c) (2 ^ 64 - 1)
         then Attempt (connect_timeout_ms policy) (decision_timeout_ms policy)
         else if n - r \<ge> c then Probe (connect_timeout_ms policy) (decision_timeout_ms policy)
         else SkipToLocal)"
  by (simp add: decide_def Let_def word_less_nat_alt word_le_nat_alt unat_saturating_add
      unat_saturating_sub)

text \<open>A command skips the edge only within one cooldown of the stored reference time, in either
  direction: for every stored state, if the decision is to skip then the clock has not yet reached the
  reference plus the cooldown, and the reference is at most one cooldown ahead. So neither a dead edge
  nor a clock step can strand the wrapper on the local path, and a closed breaker never skips.\<close>

theorem skip_is_bounded:
  assumes "decide policy s now = SkipToLocal"
  shows "(\<exists>a b. s = Open a b)
    \<and> unat now < unat (cooldown_reference s) + unat (cooldown_ms policy)
    \<and> unat (cooldown_reference s) \<le> unat now + unat (cooldown_ms policy)"
proof (cases s)
  case (Closed n)
  with assms show ?thesis by (simp add: decide_def)
next
  case (Open a b)
  with assms show ?thesis by (auto simp: decide_open Let_def split: if_splits)
qed

theorem skip_is_bounded_witness:
  "unat (3000 :: 64 word) < unat (cooldown_reference (Open 1000 None)) + unat (cooldown_ms default_breaker_policy)"
proof -
  have "decide default_breaker_policy (Open 1000 None) 3000 = SkipToLocal"
    by (simp add: decide_open default_breaker_policy_def)
  from skip_is_bounded [OF this] show ?thesis by blast
qed

section \<open>The wrapper around the breaker\<close>

text \<open>\<open>rabs-wrap/src/main.rs\<close>: every rustc invocation loads the state file, decides, and writes the file back after the
  consult, folding the outcome into the state and the time it read before it; a probe start is written ahead. The
  consult with the daemon is the outcome it has; \<open>killed\<close> says that the process died in it. The file is absent or its
  bytes. Writes succeed: the source ignores their errors.\<close>

fun args_window :: "'a \<Rightarrow> 'a \<Rightarrow> 'a list \<Rightarrow> bool" where
  "args_window x y (a # b # cs) \<longleftrightarrow> a = x \<and> b = y \<or> args_window x y (b # cs)"
| "args_window x y _ \<longleftrightarrow> False"

definition is_probe :: "string list \<Rightarrow> bool" where
  "is_probe args \<longleftrightarrow> list_ex (\<lambda>a. a = ''-vV'' \<or> a = ''-V'') args \<or> args_window ''--crate-name'' ''___'' args"

definition load_state :: "string option \<Rightarrow> breaker_state" where
  "load_state file = (case Option.bind file decode_state of Some s \<Rightarrow> s | None \<Rightarrow> fresh)"

definition store_state :: "breaker_state \<Rightarrow> string option" where
  "store_state s = Some (encode_state s)"

definition consult_succeeded :: "string \<Rightarrow> bool" where
  "consult_succeeded reply \<longleftrightarrow>
     contains_str reply (CHR 0x22 # ''kind'' @ [CHR 0x22, CHR '':'', CHR 0x22] @ ''decision'' @ [CHR 0x22]) \<and>
     \<not> contains_str reply (CHR 0x22 # ''mode'' @ [CHR 0x22, CHR '':'', CHR 0x22] @ ''shadow-error'' @ [CHR 0x22])"

record invocation =
  inv_args :: "string list"
  inv_now :: "64 word"
  inv_outcome :: attempt_outcome
  inv_killed :: bool

definition wrapper_main ::
  "breaker_policy \<Rightarrow> invocation \<Rightarrow> string option \<Rightarrow> connect_decision option \<times> string option" where
  "wrapper_main policy v file =
     (if is_probe (inv_args v) then (None, file)
      else let state = load_state file; now = inv_now v; d = decide policy state now
           in (Some d,
               case d of
                 SkipToLocal \<Rightarrow> file
               | Attempt _ _ \<Rightarrow> if inv_killed v then file else store_state (on_outcome policy state (inv_outcome v) now)
               | Probe _ _ \<Rightarrow>
                   let probing = probe_started state now; written = store_state probing
                   in if inv_killed v then written else store_state (on_outcome policy probing (inv_outcome v) now)))"

text \<open>The invocations of one state file, one after the other, and the times of those that probe.\<close>

definition probes :: "connect_decision option \<Rightarrow> bool" where
  "probes d \<longleftrightarrow> (case d of Some (Probe _ _) \<Rightarrow> True | _ \<Rightarrow> False)"


section \<open>One probe per cooldown\<close>

lemma load_stored [simp]: "load_state (store_state s) = s"
  by (simp add: load_state_def store_state_def decode_state_def encode_state_lines state_line_fields decode_state_fields)













text \<open>Two wrappers that both load the file before either has written it back both probe, at the same moment: nothing
  locks the file between the load and the write ahead.\<close>

lemma concurrent_wrappers_both_probe:
  assumes "probes (fst (wrapper_main policy v file))" "inv_args v' = inv_args v" "inv_now v' = inv_now v"
  shows "probes (fst (wrapper_main policy v' file))"
  using assms by (simp add: wrapper_main_def Let_def split: if_splits)

end
