(* ===== verification/Local_Protocol.thy ===== *)
theory Local_Protocol
  imports Prelude
begin

text \<open>
  Version negotiation and fallback on the wrapper socket, \<open>rabs-protocol/src/local_protocol.rs\<close>.
  The frontier report says what of a build may already have reached the user; the fallback decision
  reads it. The locale \<open>frontier_reporter\<close> is the contract between the two: a lane that reports
  honestly never leads to a silent rerun after something was shown. The transcript lane and the
  wrapper's frame reader interpret it.
\<close>

section \<open>Version negotiation\<close>

record version_range =
  vmin :: "32 word"
  vmax :: "32 word"

definition CURRENT_LOCAL_PROTOCOL :: "32 word" where
  "CURRENT_LOCAL_PROTOCOL = 1"

definition version_range_new :: "32 word \<Rightarrow> 32 word \<Rightarrow> version_range option" where
  "version_range_new lo hi = (if lo > hi then None else Some \<lparr>vmin = lo, vmax = hi\<rparr>)"

definition version_exactly :: "32 word \<Rightarrow> version_range" where
  "version_exactly v = \<lparr>vmin = v, vmax = v\<rparr>"

datatype negotiation =
    Selected "32 word"
  | Refused version_range version_range

definition negotiate :: "version_range \<Rightarrow> version_range \<Rightarrow> negotiation" where
  "negotiate wrapper edge =
     (let low = (if vmin wrapper > vmin edge then vmin wrapper else vmin edge);
          high = (if vmax wrapper < vmax edge then vmax wrapper else vmax edge)
      in if low > high then Refused wrapper edge else Selected high)"

definition speaks :: "version_range \<Rightarrow> 32 word \<Rightarrow> bool" where
  "speaks r v \<longleftrightarrow> vmin r \<le> v \<and> v \<le> vmax r"

text \<open>Negotiation selects the highest version both sides speak, and refuses, with both ranges,
  exactly when there is none.\<close>

theorem negotiate_highest_common:
  "(negotiate w e = Selected v \<longleftrightarrow>
      speaks w v \<and> speaks e v \<and> (\<forall>u. speaks w u \<and> speaks e u \<longrightarrow> u \<le> v))
   \<and> (negotiate w e = Refused w e \<longleftrightarrow> \<not> (\<exists>u. speaks w u \<and> speaks e u))"

proof -
  let ?lo = "max (vmin w) (vmin e)" and ?hi = "min (vmax w) (vmax e)"
  have both: "speaks w u \<and> speaks e u \<longleftrightarrow> ?lo \<le> u \<and> u \<le> ?hi" for u
    by (auto simp: speaks_def)
  have neg: "negotiate w e = (if ?lo > ?hi then Refused w e else Selected ?hi)"
    by (auto simp: negotiate_def Let_def max_def min_def not_less)
  show ?thesis
  proof (cases "?lo > ?hi")
    case True
    then have "\<not> (\<exists>u. speaks w u \<and> speaks e u)" unfolding both by (meson le_less_trans not_le)
    with True show ?thesis by (auto simp: neg)
  next
    case False
    then have hi: "speaks w ?hi \<and> speaks e ?hi" unfolding both by (simp add: not_less)
    have "Selected ?hi = Selected v \<longleftrightarrow>
        speaks w v \<and> speaks e v \<and> (\<forall>u. speaks w u \<and> speaks e u \<longrightarrow> u \<le> v)"
    proof
      assume "Selected ?hi = Selected v"
      with hi both show "speaks w v \<and> speaks e v \<and> (\<forall>u. speaks w u \<and> speaks e u \<longrightarrow> u \<le> v)"
        by blast
    next
      assume v: "speaks w v \<and> speaks e v \<and> (\<forall>u. speaks w u \<and> speaks e u \<longrightarrow> u \<le> v)"
      then have "?hi \<le> v" "v \<le> ?hi" using hi both by blast+
      then have "?hi = v" by (rule antisym)
      then show "Selected ?hi = Selected v" by (rule arg_cong)
    qed
    with False hi show ?thesis by (auto simp: neg)
  qed
qed

theorem negotiate_highest_common_witness:
  "negotiate \<lparr>vmin = 1, vmax = 4\<rparr> \<lparr>vmin = 2, vmax = 9\<rparr> = Selected 4"
proof -
  have "speaks \<lparr>vmin = 1, vmax = 4\<rparr> 4 \<and> speaks \<lparr>vmin = 2, vmax = 9\<rparr> 4
      \<and> (\<forall>u. speaks \<lparr>vmin = 1, vmax = 4\<rparr> u \<and> speaks \<lparr>vmin = 2, vmax = 9\<rparr> u \<longrightarrow> u \<le> 4)"
    by (simp add: speaks_def word_le_nat_alt)
  then show ?thesis
    using negotiate_highest_common [of "\<lparr>vmin = 1, vmax = 4\<rparr>" "\<lparr>vmin = 2, vmax = 9\<rparr>" 4]
    by simp
qed

section \<open>Frontiers and fallback\<close>

datatype fallback_permission =
    SeamlessNonpublishing
  | LabeledTranscriptRecoveryOnly
  | NoUncoordinatedFallback

record frontier_report =
  transcript_exposed :: bool
  transcript_uncertain :: bool
  stateful_intent_recorded :: bool
  stateful_uncertain :: bool
  last_fully_delivered_seq :: nat

definition permitted_fallback :: "frontier_report \<Rightarrow> fallback_permission" where
  "permitted_fallback r =
     (if stateful_intent_recorded r \<or> stateful_uncertain r then NoUncoordinatedFallback
      else if transcript_exposed r \<or> transcript_uncertain r then LabeledTranscriptRecoveryOnly
      else SeamlessNonpublishing)"

record fallback_config =
  labeled_transcript_recovery :: bool

datatype fallback_action =
    RunOriginalSeamless
  | DetachAndRunLabeled string
  | ReconnectOrFailCoherently string

text \<open>\<open>{:032x}\<close>: lower-case hexadecimal, padded with zeros to 32 digits.\<close>

definition show_hex32 :: "128 word \<Rightarrow> string" where
  "show_hex32 w = map (\<lambda>i. hex_digit (unat w div 16 ^ i mod 16)) (rev [0..<32])"

definition render_boundary_marker :: "128 word \<Rightarrow> nat \<Rightarrow> string" where
  "render_boundary_marker request_id last_delivered_seq =
     ''================ RABS LABELED TRANSCRIPT RECOVERY ================'' @ [CHR 0x0A]
     @ ''build '' @ show_hex32 request_id @ '': detached after delivered seq ''
     @ show_nat last_delivered_seq @ ''.'' @ [CHR 0x0A]
     @ ''Output below is a LOCAL RERUN of the original command and may'' @ [CHR 0x0A]
     @ ''repeat or reorder lines shown above this marker.'' @ [CHR 0x0A]
     @ ''==================================================================''"

definition decide_fallback ::
  "frontier_report \<Rightarrow> fallback_config \<Rightarrow> 128 word \<Rightarrow> fallback_action" where
  "decide_fallback report cfg request_id =
     (case permitted_fallback report of
        SeamlessNonpublishing \<Rightarrow> RunOriginalSeamless
      | LabeledTranscriptRecoveryOnly \<Rightarrow>
          if labeled_transcript_recovery cfg
          then DetachAndRunLabeled (render_boundary_marker request_id (last_fully_delivered_seq report))
          else ReconnectOrFailCoherently
                 ''transcript exposed and labeled recovery not configured (R104)''
      | NoUncoordinatedFallback \<Rightarrow>
          ReconnectOrFailCoherently ''stateful commit intent or commit exposed (R97)'')"

text \<open>When a build may be rerun locally at all.\<close>

definition reruns_locally :: "fallback_action \<Rightarrow> bool" where
  "reruns_locally a \<longleftrightarrow> a = RunOriginalSeamless \<or> (\<exists>m. a = DetachAndRunLabeled m)"

lemma decide_fallback_seamless:
  "decide_fallback r cfg i = RunOriginalSeamless \<longleftrightarrow>
     \<not> transcript_exposed r \<and> \<not> transcript_uncertain r \<and> \<not> stateful_intent_recorded r \<and> \<not> stateful_uncertain r"
  by (auto simp: decide_fallback_def permitted_fallback_def split: fallback_permission.splits)

text \<open>The fallback decision is exact: a local rerun without a marker happens only when no frontier
  is exposed or uncertain; with a stateful signal there is no local rerun under any configuration; and
  a labeled rerun needs transcript exposure, the operator's configuration, and carries the marker for
  this build and its last delivered sequence.\<close>

theorem decide_fallback_exact:
  "let a = decide_fallback r cfg i
   in (a = RunOriginalSeamless \<longleftrightarrow>
         \<not> (transcript_exposed r \<or> transcript_uncertain r \<or> stateful_intent_recorded r \<or> stateful_uncertain r))
      \<and> (stateful_intent_recorded r \<or> stateful_uncertain r \<longrightarrow> \<not> reruns_locally a)
      \<and> (\<forall>m. a = DetachAndRunLabeled m \<longleftrightarrow>
           m = render_boundary_marker i (last_fully_delivered_seq r) \<and> labeled_transcript_recovery cfg
           \<and> (transcript_exposed r \<or> transcript_uncertain r)
           \<and> \<not> stateful_intent_recorded r \<and> \<not> stateful_uncertain r)"
  by (auto simp: Let_def reruns_locally_def decide_fallback_def permitted_fallback_def)

theorem decide_fallback_exact_witness:
  "let r = \<lparr>transcript_exposed = True, transcript_uncertain = False, stateful_intent_recorded = True,
            stateful_uncertain = False, last_fully_delivered_seq = 4\<rparr>
   in \<not> reruns_locally (decide_fallback r \<lparr>labeled_transcript_recovery = True\<rparr> 7)"
  using decide_fallback_exact
    [of "\<lparr>transcript_exposed = True, transcript_uncertain = False, stateful_intent_recorded = True,
          stateful_uncertain = False, last_fully_delivered_seq = 4\<rparr>"
        "\<lparr>labeled_transcript_recovery = True\<rparr>" 7]
  by (simp add: Let_def)

section \<open>Honest reporters\<close>

locale frontier_reporter =
  fixes report :: "'s \<Rightarrow> frontier_report"
    and shown :: "'s \<Rightarrow> bool"
    and ok :: "'s \<Rightarrow> bool"
  assumes honest: "ok s \<Longrightarrow> shown s \<Longrightarrow>
    transcript_exposed (report s) \<or> transcript_uncertain (report s) \<or>
    stateful_intent_recorded (report s) \<or> stateful_uncertain (report s)"
begin

lemma no_silent_rerun: "ok s \<Longrightarrow> shown s \<Longrightarrow> decide_fallback (report s) cfg i \<noteq> RunOriginalSeamless"
  using honest by (auto simp: decide_fallback_seamless)

lemma silent_rerun_shows_nothing:
  "ok s \<Longrightarrow> decide_fallback (report s) cfg i = RunOriginalSeamless \<Longrightarrow> \<not> shown s"
  using no_silent_rerun by blast

end

end
