(* ===== verification/Transcript.thy ===== *)
theory Transcript
  imports Local_Protocol
begin

text \<open>
  The transcript lane: the edge's sequencer with bounded retention and the wrapper's frame reader,
  \<open>rabs-protocol/src/transcript_sequencing.rs\<close>, and reconnect reconciliation,
  \<open>rabs-protocol/src/reconnect.rs\<close>. Sequence numbers are \<open>nat\<close>: a lane that assigned \<open>2^64\<close> frames
  is out of scope. Lengths on the wire are \<open>32 word\<close>.

  The last sections put both ends together with a lossy wire: frames are torn at any byte, the
  connection is lost and reconciled any number of times, acknowledgements are delayed, repeated and
  reordered. What the user has seen is at every moment a prefix of the canonical stream.
\<close>

section \<open>The edge lane\<close>

type_synonym payload = "8 word list"

record retained_frame =
  fseq :: nat
  fbytes :: payload

datatype sequencer_error =
    NotNextToSend nat
  | NotInFlight nat

record sequencer =
  assigned :: nat
  sent :: nat
  acked :: nat
  retention :: "retained_frame list"
  retention_budget :: nat
  oldest_replayable :: nat

definition sequencer_new :: "nat \<Rightarrow> sequencer" where
  "sequencer_new budget =
     \<lparr>assigned = 0, sent = 0, acked = 0, retention = [], retention_budget = budget,
      oldest_replayable = 1\<rparr>"

text \<open>The eviction loop of \<open>assign\<close>.\<close>

fun evict :: "nat \<Rightarrow> nat \<Rightarrow> retained_frame list \<Rightarrow> nat \<times> retained_frame list" where
  "evict budget oldest [] = (oldest, [])"
| "evict budget oldest (f # fs) =
     (if length (f # fs) > budget then evict budget (fseq f + 1) fs else (oldest, f # fs))"

definition assign :: "payload \<Rightarrow> sequencer \<Rightarrow> sequencer \<times> nat" where
  "assign bytes l =
     (let seq = assigned l + 1;
          (oldest, kept) =
            evict (retention_budget l) (oldest_replayable l)
              (retention l @ [\<lparr>fseq = seq, fbytes = bytes\<rparr>])
      in (l\<lparr>assigned := seq, retention := kept, oldest_replayable := oldest\<rparr>, seq))"

definition send :: "nat \<Rightarrow> sequencer \<Rightarrow> sequencer_error + sequencer" where
  "send seq l =
     (if seq \<noteq> sent l + 1 \<or> seq > assigned l then Inl (NotNextToSend (sent l + 1))
      else Inr (l\<lparr>sent := seq\<rparr>))"

text \<open>The loop of \<open>ack\<close> that lets acknowledged frames leave.\<close>

fun drop_acked :: "nat \<Rightarrow> nat \<Rightarrow> retained_frame list \<Rightarrow> nat \<times> retained_frame list" where
  "drop_acked exposed oldest [] = (oldest, [])"
| "drop_acked exposed oldest (f # fs) =
     (if fseq f \<le> exposed then drop_acked exposed (max oldest (fseq f + 1)) fs else (oldest, f # fs))"

definition ack :: "nat \<Rightarrow> sequencer \<Rightarrow> sequencer_error + sequencer" where
  "ack seq l =
     (if seq \<noteq> acked l + 1 \<or> seq > sent l then Inl (NotInFlight seq)
      else
        let (oldest, kept) = drop_acked seq (oldest_replayable l) (retention l)
        in Inr (l\<lparr>acked := seq, retention := kept, oldest_replayable := oldest\<rparr>))"

definition in_flight :: "sequencer \<Rightarrow> nat" where
  "in_flight l = sent l - acked l"

definition lane_frontier_report :: "sequencer \<Rightarrow> frontier_report" where
  "lane_frontier_report l =
     \<lparr>transcript_exposed = (acked l > 0), transcript_uncertain = (sent l > acked l),
      stateful_intent_recorded = False, stateful_uncertain = False,
      last_fully_delivered_seq = acked l\<rparr>"

definition retained :: "nat \<Rightarrow> sequencer \<Rightarrow> retained_frame option" where
  "retained seq l = find (\<lambda>f. fseq f = seq) (retention l)"

datatype ack_outcome =
    Acknowledged
  | AlreadyAcknowledged
  | RefusedFutureAck nat

definition edge_apply_ack :: "nat \<Rightarrow> sequencer \<Rightarrow> sequencer \<times> ack_outcome" where
  "edge_apply_ack seq l =
     (if seq \<le> acked l then (l, AlreadyAcknowledged)
      else
        case ack seq l of
          Inr l' \<Rightarrow> (l', Acknowledged)
        | Inl _ \<Rightarrow> (l, RefusedFutureAck (acked l + 1)))"

section \<open>The wrapper's frame reader\<close>

datatype frame_read_error =
    FrameAlreadyInProgress nat
  | UnexpectedSequence nat
  | FrameTooLarge "32 word" "32 word"
  | Overrun nat
  | Incomplete "32 word" "32 word"
  | NoFrameInProgress

record partial_frame =
  pseq :: nat
  declared_len :: "32 word"
  received :: payload

record frame_reader =
  max_frame_len :: "32 word"
  rexposed :: nat
  exposed_payloads :: "payload list"
  partial :: "partial_frame option"

definition reader_new :: "32 word \<Rightarrow> frame_reader" where
  "reader_new m = \<lparr>max_frame_len = m, rexposed = 0, exposed_payloads = [], partial = None\<rparr>"

definition begin_frame :: "nat \<Rightarrow> 32 word \<Rightarrow> frame_reader \<Rightarrow> frame_read_error + frame_reader" where
  "begin_frame seq len r =
     (case partial r of
        Some p \<Rightarrow> Inl (FrameAlreadyInProgress (pseq p))
      | None \<Rightarrow>
          if seq \<noteq> rexposed r + 1 then Inl (UnexpectedSequence (rexposed r + 1))
          else if len > max_frame_len r then Inl (FrameTooLarge len (max_frame_len r))
          else Inr (r\<lparr>partial := Some \<lparr>pseq = seq, declared_len = len, received = []\<rparr>\<rparr>))"

definition feed :: "payload \<Rightarrow> frame_reader \<Rightarrow> frame_read_error + frame_reader" where
  "feed bytes r =
     (case partial r of
        None \<Rightarrow> Inl NoFrameInProgress
      | Some p \<Rightarrow>
          if length (received p) + length bytes > unat (declared_len p) then Inl (Overrun (pseq p))
          else Inr (r\<lparr>partial := Some (p\<lparr>received := received p @ bytes\<rparr>)\<rparr>))"

definition complete_frame :: "frame_reader \<Rightarrow> frame_read_error + frame_reader \<times> nat" where
  "complete_frame r =
     (case partial r of
        None \<Rightarrow> Inl NoFrameInProgress
      | Some p \<Rightarrow>
          if length (received p) \<ge> 2 ^ 32 then Inl (Overrun (pseq p))
          else if of_nat (length (received p)) \<noteq> declared_len p
          then Inl (Incomplete (of_nat (length (received p))) (declared_len p))
          else
            Inr (r\<lparr>partial := None, rexposed := pseq p,
                   exposed_payloads := exposed_payloads r @ [received p]\<rparr>, pseq p))"

definition discard_partial :: "frame_reader \<Rightarrow> frame_reader \<times> nat option" where
  "discard_partial r = (r\<lparr>partial := None\<rparr>, map_option pseq (partial r))"

section \<open>Reconnect\<close>

record resumable_token =
  token_request :: "128 word"
  token_subscriber :: "128 word"
  issued_by_incarnation :: "128 word"
  secret :: "8 word list"

record wrapper_resume_report =
  last_fully_exposed_seq :: nat
  possibly_in_flight_seq :: "nat option"
  frontier :: frontier_report

record edge_resume_view =
  canonical_stream_len :: nat
  oldest_replayable_seq :: nat
  current_incarnation :: "128 word"
  named_predecessor_incarnation :: "128 word option"

datatype resume_refusal =
    TokenRequestMismatch
  | TokenSubscriberMismatch
  | TokenSecretMismatch
  | UnknownIssuerIncarnation
  | FrontierContradiction
  | RetentionGap

record resume_plan =
  resume_from_seq :: nat
  first_frame_was_in_flight :: bool

definition reconcile ::
  "resumable_token \<Rightarrow> 128 word \<Rightarrow> 128 word \<Rightarrow> 8 word list \<Rightarrow> edge_resume_view \<Rightarrow> wrapper_resume_report
     \<Rightarrow> resume_refusal + resume_plan" where
  "reconcile token expected_request expected_subscriber expected_secret view report =
     (if token_request token \<noteq> expected_request then Inl TokenRequestMismatch
      else if token_subscriber token \<noteq> expected_subscriber then Inl TokenSubscriberMismatch
      else if secret token \<noteq> expected_secret then Inl TokenSecretMismatch
      else if \<not> (issued_by_incarnation token = current_incarnation view
                 \<or> named_predecessor_incarnation view = Some (issued_by_incarnation token))
      then Inl UnknownIssuerIncarnation
      else if last_fully_exposed_seq report > canonical_stream_len view then Inl FrontierContradiction
      else if (case possibly_in_flight_seq report of
                 None \<Rightarrow> False
               | Some f \<Rightarrow> f \<noteq> last_fully_exposed_seq report + 1 \<or> f > canonical_stream_len view)
      then Inl FrontierContradiction
      else
        let resume_from = last_fully_exposed_seq report + 1
        in if oldest_replayable_seq view > resume_from then Inl RetentionGap
           else Inr \<lparr>resume_from_seq = resume_from,
                     first_frame_was_in_flight = (possibly_in_flight_seq report = Some resume_from)\<rparr>)"

definition resume_view :: "128 word \<Rightarrow> 128 word option \<Rightarrow> sequencer \<Rightarrow> edge_resume_view" where
  "resume_view current predecessor l =
     \<lparr>canonical_stream_len = assigned l, oldest_replayable_seq = oldest_replayable l,
      current_incarnation = current, named_predecessor_incarnation = predecessor\<rparr>"

definition resume_report :: "frame_reader \<Rightarrow> wrapper_resume_report" where
  "resume_report r =
     \<lparr>last_fully_exposed_seq = rexposed r, possibly_in_flight_seq = map_option pseq (partial r),
      frontier =
        \<lparr>transcript_exposed = (rexposed r > 0), transcript_uncertain = (partial r \<noteq> None),
         stateful_intent_recorded = False, stateful_uncertain = False,
         last_fully_delivered_seq = rexposed r\<rparr>\<rparr>"

datatype crash_path =
    ReconnectAndResume
  | NewBuildOperation string

definition post_crash_path :: "bool \<Rightarrow> crash_path" where
  "post_crash_path wrapper_state_intact =
     (if wrapper_state_intact then ReconnectAndResume
      else NewBuildOperation ''wrapper exposure state lost: partial transcript is unknowable (R116)'')"

section \<open>Messages\<close>

datatype transcript_lane_message =
    SubscriberTranscriptIntent nat "32 word"
  | TranscriptPayload nat payload
  | SubscriberTranscriptAcknowledged nat
  | SubscriberTranscriptDeliveryUncertain nat "nat option"

definition wrapper_uncertainty_message :: "frame_reader \<Rightarrow> transcript_lane_message" where
  "wrapper_uncertainty_message r =
     (let report = resume_report r
      in SubscriberTranscriptDeliveryUncertain (last_fully_exposed_seq report)
           (possibly_in_flight_seq report))"

section \<open>The lane invariant\<close>

text \<open>\<open>stream\<close> is the canonical stream: every payload ever assigned. Retention holds the frames from
  the oldest replayable one to the last, each with its canonical bytes.\<close>

definition lane_inv :: "payload list \<Rightarrow> sequencer \<Rightarrow> bool" where
  "lane_inv stream l \<longleftrightarrow>
     assigned l = length stream \<and> acked l \<le> sent l \<and> sent l \<le> assigned l
     \<and> 1 \<le> oldest_replayable l \<and> oldest_replayable l \<le> assigned l + 1
     \<and> map fseq (retention l) = [oldest_replayable l..<Suc (assigned l)]
     \<and> list_all (\<lambda>f. fbytes f = stream ! (fseq f - 1)) (retention l)
     \<and> length (retention l) \<le> retention_budget l"

lemma upt_Cons: "x # xs = [a..<n] \<Longrightarrow> x = a \<and> xs = [Suc a..<n] \<and> Suc a \<le> n"
  using upt_eq_Cons_conv [of a n x xs] by auto

lemma evict_spec:
  assumes "map fseq fs = [a..<n]" "a \<le> n" "evict b a fs = (a', fs')"
  shows "map fseq fs' = [a'..<n] \<and> a \<le> a' \<and> a' \<le> n \<and> set fs' \<subseteq> set fs \<and> length fs' \<le> b"
  using assms
proof (induction b a fs rule: evict.induct)
  case (2 b a f fs)
  from "2.prems"(1,2) have f: "fseq f = a" "map fseq fs = [Suc a..<n]" "Suc a \<le> n"
    using upt_Cons [of "fseq f" "map fseq fs" a n] by auto
  show ?case
  proof (cases "length (f # fs) > b")
    case True
    with "2.IH" "2.prems"(3) f show ?thesis by fastforce
  next
    case False
    with "2.prems" show ?thesis by auto
  qed
qed simp

lemma drop_acked_spec:
  assumes "map fseq fs = [a..<n]" "a \<le> n" "drop_acked e a fs = (a', fs')"
  shows "map fseq fs' = [a'..<n] \<and> a \<le> a' \<and> a' \<le> n \<and> a' \<le> max a (e + 1)
    \<and> set fs' \<subseteq> set fs \<and> length fs' \<le> length fs"
  using assms
proof (induction e a fs rule: drop_acked.induct)
  case (2 e a f fs)
  from "2.prems"(1,2) have f: "fseq f = a" "map fseq fs = [Suc a..<n]" "Suc a \<le> n"
    using upt_Cons [of "fseq f" "map fseq fs" a n] by auto
  show ?case
  proof (cases "fseq f \<le> e")
    case True
    with "2.IH" "2.prems"(3) f show ?thesis by fastforce
  next
    case False
    with "2.prems" show ?thesis by auto
  qed
qed simp

lemma lane_inv_new: "lane_inv [] (sequencer_new b)"
  by (simp add: lane_inv_def sequencer_new_def)

lemma lane_inv_assign:
  assumes "lane_inv stream l"
  shows "lane_inv (stream @ [b]) (fst (assign b l))"
proof -
  let ?f = "\<lparr>fseq = assigned l + 1, fbytes = b\<rparr>"
  obtain a' fs' where e: "evict (retention_budget l) (oldest_replayable l) (retention l @ [?f]) = (a', fs')"
    by (cases "evict (retention_budget l) (oldest_replayable l) (retention l @ [?f])")
  have m: "map fseq (retention l @ [?f]) = [oldest_replayable l..<Suc (assigned l + 1)]"
    "oldest_replayable l \<le> Suc (assigned l + 1)"
    using assms by (simp_all add: lane_inv_def)
  note spec = evict_spec [OF m e]
  have "fseq f \<le> length stream \<and> 1 \<le> fseq f" if "f \<in> set (retention l)" for f
  proof -
    have "fseq f \<in> set (map fseq (retention l))" using that by simp
    with assms show ?thesis by (auto simp: lane_inv_def simp del: upt_Suc)
  qed
  then have "list_all (\<lambda>f. fbytes f = (stream @ [b]) ! (fseq f - 1)) (retention l @ [?f])"
    using assms by (fastforce simp: lane_inv_def list_all_iff nth_append simp del: upt_Suc)
  then have "list_all (\<lambda>f. fbytes f = (stream @ [b]) ! (fseq f - 1)) fs'"
    using spec by (auto simp: list_all_iff)
  with assms spec e show ?thesis by (auto simp: lane_inv_def assign_def Let_def)
qed

lemma lane_inv_send: "lane_inv stream l \<Longrightarrow> send seq l = Inr l' \<Longrightarrow> lane_inv stream l'"
  by (auto simp: lane_inv_def send_def split: if_splits)

lemma lane_inv_ack:
  assumes "lane_inv stream l" "ack seq l = Inr l'"
  shows "lane_inv stream l' \<and> acked l' = seq \<and> sent l' = sent l \<and> assigned l' = assigned l
    \<and> oldest_replayable l' \<le> max (oldest_replayable l) (seq + 1)"
proof -
  obtain a' fs' where d: "drop_acked seq (oldest_replayable l) (retention l) = (a', fs')"
    by (cases "drop_acked seq (oldest_replayable l) (retention l)")
  have "map fseq (retention l) = [oldest_replayable l..<Suc (assigned l)]"
    "oldest_replayable l \<le> Suc (assigned l)"
    using assms(1) by (simp_all add: lane_inv_def)
  note spec = drop_acked_spec [OF this d]
  with assms d show ?thesis
    by (fastforce simp: lane_inv_def ack_def Let_def list_all_iff split: if_splits)
qed

lemma retained_spec:
  assumes "lane_inv stream l"
  shows "retained seq l =
    (if oldest_replayable l \<le> seq \<and> seq \<le> assigned l
     then Some \<lparr>fseq = seq, fbytes = stream ! (seq - 1)\<rparr> else None)"
proof (cases "oldest_replayable l \<le> seq \<and> seq \<le> assigned l")
  case True
  then have "seq \<in> set (map fseq (retention l))" using assms by (auto simp: lane_inv_def simp del: upt_Suc)
  then have "find (\<lambda>f. fseq f = seq) (retention l) \<noteq> None" by (auto simp: find_None_iff)
  then obtain f where f: "find (\<lambda>f. fseq f = seq) (retention l) = Some f" by blast
  then have "f \<in> set (retention l)" "fseq f = seq" by (auto simp: find_Some_iff)
  with assms have "f = \<lparr>fseq = seq, fbytes = stream ! (seq - 1)\<rparr>"
    by (auto simp: lane_inv_def list_all_iff)
  with True f show ?thesis by (simp add: retained_def)
next
  case False
  then have "seq \<notin> set (map fseq (retention l))" using assms by (auto simp: lane_inv_def simp del: upt_Suc)
  with False show ?thesis by (auto simp: retained_def find_None_iff)
qed

section \<open>Both ends and a lossy wire\<close>

text \<open>\<open>wire\<close> is the frame under transmission with the number of payload bytes delivered so far. Any
  token the edge accepts may resume, under any incarnation.\<close>

record link =
  lane :: sequencer
  stream :: "payload list"
  reader :: frame_reader
  wire :: "(retained_frame \<times> nat) option"

inductive link_step :: "link \<Rightarrow> link \<Rightarrow> bool" where
  link_assign: "link_step s (s\<lparr>lane := fst (assign b (lane s)), stream := stream s @ [b]\<rparr>)"
| link_send: "send seq (lane s) = Inr l \<Longrightarrow> link_step s (s\<lparr>lane := l\<rparr>)"
| link_begin: "wire s = None \<Longrightarrow> seq \<le> sent (lane s) \<Longrightarrow> retained seq (lane s) = Some f \<Longrightarrow>
    length (fbytes f) < 2 ^ 32 \<Longrightarrow> begin_frame seq (of_nat (length (fbytes f))) (reader s) = Inr r \<Longrightarrow>
    link_step s (s\<lparr>reader := r, wire := Some (f, 0)\<rparr>)"
| link_feed: "wire s = Some (f, k) \<Longrightarrow> feed (take n (drop k (fbytes f))) (reader s) = Inr r \<Longrightarrow>
    link_step s (s\<lparr>reader := r, wire := Some (f, k + length (take n (drop k (fbytes f))))\<rparr>)"
| link_complete: "complete_frame (reader s) = Inr (r, seq) \<Longrightarrow> link_step s (s\<lparr>reader := r, wire := None\<rparr>)"
| link_ack: "seq \<le> rexposed (reader s) \<Longrightarrow> link_step s (s\<lparr>lane := fst (edge_apply_ack seq (lane s))\<rparr>)"
| link_lost: "link_step s (s\<lparr>wire := None\<rparr>)"
| link_resume: "reconcile token rq sb sec (resume_view cur pre (lane s)) (resume_report (reader s)) = Inr plan \<Longrightarrow>
    link_step s (s\<lparr>reader := fst (discard_partial (reader s)), wire := None\<rparr>)"

definition link_start :: "link \<Rightarrow> bool" where
  "link_start s \<longleftrightarrow>
     (\<exists>budget m. s = \<lparr>lane = sequencer_new budget, stream = [], reader = reader_new m, wire = None\<rparr>)"

text \<open>The frame in progress is the next one, and what arrived of it is a part of its bytes.\<close>

definition partial_ok :: "payload list \<Rightarrow> sequencer \<Rightarrow> frame_reader \<Rightarrow> bool" where
  "partial_ok st l r \<longleftrightarrow>
     (case partial r of
        None \<Rightarrow> True
      | Some p \<Rightarrow>
          pseq p = rexposed r + 1 \<and> pseq p \<le> sent l \<and> length (st ! rexposed r) < 2 ^ 32
          \<and> declared_len p = of_nat (length (st ! rexposed r)) \<and> prefix (received p) (st ! rexposed r))"

definition wire_ok :: "payload list \<Rightarrow> frame_reader \<Rightarrow> (retained_frame \<times> nat) option \<Rightarrow> bool" where
  "wire_ok st r w \<longleftrightarrow>
     (case w of
        None \<Rightarrow> True
      | Some (f, k) \<Rightarrow>
          (\<exists>p. partial r = Some p \<and> fbytes f = st ! rexposed r \<and> received p = take k (fbytes f)
             \<and> k \<le> length (fbytes f)))"

definition link_inv :: "link \<Rightarrow> bool" where
  "link_inv s \<longleftrightarrow>
     lane_inv (stream s) (lane s) \<and> rexposed (reader s) \<le> sent (lane s)
     \<and> acked (lane s) \<le> rexposed (reader s)
     \<and> exposed_payloads (reader s) = take (rexposed (reader s)) (stream s)
     \<and> partial_ok (stream s) (lane s) (reader s) \<and> wire_ok (stream s) (reader s) (wire s)"

lemma partial_ok_None [simp]: "partial r = None \<Longrightarrow> partial_ok st l r"
  by (simp add: partial_ok_def)

lemma wire_ok_None [simp]: "wire_ok st r None"
  by (simp add: wire_ok_def)

lemma link_inv_assign:
  assumes "link_inv s"
  shows "link_inv (s\<lparr>lane := fst (assign b (lane s)), stream := stream s @ [b]\<rparr>)"
proof -
  have l: "sent (fst (assign b (lane s))) = sent (lane s)" "acked (fst (assign b (lane s))) = acked (lane s)"
    by (simp_all add: assign_def Let_def split_def)
  have le: "rexposed (reader s) \<le> length (stream s)"
    using assms by (auto simp: link_inv_def lane_inv_def)
  have p: "partial (reader s) = Some p \<Longrightarrow> rexposed (reader s) < length (stream s)" for p
    using assms by (auto simp: link_inv_def lane_inv_def partial_ok_def)
  have "partial_ok (stream s @ [b]) (fst (assign b (lane s))) (reader s)"
    using assms p l by (auto simp: link_inv_def partial_ok_def nth_append split: option.splits)
  moreover have "wire_ok (stream s @ [b]) (reader s) (wire s)"
    using assms p by (auto simp: link_inv_def wire_ok_def nth_append split: option.splits)
  ultimately show ?thesis
    using assms le l lane_inv_assign by (simp add: link_inv_def)
qed

lemma link_inv_begin:
  assumes "link_inv s" "seq \<le> sent (lane s)" "retained seq (lane s) = Some f"
    "length (fbytes f) < 2 ^ 32" "begin_frame seq (of_nat (length (fbytes f))) (reader s) = Inr r"
  shows "link_inv (s\<lparr>reader := r, wire := Some (f, 0)\<rparr>)"
proof -
  have r: "partial (reader s) = None" "seq = rexposed (reader s) + 1"
    "r = (reader s)\<lparr>partial := Some \<lparr>pseq = seq, declared_len = of_nat (length (fbytes f)), received = []\<rparr>\<rparr>"
    using assms(5) by (auto simp: begin_frame_def split: option.splits if_splits)
  have "fbytes f = stream s ! rexposed (reader s)"
    using retained_spec [of "stream s" "lane s" seq] assms(1,3) r(2)
    by (auto simp: link_inv_def split: if_splits)
  with assms(1,2,4) r show ?thesis by (simp add: link_inv_def partial_ok_def wire_ok_def)
qed

lemma link_inv_feed:
  assumes "link_inv s" "wire s = Some (f, k)" "feed (take n (drop k (fbytes f))) (reader s) = Inr r"
  shows "link_inv (s\<lparr>reader := r, wire := Some (f, k + length (take n (drop k (fbytes f))))\<rparr>)"
proof -
  let ?c = "take n (drop k (fbytes f))"
  obtain p where p: "partial (reader s) = Some p" "r = (reader s)\<lparr>partial := Some (p\<lparr>received := received p @ ?c\<rparr>)\<rparr>"
    using assms(3) by (auto simp: feed_def split: option.splits if_splits)
  have f: "fbytes f = stream s ! rexposed (reader s)" "received p = take k (fbytes f)" "k \<le> length (fbytes f)"
    using assms(1,2) p(1) by (auto simp: link_inv_def wire_ok_def)
  have "take k (fbytes f) @ ?c = take (k + length ?c) (fbytes f)"
    by (simp add: take_add min_def)
  with assms(1) p f show ?thesis
    by (auto simp: link_inv_def partial_ok_def wire_ok_def take_is_prefix)
qed

lemma link_inv_complete:
  assumes "link_inv s" "complete_frame (reader s) = Inr (r, seq)"
  shows "link_inv (s\<lparr>reader := r, wire := None\<rparr>)"
proof -
  obtain p where p: "partial (reader s) = Some p" "length (received p) < 2 ^ 32"
    "of_nat (length (received p)) = declared_len p"
    "r = (reader s)\<lparr>partial := None, rexposed := pseq p,
           exposed_payloads := exposed_payloads (reader s) @ [received p]\<rparr>"
    using assms(2) by (auto simp: complete_frame_def split: option.splits if_splits)
  let ?e = "rexposed (reader s)"
  have ok: "pseq p = ?e + 1" "pseq p \<le> sent (lane s)" "length (stream s ! ?e) < 2 ^ 32"
    "declared_len p = of_nat (length (stream s ! ?e))" "prefix (received p) (stream s ! ?e)"
    using assms(1) p(1) by (simp_all add: link_inv_def partial_ok_def)
  have "unat (of_nat (length (received p)) :: 32 word) = unat (of_nat (length (stream s ! ?e)) :: 32 word)"
    using p(3) ok(4) by simp
  then have "length (received p) = length (stream s ! ?e)"
    using p(2) ok(3) by (simp add: unat_of_nat take_bit_eq_mod)
  then have "received p = stream s ! ?e" using ok(5) by (metis prefix_def append_eq_conv_conj take_all order_refl)
  moreover have "?e < length (stream s)" using ok(1,2) assms(1) by (simp add: link_inv_def lane_inv_def)
  ultimately show ?thesis
    using assms(1) p(4) ok(1,2) by (auto simp: link_inv_def take_Suc_conv_app_nth)
qed

lemma link_inv_ack:
  assumes "link_inv s" "seq \<le> rexposed (reader s)"
  shows "link_inv (s\<lparr>lane := fst (edge_apply_ack seq (lane s))\<rparr>)"
proof (cases "seq \<le> acked (lane s) \<or> isl (ack seq (lane s))")
  case True
  then have "fst (edge_apply_ack seq (lane s)) = lane s"
    by (auto simp: edge_apply_ack_def split: sum.splits)
  with assms(1) show ?thesis by simp
next
  case False
  then obtain l where l: "ack seq (lane s) = Inr l" by (cases "ack seq (lane s)") auto
  with False have "fst (edge_apply_ack seq (lane s)) = l" by (simp add: edge_apply_ack_def)
  with lane_inv_ack [OF _ l] assms show ?thesis
    by (auto simp: link_inv_def partial_ok_def split: option.splits)
qed

lemma link_inv_send:
  assumes "link_inv s" "send seq (lane s) = Inr l"
  shows "link_inv (s\<lparr>lane := l\<rparr>)"
proof -
  have "lane_inv (stream s) l"
    using assms lane_inv_send [of "stream s" "lane s" seq l] by (simp add: link_inv_def)
  moreover have "l = (lane s)\<lparr>sent := sent (lane s) + 1\<rparr>"
    using assms(2) by (auto simp: send_def split: if_splits)
  ultimately show ?thesis
    using assms(1) by (auto simp: link_inv_def partial_ok_def split: option.splits)
qed

lemma link_inv_lost: "link_inv s \<Longrightarrow> link_inv (s\<lparr>wire := None\<rparr>)"
  by (simp add: link_inv_def)

lemma link_inv_resume:
  "link_inv s \<Longrightarrow> link_inv (s\<lparr>reader := fst (discard_partial (reader s)), wire := None\<rparr>)"
  by (simp add: link_inv_def discard_partial_def)

lemma link_inv_start: "link_start s \<Longrightarrow> link_inv s"
  by (auto simp: link_start_def link_inv_def lane_inv_new reader_new_def)
    (simp_all add: sequencer_new_def)

lemmas link_inv_intros = link_inv_assign link_inv_send link_inv_begin link_inv_feed link_inv_complete
  link_inv_ack link_inv_lost link_inv_resume

lemma link_step_inv: "link_inv s \<Longrightarrow> link_step s t \<Longrightarrow> link_inv t"
  by (erule link_step.cases) (simp_all only: link_inv_intros)

interpretation transcript: transition_system link_start link_step link_inv
  by unfold_locales (simp_all only: link_inv_start link_step_inv)

section \<open>What the user sees\<close>

lemma link_inv_shown: "link_inv s \<Longrightarrow> exposed_payloads (reader s) \<noteq> [] \<longleftrightarrow> rexposed (reader s) > 0"
  by (auto simp: link_inv_def lane_inv_def)

text \<open>C5: Whatever is lost, torn, repeated or resumed, the transcript shown to the user is a prefix of
  the canonical stream, frame by frame and byte for byte: nothing is shown twice, out of order or in
  part. The edge's acknowledged frontier never runs ahead of it.\<close>

theorem transcript_is_canonical_prefix:
  assumes "reach_from link_start link_step s"
  shows "exposed_payloads (reader s) = take (rexposed (reader s)) (stream s)
    \<and> acked (lane s) \<le> rexposed (reader s) \<and> rexposed (reader s) \<le> sent (lane s)
    \<and> sent (lane s) \<le> length (stream s)"
  using transcript.reachable_good [OF assms] by (simp add: link_inv_def lane_inv_def)

text \<open>A run with a torn frame: the first attempt loses the connection after one of two bytes.\<close>

definition torn_run :: link where
  "torn_run =
     \<lparr>lane = \<lparr>assigned = 1, sent = 1, acked = 0, retention = [\<lparr>fseq = 1, fbytes = [7, 8]\<rparr>],
              retention_budget = 4, oldest_replayable = 1\<rparr>,
      stream = [[7, 8]],
      reader = \<lparr>max_frame_len = 64, rexposed = 0, exposed_payloads = [],
                partial = Some \<lparr>pseq = 1, declared_len = 2, received = [7]\<rparr>\<rparr>,
      wire = None\<rparr>"

lemma torn_run_reachable: "reach_from link_start link_step torn_run"
proof -
  let ?f = "\<lparr>fseq = 1, fbytes = [7, 8]\<rparr> :: retained_frame"
  let ?R = "reach_from link_start link_step"
  let ?s0 = "\<lparr>lane = sequencer_new 4, stream = [], reader = reader_new 64, wire = None\<rparr>"
  let ?l = "\<lparr>assigned = 1, sent = 0, acked = 0, retention = [?f], retention_budget = 4, oldest_replayable = 1\<rparr>"
  let ?r = "\<lparr>max_frame_len = 64, rexposed = 0, exposed_payloads = [],
              partial = Some \<lparr>pseq = 1, declared_len = 2, received = []\<rparr>\<rparr>"
  have "?R ?s0" by (rule reach_start) (auto simp: link_start_def)
  then have "?R (torn_run\<lparr>lane := ?l, reader := reader_new 64\<rparr>)"
    by - (erule reach_to, rule link_assign [of _ "[7, 8]"],
      simp add: torn_run_def assign_def sequencer_new_def)
  then have "?R (torn_run\<lparr>reader := reader_new 64\<rparr>)"
    by - (erule reach_to, rule link_send [of 1 _ "?l\<lparr>sent := 1\<rparr>"], simp_all add: torn_run_def send_def)
  then have "?R (torn_run\<lparr>reader := ?r, wire := Some (?f, 0)\<rparr>)"
    by - (erule reach_to, rule link_begin [of _ 1 ?f ?r],
      simp_all add: torn_run_def retained_def begin_frame_def reader_new_def)
  then have "?R (torn_run\<lparr>wire := Some (?f, 1)\<rparr>)"
    by - (erule reach_to, rule link_feed [of _ ?f 0 1 "reader torn_run"], simp_all add: torn_run_def feed_def)
  then show ?thesis
    by - (erule reach_to, rule link_lost, simp add: torn_run_def)
qed

theorem transcript_is_canonical_prefix_witness:
  "exposed_payloads (reader torn_run) = take (rexposed (reader torn_run)) (stream torn_run)
   \<and> rexposed (reader torn_run) < sent (lane torn_run)"
  using transcript_is_canonical_prefix [OF torn_run_reachable] by (simp add: torn_run_def)

section \<open>Resuming\<close>

text \<open>C31: Reconciliation between an honest wrapper and the edge is exact. A matching token is refused
  for one reason only, that the next frame has left retention; otherwise the edge resumes at the
  frame after the last one shown, marked as torn exactly when the wrapper holds a part of it, and every
  frame from there to the end of the canonical stream is retained with its canonical bytes.\<close>

theorem resume_is_exact:
  assumes "reach_from link_start link_step s"
    and "token_request token = rq" "token_subscriber token = sb" "secret token = sec"
    and "issued_by_incarnation token = cur \<or> pre = Some (issued_by_incarnation token)"
  shows "reconcile token rq sb sec (resume_view cur pre (lane s)) (resume_report (reader s)) =
      (if rexposed (reader s) < assigned (lane s) \<and> retained (rexposed (reader s) + 1) (lane s) = None
       then Inl RetentionGap
       else Inr \<lparr>resume_from_seq = rexposed (reader s) + 1,
                 first_frame_was_in_flight = (partial (reader s) \<noteq> None)\<rparr>)
    \<and> (isl (reconcile token rq sb sec (resume_view cur pre (lane s)) (resume_report (reader s)))
       \<or> (\<forall>seq. rexposed (reader s) < seq \<and> seq \<le> length (stream s) \<longrightarrow>
             retained seq (lane s) = Some \<lparr>fseq = seq, fbytes = stream s ! (seq - 1)\<rparr>))"
proof -
  have inv: "link_inv s" using transcript.reachable_good [OF assms(1)] .
  then have lane: "lane_inv (stream s) (lane s)" by (simp add: link_inv_def)
  have p: "pseq p = rexposed (reader s) + 1 \<and> pseq p \<le> assigned (lane s)" if "partial (reader s) = Some p" for p
    using inv that by (auto simp: link_inv_def lane_inv_def partial_ok_def)
  have le: "rexposed (reader s) \<le> assigned (lane s)" "oldest_replayable (lane s) \<le> assigned (lane s) + 1"
    "assigned (lane s) = length (stream s)"
    using inv by (auto simp: link_inv_def lane_inv_def)
  have r: "reconcile token rq sb sec (resume_view cur pre (lane s)) (resume_report (reader s)) =
      (if oldest_replayable (lane s) > rexposed (reader s) + 1 then Inl RetentionGap
       else Inr \<lparr>resume_from_seq = rexposed (reader s) + 1,
                 first_frame_was_in_flight = (partial (reader s) \<noteq> None)\<rparr>)"
    using assms(2-) le(1) p
    by (cases "partial (reader s)") (auto simp: reconcile_def resume_view_def resume_report_def Let_def)
  have gap: "oldest_replayable (lane s) > rexposed (reader s) + 1 \<longleftrightarrow>
      rexposed (reader s) < assigned (lane s) \<and> retained (rexposed (reader s) + 1) (lane s) = None"
    using le(1,2) by (auto simp: retained_spec [OF lane])
  have "\<forall>seq. rexposed (reader s) < seq \<and> seq \<le> length (stream s) \<longrightarrow>
      retained seq (lane s) = Some \<lparr>fseq = seq, fbytes = stream s ! (seq - 1)\<rparr>"
    if "\<not> oldest_replayable (lane s) > rexposed (reader s) + 1"
    using that le(3) by (simp add: retained_spec [OF lane])
  then show ?thesis unfolding r gap [symmetric] by simp
qed

theorem resume_is_exact_witness:
  "reconcile \<lparr>token_request = 1, token_subscriber = 2, issued_by_incarnation = 3, secret = [9]\<rparr> 1 2 [9]
     (resume_view 4 (Some 3) (lane torn_run)) (resume_report (reader torn_run))
   = Inr \<lparr>resume_from_seq = 1, first_frame_was_in_flight = True\<rparr>"
  using resume_is_exact [OF torn_run_reachable,
      of "\<lparr>token_request = 1, token_subscriber = 2, issued_by_incarnation = 3, secret = [9]\<rparr>" 1 2 "[9]" 4 "Some 3"]
  by (simp add: torn_run_def retained_def)

definition assign_all :: "payload list \<Rightarrow> sequencer \<Rightarrow> sequencer" where
  "assign_all bs l = fold (\<lambda>b l. fst (assign b l)) bs l"

lemma assign_all_inv:
  "lane_inv st l \<Longrightarrow> lane_inv (st @ bs) (assign_all bs l)
     \<and> sent (assign_all bs l) = sent l \<and> retention_budget (assign_all bs l) = retention_budget l"
proof (induction bs arbitrary: st l)
  case (Cons b bs)
  have "sent (fst (assign b l)) = sent l" "retention_budget (fst (assign b l)) = retention_budget l"
    by (simp_all add: assign_def Let_def split_def)
  with Cons.IH [OF lane_inv_assign [OF Cons.prems, of b]] show ?case by (simp add: assign_all_def)
qed (simp add: assign_all_def)

text \<open>Retention counts frames that were never sent. Once more frames are assigned than the budget
  holds, the first frame is gone before the transport asked for it: \<open>send\<close> still reports it as in
  flight, it cannot be replayed, and a wrapper that has seen nothing is refused for a retention gap.\<close>

theorem unsent_frames_are_evicted:
  assumes "length bs > budget"
  shows "\<exists>l'. send 1 (assign_all bs (sequencer_new budget)) = Inr l' \<and> in_flight l' = 1 \<and> retained 1 l' = None
    \<and> reconcile token (token_request token) (token_subscriber token) (secret token)
        (resume_view (issued_by_incarnation token) pre l') (resume_report (reader_new m)) = Inl RetentionGap"
proof -
  let ?l = "assign_all bs (sequencer_new budget)"
  have l: "lane_inv bs ?l" "sent ?l = 0" "retention_budget ?l = budget"
    using assign_all_inv [OF lane_inv_new, of bs budget] by (simp_all add: sequencer_new_def)
  have "length (map fseq (retention ?l)) = length [oldest_replayable ?l..<Suc (length bs)]"
    using l(1) unfolding lane_inv_def by metis
  moreover have "length (retention ?l) \<le> budget" using l by (simp add: lane_inv_def)
  ultimately have old: "oldest_replayable ?l > 1" using assms by (simp only: length_map length_upt)
  have s: "send 1 ?l = Inr (?l\<lparr>sent := 1\<rparr>)" "acked ?l = 0"
    using l assms by (auto simp: send_def lane_inv_def)
  have "lane_inv bs (?l\<lparr>sent := 1\<rparr>)" using lane_inv_send [OF l(1) s(1)] .
  from retained_spec [OF this, of 1] old have "retained 1 (?l\<lparr>sent := 1\<rparr>) = None" by simp
  with s old show ?thesis
    by (simp add: in_flight_def reconcile_def resume_view_def resume_report_def reader_new_def)
qed

theorem unsent_frames_are_evicted_witness:
  "\<exists>l'. send 1 (assign_all [[1], [2], [3]] (sequencer_new 2)) = Inr l' \<and> retained 1 l' = None"
proof -
  have "length [[1], [2], [3 :: 8 word]] > 2" by simp
  from unsent_frames_are_evicted [OF this] show ?thesis by blast
qed

section \<open>Local fallback never repeats shown output silently\<close>

lemma lane_report_honest:
  "link_inv s \<Longrightarrow> exposed_payloads (reader s) \<noteq> [] \<Longrightarrow>
     transcript_exposed (lane_frontier_report (lane s)) \<or> transcript_uncertain (lane_frontier_report (lane s))"
  by (auto simp: link_inv_def lane_frontier_report_def)

interpretation edge_lane: frontier_reporter
  "\<lambda>s. lane_frontier_report (lane s)" "\<lambda>s. exposed_payloads (reader s) \<noteq> []" link_inv
  by unfold_locales (use lane_report_honest in blast)

interpretation wrapper_reader: frontier_reporter
  "\<lambda>s. frontier (resume_report (reader s))"
  "\<lambda>s. exposed_payloads (reader s) \<noteq> [] \<or> partial (reader s) \<noteq> None" link_inv
  by unfold_locales (auto simp: resume_report_def link_inv_def)

text \<open>Neither side ever answers a failed build with an unlabeled local rerun once output was shown.
  This holds in every reachable state for the edge's report and for the wrapper's; for the
  wrapper's it holds as soon as a frame has begun to arrive.\<close>

theorem no_unlabeled_rerun_after_output:
  assumes "reach_from link_start link_step s"
  shows "(exposed_payloads (reader s) \<noteq> [] \<longrightarrow>
            decide_fallback (lane_frontier_report (lane s)) cfg i \<noteq> RunOriginalSeamless)
       \<and> (exposed_payloads (reader s) \<noteq> [] \<or> partial (reader s) \<noteq> None \<longrightarrow>
            decide_fallback (frontier (resume_report (reader s))) cfg i \<noteq> RunOriginalSeamless)"
  using edge_lane.no_silent_rerun wrapper_reader.no_silent_rerun transcript.reachable_good [OF assms]
  by blast

theorem no_unlabeled_rerun_after_output_witness:
  "decide_fallback (frontier (resume_report (reader torn_run))) \<lparr>labeled_transcript_recovery = True\<rparr> 5
     \<noteq> RunOriginalSeamless"
  using no_unlabeled_rerun_after_output [OF torn_run_reachable, of "\<lparr>labeled_transcript_recovery = True\<rparr>" 5]
  by (simp add: torn_run_def)

end
