(* ===== verification/Canonical.thy ===== *)
theory Canonical
  imports Prelude "HOL-Library.List_Lexorder"
begin

text \<open>
  Canonical serialization and action keys: \<open>rabs-key/src/canonical.rs\<close>, \<open>rabs-key/src/typed_digest.rs\<close>,
  \<open>rabs-key/src/action_key.rs\<close> and the descriptor of \<open>rabs-protocol/src/descriptor.rs\<close>. The encoder is
  its buffer, and every method appends to it. The hash is an argument.

  The locale \<open>field_encoder\<close> is the contract of a method: it only appends, and what it appended is
  read back in one way, whatever follows. Sequences, options and pairs of such fields are such
  fields again, so the whole key input has one reading.
\<close>

section \<open>Bytes\<close>

unbundle bit_operations_syntax

fun le_bytes :: "nat \<Rightarrow> 'a :: len word \<Rightarrow> byte list" where
  "le_bytes 0 w = []"
| "le_bytes (Suc n) w = ucast w # le_bytes n (drop_bit 8 w)"

fun le_word :: "byte list \<Rightarrow> 'a :: len word" where
  "le_word [] = 0"
| "le_word (b # bs) = ucast b OR push_bit 8 (le_word bs)"

definition str_bytes :: "string \<Rightarrow> byte list" where
  "str_bytes s = map (\<lambda>c. of_nat (of_char c)) s"

section \<open>The encoder\<close>

definition put_bytes :: "byte list \<Rightarrow> byte list \<Rightarrow> byte list" where
  "put_bytes b buf = (buf @ le_bytes 8 (of_nat (length b) :: 64 word)) @ b"

definition put_str :: "string \<Rightarrow> byte list \<Rightarrow> byte list" where
  "put_str s buf = put_bytes (str_bytes s) buf"

definition put_u32 :: "32 word \<Rightarrow> byte list \<Rightarrow> byte list" where
  "put_u32 v buf = buf @ le_bytes 4 v"

definition put_u64 :: "64 word \<Rightarrow> byte list \<Rightarrow> byte list" where
  "put_u64 v buf = buf @ le_bytes 8 v"

definition put_bool :: "bool \<Rightarrow> byte list \<Rightarrow> byte list" where
  "put_bool v buf = buf @ [if v then 1 else 0]"

definition put_option :: "('a \<Rightarrow> byte list \<Rightarrow> byte list) \<Rightarrow> 'a option \<Rightarrow> byte list \<Rightarrow> byte list" where
  "put_option f v buf = (case v of None \<Rightarrow> buf @ [0] | Some t \<Rightarrow> f t (buf @ [1]))"

definition put_seq :: "('a \<Rightarrow> byte list \<Rightarrow> byte list) \<Rightarrow> 'a list \<Rightarrow> byte list \<Rightarrow> byte list" where
  "put_seq f items buf =
     foldl (\<lambda>e it. f it e) (buf @ le_bytes 8 (of_nat (length items) :: 64 word)) items"

definition sorted_bytes :: "byte list list \<Rightarrow> byte list list" where
  "sorted_bytes items = remdups_adj (sort items)"

section \<open>Typed digests\<close>

record typed_digest =
  domain :: string
  bytes :: "byte list"

definition DOMAIN_ACTION_KEY :: string where
  "DOMAIN_ACTION_KEY = ''rabs.action-key.sha256.v1''"

definition DOMAIN_DESCRIPTOR :: string where
  "DOMAIN_DESCRIPTOR = ''rabs.descriptor.sha256.v1''"

text \<open>What \<open>compute\<close> feeds the hash, and the digest it builds.\<close>

definition digest_frame :: "string \<Rightarrow> byte list \<Rightarrow> byte list" where
  "digest_frame dm canonical =
     str_bytes dm @ [0] @ le_bytes 8 (of_nat (length canonical) :: 64 word) @ canonical"

definition compute :: "(byte list \<Rightarrow> byte list) \<Rightarrow> string \<Rightarrow> byte list \<Rightarrow> typed_digest" where
  "compute sha256 dm canonical = \<lparr>domain = dm, bytes = sha256 (digest_frame dm canonical)\<rparr>"

section \<open>Descriptors and action keys\<close>

datatype action_class =
    CargoWholeCommandBounded
  | RustcDependencyCompile
  | RustcWorkspaceCompile
  | RustdocCompile
  | Link
  | BuildScriptCompile
  | BuildScriptRun
  | NativeCompileC
  | NativeCompileCxx
  | NativeArchive
  | BindgenGeneration
  | CodeGeneratorRun
  | NextestTestCase
  | TestBinaryBatch
  | DoctestCompile
  | DoctestRun
  | ClippyCompile
  | BenchmarkCompile
  | BenchmarkRun
  | ToolchainProbe
  | WorkerProbe

fun action_class_tag :: "action_class \<Rightarrow> 32 word" where
  "action_class_tag CargoWholeCommandBounded = 1"
| "action_class_tag RustcDependencyCompile = 2"
| "action_class_tag RustcWorkspaceCompile = 3"
| "action_class_tag RustdocCompile = 4"
| "action_class_tag Link = 5"
| "action_class_tag BuildScriptCompile = 6"
| "action_class_tag BuildScriptRun = 7"
| "action_class_tag NativeCompileC = 8"
| "action_class_tag NativeCompileCxx = 9"
| "action_class_tag NativeArchive = 10"
| "action_class_tag BindgenGeneration = 11"
| "action_class_tag CodeGeneratorRun = 12"
| "action_class_tag NextestTestCase = 13"
| "action_class_tag TestBinaryBatch = 14"
| "action_class_tag DoctestCompile = 15"
| "action_class_tag DoctestRun = 16"
| "action_class_tag ClippyCompile = 17"
| "action_class_tag BenchmarkCompile = 18"
| "action_class_tag BenchmarkRun = 19"
| "action_class_tag ToolchainProbe = 20"
| "action_class_tag WorkerProbe = 21"

record action_descriptor =
  key_epoch :: "32 word"
  projection_epoch :: "32 word"
  action_cls :: action_class
  normalized_invocation :: typed_digest
  virtual_working_directory :: typed_digest
  action_inputs :: typed_digest
  negative_dependencies :: typed_digest
  dependency_inputs :: typed_digest
  toolchain :: typed_digest
  output_platform :: typed_digest
  environment :: typed_digest
  sandbox_semantic_policy :: typed_digest
  build_path_semantic_policy :: typed_digest
  execution_semantics :: typed_digest
  output_declarations :: typed_digest

definition key_input_components :: "action_descriptor \<Rightarrow> (string \<times> typed_digest) list" where
  "key_input_components d =
     [(''normalized_invocation'', normalized_invocation d),
      (''virtual_working_directory'', virtual_working_directory d),
      (''action_inputs'', action_inputs d),
      (''negative_dependencies'', negative_dependencies d),
      (''dependency_inputs'', dependency_inputs d),
      (''toolchain'', toolchain d),
      (''output_platform'', output_platform d),
      (''environment'', environment d),
      (''sandbox_semantic_policy'', sandbox_semantic_policy d),
      (''build_path_semantic_policy'', build_path_semantic_policy d),
      (''execution_semantics'', execution_semantics d),
      (''output_declarations'', output_declarations d)]"

record action_key_breakdown =
  bd_key_epoch :: "32 word"
  bd_projection_epoch :: "32 word"
  bd_class_tag :: "32 word"
  components :: "(string \<times> typed_digest) list"
  final_key :: typed_digest

text \<open>The encoder's buffer after the loop of \<open>compute_action_key\<close>.\<close>

definition action_key_canonical :: "action_descriptor \<Rightarrow> byte list" where
  "action_key_canonical d =
     foldl (\<lambda>enc c. put_bytes (bytes (snd c)) (put_str (domain (snd c)) enc))
       (put_u32 (action_class_tag (action_cls d)) (put_u32 (projection_epoch d) (put_u32 (key_epoch d) [])))
       (key_input_components d)"

definition compute_action_key :: "(byte list \<Rightarrow> byte list) \<Rightarrow> action_descriptor \<Rightarrow> action_key_breakdown" where
  "compute_action_key sha256 d =
     \<lparr>bd_key_epoch = key_epoch d, bd_projection_epoch = projection_epoch d,
      bd_class_tag = action_class_tag (action_cls d), components = key_input_components d,
      final_key = compute sha256 DOMAIN_ACTION_KEY (action_key_canonical d)\<rparr>"

section \<open>Words and bytes\<close>

lemma length_le_bytes [simp]: "length (le_bytes n w) = n"
  by (induction n w rule: le_bytes.induct) simp_all

lemma bit_le_word:
  "bit (le_word bs :: 'a :: len word) i \<longleftrightarrow> i < LENGTH('a) \<and> i div 8 < length bs \<and> bit (bs ! (i div 8)) (i mod 8)"
proof (induction bs arbitrary: i)
  case (Cons b bs)
  show ?case
  proof (cases "i < 8")
    case True
    then show ?thesis by (auto simp: bit_simps)
  next
    case False
    then have d: "i div 8 = Suc ((i - 8) div 8)" "i mod 8 = (i - 8) mod 8"
      by (simp_all add: div_if mod_if)
    from False have "\<not> bit b i" using bit_imp_le_length [of b i] by auto
    with False show ?thesis using Cons.IH [of "i - 8"] by (auto simp: bit_simps d)
  qed
qed simp

lemma nth_le_bytes: "j < n \<Longrightarrow> le_bytes n w ! j = ucast (drop_bit (8 * j) w)"
proof (induction n w arbitrary: j rule: le_bytes.induct)
  case (2 n w)
  then show ?case by (cases j) (simp_all add: drop_bit_drop_bit ac_simps)
qed simp

lemma le_word_bytes: "LENGTH('a) \<le> 8 * n \<Longrightarrow> le_word (le_bytes n w) = (w :: 'a :: len word)"
proof (rule bit_word_eqI)
  fix i
  assume a: "LENGTH('a) \<le> 8 * n" "i < LENGTH('a)"
  then have "i div 8 < n" by (simp add: less_mult_imp_div_less mult.commute)
  with a show "bit (le_word (le_bytes n w) :: 'a word) i = bit w i"
    by (auto simp: bit_le_word nth_le_bytes bit_simps)
qed

lemma le_bytes_inject: "LENGTH('a) \<le> 8 * n \<Longrightarrow> le_bytes n v = le_bytes n w \<longleftrightarrow> v = (w :: 'a :: len word)"
  by (metis le_word_bytes)

lemma char_byte_inject: "(of_nat (of_char c) :: byte) = of_nat (of_char d) \<longleftrightarrow> c = d"
  using nat_of_char_less_256 [of c] nat_of_char_less_256 [of d]
  by (auto simp: unat_of_nat take_bit_eq_mod dest!: arg_cong [where f = unat])

lemma str_bytes_inject: "str_bytes s = str_bytes t \<longleftrightarrow> s = t"
  unfolding str_bytes_def by (auto simp: inj_map_eq_map inj_def char_byte_inject)

section \<open>Fields\<close>

locale field_encoder =
  fixes put :: "'a \<Rightarrow> byte list \<Rightarrow> byte list" and ok :: "'a \<Rightarrow> bool"
  assumes appends: "put x buf = buf @ put x []"
    and one_reading: "ok x \<Longrightarrow> ok y \<Longrightarrow> put x [] @ r = put y [] @ s \<Longrightarrow> x = y \<and> r = s"
begin

lemma field_inject: "ok x \<Longrightarrow> ok y \<Longrightarrow> put x buf = put y buf \<longleftrightarrow> x = y"
  using one_reading [of x y "[]" "[]"] appends by (metis append_same_eq same_append_eq append_Nil2)

lemma fold_appends: "foldl (\<lambda>e x. put x e) buf xs = buf @ concat (map (\<lambda>x. put x []) xs)"
  by (induction xs arbitrary: buf) (simp_all, metis appends append.assoc)

lemma concat_one_reading:
  "list_all ok xs \<Longrightarrow> list_all ok ys \<Longrightarrow> length xs = length ys \<Longrightarrow>
     concat (map (\<lambda>x. put x []) xs) @ r = concat (map (\<lambda>x. put x []) ys) @ s \<Longrightarrow> xs = ys \<and> r = s"
proof (induction xs arbitrary: ys)
  case (Cons x xs)
  then obtain y ys' where y: "ys = y # ys'" by (cases ys) auto
  with Cons.prems one_reading [of x y "concat (map (\<lambda>x. put x []) xs) @ r" "concat (map (\<lambda>x. put x []) ys') @ s"]
  have "x = y" "concat (map (\<lambda>x. put x []) xs) @ r = concat (map (\<lambda>x. put x []) ys') @ s" by simp_all
  with Cons y show ?case by simp
qed simp

lemma option_field: "field_encoder (put_option put) (pred_option ok)"
proof unfold_locales
  fix v buf
  show "put_option put v buf = buf @ put_option put v []"
    by (cases v) (simp_all add: put_option_def, metis append.assoc appends)
next
  fix v w r s
  assume a: "pred_option ok v" "pred_option ok w" "put_option put v [] @ r = put_option put w [] @ s"
  show "v = w \<and> r = s"
  proof (cases v; cases w)
    fix x y
    assume "v = Some x" "w = Some y"
    with a appends [of x "[1]"] appends [of y "[1]"] one_reading [of x y r s] show ?thesis
      by (simp add: put_option_def)
  qed (use a appends [of _ "[1]"] in \<open>auto simp: put_option_def\<close>)
qed

lemma seq_field: "field_encoder (put_seq put) (\<lambda>xs. length xs < 2 ^ 64 \<and> list_all ok xs)"
proof unfold_locales
  fix xs buf
  show "put_seq put xs buf = buf @ put_seq put xs []" by (simp add: put_seq_def fold_appends)
next
  fix xs ys r s
  assume a: "length xs < 2 ^ 64 \<and> list_all ok xs" "length ys < 2 ^ 64 \<and> list_all ok ys"
    "put_seq put xs [] @ r = put_seq put ys [] @ s"
  then have "le_bytes 8 (of_nat (length xs) :: 64 word) = le_bytes 8 (of_nat (length ys) :: 64 word)"
    and c: "concat (map (\<lambda>x. put x []) xs) @ r = concat (map (\<lambda>x. put x []) ys) @ s"
    by (simp_all add: put_seq_def fold_appends)
  then have "(of_nat (length xs) :: 64 word) = of_nat (length ys)" by (simp add: le_bytes_inject)
  with a have "length xs = length ys" by (auto simp: unat_of_nat take_bit_eq_mod dest!: arg_cong [where f = unat])
  with a c concat_one_reading show "xs = ys \<and> r = s" by blast
qed

end

text \<open>Two fields in a row.\<close>

lemma pair_field:
  assumes "field_encoder p ok" "field_encoder q ok'"
  shows "field_encoder (\<lambda>v e. q (snd v) (p (fst v) e)) (\<lambda>v. ok (fst v) \<and> ok' (snd v))"
proof
  fix v buf
  show "q (snd v) (p (fst v) buf) = buf @ q (snd v) (p (fst v) [])"
    using assms by (metis append.assoc field_encoder.appends)
next
  fix v w r s
  assume a: "ok (fst v) \<and> ok' (snd v)" "ok (fst w) \<and> ok' (snd w)"
    "q (snd v) (p (fst v) []) @ r = q (snd w) (p (fst w) []) @ s"
  then have "p (fst v) [] @ q (snd v) [] @ r = p (fst w) [] @ q (snd w) [] @ s"
    using assms(2) by (metis append.assoc field_encoder.appends)
  with a have f: "fst v = fst w" "q (snd v) [] @ r = q (snd w) [] @ s"
    using field_encoder.one_reading [OF assms(1)] by blast+
  with a have "snd v = snd w \<and> r = s" using field_encoder.one_reading [OF assms(2) _ _ f(2)] by blast
  with f show "v = w \<and> r = s" by (simp add: prod_eq_iff)
qed

lemma le_bytes_length:
  "length b < 2 ^ 64 \<Longrightarrow> length c < 2 ^ 64 \<Longrightarrow>
     le_bytes 8 (of_nat (length b) :: 64 word) = le_bytes 8 (of_nat (length c) :: 64 word) \<longleftrightarrow> length b = length c"
  by (auto simp: le_bytes_inject unat_of_nat take_bit_eq_mod dest!: arg_cong [where f = unat])

interpretation u32_field: field_encoder put_u32 "\<lambda>_. True"
  by unfold_locales (auto simp: put_u32_def le_bytes_inject)

interpretation u64_field: field_encoder put_u64 "\<lambda>_. True"
  by unfold_locales (auto simp: put_u64_def le_bytes_inject)

interpretation bool_field: field_encoder put_bool "\<lambda>_. True"
  by unfold_locales (auto simp: put_bool_def split: if_splits)

interpretation bytes_field: field_encoder put_bytes "\<lambda>b. length b < 2 ^ 64"
  by unfold_locales (auto simp: put_bytes_def le_bytes_length)

lemma length_str_bytes [simp]: "length (str_bytes s) = length s"
  by (simp add: str_bytes_def)

interpretation str_field: field_encoder put_str "\<lambda>s. length s < 2 ^ 64"
  by unfold_locales (auto simp: put_str_def put_bytes_def le_bytes_length str_bytes_inject)

interpretation set_field: field_encoder "put_seq put_bytes" "\<lambda>xs. length xs < 2 ^ 64 \<and> list_all (\<lambda>b. length b < 2 ^ 64) xs"
  by (rule bytes_field.seq_field)

section \<open>Properties\<close>

definition digest_ok :: "typed_digest \<Rightarrow> bool" where
  "digest_ok d \<longleftrightarrow> length (domain d) < 2 ^ 64 \<and> length (bytes d) < 2 ^ 64"

definition put_digest_field :: "typed_digest \<Rightarrow> byte list \<Rightarrow> byte list" where
  "put_digest_field d e = put_bytes (bytes d) (put_str (domain d) e)"

interpretation digest_field: field_encoder put_digest_field digest_ok
proof
  fix d buf
  show "put_digest_field d buf = buf @ put_digest_field d []"
    by (simp add: put_digest_field_def put_bytes_def put_str_def)
next
  fix d d' r s
  assume "digest_ok d" "digest_ok d'" "put_digest_field d [] @ r = put_digest_field d' [] @ s"
  then show "d = d' \<and> r = s"
    using field_encoder.one_reading [OF pair_field [OF str_field.field_encoder_axioms bytes_field.field_encoder_axioms],
        of "(domain d, bytes d)" "(domain d', bytes d')" r s]
    by (simp add: put_digest_field_def digest_ok_def)
qed

definition descriptor_ok :: "action_descriptor \<Rightarrow> bool" where
  "descriptor_ok d \<longleftrightarrow> list_all (digest_ok \<circ> snd) (key_input_components d)"

lemma action_class_tag_inject: "action_class_tag c = action_class_tag d \<longleftrightarrow> c = d"
  by (cases c; cases d) simp_all

lemma action_key_canonical_eq:
  "action_key_canonical d =
     le_bytes 4 (key_epoch d) @ le_bytes 4 (projection_epoch d) @ le_bytes 4 (action_class_tag (action_cls d))
     @ concat (map (\<lambda>c. put_digest_field c []) (map snd (key_input_components d)))"
proof -
  have "action_key_canonical d = foldl (\<lambda>e c. put_digest_field c e)
      (le_bytes 4 (key_epoch d) @ le_bytes 4 (projection_epoch d) @ le_bytes 4 (action_class_tag (action_cls d)))
      (map snd (key_input_components d))"
    by (simp add: action_key_canonical_def put_digest_field_def put_u32_def foldl_map)
  then show ?thesis by (simp add: digest_field.fold_appends)
qed

text \<open>The components and the three header fields are all of a descriptor.\<close>

lemma descriptor_eqI:
  "key_epoch d = key_epoch d' \<Longrightarrow> projection_epoch d = projection_epoch d' \<Longrightarrow> action_cls d = action_cls d'
     \<Longrightarrow> map snd (key_input_components d) = map snd (key_input_components d') \<Longrightarrow> d = (d' :: action_descriptor)"
  by (simp add: key_input_components_def)

lemma action_key_canonical_inject:
  assumes "descriptor_ok d" "descriptor_ok d'"
  shows "action_key_canonical d = action_key_canonical d' \<longleftrightarrow> d = d'"
proof
  assume eq: "action_key_canonical d = action_key_canonical d'"
  have "list_all digest_ok (map snd (key_input_components d))" "list_all digest_ok (map snd (key_input_components d'))"
    using assms by (simp_all add: descriptor_ok_def list.pred_map)
  moreover have "length (map snd (key_input_components d)) = length (map snd (key_input_components d'))"
    by (simp add: key_input_components_def)
  ultimately have "map snd (key_input_components d) = map snd (key_input_components d')"
    using eq digest_field.concat_one_reading [where r = "[]" and s = "[]"]
    unfolding action_key_canonical_eq by simp
  with eq show "d = d'"
    by (intro descriptor_eqI) (simp_all add: action_key_canonical_eq le_bytes_inject action_class_tag_inject)
qed simp

lemma digest_frame_inject:
  assumes "CHR 0x00 \<notin> set a" "CHR 0x00 \<notin> set b"
  shows "digest_frame a x = digest_frame b y \<longleftrightarrow> a = b \<and> x = y"
proof
  assume eq: "digest_frame a x = digest_frame b y"
  have nz: "0 \<notin> set (str_bytes s)" if "CHR 0x00 \<notin> set s" for s
  proof
    assume "0 \<in> set (str_bytes s)"
    then obtain c where c: "c \<in> set s" "0 = (of_nat (of_char c) :: byte)" unfolding str_bytes_def set_map by blast
    have "(of_nat (of_char CHR 0x00) :: byte) = 0" by simp
    with c(2) have "c = CHR 0x00" using char_byte_inject [of "CHR 0x00" c] by metis
    with c(1) that show False by blast
  qed
  let ?x = "le_bytes 8 (of_nat (length x) :: 64 word) @ x" and ?y = "le_bytes 8 (of_nat (length y) :: 64 word) @ y"
  have "str_bytes a @ 0 # ?x = str_bytes b @ 0 # ?y" using eq by (simp only: digest_frame_def append.simps)
  from append_Cons_eq_split [OF this nz [OF assms(1)] nz [OF assms(2)]]
  have "str_bytes a = str_bytes b" "?x = ?y" by blast+
  moreover from this(2) have "x = y" by (simp only: append_eq_append_conv length_le_bytes simp_thms)
  ultimately show "a = b \<and> x = y" by (simp only: str_bytes_inject simp_thms)
qed simp

text \<open>C11: An action key stands for one descriptor. If the hash does not collide on the two framed
  inputs, two descriptors have the same key exactly if they agree in both epochs, in the action class
  and in all twelve component digests: no boundary between fields can shift.\<close>

theorem action_key_identifies_descriptor:
  assumes "descriptor_ok d" "descriptor_ok d'"
    and no_collision: "sha256 (digest_frame DOMAIN_ACTION_KEY (action_key_canonical d))
        = sha256 (digest_frame DOMAIN_ACTION_KEY (action_key_canonical d'))
      \<Longrightarrow> digest_frame DOMAIN_ACTION_KEY (action_key_canonical d)
        = digest_frame DOMAIN_ACTION_KEY (action_key_canonical d')"
  shows "final_key (compute_action_key sha256 d) = final_key (compute_action_key sha256 d') \<longleftrightarrow> d = d'"
proof
  assume "final_key (compute_action_key sha256 d) = final_key (compute_action_key sha256 d')"
  then have "digest_frame DOMAIN_ACTION_KEY (action_key_canonical d)
      = digest_frame DOMAIN_ACTION_KEY (action_key_canonical d')"
    by (intro no_collision) (simp add: compute_action_key_def compute_def)
  then have "action_key_canonical d = action_key_canonical d'"
    by (subst (asm) digest_frame_inject) (simp_all add: DOMAIN_ACTION_KEY_def)
  with assms(1,2) show "d = d'" by (simp add: action_key_canonical_inject)
qed simp

definition sample_descriptor :: "32 word \<Rightarrow> action_descriptor" where
  "sample_descriptor epoch =
     (let x = \<lparr>domain = ''x'', bytes = [1]\<rparr>
      in \<lparr>key_epoch = epoch, projection_epoch = 1, action_cls = Link, normalized_invocation = x,
          virtual_working_directory = x, action_inputs = x, negative_dependencies = x, dependency_inputs = x,
          toolchain = x, output_platform = x, environment = x, sandbox_semantic_policy = x,
          build_path_semantic_policy = x, execution_semantics = x, output_declarations = x\<rparr>)"

theorem action_key_identifies_descriptor_witness:
  "final_key (compute_action_key id (sample_descriptor 1)) \<noteq> final_key (compute_action_key id (sample_descriptor 2))"
proof -
  have ok: "descriptor_ok (sample_descriptor e)" for e
    by (simp add: descriptor_ok_def sample_descriptor_def key_input_components_def digest_ok_def Let_def)
  have "sample_descriptor 1 \<noteq> sample_descriptor 2" by (simp add: sample_descriptor_def Let_def)
  with action_key_identifies_descriptor [OF ok [of 1] ok [of 2], of id] show ?thesis by simp
qed

lemma set_sorted_bytes: "set (sorted_bytes xs) = set xs"
  by (simp add: sorted_bytes_def)

lemma sorted_dedup: "sorted xs \<Longrightarrow> sorted (remdups_adj xs) \<and> distinct (remdups_adj xs)"
proof (induction xs rule: remdups_adj.induct)
  case (3 x y xs)
  then show ?case by (cases "x = y") auto
qed simp_all

lemma sorted_bytes_unique: "sorted_bytes xs = sorted_bytes ys \<longleftrightarrow> set xs = set ys"
proof
  assume "set xs = set ys"
  then have "set (sorted_bytes xs) = set (sorted_bytes ys)" by (simp add: set_sorted_bytes)
  moreover have "sorted (sorted_bytes zs) \<and> distinct (sorted_bytes zs)" for zs
    unfolding sorted_bytes_def by (rule sorted_dedup) simp
  ultimately show "sorted_bytes xs = sorted_bytes ys" by (simp add: sorted_distinct_set_unique)
qed (metis set_sorted_bytes)

text \<open>A set has one encoding and an encoding one set: sorted and deduplicated byte strings, written
  as a sequence behind whatever the buffer holds, give equal bytes exactly if the sets are equal.\<close>

theorem set_encoding_canonical:
  assumes "length xs < 2 ^ 64" "length ys < 2 ^ 64"
    and "list_all (\<lambda>b. length b < 2 ^ 64) xs" "list_all (\<lambda>b. length b < 2 ^ 64) ys"
  shows "put_seq put_bytes (sorted_bytes xs) buf = put_seq put_bytes (sorted_bytes ys) buf \<longleftrightarrow> set xs = set ys"
proof -
  have "length (sorted_bytes zs) \<le> length zs" for zs
    unfolding sorted_bytes_def using remdups_adj_length [of "sort zs"] by simp
  then have "length (sorted_bytes xs) < 2 ^ 64" "length (sorted_bytes ys) < 2 ^ 64"
    using assms(1,2) le_less_trans by blast+
  moreover have "list_all (\<lambda>b. length b < 2 ^ 64) (sorted_bytes zs) = list_all (\<lambda>b. length b < 2 ^ 64) zs" for zs
    by (simp add: list_all_iff set_sorted_bytes)
  ultimately show ?thesis using assms set_field.field_inject by (simp add: sorted_bytes_unique)
qed

theorem set_encoding_canonical_witness:
  "put_seq put_bytes (sorted_bytes [[2], [1], [2]]) [] = put_seq put_bytes (sorted_bytes [[1], [2]]) []"
  using set_encoding_canonical [of "[[2], [1], [2]]" "[[1], [2]]" "[]"] by (simp add: insert_commute)

text \<open>The framing of a digest separates domains: for domains without a NUL byte, as all are, two
  framed inputs are equal only if domain and payload both are.\<close>

theorem digest_domains_separated:
  assumes "CHR 0x00 \<notin> set a" "CHR 0x00 \<notin> set b"
  shows "digest_frame a x = digest_frame b y \<longleftrightarrow> a = b \<and> x = y"
  by (rule digest_frame_inject [OF assms])

theorem digest_domains_separated_witness:
  "digest_frame DOMAIN_ACTION_KEY [1] \<noteq> digest_frame DOMAIN_DESCRIPTOR [1]"
  using digest_domains_separated [of DOMAIN_ACTION_KEY DOMAIN_DESCRIPTOR "[1]" "[1]"]
  by (simp add: DOMAIN_ACTION_KEY_def DOMAIN_DESCRIPTOR_def)

end
