(* ===== verification/Metadata_Store.thy ===== *)
theory Metadata_Store
  imports Canonical "HOL-Library.AList" "HOL-Library.Char_ord" "HOL-Library.Product_Lexorder"
begin

text \<open>
  The authoritative metadata store, \<open>rabs-cas/src/metadata_store.rs\<close>: coordinator authority,
  generations, attempts, leases, publications, object locations and edges, pins, and the tables of
  garbage collection. Each SQL table is an association list from its primary key to the row; each
  statement is the relational operation it names. \<open>INSERT\<close> on an existing key is the engine's
  constraint error, \<open>in_txn\<close> rolls back on every error, \<open>ORDER BY\<close> sorts. Row shapes are typed, so
  the checks for malformed columns have no counterpart. Sequence numbers are \<open>nat\<close> with the range
  check of the \<open>i64\<close> column written out; identifiers are \<open>128 word\<close>.
\<close>

section \<open>Digests and errors\<close>

definition hex_byte :: "8 word \<Rightarrow> string" where
  "hex_byte b = [hex_digit (unat b div 16), hex_digit (unat b mod 16)]"

definition hex_bytes :: "8 word list \<Rightarrow> string" where
  "hex_bytes bs = concat (map hex_byte bs)"

definition digest_key :: "typed_digest \<Rightarrow> string" where
  "digest_key d = domain d @ '':'' @ hex_bytes (bytes d)"

datatype store_error =
    Backend
  | AuthorityHeld string
  | NotActiveAuthority
  | GenerationIdNotAboveHighWater
  | DuplicateAttempt
  | UnknownGeneration
  | UnknownLease
  | LeaseReleased
  | NonMonotonicRenewal
  | UnknownPin
  | PinOwnerMismatch
  | PinReleased
  | NonMonotonicPinRenewal
  | StaleOperatorReset
  | StalePeerAuthority
  | StaleWorkerIncarnation
  | StaleEdgeIncarnation
  | EdgeHandoffActive
  | AdoptionEdgeConflict
  | EdgeHandoffPredecessorMismatch
  | UnknownEdgeHandoff
  | NonMonotonicTrustEvaluation
  | DuplicateOperation
  | UnknownOperation
  | ManifestDivergence
  | AppendConflict string
  | UnknownMaterialization
  | StaleServingRevision
  | UnknownQuarantineReference
  | DomainNotInterned string
  | Corruption string

definition to_seq :: "nat \<Rightarrow> string \<Rightarrow> store_error + nat" where
  "to_seq v what = (if v < 2 ^ 63 then Inr v else Inl (Corruption (what @ '' out of range'')))"

section \<open>Rows and tables\<close>

datatype commit_outcome = Committed | IdempotentDuplicate | ConflictQuarantined

datatype result_kind_tag = Success | DeterministicFailure

record authority_row =
  au_digest :: typed_digest
  cluster_id :: string
  au_incarnation :: "128 word"
  au_term :: nat
  acquired_seq :: nat

record provisional_ancestor_row =
  producer_action_key :: string
  anc_role :: string
  virtual_path :: "8 word list"
  anc_object_key :: string
  adopted :: bool

record publication_row =
  pub_action :: typed_digest
  descriptor_digest :: typed_digest
  manifest_digest :: typed_digest
  evidence_digest :: typed_digest
  winner_generation :: "128 word"
  winner_attempt :: "128 word"
  result_kind :: result_kind_tag
  pin_id :: "128 word"
  pin_owner :: string
  provisional_ancestors :: "provisional_ancestor_row list"

record generation_entry =
  gen_action_key :: string
  gen_authority_key :: string
  tombstoned :: bool

record attempt_entry =
  att_generation :: "128 word"
  att_worker :: string
  att_seq :: nat

record lease_entry =
  lease_attempt :: "128 word"
  lease_renewal_seq :: nat
  lease_expires_at :: nat
  lease_released :: bool

record publication_entry =
  pe_descriptor :: typed_digest
  pe_manifest :: typed_digest
  pe_generation :: "128 word"
  pe_attempt :: "128 word"
  pe_kind :: result_kind_tag
  pe_pin :: "128 word"

record evidence_entry =
  ev_generation :: "128 word"
  ev_attempt :: "128 word"
  ev_manifest_key :: string

record location_entry =
  verified_seq :: "nat option"
  encoding :: string
  quarantined :: bool
  loc_durable :: bool

record pin_entry =
  root_key :: string
  owner :: string
  pin_class :: string
  expires_at_seq :: "nat option"
  released :: bool
  pin_evidence :: "string option"
  renewal_seq :: nat
  pin_durable :: bool
  pin_reason :: string

record gc_tombstone =
  marked_seq :: nat
  grace_until_seq :: nat

record gc_receipt_row =
  rec_seq :: nat
  rec_mode :: string
  rec_planned :: nat
  rec_reclaimed :: nat
  rec_skipped :: nat
  rec_truncated :: bool

text \<open>The \<open>released\<close> column of an authority stands beside its row. A serving state is its disposition
  and version. The location and tombstone keys are (object key, store path).\<close>

record store =
  domains :: "string list"
  authorities :: "(string \<times> (authority_row \<times> bool)) list"
  generations :: "(128 word \<times> generation_entry) list"
  high_water :: "128 word option"
  attempts :: "(128 word \<times> attempt_entry) list"
  leases :: "(128 word \<times> lease_entry) list"
  publications :: "(string \<times> publication_entry) list"
  serving_states :: "(string \<times> (string \<times> nat)) list"
  evidence_index :: "((string \<times> string \<times> 8 word list) \<times> evidence_entry) list"
  quarantines :: "((string \<times> string) \<times> string) list"
  ancestry :: "((string \<times> string \<times> string \<times> 8 word list) \<times> (string \<times> bool)) list"
  objects :: "(string \<times> nat) list"
  locations :: "((string \<times> string) \<times> location_entry) list"
  object_edges :: "((string \<times> string \<times> string) \<times> unit) list"
  pins :: "(128 word \<times> pin_entry) list"
  gc_runs :: "(nat \<times> nat \<times> nat \<times> nat) list"
  gc_receipts :: "gc_receipt_row list"
  gc_tombstones :: "((string \<times> string) \<times> gc_tombstone) list"

definition store_new :: store where
  "store_new =
     \<lparr>domains = [], authorities = [], generations = [], high_water = None, attempts = [], leases = [],
      publications = [], serving_states = [], evidence_index = [], quarantines = [], ancestry = [],
      objects = [], locations = [], object_edges = [], pins = [], gc_runs = [], gc_receipts = [],
      gc_tombstones = []\<rparr>"

text \<open>\<open>INSERT\<close>, \<open>INSERT OR IGNORE\<close>; \<open>INSERT OR REPLACE\<close> is \<open>AList.update\<close> and \<open>UPDATE\<close> of one row is
  \<open>AList.map_entry\<close>.\<close>

definition sql_insert :: "'k \<Rightarrow> 'v \<Rightarrow> ('k \<times> 'v) list \<Rightarrow> store_error + ('k \<times> 'v) list" where
  "sql_insert k v t = (if map_of t k = None then Inr ((k, v) # t) else Inl Backend)"

definition sql_insert_ignore :: "'k \<Rightarrow> 'v \<Rightarrow> ('k \<times> 'v) list \<Rightarrow> ('k \<times> 'v) list" where
  "sql_insert_ignore k v t = (if map_of t k = None then (k, v) # t else t)"

definition in_txn :: "(store \<Rightarrow> store_error + 'a \<times> store) \<Rightarrow> store \<Rightarrow> store \<times> (store_error + 'a)" where
  "in_txn body s = (case body s of Inr (v, s') \<Rightarrow> (s', Inr v) | Inl e \<Rightarrow> (s, Inl e))"

definition intern :: "string \<Rightarrow> store \<Rightarrow> store" where
  "intern d s = s\<lparr>domains := List.insert d (domains s)\<rparr>"

section \<open>Authority\<close>

definition active_authority_key :: "store \<Rightarrow> store_error + string option" where
  "active_authority_key s =
     (case filter (\<lambda>(k, row, rel). \<not> rel) (authorities s) of
        [] \<Rightarrow> Inr None
      | [(k, _)] \<Rightarrow> Inr (Some k)
      | _ \<Rightarrow> Inl (Corruption ''more than one active authority''))"

definition require_active :: "typed_digest \<Rightarrow> store \<Rightarrow> store_error + unit" where
  "require_active authority s =
     (case active_authority_key s of
        Inl e \<Rightarrow> Inl e
      | Inr (Some active) \<Rightarrow> if active = digest_key authority then Inr () else Inl NotActiveAuthority
      | Inr None \<Rightarrow> Inl NotActiveAuthority)"

definition acquire_authority :: "authority_row \<Rightarrow> store \<Rightarrow> store \<times> (store_error + unit)" where
  "acquire_authority row s =
     (let s1 = intern (domain (au_digest row)) s; key = digest_key (au_digest row)
      in case to_seq (au_term row) ''term'' of
           Inl e \<Rightarrow> (s1, Inl e)
         | Inr _ \<Rightarrow>
             case to_seq (acquired_seq row) ''acquired_seq'' of
               Inl e \<Rightarrow> (s1, Inl e)
             | Inr _ \<Rightarrow>
                 in_txn (\<lambda>s. case active_authority_key s of
                     Inl e \<Rightarrow> Inl e
                   | Inr (Some active) \<Rightarrow>
                       if active = key then Inr ((), s) else Inl (AuthorityHeld active)
                   | Inr None \<Rightarrow>
                       Inr ((), s\<lparr>authorities := AList.update key (row, False) (authorities s)\<rparr>)) s1)"

definition release_authority :: "typed_digest \<Rightarrow> store \<Rightarrow> store \<times> (store_error + unit)" where
  "release_authority d =
     in_txn (\<lambda>s. Inr ((), s\<lparr>authorities :=
       AList.map_entry (digest_key d) (\<lambda>(row, _). (row, True)) (authorities s)\<rparr>))"

definition active_authority :: "store \<Rightarrow> store_error + authority_row option" where
  "active_authority s =
     (case filter (\<lambda>(k, row, rel). \<not> rel) (authorities s) of
        [] \<Rightarrow> Inr None
      | [(k, row, _)] \<Rightarrow>
          if domain (au_digest row) \<in> set (domains s) then Inr (Some row)
          else Inl (DomainNotInterned (domain (au_digest row)))
      | _ \<Rightarrow> Inl (Corruption ''more than one active authority''))"

section \<open>Generations, attempts, leases\<close>

definition generation_high_water :: "store \<Rightarrow> 128 word" where
  "generation_high_water s = (case high_water s of None \<Rightarrow> 0 | Some v \<Rightarrow> v)"

definition create_generation ::
  "typed_digest \<Rightarrow> 128 word \<Rightarrow> typed_digest \<Rightarrow> store \<Rightarrow> store \<times> (store_error + unit)" where
  "create_generation authority i action =
     in_txn (\<lambda>s.
       case require_active authority s of
         Inl e \<Rightarrow> Inl e
       | Inr _ \<Rightarrow>
           if i \<le> generation_high_water s then Inl GenerationIdNotAboveHighWater
           else
             case sql_insert i \<lparr>gen_action_key = digest_key action,
                 gen_authority_key = digest_key authority, tombstoned = False\<rparr> (generations s) of
               Inl e \<Rightarrow> Inl e
             | Inr g \<Rightarrow> Inr ((), s\<lparr>generations := g, high_water := Some i\<rparr>))"

definition tombstone_generation :: "128 word \<Rightarrow> store \<Rightarrow> store \<times> (store_error + unit)" where
  "tombstone_generation i =
     in_txn (\<lambda>s. if map_of (generations s) i = None then Inl UnknownGeneration
       else Inr ((), s\<lparr>generations := AList.map_entry i (tombstoned_update (\<lambda>_. True)) (generations s)\<rparr>))"

definition record_attempt ::
  "128 word \<Rightarrow> 128 word \<Rightarrow> string \<Rightarrow> nat \<Rightarrow> store \<Rightarrow> store \<times> (store_error + unit)" where
  "record_attempt i generation worker seq s =
     (case to_seq seq ''seq'' of
        Inl e \<Rightarrow> (s, Inl e)
      | Inr sq \<Rightarrow>
          in_txn (\<lambda>s.
            if map_of (attempts s) i \<noteq> None then Inl DuplicateAttempt
            else if map_of (generations s) generation = None then Inl UnknownGeneration
            else
              case sql_insert i \<lparr>att_generation = generation, att_worker = worker, att_seq = sq\<rparr> (attempts s) of
                Inl e \<Rightarrow> Inl e
              | Inr a \<Rightarrow> Inr ((), s\<lparr>attempts := a\<rparr>)) s)"

definition acquire_lease ::
  "128 word \<Rightarrow> 128 word \<Rightarrow> nat \<Rightarrow> nat \<Rightarrow> store \<Rightarrow> store \<times> (store_error + unit)" where
  "acquire_lease i attempt rseq expires s =
     (case to_seq rseq ''renewal_seq'' of
        Inl e \<Rightarrow> (s, Inl e)
      | Inr r \<Rightarrow>
          case to_seq expires ''expires_at_seq'' of
            Inl e \<Rightarrow> (s, Inl e)
          | Inr x \<Rightarrow>
              in_txn (\<lambda>s. case sql_insert i \<lparr>lease_attempt = attempt, lease_renewal_seq = r,
                  lease_expires_at = x, lease_released = False\<rparr> (leases s) of
                    Inl e \<Rightarrow> Inl e
                  | Inr l \<Rightarrow> Inr ((), s\<lparr>leases := l\<rparr>)) s)"

definition renew_lease :: "128 word \<Rightarrow> nat \<Rightarrow> nat \<Rightarrow> store \<Rightarrow> store \<times> (store_error + unit)" where
  "renew_lease i rseq expires s =
     (case to_seq expires ''expires_at_seq'' of
        Inl e \<Rightarrow> (s, Inl e)
      | Inr x \<Rightarrow>
          in_txn (\<lambda>s. case map_of (leases s) i of
              None \<Rightarrow> Inl UnknownLease
            | Some row \<Rightarrow>
                if lease_released row then Inl LeaseReleased
                else if rseq \<le> lease_renewal_seq row then Inl NonMonotonicRenewal
                else
                  case to_seq rseq ''renewal_seq'' of
                    Inl e \<Rightarrow> Inl e
                  | Inr r \<Rightarrow>
                      Inr ((), s\<lparr>leases := AList.map_entry i
                        (\<lambda>row. row\<lparr>lease_renewal_seq := r, lease_expires_at := x\<rparr>) (leases s)\<rparr>)) s)"

definition release_lease :: "128 word \<Rightarrow> store \<Rightarrow> store \<times> (store_error + unit)" where
  "release_lease i =
     in_txn (\<lambda>s. if map_of (leases s) i = None then Inl UnknownLease
       else Inr ((), s\<lparr>leases := AList.map_entry i (lease_released_update (\<lambda>_. True)) (leases s)\<rparr>))"

definition generation_state :: "128 word \<Rightarrow> store \<Rightarrow> bool option" where
  "generation_state i s = map_option tombstoned (map_of (generations s) i)"

definition attempt_exists :: "128 word \<Rightarrow> 128 word \<Rightarrow> store \<Rightarrow> bool" where
  "attempt_exists i generation s \<longleftrightarrow>
     (case map_of (attempts s) i of None \<Rightarrow> False | Some a \<Rightarrow> att_generation a = generation)"

definition lease_state :: "128 word \<Rightarrow> store \<Rightarrow> (bool \<times> nat) option" where
  "lease_state i s = map_option (\<lambda>l. (lease_released l, lease_renewal_seq l)) (map_of (leases s) i)"

section \<open>Publication\<close>

text \<open>The first part of \<open>commit_publication\<close>: a key that is already published.\<close>

definition conflict_quarantine :: "string \<Rightarrow> store \<Rightarrow> store" where
  "conflict_quarantine action s =
     s\<lparr>quarantines := AList.update (''action-entry'', action) ''publication descriptor conflict''
        (quarantines s)\<rparr>"

text \<open>The serving disposition: \<open>UPDATE\<close> keeps the version, a missing row is inserted.\<close>

definition make_servable :: "string \<Rightarrow> store \<Rightarrow> store" where
  "make_servable action s =
     s\<lparr>serving_states :=
        (if map_of (serving_states s) action \<noteq> None
         then AList.map_entry action (\<lambda>(_, v). (''servable'', v)) (serving_states s)
         else (action, ''servable'', 1) # serving_states s)\<rparr>"

definition insert_evidence ::
  "string \<Rightarrow> typed_digest \<Rightarrow> 128 word \<Rightarrow> 128 word \<Rightarrow> string \<Rightarrow> store \<Rightarrow> store" where
  "insert_evidence action evidence generation attempt manifest_key s =
     s\<lparr>evidence_index := sql_insert_ignore (action, domain evidence, bytes evidence)
        \<lparr>ev_generation = generation, ev_attempt = attempt, ev_manifest_key = manifest_key\<rparr>
        (evidence_index s)\<rparr>"

definition publication_pin :: "publication_row \<Rightarrow> pin_entry" where
  "publication_pin row =
     \<lparr>root_key = digest_key (manifest_digest row), owner = pin_owner row,
      pin_class = ''action-publication'', expires_at_seq = None, released = False,
      pin_evidence = Some (digest_key (pub_action row)), renewal_seq = 0, pin_durable = True,
      pin_reason = ''publication reachability root''\<rparr>"

definition insert_ancestors ::
  "string \<Rightarrow> provisional_ancestor_row list \<Rightarrow> store \<Rightarrow> store" where
  "insert_ancestors consumer ancestors s =
     s\<lparr>ancestry := fold (\<lambda>a. sql_insert_ignore
        (consumer, producer_action_key a, anc_role a, virtual_path a) (anc_object_key a, adopted a))
        ancestors (ancestry s)\<rparr>"

definition publication_entry_of :: "publication_row \<Rightarrow> publication_entry" where
  "publication_entry_of row =
     \<lparr>pe_descriptor = descriptor_digest row, pe_manifest = manifest_digest row,
      pe_generation = winner_generation row, pe_attempt = winner_attempt row,
      pe_kind = result_kind row, pe_pin = pin_id row\<rparr>"

definition commit_body ::
  "typed_digest \<Rightarrow> publication_row \<Rightarrow> store \<Rightarrow> store_error + commit_outcome \<times> store" where
  "commit_body authority row s =
     (case require_active authority s of
        Inl e \<Rightarrow> Inl e
      | Inr _ \<Rightarrow>
          let action = digest_key (pub_action row)
          in case map_of (publications s) action of
               Some existing \<Rightarrow>
                 if domain (pe_descriptor existing) = domain (descriptor_digest row)
                    \<and> bytes (pe_descriptor existing) = bytes (descriptor_digest row)
                 then Inr (IdempotentDuplicate, s)
                 else Inr (ConflictQuarantined, conflict_quarantine action s)
             | None \<Rightarrow>
                 case sql_insert action (publication_entry_of row) (publications s) of
                   Inl e \<Rightarrow> Inl e
                 | Inr pubs \<Rightarrow>
                     let s1 = make_servable action (s\<lparr>publications := pubs\<rparr>);
                         s2 = insert_evidence action (evidence_digest row) (winner_generation row)
                                (winner_attempt row) (digest_key (manifest_digest row)) s1
                     in case sql_insert (pin_id row) (publication_pin row) (pins s2) of
                          Inl e \<Rightarrow> Inl e
                        | Inr ps \<Rightarrow>
                            Inr (Committed,
                              insert_ancestors action (provisional_ancestors row) (s2\<lparr>pins := ps\<rparr>)))"

definition commit_publication ::
  "typed_digest \<Rightarrow> publication_row \<Rightarrow> store \<Rightarrow> store \<times> (store_error + commit_outcome)" where
  "commit_publication authority row s =
     in_txn (commit_body authority row)
       (fold intern [domain (pub_action row), domain (descriptor_digest row),
          domain (manifest_digest row), domain (evidence_digest row)] s)"

definition append_evidence ::
  "typed_digest \<Rightarrow> string \<Rightarrow> typed_digest \<Rightarrow> 128 word \<Rightarrow> 128 word \<Rightarrow> store
     \<Rightarrow> store \<times> (store_error + unit)" where
  "append_evidence action manifest_key evidence generation attempt s =
     in_txn (\<lambda>s. Inr ((), insert_evidence (digest_key action) evidence generation attempt manifest_key s))
       (intern (domain evidence) s)"

definition has_publication :: "typed_digest \<Rightarrow> store \<Rightarrow> bool" where
  "has_publication action s \<longleftrightarrow> map_of (publications s) (digest_key action) \<noteq> None"

definition list_publications :: "store \<Rightarrow> (string \<times> 128 word) list" where
  "list_publications s = sort_key fst (map (\<lambda>(a, p). (a, pe_pin p)) (publications s))"

section \<open>Objects\<close>

definition object_located :: "typed_digest \<Rightarrow> store \<Rightarrow> bool" where
  "object_located d s \<longleftrightarrow>
     list_ex (\<lambda>((k, _), l). k = digest_key d \<and> \<not> quarantined l) (locations s)"

definition object_durably_located :: "typed_digest \<Rightarrow> store \<Rightarrow> bool" where
  "object_durably_located d s \<longleftrightarrow>
     list_ex (\<lambda>((k, _), l). k = digest_key d \<and> \<not> quarantined l \<and> loc_durable l) (locations s)"

definition object_locations :: "typed_digest \<Rightarrow> store \<Rightarrow> (string \<times> string \<times> bool) list" where
  "object_locations d s =
     sort_key fst (map (\<lambda>((_, p), l). (p, encoding l, loc_durable l))
       (filter (\<lambda>((k, _), l). k = digest_key d \<and> \<not> quarantined l) (locations s)))"

definition record_object :: "typed_digest \<Rightarrow> nat \<Rightarrow> store \<Rightarrow> store \<times> (store_error + unit)" where
  "record_object d logical_size s =
     (let s1 = intern (domain d) s
      in case to_seq logical_size ''logical_size'' of
           Inl e \<Rightarrow> (s1, Inl e)
         | Inr sz \<Rightarrow>
             in_txn (\<lambda>s. Inr ((), s\<lparr>objects := AList.update (digest_key d) sz (objects s)\<rparr>)) s1)"

definition to_seq_option :: "nat option \<Rightarrow> string \<Rightarrow> store_error + nat option" where
  "to_seq_option v what =
     (case v of None \<Rightarrow> Inr None
      | Some n \<Rightarrow> (case to_seq n what of Inl e \<Rightarrow> Inl e | Inr m \<Rightarrow> Inr (Some m)))"

definition add_location ::
  "typed_digest \<Rightarrow> string \<Rightarrow> nat option \<Rightarrow> string \<Rightarrow> bool \<Rightarrow> store \<Rightarrow> store \<times> (store_error + unit)" where
  "add_location d path verified enc dur s =
     (case to_seq_option verified ''verified_seq'' of
        Inl e \<Rightarrow> (s, Inl e)
      | Inr v \<Rightarrow>
          in_txn (\<lambda>s. Inr ((), s\<lparr>locations := AList.update (digest_key d, path)
            \<lparr>verified_seq = v, encoding = enc, quarantined = False, loc_durable = dur\<rparr> (locations s)\<rparr>)) s)"

definition set_location_quarantined ::
  "typed_digest \<Rightarrow> string \<Rightarrow> bool \<Rightarrow> store \<Rightarrow> store \<times> (store_error + unit)" where
  "set_location_quarantined d path q =
     in_txn (\<lambda>s. if map_of (locations s) (digest_key d, path) = None
       then Inl (Corruption ''unknown location'')
       else Inr ((), s\<lparr>locations :=
         AList.map_entry (digest_key d, path) (quarantined_update (\<lambda>_. q)) (locations s)\<rparr>))"

definition add_object_edge ::
  "typed_digest \<Rightarrow> typed_digest \<Rightarrow> string \<Rightarrow> store \<Rightarrow> store \<times> (store_error + unit)" where
  "add_object_edge parent child kind =
     in_txn (\<lambda>s. Inr ((), s\<lparr>object_edges :=
       AList.update (digest_key parent, digest_key child, kind) () (object_edges s)\<rparr>))"

section \<open>Pins\<close>

definition create_pin ::
  "128 word \<Rightarrow> typed_digest \<Rightarrow> string \<Rightarrow> string \<Rightarrow> nat option \<Rightarrow> string option \<Rightarrow> bool \<Rightarrow> string
     \<Rightarrow> store \<Rightarrow> store \<times> (store_error + unit)" where
  "create_pin i root own class expires evidence dur reason s =
     (case to_seq_option expires ''expires_at_seq'' of
        Inl e \<Rightarrow> (s, Inl e)
      | Inr x \<Rightarrow>
          in_txn (\<lambda>s.
            case sql_insert i
                \<lparr>root_key = digest_key root, owner = own, pin_class = class, expires_at_seq = x,
                 released = False, pin_evidence = evidence, renewal_seq = 0, pin_durable = dur,
                 pin_reason = reason\<rparr> (pins s) of
              Inl e \<Rightarrow> Inl e
            | Inr ps \<Rightarrow> Inr ((), s\<lparr>pins := ps\<rparr>)) s)"

definition renew_pin :: "128 word \<Rightarrow> nat \<Rightarrow> store \<Rightarrow> store \<times> (store_error + unit)" where
  "renew_pin i rseq =
     in_txn (\<lambda>s. case map_of (pins s) i of
         None \<Rightarrow> Inl UnknownPin
       | Some row \<Rightarrow>
           if released row then Inl PinReleased
           else if rseq \<le> renewal_seq row then Inl NonMonotonicPinRenewal
           else
             case to_seq rseq ''renewal_seq'' of
               Inl e \<Rightarrow> Inl e
             | Inr r \<Rightarrow>
                 Inr ((), s\<lparr>pins := AList.map_entry i (renewal_seq_update (\<lambda>_. r)) (pins s)\<rparr>))"

definition release_pin :: "128 word \<Rightarrow> string \<Rightarrow> store \<Rightarrow> store \<times> (store_error + unit)" where
  "release_pin i own =
     in_txn (\<lambda>s. case map_of (pins s) i of
         None \<Rightarrow> Inl UnknownPin
       | Some row \<Rightarrow>
           if owner row \<noteq> own then Inl PinOwnerMismatch
           else Inr ((), s\<lparr>pins := AList.map_entry i (released_update (\<lambda>_. True)) (pins s)\<rparr>))"

definition pin_row :: "128 word \<Rightarrow> store \<Rightarrow> pin_entry option" where
  "pin_row i s = map_of (pins s) i"

section \<open>Garbage collection tables\<close>

record gc_snapshot_row =
  pinned_roots :: "string list"
  located_objects :: "string list"
  reachable_from_pins :: "string list"

text \<open>The reachability loop of \<open>gc_snapshot\<close>: a stack and a visited set over the edge list. The
  stack top is the end of the vector in the code and the head of the list here; \<open>frontier.extend\<close>
  pushes the children in edge order.\<close>

definition children_of :: "(string \<times> string) list \<Rightarrow> string \<Rightarrow> string list" where
  "children_of edges k = map snd (filter (\<lambda>(p, c). p = k) edges)"

function reach_loop :: "(string \<times> string) list \<Rightarrow> string list \<Rightarrow> string list \<Rightarrow> string list" where
  "reach_loop edges reachable [] = reachable"
| "reach_loop edges reachable (k # frontier) =
     (if k \<in> set reachable then reach_loop edges reachable frontier
      else reach_loop edges (k # reachable) (rev (children_of edges k) @ frontier))"
  by pat_completeness auto

lemma children_of_subset: "set (children_of edges k) \<subseteq> snd ` set edges"
  by (auto simp: children_of_def)

lemma reach_loop_decreases:
  assumes "k \<notin> set reachable"
  shows "card ((set (rev (children_of edges k) @ frontier) \<union> snd ` set edges) - set (k # reachable))
    < card ((set (k # frontier) \<union> snd ` set edges) - set reachable)"
proof (rule psubset_card_mono)
  show "(set (rev (children_of edges k) @ frontier) \<union> snd ` set edges) - set (k # reachable)
      \<subset> (set (k # frontier) \<union> snd ` set edges) - set reachable"
    using assms children_of_subset [of edges k] by auto
qed simp

termination reach_loop
proof (relation "measures [\<lambda>(edges, reachable, frontier).
      card ((set frontier \<union> snd ` set edges) - set reachable), \<lambda>(_, _, frontier). length frontier]",
    goal_cases)
  case (2 edges reachable k frontier)
  then have "set (k # frontier) \<union> snd ` set edges - set reachable = set frontier \<union> snd ` set edges - set reachable"
    by auto
  then show ?case by simp
next
  case (3 edges reachable k frontier)
  from reach_loop_decreases [OF 3] show ?case by simp
qed simp

definition gc_snapshot :: "nat \<Rightarrow> store \<Rightarrow> store \<times> (store_error + gc_snapshot_row)" where
  "gc_snapshot seq s =
     (case to_seq seq ''seq'' of
        Inl e \<Rightarrow> (s, Inl e)
      | Inr sq \<Rightarrow>
          in_txn (\<lambda>s.
            let pinned = sort (map (root_key \<circ> snd) (filter (\<lambda>(_, p). \<not> released p) (pins s)));
                located = remdups (sort (map (fst \<circ> fst) (locations s)));
                edges = sort (map (\<lambda>((p, c, _), _). (p, c)) (object_edges s));
                reachable = sort (reach_loop edges [] (rev pinned))
            in Inr (\<lparr>pinned_roots = pinned, located_objects = located, reachable_from_pins = reachable\<rparr>,
                    s\<lparr>gc_runs := gc_runs s @ [(sq, length pinned, length located, length reachable)]\<rparr>)) s)"

definition reconciliation_scan :: "store \<Rightarrow> ((string \<times> string) \<times> location_entry) list" where
  "reconciliation_scan s = sort_key fst (locations s)"

definition remove_location_by_key :: "string \<Rightarrow> string \<Rightarrow> store \<Rightarrow> store \<times> (store_error + bool)" where
  "remove_location_by_key k p =
     in_txn (\<lambda>s. Inr (map_of (locations s) (k, p) \<noteq> None, s\<lparr>locations := AList.delete (k, p) (locations s)\<rparr>))"

definition record_gc_receipt :: "gc_receipt_row \<Rightarrow> store \<Rightarrow> store \<times> (store_error + unit)" where
  "record_gc_receipt r s =
     (case to_seq (rec_seq r) ''seq'' of Inl e \<Rightarrow> (s, Inl e)
      | Inr _ \<Rightarrow>
          case to_seq (rec_planned r) ''planned'' of Inl e \<Rightarrow> (s, Inl e)
          | Inr _ \<Rightarrow>
              case to_seq (rec_reclaimed r) ''reclaimed'' of Inl e \<Rightarrow> (s, Inl e)
              | Inr _ \<Rightarrow>
                  case to_seq (rec_skipped r) ''skipped'' of Inl e \<Rightarrow> (s, Inl e)
                  | Inr _ \<Rightarrow> in_txn (\<lambda>s. Inr ((), s\<lparr>gc_receipts := gc_receipts s @ [r]\<rparr>)) s)"

definition add_gc_tombstone ::
  "string \<Rightarrow> string \<Rightarrow> nat \<Rightarrow> nat \<Rightarrow> store \<Rightarrow> store \<times> (store_error + unit)" where
  "add_gc_tombstone k p marked grace s =
     (case to_seq marked ''marked_seq'' of Inl e \<Rightarrow> (s, Inl e)
      | Inr mk \<Rightarrow>
          case to_seq grace ''grace_until_seq'' of Inl e \<Rightarrow> (s, Inl e)
          | Inr g \<Rightarrow>
              in_txn (\<lambda>s. if map_of (gc_tombstones s) (k, p) \<noteq> None then Inr ((), s)
                else Inr ((), s\<lparr>gc_tombstones :=
                  ((k, p), \<lparr>marked_seq = mk, grace_until_seq = g\<rparr>) # gc_tombstones s\<rparr>)) s)"

definition due_gc_tombstones :: "nat \<Rightarrow> store \<Rightarrow> ((string \<times> string) \<times> gc_tombstone) list" where
  "due_gc_tombstones now s =
     sort_key fst (filter (\<lambda>(_, t). grace_until_seq t \<le> min now (2 ^ 63 - 1)) (gc_tombstones s))"

definition remove_gc_tombstone :: "string \<Rightarrow> string \<Rightarrow> store \<Rightarrow> store \<times> (store_error + bool)" where
  "remove_gc_tombstone k p =
     in_txn (\<lambda>s. Inr (map_of (gc_tombstones s) (k, p) \<noteq> None,
       s\<lparr>gc_tombstones := AList.delete (k, p) (gc_tombstones s)\<rparr>))"

section \<open>Steps and the store invariant\<close>

text \<open>Every operation that writes, with any arguments. A refused call is a step that changes at most
  the interned domains. The two operations that take something away, releasing a pin and removing a
  location, stand apart.\<close>

inductive write_step :: "store \<Rightarrow> store \<Rightarrow> bool" where
  "write_step s (fst (acquire_authority row s))"
| "write_step s (fst (release_authority d s))"
| "write_step s (fst (create_generation au i action s))"
| "write_step s (fst (tombstone_generation i s))"
| "write_step s (fst (record_attempt i g w seq s))"
| "write_step s (fst (acquire_lease i a r x s))"
| "write_step s (fst (renew_lease i r x s))"
| "write_step s (fst (release_lease i s))"
| "write_step s (fst (commit_publication au pub s))"
| "write_step s (fst (append_evidence d mk ev g a s))"
| "write_step s (fst (record_object d sz s))"
| "write_step s (fst (add_location d p v enc dur s))"
| "write_step s (fst (set_location_quarantined d p q s))"
| "write_step s (fst (add_object_edge d c kind s))"
| "write_step s (fst (create_pin i d own class xs ev dur reason s))"
| "write_step s (fst (renew_pin i r s))"
| "write_step s (fst (gc_snapshot seq s))"
| "write_step s (fst (record_gc_receipt rc s))"
| "write_step s (fst (add_gc_tombstone k p m gr s))"
| "write_step s (fst (remove_gc_tombstone k p s))"

inductive store_step :: "store \<Rightarrow> store \<Rightarrow> bool" where
  store_write: "write_step s t \<Longrightarrow> store_step s t"
| store_release: "store_step s (fst (release_pin i own s))"
| store_remove: "store_step s (fst (remove_location_by_key k p s))"

definition active_rows :: "store \<Rightarrow> (string \<times> (authority_row \<times> bool)) list" where
  "active_rows s = filter (\<lambda>(k, row, rel). \<not> rel) (authorities s)"

definition inv_authority :: "store \<Rightarrow> bool" where
  "inv_authority s \<longleftrightarrow> distinct (map fst (authorities s)) \<and> length (active_rows s) \<le> 1"

definition inv_generation :: "store \<Rightarrow> bool" where
  "inv_generation s \<longleftrightarrow>
     distinct (map fst (generations s)) \<and> list_all (\<lambda>i. i \<le> generation_high_water s) (map fst (generations s))
     \<and> (\<forall>a \<in> snd ` set (attempts s). att_generation a \<in> fst ` set (generations s))"

text \<open>A publication has its pin: on the manifest, in the publication class, never expiring.\<close>

definition pinned_publication :: "store \<Rightarrow> publication_entry \<Rightarrow> bool" where
  "pinned_publication s p \<longleftrightarrow>
     (case map_of (pins s) (pe_pin p) of
        None \<Rightarrow> False
      | Some r \<Rightarrow>
          root_key r = digest_key (pe_manifest p) \<and> pin_class r = ''action-publication''
          \<and> expires_at_seq r = None)"

definition inv_publication :: "store \<Rightarrow> bool" where
  "inv_publication s \<longleftrightarrow>
     distinct (map fst (publications s)) \<and> distinct (map fst (pins s))
     \<and> (\<forall>p \<in> snd ` set (publications s). pinned_publication s p)"

definition inv_tables :: "store \<Rightarrow> bool" where
  "inv_tables s \<longleftrightarrow>
     distinct (map fst (leases s)) \<and> distinct (map fst (locations s)) \<and> distinct (map fst (gc_tombstones s))"

definition store_inv :: "store \<Rightarrow> bool" where
  "store_inv s \<longleftrightarrow> inv_authority s \<and> inv_generation s \<and> inv_publication s \<and> inv_tables s"

lemmas store_op_defs = acquire_authority_def release_authority_def create_generation_def
  tombstone_generation_def record_attempt_def acquire_lease_def renew_lease_def release_lease_def
  append_evidence_def record_object_def add_location_def set_location_quarantined_def
  add_object_edge_def create_pin_def renew_pin_def release_pin_def gc_snapshot_def
  remove_location_by_key_def record_gc_receipt_def add_gc_tombstone_def remove_gc_tombstone_def

lemmas store_splits = sum.splits option.splits prod.splits if_splits list.splits

text \<open>What each operation does to the table it writes; all other tables stay as they are.\<close>

lemma fst_in_txn: "fst (in_txn body s) = (case body s of Inr (v, s') \<Rightarrow> s' | Inl e \<Rightarrow> s)"
  by (simp add: in_txn_def split: sum.splits prod.splits)

lemma fst_if: "fst (if b then x else y) = (if b then fst x else fst y)" by simp

lemma fst_case_sum: "fst (case x of Inl e \<Rightarrow> f e | Inr v \<Rightarrow> g v) = (case x of Inl e \<Rightarrow> fst (f e) | Inr v \<Rightarrow> fst (g v))"
  by (simp split: sum.splits)

lemmas store_inv_defs = store_inv_def inv_authority_def active_rows_def inv_generation_def
  inv_publication_def inv_tables_def pinned_publication_def generation_high_water_def

lemma sql_insert_Inr:
  "sql_insert k v t = Inr t' \<longleftrightarrow> k \<notin> fst ` set t \<and> t' = (k, v) # t"
  by (auto simp: sql_insert_def map_of_eq_None_iff)

lemma keys_map_entry [simp]: "map fst (AList.map_entry k f t) = map fst t"
  by (induction t) auto

lemma keys_set_map_entry [simp]: "fst ` set (AList.map_entry k f t) = fst ` set t"
  by (metis keys_map_entry set_map)

text \<open>Operations on tables the invariant does not mention, or whose key set only shrinks or stays.\<close>

lemma store_inv_quiet:
  assumes "store_inv s"
  shows "store_inv (fst (append_evidence d mk ev g a s))" "store_inv (fst (record_object d sz s))"
    "store_inv (fst (add_object_edge d c kind s))" "store_inv (fst (gc_snapshot seq s))"
    "store_inv (fst (record_gc_receipt rc s))"
  using assms
  by (simp_all add: store_op_defs fst_in_txn insert_evidence_def intern_def Let_def store_inv_defs
      split: sum.splits)

lemma store_inv_tables:
  assumes "store_inv s"
  shows "store_inv (fst (acquire_lease i a r x s))" "store_inv (fst (renew_lease i r x s))"
    "store_inv (fst (release_lease i s))" "store_inv (fst (add_location d p v enc dur s))"
    "store_inv (fst (set_location_quarantined d p q s))" "store_inv (fst (remove_location_by_key k p s))"
    "store_inv (fst (add_gc_tombstone k p m gr s))" "store_inv (fst (remove_gc_tombstone k p s))"
  using assms
  by (simp_all add: store_op_defs fst_in_txn store_inv_defs sql_insert_Inr map_of_eq_None_iff
      distinct_update distinct_delete split: sum.splits option.splits)

lemma store_inv_generation_ops:
  assumes "store_inv s"
  shows "store_inv (fst (tombstone_generation i s))" "store_inv (fst (record_attempt i g w seq s))"
  using assms
  by (simp_all add: store_op_defs fst_in_txn store_inv_defs sql_insert_Inr map_of_eq_None_iff
      split: sum.splits option.splits)

lemma store_inv_create_generation:
  assumes "store_inv s"
  shows "store_inv (fst (create_generation au i action s))"
proof -
  have "fst (create_generation au i action s) = s \<or>
    (i > generation_high_water s \<and> i \<notin> fst ` set (generations s)
     \<and> (\<exists>row. fst (create_generation au i action s) =
          s\<lparr>generations := (i, row) # generations s, high_water := Some i\<rparr>))"
    by (auto simp: create_generation_def fst_in_txn sql_insert_Inr not_le split: sum.splits)
  then show ?thesis
    using assms by (fastforce simp: store_inv_defs list_all_iff)
qed

lemma distinct_active_update:
  assumes "filter (\<lambda>(k, row, rel). \<not> rel) t = []"
  shows "length (filter (\<lambda>(k, row, rel). \<not> rel) (AList.update key (row, False) t)) \<le> 1"
  using assms by (induction t) (auto split: if_splits)

lemma active_map_entry:
  "length (filter (\<lambda>(k, row, rel). \<not> rel) (AList.map_entry key (\<lambda>(row, _). (row, True)) t))
   \<le> length (filter (\<lambda>(k, row, rel). \<not> rel) t)"
  by (induction t) auto

lemma store_inv_authority_ops:
  assumes "store_inv s"
  shows "store_inv (fst (acquire_authority row s))" "store_inv (fst (release_authority d s))"
proof -
  have i: "store_inv (intern dm s)" for dm using assms by (simp add: intern_def store_inv_defs)
  show "store_inv (fst (release_authority d s))"
    using assms active_map_entry [of "digest_key d" "authorities s"]
    by (simp add: release_authority_def fst_in_txn store_inv_defs)
  let ?s = "intern (domain (au_digest row)) s"
  have "fst (acquire_authority row s) = ?s \<or>
    (active_authority_key ?s = Inr None \<and> fst (acquire_authority row s) =
       ?s\<lparr>authorities := AList.update (digest_key (au_digest row)) (row, False) (authorities ?s)\<rparr>)"
    by (auto simp: acquire_authority_def fst_in_txn Let_def split: sum.splits option.splits)
  moreover have "active_rows ?s = []" if "active_authority_key ?s = Inr None"
    using that by (auto simp: active_authority_key_def active_rows_def split: list.splits prod.splits)
  ultimately show "store_inv (fst (acquire_authority row s))"
    using i [of "domain (au_digest row)"] distinct_active_update [of "authorities ?s" "digest_key (au_digest row)" row]
    by (elim disjE conjE) (simp_all add: store_inv_defs distinct_update)
qed

text \<open>A pin keeps its root, class and expiry for ever; it may be renewed and released.\<close>

definition pins_kept :: "store \<Rightarrow> store \<Rightarrow> bool" where
  "pins_kept s t \<longleftrightarrow>
     (\<forall>i r. map_of (pins s) i = Some r \<longrightarrow>
        (\<exists>r'. map_of (pins t) i = Some r' \<and> root_key r' = root_key r \<and> pin_class r' = pin_class r
           \<and> expires_at_seq r' = expires_at_seq r \<and> owner r' = owner r \<and> (released r \<longrightarrow> released r')
           \<and> renewal_seq r \<le> renewal_seq r'))"

lemma map_of_map_entry: "map_of (AList.map_entry k f t) i = (if i = k then map_option f (map_of t k) else map_of t i)"
  by (induction t) auto

lemma pins_kept_refl [simp]: "pins t = pins s \<Longrightarrow> pins_kept s t"
  by (simp add: pins_kept_def)

lemma pins_kept_ops:
  "pins_kept s (fst (create_pin i d own class xs ev dur reason s))"
  "pins_kept s (fst (renew_pin i r s))" "pins_kept s (fst (release_pin i own s))"
proof -
  show "pins_kept s (fst (create_pin i d own class xs ev dur reason s))"
    by (auto simp: create_pin_def fst_in_txn pins_kept_def sql_insert_def split: sum.splits if_splits)
  show "pins_kept s (fst (renew_pin i r s))"
    by (auto simp: renew_pin_def fst_in_txn pins_kept_def map_of_map_entry to_seq_def split: option.splits)
  show "pins_kept s (fst (release_pin i own s))"
    by (auto simp: release_pin_def fst_in_txn pins_kept_def map_of_map_entry split: option.splits)
qed

lemma pinned_publication_kept: "pins_kept s t \<Longrightarrow> pinned_publication s p \<Longrightarrow> pinned_publication t p"
  by (fastforce simp: pins_kept_def pinned_publication_def split: option.splits)

lemma store_inv_pin_ops:
  assumes "store_inv s"
  shows "store_inv (fst (create_pin i d own class xs ev dur reason s))" "store_inv (fst (renew_pin i r s))"
    "store_inv (fst (release_pin i own s))"
proof -
  have frame: "store_inv t" if "pins_kept s t" "distinct (map fst (pins t))" "authorities t = authorities s"
      "generations t = generations s" "high_water t = high_water s" "attempts t = attempts s"
      "publications t = publications s" "leases t = leases s" "locations t = locations s"
      "gc_tombstones t = gc_tombstones s" for t
    using assms that pinned_publication_kept [OF that(1)]
    by (simp add: store_inv_def inv_authority_def active_rows_def inv_generation_def
        generation_high_water_def inv_publication_def inv_tables_def)
  have d: "distinct (map fst (pins s))" using assms by (simp add: store_inv_defs)
  show "store_inv (fst (create_pin i d own class xs ev dur reason s))"
    by (rule frame [OF pins_kept_ops(1)])
      (use d in \<open>simp_all add: create_pin_def fst_in_txn sql_insert_Inr split: sum.splits\<close>)
  show "store_inv (fst (renew_pin i r s))"
    by (rule frame [OF pins_kept_ops(2)])
      (use d in \<open>simp_all add: renew_pin_def fst_in_txn split: sum.splits option.splits\<close>)
  show "store_inv (fst (release_pin i own s))"
    by (rule frame [OF pins_kept_ops(3)])
      (use d in \<open>simp_all add: release_pin_def fst_in_txn split: option.splits\<close>)
qed

lemma intern_fields [simp]:
  "authorities (intern d s) = authorities s" "generations (intern d s) = generations s"
  "publications (intern d s) = publications s" "pins (intern d s) = pins s"
  "high_water (intern d s) = high_water s" "attempts (intern d s) = attempts s"
  "leases (intern d s) = leases s" "locations (intern d s) = locations s"
  "object_edges (intern d s) = object_edges s" "gc_tombstones (intern d s) = gc_tombstones s"
  by (simp_all add: intern_def)

lemma require_active_intern [simp]: "require_active au (intern d s) = require_active au s"
  by (simp add: require_active_def active_authority_key_def)

lemma store_inv_intern: "store_inv s \<Longrightarrow> store_inv (intern d s)"
  by (simp add: store_inv_defs)

lemma commit_side_tables [simp]:
  "publications (insert_ancestors c as s) = publications s" "pins (insert_ancestors c as s) = pins s"
  "publications (make_servable a s) = publications s" "pins (make_servable a s) = pins s"
  "publications (insert_evidence a e g t m s) = publications s" "pins (insert_evidence a e g t m s) = pins s"
  "publications (conflict_quarantine a s) = publications s" "pins (conflict_quarantine a s) = pins s"
  by (simp_all add: insert_ancestors_def make_servable_def insert_evidence_def conflict_quarantine_def)

text \<open>The tables a commit never touches.\<close>

definition core_same :: "store \<Rightarrow> store \<Rightarrow> bool" where
  "core_same s t \<longleftrightarrow>
     authorities t = authorities s \<and> generations t = generations s \<and> high_water t = high_water s
     \<and> attempts t = attempts s \<and> leases t = leases s \<and> locations t = locations s
     \<and> object_edges t = object_edges s \<and> gc_tombstones t = gc_tombstones s"

lemma require_active_Inr:
  "require_active au s = Inr () \<longleftrightarrow> active_authority_key s = Inr (Some (digest_key au))"
  by (auto simp: require_active_def split: sum.splits option.splits)

definition same_descriptor :: "publication_entry \<Rightarrow> publication_row \<Rightarrow> bool" where
  "same_descriptor e row \<longleftrightarrow>
     domain (pe_descriptor e) = domain (descriptor_digest row)
     \<and> bytes (pe_descriptor e) = bytes (descriptor_digest row)"

lemma commit_body_published:
  assumes "require_active au s = Inr ()" "map_of (publications s) (digest_key (pub_action row)) = Some e"
  shows "commit_body au row s =
    (if same_descriptor e row then Inr (IdempotentDuplicate, s)
     else Inr (ConflictQuarantined, conflict_quarantine (digest_key (pub_action row)) s))"
  using assms by (simp add: commit_body_def same_descriptor_def Let_def)

lemma commit_body_fresh:
  assumes "require_active au s = Inr ()" "map_of (publications s) (digest_key (pub_action row)) = None"
  shows "if map_of (pins s) (pin_id row) = None
    then \<exists>t. commit_body au row s = Inr (Committed, t) \<and> core_same s t
           \<and> publications t = (digest_key (pub_action row), publication_entry_of row) # publications s
           \<and> pins t = (pin_id row, publication_pin row) # pins s
    else commit_body au row s = Inl Backend"
  using assms
  by (auto simp: commit_body_def Let_def sql_insert_def core_same_def insert_ancestors_def make_servable_def
      insert_evidence_def)

lemma commit_body_refused:
  "require_active au s = Inl e \<Longrightarrow> commit_body au row s = Inl e"
  by (simp add: commit_body_def)

lemma commit_body_cases:
  assumes "commit_body au row s = Inr (out, t)"
  shows "core_same s t \<and>
    (if out = Committed
     then map_of (publications s) (digest_key (pub_action row)) = None \<and> map_of (pins s) (pin_id row) = None
       \<and> publications t = (digest_key (pub_action row), publication_entry_of row) # publications s
       \<and> pins t = (pin_id row, publication_pin row) # pins s
     else publications t = publications s \<and> pins t = pins s)"
proof (cases "require_active au s")
  case (Inl e)
  with assms show ?thesis by (simp add: commit_body_refused)
next
  case (Inr u)
  then have act: "require_active au s = Inr ()" by simp
  show ?thesis
  proof (cases "map_of (publications s) (digest_key (pub_action row))")
    case None
    with commit_body_fresh [OF act None] assms show ?thesis by (auto split: if_splits)
  next
    case (Some e)
    with commit_body_published [OF act Some] assms show ?thesis
      by (auto simp: core_same_def conflict_quarantine_def split: if_splits)
  qed
qed

text \<open>The state in which the body of \<open>commit_publication\<close> runs.\<close>

abbreviation commit_interned :: "publication_row \<Rightarrow> store \<Rightarrow> store" where
  "commit_interned row s \<equiv>
     fold intern [domain (pub_action row), domain (descriptor_digest row),
       domain (manifest_digest row), domain (evidence_digest row)] s"

lemma commit_step_cases:
  "core_same s (fst (commit_publication au row s)) \<and>
     (publications (fst (commit_publication au row s)) = publications s
        \<and> pins (fst (commit_publication au row s)) = pins s
      \<or> map_of (publications s) (digest_key (pub_action row)) = None \<and> map_of (pins s) (pin_id row) = None
        \<and> publications (fst (commit_publication au row s)) =
            (digest_key (pub_action row), publication_entry_of row) # publications s
        \<and> pins (fst (commit_publication au row s)) = (pin_id row, publication_pin row) # pins s)"
proof (cases "commit_body au row (commit_interned row s)")
  case (Inl e)
  then show ?thesis by (simp add: commit_publication_def fst_in_txn core_same_def)
next
  case (Inr r)
  obtain out t where r: "r = (out, t)" by (cases r)
  with Inr have "commit_body au row (commit_interned row s) = Inr (out, t)" by simp
  from commit_body_cases [OF this] show ?thesis
    using Inr r by (auto simp: commit_publication_def fst_in_txn core_same_def split: if_splits)
qed

lemma pinned_publication_of:
  "map_of (pins s) (pin_id row) = Some (publication_pin row) \<Longrightarrow> pinned_publication s (publication_entry_of row)"
  by (simp add: pinned_publication_def publication_entry_of_def publication_pin_def)

lemma store_inv_commit:
  assumes "store_inv s"
  shows "store_inv (fst (commit_publication au row s))"
proof -
  let ?t = "fst (commit_publication au row s)"
  note c = commit_step_cases [of s au row]
  have base: "inv_authority ?t" "inv_generation ?t" "inv_tables ?t"
    using assms c
    by (simp_all add: core_same_def store_inv_def inv_authority_def active_rows_def inv_generation_def
        generation_high_water_def inv_tables_def)
  have "inv_publication ?t"
  proof (cases "publications ?t = publications s \<and> pins ?t = pins s")
    case True
    with assms show ?thesis by (simp add: store_inv_def inv_publication_def pinned_publication_def)
  next
    case False
    with c have new: "map_of (publications s) (digest_key (pub_action row)) = None"
        "map_of (pins s) (pin_id row) = None"
        "publications ?t = (digest_key (pub_action row), publication_entry_of row) # publications s"
        "pins ?t = (pin_id row, publication_pin row) # pins s" by auto
    then have kept: "pins_kept s ?t" by (auto simp: pins_kept_def)
    have "pinned_publication ?t (publication_entry_of row)"
      by (rule pinned_publication_of) (simp add: new(4))
    then show ?thesis
      using assms new pinned_publication_kept [OF kept]
      by (auto simp: store_inv_def inv_publication_def map_of_eq_None_iff)
  qed
  with base show ?thesis by (simp add: store_inv_def)
qed

lemmas store_inv_ops = store_inv_quiet store_inv_tables store_inv_generation_ops store_inv_create_generation
  store_inv_authority_ops store_inv_pin_ops store_inv_commit

lemma write_step_inv: "store_inv s \<Longrightarrow> write_step s t \<Longrightarrow> store_inv t"
  by (erule write_step.cases) (simp_all only: store_inv_ops)

lemma store_step_inv: "store_inv s \<Longrightarrow> store_step s t \<Longrightarrow> store_inv t"
  by (erule store_step.cases) (simp_all only: store_inv_ops write_step_inv)

lemma store_inv_new: "s = store_new \<Longrightarrow> store_inv s"
  by (simp add: store_new_def store_inv_defs)

interpretation metadata: transition_system "\<lambda>s. s = store_new" store_step store_inv
  by unfold_locales (simp_all only: store_inv_new store_step_inv)

section \<open>What never changes\<close>

text \<open>\<open>grows t t'\<close>: rows are only added, under new keys.\<close>

definition grows :: "('k \<times> 'v) list \<Rightarrow> ('k \<times> 'v) list \<Rightarrow> bool" where
  "grows t t' \<longleftrightarrow> (\<forall>k v. map_of t k = Some v \<longrightarrow> map_of t' k = Some v)"

lemma grows_refl [simp]: "grows t t" by (simp add: grows_def)

lemma grows_Cons: "map_of t k = None \<Longrightarrow> grows t ((k, v) # t)" by (auto simp: grows_def)

lemma grows_trans: "grows a b \<Longrightarrow> grows b c \<Longrightarrow> grows a c" by (simp add: grows_def)

lemma pins_kept_trans:
  assumes "pins_kept a b" "pins_kept b c"
  shows "pins_kept a c"
  unfolding pins_kept_def
proof (intro allI impI)
  fix i r
  assume "map_of (pins a) i = Some r"
  then obtain r1 where r1: "map_of (pins b) i = Some r1" "root_key r1 = root_key r" "pin_class r1 = pin_class r"
      "expires_at_seq r1 = expires_at_seq r" "owner r1 = owner r" "released r \<longrightarrow> released r1"
      "renewal_seq r \<le> renewal_seq r1"
    using assms(1) unfolding pins_kept_def by blast
  then obtain r2 where "map_of (pins c) i = Some r2" "root_key r2 = root_key r1" "pin_class r2 = pin_class r1"
      "expires_at_seq r2 = expires_at_seq r1" "owner r2 = owner r1" "released r1 \<longrightarrow> released r2"
      "renewal_seq r1 \<le> renewal_seq r2"
    using assms(2) unfolding pins_kept_def by blast
  with r1 show "\<exists>r'. map_of (pins c) i = Some r' \<and> root_key r' = root_key r \<and> pin_class r' = pin_class r
      \<and> expires_at_seq r' = expires_at_seq r \<and> owner r' = owner r \<and> (released r \<longrightarrow> released r')
      \<and> renewal_seq r \<le> renewal_seq r'"
    by (intro exI [of _ r2]) simp
qed

lemma op_publications [simp]:
  "publications (fst (acquire_authority row s)) = publications s"
  "publications (fst (release_authority d s)) = publications s"
  "publications (fst (create_generation au i action s)) = publications s"
  "publications (fst (tombstone_generation i s)) = publications s"
  "publications (fst (create_pin j d own class xs evd dur reason s)) = publications s"
  "publications (fst (renew_pin i r s)) = publications s"
  "publications (fst (release_pin i own s)) = publications s"
  "publications (fst (record_attempt i g w seq s)) = publications s"
  "publications (fst (acquire_lease i a r x s)) = publications s"
  "publications (fst (renew_lease i r x s)) = publications s"
  "publications (fst (release_lease i s)) = publications s"
  "publications (fst (append_evidence d mk ev g a s)) = publications s"
  "publications (fst (record_object d sz s)) = publications s"
  "publications (fst (add_location d p v enc dur s)) = publications s"
  "publications (fst (set_location_quarantined d p q s)) = publications s"
  "publications (fst (add_object_edge d c kind s)) = publications s"
  "publications (fst (gc_snapshot seq s)) = publications s"
  "publications (fst (remove_location_by_key k p s)) = publications s"
  "publications (fst (record_gc_receipt rc s)) = publications s"
  "publications (fst (add_gc_tombstone k p m gr s)) = publications s"
  "publications (fst (remove_gc_tombstone k p s)) = publications s"
  by (simp_all add: store_op_defs fst_in_txn insert_evidence_def Let_def split: sum.splits option.splits)

lemma op_pins [simp]:
  "pins (fst (acquire_authority row s)) = pins s"
  "pins (fst (release_authority d s)) = pins s"
  "pins (fst (create_generation au i action s)) = pins s"
  "pins (fst (tombstone_generation i s)) = pins s"
  "pins (fst (record_attempt i g w seq s)) = pins s"
  "pins (fst (acquire_lease i a r x s)) = pins s"
  "pins (fst (renew_lease i r x s)) = pins s"
  "pins (fst (release_lease i s)) = pins s"
  "pins (fst (append_evidence d mk ev g a s)) = pins s"
  "pins (fst (record_object d sz s)) = pins s"
  "pins (fst (add_location d p v enc dur s)) = pins s"
  "pins (fst (set_location_quarantined d p q s)) = pins s"
  "pins (fst (add_object_edge d c kind s)) = pins s"
  "pins (fst (gc_snapshot seq s)) = pins s"
  "pins (fst (remove_location_by_key k p s)) = pins s"
  "pins (fst (record_gc_receipt rc s)) = pins s"
  "pins (fst (add_gc_tombstone k p m gr s)) = pins s"
  "pins (fst (remove_gc_tombstone k p s)) = pins s"
  by (simp_all add: store_op_defs fst_in_txn insert_evidence_def Let_def split: sum.splits option.splits)

lemma op_generations [simp]:
  "generations (fst (acquire_authority row s)) = generations s"
  "generations (fst (release_authority d s)) = generations s"
  "generations (fst (create_pin j d own class xs evd dur reason s)) = generations s"
  "generations (fst (renew_pin i r s)) = generations s"
  "generations (fst (release_pin i own s)) = generations s"
  "generations (fst (record_attempt i g w seq s)) = generations s"
  "generations (fst (acquire_lease i a r x s)) = generations s"
  "generations (fst (renew_lease i r x s)) = generations s"
  "generations (fst (release_lease i s)) = generations s"
  "generations (fst (append_evidence d mk ev g a s)) = generations s"
  "generations (fst (record_object d sz s)) = generations s"
  "generations (fst (add_location d p v enc dur s)) = generations s"
  "generations (fst (set_location_quarantined d p q s)) = generations s"
  "generations (fst (add_object_edge d c kind s)) = generations s"
  "generations (fst (gc_snapshot seq s)) = generations s"
  "generations (fst (remove_location_by_key k p s)) = generations s"
  "generations (fst (record_gc_receipt rc s)) = generations s"
  "generations (fst (add_gc_tombstone k p m gr s)) = generations s"
  "generations (fst (remove_gc_tombstone k p s)) = generations s"
  by (simp_all add: store_op_defs fst_in_txn insert_evidence_def Let_def split: sum.splits option.splits)

lemma op_object_edges [simp]:
  "object_edges (fst (acquire_authority row s)) = object_edges s"
  "object_edges (fst (release_authority d s)) = object_edges s"
  "object_edges (fst (create_generation au i action s)) = object_edges s"
  "object_edges (fst (tombstone_generation i s)) = object_edges s"
  "object_edges (fst (create_pin j d own class xs evd dur reason s)) = object_edges s"
  "object_edges (fst (renew_pin i r s)) = object_edges s"
  "object_edges (fst (release_pin i own s)) = object_edges s"
  "object_edges (fst (record_attempt i g w seq s)) = object_edges s"
  "object_edges (fst (acquire_lease i a r x s)) = object_edges s"
  "object_edges (fst (renew_lease i r x s)) = object_edges s"
  "object_edges (fst (release_lease i s)) = object_edges s"
  "object_edges (fst (append_evidence d mk ev g a s)) = object_edges s"
  "object_edges (fst (record_object d sz s)) = object_edges s"
  "object_edges (fst (gc_snapshot seq s)) = object_edges s"
  "object_edges (fst (record_gc_receipt rc s)) = object_edges s"
  "object_edges (fst (add_gc_tombstone k p m gr s)) = object_edges s"
  "object_edges (fst (remove_gc_tombstone k p s)) = object_edges s"
  "object_edges (fst (add_location d p v enc dur s)) = object_edges s"
  "object_edges (fst (set_location_quarantined d p q s)) = object_edges s"
  "object_edges (fst (remove_location_by_key k p s)) = object_edges s"
  by (simp_all add: store_op_defs fst_in_txn insert_evidence_def Let_def split: sum.splits option.splits)

lemma op_locations [simp]:
  "locations (fst (acquire_authority row s)) = locations s"
  "locations (fst (release_authority d s)) = locations s"
  "locations (fst (create_generation au i action s)) = locations s"
  "locations (fst (tombstone_generation i s)) = locations s"
  "locations (fst (create_pin j d own class xs evd dur reason s)) = locations s"
  "locations (fst (renew_pin i r s)) = locations s"
  "locations (fst (release_pin i own s)) = locations s"
  "locations (fst (record_attempt i g w seq s)) = locations s"
  "locations (fst (acquire_lease i a r x s)) = locations s"
  "locations (fst (renew_lease i r x s)) = locations s"
  "locations (fst (release_lease i s)) = locations s"
  "locations (fst (append_evidence d mk ev g a s)) = locations s"
  "locations (fst (record_object d sz s)) = locations s"
  "locations (fst (gc_snapshot seq s)) = locations s"
  "locations (fst (record_gc_receipt rc s)) = locations s"
  "locations (fst (add_gc_tombstone k p m gr s)) = locations s"
  "locations (fst (remove_gc_tombstone k p s)) = locations s"
  "locations (fst (add_object_edge d c kind s)) = locations s"
  by (simp_all add: store_op_defs fst_in_txn insert_evidence_def Let_def split: sum.splits option.splits)

lemma op_generation_keys:
  "fst ` set (generations s) \<subseteq> fst ` set (generations (fst (create_generation au i action s)))"
  "fst ` set (generations s) \<subseteq> fst ` set (generations (fst (tombstone_generation i s)))"
  by (auto simp: store_op_defs fst_in_txn sql_insert_Inr split: sum.splits)

lemma commit_grows:
  "grows (publications s) (publications (fst (commit_publication au row s)))"
  "pins_kept s (fst (commit_publication au row s))"
  "generations (fst (commit_publication au row s)) = generations s"
  using commit_step_cases [of s au row] by (auto simp: pins_kept_def core_same_def intro: grows_Cons)

lemma write_step_grows:
  "write_step s t \<Longrightarrow> grows (publications s) (publications t) \<and> pins_kept s t
     \<and> fst ` set (generations s) \<subseteq> fst ` set (generations t)"
proof (erule write_step.cases, goal_cases)
  case (9 s' au pub)
  then show ?case by (simp add: commit_grows)
qed (simp_all add: pins_kept_ops op_generation_keys)

lemma store_step_grows:
  "store_step s t \<Longrightarrow> grows (publications s) (publications t) \<and> pins_kept s t
     \<and> fst ` set (generations s) \<subseteq> fst ` set (generations t)"
  by (erule store_step.cases) (simp_all add: write_step_grows pins_kept_ops)

lemma store_run_grows:
  assumes "store_step\<^sup>*\<^sup>* s t"
  shows "grows (publications s) (publications t) \<and> pins_kept s t
    \<and> fst ` set (generations s) \<subseteq> fst ` set (generations t)"
  using assms
proof (induction rule: rtranclp_induct)
  case (step t u)
  note g = store_step_grows [OF step.hyps(2)]
  have "grows (publications s) (publications u)" using step.IH g by (blast intro: grows_trans)
  moreover have "pins_kept s u" using step.IH g by (blast intro: pins_kept_trans)
  moreover have "fst ` set (generations s) \<subseteq> fst ` set (generations u)" using step.IH g by (elim conjE) (rule subset_trans)
  ultimately show ?case by simp
qed simp

lemma reach_run: "reach_from start move s \<Longrightarrow> move\<^sup>*\<^sup>* s t \<Longrightarrow> reach_from start move t"
  by (rotate_tac, induction rule: rtranclp_induct) (auto intro: reach_move)

text \<open>C12: A published result is immutable. Once an action has a publication, no sequence of store
  operations, by whatever coordinator, changes or removes it, and its manifest stays pinned by the
  row the publication names: a pin of the publication class on the manifest that never expires.\<close>

theorem published_result_immutable:
  assumes "reach_from (\<lambda>s. s = store_new) store_step s" "store_step\<^sup>*\<^sup>* s t"
    and "map_of (publications s) a = Some p"
  shows "map_of (publications t) a = Some p
    \<and> (\<exists>r. map_of (pins t) (pe_pin p) = Some r \<and> root_key r = digest_key (pe_manifest p)
         \<and> pin_class r = ''action-publication'' \<and> expires_at_seq r = None)"
proof -
  have p: "map_of (publications t) a = Some p"
    using store_run_grows [OF assms(2)] assms(3) by (simp add: grows_def)
  have "store_inv t" by (rule metadata.reachable_good [OF reach_run [OF assms(1,2)]])
  moreover have "p \<in> snd ` set (publications t)" using map_of_SomeD [OF p] by (simp add: rev_image_eqI)
  ultimately have "pinned_publication t p" by (auto simp: store_inv_def inv_publication_def)
  with p show ?thesis by (auto simp: pinned_publication_def split: option.splits)
qed

definition sample_digest :: "8 word \<Rightarrow> typed_digest" where
  "sample_digest b = \<lparr>domain = ''d'', bytes = [b]\<rparr>"

definition sample_authority :: authority_row where
  "sample_authority =
     \<lparr>au_digest = sample_digest 1, cluster_id = ''c'', au_incarnation = 1, au_term = 1, acquired_seq = 1\<rparr>"

definition sample_publication :: publication_row where
  "sample_publication =
     \<lparr>pub_action = sample_digest 2, descriptor_digest = sample_digest 3, manifest_digest = sample_digest 4,
      evidence_digest = sample_digest 5, winner_generation = 7, winner_attempt = 8, result_kind = Success,
      pin_id = 9, pin_owner = ''coord'', provisional_ancestors = []\<rparr>"

definition sample_store :: store where
  "sample_store =
     fst (commit_publication (sample_digest 1) sample_publication (fst (acquire_authority sample_authority store_new)))"

lemma sample_store_reachable: "reach_from (\<lambda>s. s = store_new) store_step sample_store"
proof -
  have "reach_from (\<lambda>s. s = store_new) store_step store_new" by (rule reach_start) simp
  then have "reach_from (\<lambda>s. s = store_new) store_step (fst (acquire_authority sample_authority store_new))"
    by (rule reach_move) (rule store_write, rule write_step.intros)
  then show ?thesis unfolding sample_store_def by (rule reach_move) (rule store_write, rule write_step.intros)
qed

lemma sample_key [simp]: "digest_key (sample_digest b) = ''d:'' @ hex_byte b" "domain (sample_digest b) = ''d''"
  by (simp_all add: digest_key_def sample_digest_def hex_bytes_def)

lemma sample_authority_acquired:
  "active_authority_key (fst (acquire_authority sample_authority store_new)) = Inr (Some (digest_key (sample_digest 1)))"
  "high_water (fst (acquire_authority sample_authority store_new)) = None"
  by (simp_all add: acquire_authority_def sample_authority_def store_new_def intern_def to_seq_def in_txn_def
      active_authority_key_def)

lemma sample_tables [simp]:
  "publications store_new = []" "pins store_new = []" "generations store_new = []"
  "pub_action sample_publication = sample_digest 2"
  by (simp_all add: store_new_def sample_publication_def)

lemma sample_store_fields:
  "publications sample_store = [(digest_key (sample_digest 2), publication_entry_of sample_publication)]"
  "generations sample_store = []" "high_water sample_store = None"
  "active_authority_key sample_store = Inr (Some (digest_key (sample_digest 1)))"
  "pins sample_store = [(9, publication_pin sample_publication)]"
  "locations sample_store = []" "object_edges sample_store = []"
proof -
  let ?s = "fst (acquire_authority sample_authority store_new)"
  have "require_active (sample_digest 1) (commit_interned sample_publication ?s) = Inr ()"
    using sample_authority_acquired(1) by (simp add: require_active_Inr)
  from commit_body_fresh [OF this, of sample_publication] obtain t where
    t: "commit_body (sample_digest 1) sample_publication (commit_interned sample_publication ?s) = Inr (Committed, t)"
      "core_same (commit_interned sample_publication ?s) t"
      "publications t = (digest_key (sample_digest 2), publication_entry_of sample_publication) # publications ?s"
      "pins t = (pin_id sample_publication, publication_pin sample_publication) # pins ?s"
    by (auto simp del: sample_key)
  then have "sample_store = t" by (simp add: sample_store_def commit_publication_def in_txn_def)
  with t(2,3,4) show
    "publications sample_store = [(digest_key (sample_digest 2), publication_entry_of sample_publication)]"
    "generations sample_store = []" "high_water sample_store = None"
    "active_authority_key sample_store = Inr (Some (digest_key (sample_digest 1)))"
    "pins sample_store = [(9, publication_pin sample_publication)]"
    "locations sample_store = []" "object_edges sample_store = []"
    using sample_authority_acquired
    by (simp_all add: core_same_def active_authority_key_def del: sample_key) (simp_all add: sample_publication_def store_new_def)
qed

lemma sample_store_published:
  "map_of (publications sample_store) (digest_key (sample_digest 2)) = Some (publication_entry_of sample_publication)"
  by (simp add: sample_store_fields)

theorem published_result_immutable_witness:
  "map_of (publications (fst (release_pin 9 ''coord'' sample_store))) (digest_key (sample_digest 2))
     = Some (publication_entry_of sample_publication)"
proof -
  have "store_step\<^sup>*\<^sup>* sample_store (fst (release_pin 9 ''coord'' sample_store))"
    by (rule r_into_rtranclp) (rule store_release)
  from published_result_immutable [OF sample_store_reachable this sample_store_published]
  show ?thesis by (rule conjunct1)
qed

text \<open>Generation identifiers are never reused. An identifier that ever existed, tombstoned or not,
  is refused by every later \<open>create_generation\<close>, under every authority and for every action.\<close>

theorem generation_ids_never_reused:
  assumes "reach_from (\<lambda>s. s = store_new) store_step s" "store_step\<^sup>*\<^sup>* s t"
    and "generation_state i s \<noteq> None"
  shows "\<exists>e. snd (create_generation au i action t) = Inl e \<and> fst (create_generation au i action t) = t"
proof -
  have "i \<in> fst ` set (generations t)"
    using store_run_grows [OF assms(2)] assms(3)
    by (auto simp: generation_state_def map_of_eq_None_iff)
  moreover have "store_inv t" by (rule metadata.reachable_good [OF reach_run [OF assms(1,2)]])
  ultimately have "i \<le> generation_high_water t"
    by (auto simp: store_inv_def inv_generation_def list_all_iff)
  then show ?thesis by (auto simp: create_generation_def in_txn_def split: sum.splits)
qed

theorem generation_ids_never_reused_witness:
  "\<exists>e. snd (create_generation (sample_digest 1) 5 (sample_digest 6)
      (fst (tombstone_generation 5 (fst (create_generation (sample_digest 1) 5 (sample_digest 2) sample_store)))))
    = Inl e"
proof -
  let ?s = "fst (create_generation (sample_digest 1) 5 (sample_digest 2) sample_store)"
  have "reach_from (\<lambda>s. s = store_new) store_step ?s"
    by (rule reach_move [OF sample_store_reachable]) (rule store_write, rule write_step.intros)
  moreover have "store_step\<^sup>*\<^sup>* ?s (fst (tombstone_generation 5 ?s))"
    by (rule r_into_rtranclp) (rule store_write, rule write_step.intros)
  moreover have "generation_state 5 ?s \<noteq> None"
    using sample_store_fields
    by (simp add: generation_state_def create_generation_def fst_in_txn require_active_Inr [THEN iffD2]
        generation_high_water_def sql_insert_def)
  ultimately show ?thesis using generation_ids_never_reused by blast
qed

text \<open>A commit is exact. It publishes exactly when the presented authority is the one active
  authority and neither the action nor the pin identifier is taken; then the publication, its pin
  and nothing else of the authority, generation and object tables appears. A second commit of the
  same descriptor is an idempotent duplicate, one of another descriptor is quarantined, and every
  other case is an error; none of them touches a publication or a pin.\<close>

theorem commit_publication_exact:
  "let (t, r) = commit_publication au row s; a = digest_key (pub_action row);
       active = (active_authority_key s = Inr (Some (digest_key au)));
       old = map_of (publications s) a
   in (r = Inr Committed \<longleftrightarrow> active \<and> old = None \<and> map_of (pins s) (pin_id row) = None)
      \<and> (r = Inr IdempotentDuplicate \<longleftrightarrow> active \<and> (\<exists>e. old = Some e \<and> same_descriptor e row))
      \<and> (r = Inr ConflictQuarantined \<longleftrightarrow> active \<and> (\<exists>e. old = Some e \<and> \<not> same_descriptor e row))
      \<and> (if r = Inr Committed
         then publications t = (a, publication_entry_of row) # publications s
              \<and> pins t = (pin_id row, publication_pin row) # pins s
         else publications t = publications s \<and> pins t = pins s)
      \<and> core_same s t"
proof -
  let ?s = "commit_interned row s"
  have same: "publications ?s = publications s" "pins ?s = pins s" "core_same s ?s"
    "require_active au ?s = require_active au s" by (simp_all add: core_same_def)
  have trans: "core_same ?s t \<Longrightarrow> core_same s t" for t using same(3) by (simp add: core_same_def)
  show ?thesis
  proof (cases "require_active au s")
    case (Inl e)
    then have "active_authority_key s \<noteq> Inr (Some (digest_key au))" by (metis require_active_Inr Inl_Inr_False)
    then show ?thesis
      using Inl same commit_body_refused [of au ?s e row]
      by (simp add: commit_publication_def in_txn_def Let_def)
  next
    case (Inr u)
    then have act: "active_authority_key s = Inr (Some (digest_key au))" "require_active au ?s = Inr ()"
      using same(4) by (simp_all add: require_active_Inr [symmetric])
    show ?thesis
    proof (cases "map_of (publications s) (digest_key (pub_action row))")
      case None
      with commit_body_fresh [OF act(2), of row] act(1) same trans show ?thesis
        by (auto simp: commit_publication_def in_txn_def Let_def split: if_splits)
    next
      case (Some e)
      with commit_body_published [OF act(2), of row e] act(1) same trans show ?thesis
        by (auto simp: commit_publication_def in_txn_def Let_def conflict_quarantine_def core_same_def)
    qed
  qed
qed

section \<open>Reachability\<close>

definition edge_rel :: "(string \<times> string) list \<Rightarrow> (string \<times> string) set" where
  "edge_rel edges = set edges"

lemma children_of_iff: "c \<in> set (children_of edges k) \<longleftrightarrow> (k, c) \<in> edge_rel edges"
  by (force simp: children_of_def edge_rel_def)

lemma rtrancl_escape:
  assumes "\<forall>v \<in> V. E `` {v} \<subseteq> V \<union> F"
  shows "E\<^sup>* `` V \<subseteq> V \<union> E\<^sup>* `` F"
proof
  fix x
  assume "x \<in> E\<^sup>* `` V"
  then obtain v where "v \<in> V" "(v, x) \<in> E\<^sup>*" by blast
  from this(2,1) show "x \<in> V \<union> E\<^sup>* `` F"
  proof (induction rule: rtrancl_induct)
    case (step y z)
    then consider "y \<in> V" | "y \<in> E\<^sup>* `` F" by blast
    then show ?case
    proof cases
      case 1
      with assms step.hyps(2) show ?thesis by blast
    next
      case 2
      with step.hyps(2) show ?thesis by (blast intro: rtrancl_into_rtrancl)
    qed
  qed blast
qed

lemma reach_loop_set:
  assumes "\<forall>v \<in> set reachable. edge_rel edges `` {v} \<subseteq> set reachable \<union> set frontier"
  shows "set (reach_loop edges reachable frontier) = set reachable \<union> (edge_rel edges)\<^sup>* `` set frontier"
  using assms
proof (induction edges reachable frontier rule: reach_loop.induct)
  case (2 edges reachable k frontier)
  let ?E = "edge_rel edges"
  show ?case
  proof (cases "k \<in> set reachable")
    case True
    have "\<forall>v \<in> set reachable. ?E `` {v} \<subseteq> set reachable \<union> set frontier" using "2.prems" True by auto
    moreover from rtrancl_escape [OF this] True
    have "?E\<^sup>* `` {k} \<subseteq> set reachable \<union> ?E\<^sup>* `` set frontier" by blast
    moreover have "?E\<^sup>* `` set (k # frontier) = ?E\<^sup>* `` {k} \<union> ?E\<^sup>* `` set frontier" by auto
    ultimately show ?thesis using "2.IH"(1) True by auto
  next
    case False
    have kids: "set (rev (children_of edges k) @ frontier) = ?E `` {k} \<union> set frontier"
      using children_of_iff [of _ edges k] by auto
    have "\<forall>v \<in> set (k # reachable). ?E `` {v} \<subseteq> set (k # reachable) \<union> set (rev (children_of edges k) @ frontier)"
      using "2.prems" unfolding kids by auto
    note IH = "2.IH"(2) [OF False this]
    have "?E\<^sup>* `` {k} = insert k (?E\<^sup>* `` (?E `` {k}))"
      by (auto elim: converse_rtranclE intro: converse_rtrancl_into_rtrancl)
    then show ?thesis using IH False unfolding kids by (auto simp: Image_Un)
  qed
qed simp

lemma reach_loop_distinct: "distinct reachable \<Longrightarrow> distinct (reach_loop edges reachable frontier)"
  by (induction edges reachable frontier rule: reach_loop.induct) auto

lemma keys_update: "fst ` set (AList.update k v t) = insert k (fst ` set t)"
  by (induction t) auto

text \<open>The edges between objects, and the roots of the pins that are not released.\<close>

definition object_graph :: "store \<Rightarrow> (string \<times> string) set" where
  "object_graph s = {(p, c). \<exists>kind. (p, c, kind) \<in> fst ` set (object_edges s)}"

definition live_roots :: "store \<Rightarrow> string set" where
  "live_roots s = {root_key p | i p. (i, p) \<in> set (pins s) \<and> \<not> released p}"

definition live_objects :: "store \<Rightarrow> string set" where
  "live_objects s = (object_graph s)\<^sup>* `` live_roots s"

lemma gc_snapshot_Inr:
  assumes "snd (gc_snapshot seq s) = Inr snap"
  shows "set (pinned_roots snap) = live_roots s \<and> set (reachable_from_pins snap) = live_objects s
    \<and> set (located_objects snap) = fst ` fst ` set (locations s) \<and> distinct (reachable_from_pins snap)
    \<and> (\<exists>r. fst (gc_snapshot seq s) = s\<lparr>gc_runs := r\<rparr>)"
proof -
  let ?edges = "sort (map (\<lambda>((p, c, _), _). (p, c)) (object_edges s))"
  let ?roots = "sort (map (root_key \<circ> snd) (filter (\<lambda>(_, p). \<not> released p) (pins s)))"
  have g: "edge_rel ?edges = object_graph s"
    by (force simp: edge_rel_def object_graph_def)
  have r: "set ?roots = live_roots s" by (force simp: live_roots_def)
  obtain sq where sq: "to_seq seq ''seq'' = Inr sq" using assms by (cases "to_seq seq ''seq''") (simp_all add: gc_snapshot_def)
  have eq: "snap = \<lparr>pinned_roots = ?roots, located_objects = remdups (sort (map (fst \<circ> fst) (locations s))),
      reachable_from_pins = sort (reach_loop ?edges [] (rev ?roots))\<rparr>"
    using assms unfolding gc_snapshot_def sq in_txn_def Let_def by simp
  have snap: "pinned_roots snap = ?roots" "reachable_from_pins snap = sort (reach_loop ?edges [] (rev ?roots))"
    "located_objects snap = remdups (sort (map (fst \<circ> fst) (locations s)))"
    "\<exists>r. fst (gc_snapshot seq s) = s\<lparr>gc_runs := r\<rparr>"
    unfolding eq gc_snapshot_def sq in_txn_def Let_def by auto
  have "set (reachable_from_pins snap) = live_objects s"
    using reach_loop_set [of "[]" ?edges "rev ?roots"] unfolding snap live_objects_def g by (simp add: r [simplified])
  with snap r reach_loop_distinct [of "[]" ?edges "rev ?roots"] show ?thesis
    by (simp add: image_image)
qed

lemma gc_snapshot_ok: "seq < 2 ^ 63 \<Longrightarrow> \<exists>snap. snd (gc_snapshot seq s) = Inr snap"
  by (simp add: gc_snapshot_def to_seq_def in_txn_def Let_def)

text \<open>The snapshot the collector plans from is exact: its cycle-safe worklist loop ends with the
  objects reachable over edges from the roots of unreleased pins, each once, whatever cycles and
  duplicate edges the tables hold.\<close>

theorem gc_snapshot_exact:
  assumes "seq < 2 ^ 63"
  shows "\<exists>snap. snd (gc_snapshot seq s) = Inr snap \<and> set (pinned_roots snap) = live_roots s
    \<and> set (reachable_from_pins snap) = (object_graph s)\<^sup>* `` live_roots s
    \<and> distinct (reachable_from_pins snap)"
  using gc_snapshot_ok [OF assms, of s] gc_snapshot_Inr [of seq s] by (auto simp: live_objects_def)

theorem gc_snapshot_exact_witness:
  "\<exists>snap. snd (gc_snapshot 3 (store_new\<lparr>object_edges := [((''a'', ''b'', ''k''), ()), ((''b'', ''a'', ''k''), ())],
       pins := [(1, \<lparr>root_key = ''a'', owner = ''o'', pin_class = ''c'', expires_at_seq = None, released = False,
         pin_evidence = None, renewal_seq = 0, pin_durable = True, pin_reason = []\<rparr>)]\<rparr>)) = Inr snap
     \<and> ''b'' \<in> set (reachable_from_pins snap)"
proof -
  let ?s = "store_new\<lparr>object_edges := [((''a'', ''b'', ''k''), ()), ((''b'', ''a'', ''k''), ())],
       pins := [(1, \<lparr>root_key = ''a'', owner = ''o'', pin_class = ''c'', expires_at_seq = None, released = False,
         pin_evidence = None, renewal_seq = 0, pin_durable = True, pin_reason = []\<rparr>)]\<rparr>"
  have "(3::nat) < 2 ^ 63" by simp
  then obtain snap where "snd (gc_snapshot 3 ?s) = Inr snap"
      "set (reachable_from_pins snap) = (object_graph ?s)\<^sup>* `` live_roots ?s"
    using gc_snapshot_exact [of 3 ?s] by blast
  moreover have "(''a'', ''b'') \<in> object_graph ?s" "''a'' \<in> live_roots ?s"
    by (auto simp: object_graph_def live_roots_def)
  ultimately show ?thesis by blast
qed

section \<open>Keys and leases\<close>

lemma hex_byte_inject: "hex_byte a = hex_byte b \<Longrightarrow> a = b"
proof -
  assume "hex_byte a = hex_byte b"
  then have "hex_digit (unat a div 16) = hex_digit (unat b div 16)" "hex_digit (unat a mod 16) = hex_digit (unat b mod 16)"
    by (simp_all add: hex_byte_def)
  then have "unat a div 16 = unat b div 16" "unat a mod 16 = unat b mod 16"
    using unat_bound [of a] unat_bound [of b] by (auto intro!: hex_digit_inject)
  then show "a = b" by (metis div_mult_mod_eq word_unat_eq_iff)
qed

lemma hex_bytes_inject: "hex_bytes xs = hex_bytes ys \<Longrightarrow> xs = ys"
proof (induction xs arbitrary: ys)
  case Nil
  then show ?case by (cases ys) (auto simp: hex_bytes_def hex_byte_def)
next
  case (Cons x xs)
  then obtain y ys' where ys: "ys = y # ys'" by (cases ys) (auto simp: hex_bytes_def hex_byte_def)
  with Cons.prems have "hex_byte x = hex_byte y" "hex_bytes xs = hex_bytes ys'"
    by (auto simp: hex_bytes_def hex_byte_def)
  with Cons.IH ys hex_byte_inject show ?case by blast
qed

lemma hex_bytes_no_colon: "CHR '':'' \<notin> set (hex_bytes xs)"
proof -
  have n: "hex_digit n \<noteq> CHR '':''" if "n < 16" for n using hex_digit_in [OF that] by auto
  have "unat b div 16 < 16" "unat b mod 16 < 16" for b :: "8 word" using unat_bound [of b] by auto
  from this [THEN n] have "CHR '':'' \<noteq> hex_digit (unat b div 16)" "CHR '':'' \<noteq> hex_digit (unat b mod 16)"
    for b :: "8 word" by (simp_all only: eq_commute [of "CHR '':''"] not_False_eq_True)
  then have "CHR '':'' \<notin> set (hex_byte b)" for b by (simp add: hex_byte_def)
  then show ?thesis by (simp add: hex_bytes_def)
qed

text \<open>C37: Table keys identify digests: two digests share a key exactly when domain and bytes agree,
  even where a domain contains the separator.\<close>

theorem digest_key_injective:
  "digest_key a = digest_key b \<longleftrightarrow> domain a = domain b \<and> bytes a = bytes b"
proof
  assume "digest_key a = digest_key b"
  then have "rev (hex_bytes (bytes a)) @ CHR '':'' # rev (domain a) = rev (hex_bytes (bytes b)) @ CHR '':'' # rev (domain b)"
    by (metis digest_key_def rev_append append.assoc append_Cons append_Nil rev.simps)
  then have "rev (hex_bytes (bytes a)) = rev (hex_bytes (bytes b)) \<and> rev (domain a) = rev (domain b)"
    by (rule append_Cons_eq_split) (simp_all add: hex_bytes_no_colon)
  then show "domain a = domain b \<and> bytes a = bytes b" using hex_bytes_inject by simp
qed (simp add: digest_key_def)

end
