(* ===== verification/Gc.thy ===== *)
theory Gc
  imports Metadata_Store "HOL-Library.Multiset"
begin

text \<open>
  Garbage collection of the content store, \<open>rabs-cas/src/gc.rs\<close>, and authority-scoped pin leases,
  \<open>rabs-cas/src/pin_leases.rs\<close>, over the metadata store. A plan is computed from one snapshot; the
  pipeline marks the planned locations, waits out a grace window, and unlinks after a fresh check.
  Sets of digest keys are sets, the policy table is an association list, the loops over a plan carry
  the store. The digest of a coordinator's authority value is an argument.

  The locale \<open>collected_store\<close> is the contract between the collector and everything else that writes
  the store: nobody but the collector drops a location, and the collector drops none of a live object.
\<close>

section \<open>Modes, policies and protections\<close>

datatype gc_mode = Normal | Emergency

fun mode_str :: "gc_mode \<Rightarrow> string" where
  "mode_str Normal = ''normal''"
| "mode_str Emergency = ''emergency''"

datatype policy_class =
    ProvisionalStaging
  | CommittedResult
  | HotDependency
  | Toolchain
  | AuthoritativeEvidence

datatype protection_reason =
    PinnedOrReachable
  | ActiveBuild
  | Materialization
  | Transfer
  | OpenReader
  | EvidenceClass
  | AwaitingReconciliation
  | RetainedByPolicy
  | BudgetTruncated

record active_protections =
  active_builds :: "string set"
  materializations :: "string set"
  transfers :: "string set"
  open_readers :: "string set"

record object_policy =
  policy_cls :: policy_class
  last_use_seq :: nat

record gc_world =
  protections :: active_protections
  policies :: "(string \<times> object_policy) list"
  reconciliation_complete :: bool
  reclaim_budget :: nat

type_synonym location_ref = "string \<times> string"

record gc_plan =
  plan_mode :: gc_mode
  reclaim :: "location_ref list"
  protected :: "(location_ref \<times> protection_reason) list"
  truncated :: bool
  plan_seq :: nat

record gc_execution_receipt =
  planned :: nat
  reclaimed :: "location_ref list"
  skipped :: "location_ref list"

definition default_policy :: object_policy where
  "default_policy = \<lparr>policy_cls = CommittedResult, last_use_seq = 0\<rparr>"

fun eviction_layer :: "policy_class \<Rightarrow> nat" where
  "eviction_layer ProvisionalStaging = 0"
| "eviction_layer CommittedResult = 1"
| "eviction_layer HotDependency = 2"
| "eviction_layer Toolchain = 3"
| "eviction_layer AuthoritativeEvidence = 4"

definition protection_for ::
  "string set \<Rightarrow> gc_world \<Rightarrow> gc_mode \<Rightarrow> string \<Rightarrow> object_policy \<Rightarrow> protection_reason option" where
  "protection_for preserved world mode key policy =
     (if key \<in> preserved then Some PinnedOrReachable
      else if key \<in> active_builds (protections world) then Some ActiveBuild
      else if key \<in> materializations (protections world) then Some Materialization
      else if key \<in> transfers (protections world) then Some Transfer
      else if key \<in> open_readers (protections world) then Some OpenReader
      else
        case policy_cls policy of
          AuthoritativeEvidence \<Rightarrow> Some EvidenceClass
        | ProvisionalStaging \<Rightarrow>
            if reconciliation_complete world then None else Some AwaitingReconciliation
        | HotDependency \<Rightarrow> if mode = Normal then Some RetainedByPolicy else None
        | Toolchain \<Rightarrow> if mode = Normal then Some RetainedByPolicy else None
        | CommittedResult \<Rightarrow> None)"

definition preserved_set :: "gc_snapshot_row \<Rightarrow> string set" where
  "preserved_set snap = set (pinned_roots snap) \<union> set (reachable_from_pins snap)"

text \<open>The lookup both \<open>plan_gc\<close> and \<open>unlink_due\<close> write out.\<close>

definition policy_of :: "gc_world \<Rightarrow> string \<Rightarrow> object_policy" where
  "policy_of world key = (case map_of (policies world) key of Some p \<Rightarrow> p | None \<Rightarrow> default_policy)"

section \<open>Planning and execution\<close>

definition eviction_key :: "gc_world \<Rightarrow> location_ref \<Rightarrow> nat \<times> nat \<times> location_ref" where
  "eviction_key world loc =
     (eviction_layer (policy_cls (policy_of world (fst loc))), last_use_seq (policy_of world (fst loc)), loc)"

definition plan_gc :: "gc_world \<Rightarrow> gc_mode \<Rightarrow> nat \<Rightarrow> store \<Rightarrow> store \<times> (store_error + gc_plan)" where
  "plan_gc world mode seq s =
     (case gc_snapshot seq s of
        (s1, Inl e) \<Rightarrow> (s1, Inl e)
      | (s1, Inr snap) \<Rightarrow>
          let preserved = preserved_set snap;
              scan = map fst (reconciliation_scan s1);
              prot = (\<lambda>loc. protection_for preserved world mode (fst loc) (policy_of world (fst loc)));
              guarded = List.map_filter (\<lambda>loc. map_option (Pair loc) (prot loc)) scan;
              candidates = sort_key (eviction_key world) (filter (\<lambda>loc. prot loc = None) scan);
              budget = reclaim_budget world
          in (s1, Inr \<lparr>plan_mode = mode, reclaim = take budget candidates,
               protected = guarded @ map (\<lambda>loc. (loc, BudgetTruncated)) (drop budget candidates),
               truncated = (length candidates > budget), plan_seq = seq\<rparr>))"

fun execute_loop :: "location_ref list \<Rightarrow> store \<Rightarrow> store \<times> location_ref list \<times> location_ref list" where
  "execute_loop [] s = (s, [], [])"
| "execute_loop (loc # locs) s =
     (let (s1, r) = remove_location_by_key (fst loc) (snd loc) s; (s2, done, skip) = execute_loop locs s1
      in if r = Inr True then (s2, loc # done, skip) else (s2, done, loc # skip))"

definition execute_gc :: "gc_plan \<Rightarrow> store \<Rightarrow> store \<times> (store_error + gc_execution_receipt)" where
  "execute_gc plan s =
     (let (s1, done, skip) = execute_loop (reclaim plan) s
      in case record_gc_receipt \<lparr>rec_seq = plan_seq plan, rec_mode = mode_str (plan_mode plan),
             rec_planned = length (reclaim plan), rec_reclaimed = length done, rec_skipped = length skip,
             rec_truncated = truncated plan\<rparr> s1 of
           (s2, Inl e) \<Rightarrow> (s2, Inl e)
         | (s2, Inr _) \<Rightarrow> (s2, Inr \<lparr>planned = length (reclaim plan), reclaimed = done, skipped = skip\<rparr>))"

section \<open>Mark, grace, recheck, unlink\<close>

record unlink_receipt =
  unlinked :: "location_ref list"
  rescued :: "(location_ref \<times> protection_reason) list"



fun unlink_loop ::
  "string set \<Rightarrow> gc_world \<Rightarrow> gc_mode \<Rightarrow> location_ref list \<Rightarrow> store \<Rightarrow> store \<times> unlink_receipt" where
  "unlink_loop preserved world mode [] s = (s, \<lparr>unlinked = [], rescued = []\<rparr>)"
| "unlink_loop preserved world mode (loc # locs) s =
     (case protection_for preserved world mode (fst loc) (policy_of world (fst loc)) of
        Some reason \<Rightarrow>
          let s1 = fst (remove_gc_tombstone (fst loc) (snd loc) s);
              (s2, r) = unlink_loop preserved world mode locs s1
          in (s2, r\<lparr>rescued := (loc, reason) # rescued r\<rparr>)
      | None \<Rightarrow>
          let s1 = fst (remove_location_by_key (fst loc) (snd loc) s);
              s2 = fst (remove_gc_tombstone (fst loc) (snd loc) s1);
              (s3, r) = unlink_loop preserved world mode locs s2
          in (s3, r\<lparr>unlinked := loc # unlinked r\<rparr>))"

definition unlink_due :: "gc_world \<Rightarrow> gc_mode \<Rightarrow> nat \<Rightarrow> store \<Rightarrow> store \<times> (store_error + unlink_receipt)" where
  "unlink_due world mode now s =
     (let due = map fst (due_gc_tombstones now s)
      in if due = [] then (s, Inr \<lparr>unlinked = [], rescued = []\<rparr>)
         else
           case gc_snapshot now s of
             (s1, Inl e) \<Rightarrow> (s1, Inl e)
           | (s1, Inr snap) \<Rightarrow>
               let (s2, r) = unlink_loop (preserved_set snap) world mode due s1 in (s2, Inr r))"

section \<open>Pin leases\<close>

definition PUBLICATION_PIN_CLASS :: string where
  "PUBLICATION_PIN_CLASS = ''action-publication''"

datatype 'a releaser =
    Coordinator 'a
  | Worker string

datatype release_outcome =
    Released
  | AlreadyReleased
  | UnknownPinId
  | RefusedWorkerOnPublicationRoot
  | RefusedNotOwner
  | RefusedNotActiveAuthority

text \<open>The inner releases cannot fail: the row was just read with that owner.\<close>

definition release_pin_scoped ::
  "('a \<Rightarrow> typed_digest) \<Rightarrow> 128 word \<Rightarrow> 'a releaser \<Rightarrow> store \<Rightarrow> store \<times> (store_error + release_outcome)" where
  "release_pin_scoped authority_digest i who s =
     (case pin_row i s of
        None \<Rightarrow> (s, Inr UnknownPinId)
      | Some row \<Rightarrow>
          if released row then (s, Inr AlreadyReleased)
          else
            case who of
              Worker worker_owner \<Rightarrow>
                if pin_class row = PUBLICATION_PIN_CLASS then (s, Inr RefusedWorkerOnPublicationRoot)
                else if owner row \<noteq> worker_owner then (s, Inr RefusedNotOwner)
                else
                  (case release_pin i worker_owner s of
                     (s1, Inl e) \<Rightarrow> (s1, Inl e)
                   | (s1, Inr _) \<Rightarrow> (s1, Inr Released))
            | Coordinator authority \<Rightarrow>
                (case active_authority s of
                   Inl e \<Rightarrow> (s, Inl e)
                 | Inr None \<Rightarrow> (s, Inr RefusedNotActiveAuthority)
                 | Inr (Some active) \<Rightarrow>
                     if au_digest active = authority_digest authority then
                       (case release_pin i (owner row) s of
                          (s1, Inl e) \<Rightarrow> (s1, Inl e)
                        | (s1, Inr _) \<Rightarrow> (s1, Inr Released))
                     else (s, Inr RefusedNotActiveAuthority)))"

datatype protection_state = Protecting | GraceProtecting | Expired

definition pin_protection :: "128 word \<Rightarrow> nat \<Rightarrow> bool \<Rightarrow> nat \<Rightarrow> store \<Rightarrow> protection_state option" where
  "pin_protection i now reconciliation_confirmed grace_windows s =
     (case pin_row i s of
        None \<Rightarrow> None
      | Some row \<Rightarrow>
          if released row then Some Expired
          else
            case expires_at_seq row of
              None \<Rightarrow> Some Protecting
            | Some x \<Rightarrow>
                if now \<le> x then Some Protecting
                else if \<not> reconciliation_confirmed then Some GraceProtecting
                else if now \<le> min (x + grace_windows) (2 ^ 64 - 1) then Some GraceProtecting
                else Some Expired)"

section \<open>Copies and the collector\<close>

definition copies :: "store \<Rightarrow> location_ref set" where
  "copies s = fst ` set (locations s)"

lemma protection_for_preserved: "protection_for P world mode k pol = None \<Longrightarrow> k \<notin> P"
  by (auto simp: protection_for_def)

lemma fst_delete: "fst ` set (AList.delete k t) = fst ` set t - {k}"
  by (induction t) auto

lemma remove_location_fields:
  "copies (fst (remove_location_by_key k p s)) = copies s - {(k, p)}"
  "pins (fst (remove_location_by_key k p s)) = pins s"
  "publications (fst (remove_location_by_key k p s)) = publications s"
  "object_edges (fst (remove_location_by_key k p s)) = object_edges s"
  "gc_tombstones (fst (remove_location_by_key k p s)) = gc_tombstones s"
  by (simp_all add: remove_location_by_key_def fst_in_txn copies_def fst_delete)

lemma remove_tombstone_fields:
  "copies (fst (remove_gc_tombstone k p s)) = copies s"
  "pins (fst (remove_gc_tombstone k p s)) = pins s"
  "publications (fst (remove_gc_tombstone k p s)) = publications s"
  "object_edges (fst (remove_gc_tombstone k p s)) = object_edges s"
  by (simp_all add: remove_gc_tombstone_def fst_in_txn copies_def)

text \<open>The unlink loop removes exactly the copies it finds unprotected, and reports them.\<close>

lemma unlink_loop_spec:
  "unlink_loop P world mode locs s = (t, r) \<Longrightarrow>
     unlinked r = filter (\<lambda>l. protection_for P world mode (fst l) (policy_of world (fst l)) = None) locs
     \<and> copies t = copies s - set (unlinked r) \<and> pins t = pins s \<and> publications t = publications s
     \<and> object_edges t = object_edges s"
proof (induction P world mode locs s arbitrary: t r rule: unlink_loop.induct)
  case (2 P world mode l locs s)
  let ?p = "protection_for P world mode (fst l) (policy_of world (fst l))"
  show ?case
  proof (cases ?p)
    case None
    obtain t' r' where u: "unlink_loop P world mode locs (fst (remove_gc_tombstone (fst l) (snd l)
        (fst (remove_location_by_key (fst l) (snd l) s)))) = (t', r')" by (meson surj_pair)
    with "2.prems" None have "t = t'" "r = r'\<lparr>unlinked := l # unlinked r'\<rparr>" by (simp_all add: Let_def)
    with "2.IH"(1) [OF None refl refl u] None show ?thesis
      by (auto simp: remove_location_fields remove_tombstone_fields)
  next
    case (Some reason)
    obtain t' r' where u: "unlink_loop P world mode locs (fst (remove_gc_tombstone (fst l) (snd l) s)) = (t', r')"
      by (meson surj_pair)
    with "2.prems" Some have "t = t'" "r = r'\<lparr>rescued := (l, reason) # rescued r'\<rparr>" by (simp_all add: Let_def)
    with "2.IH"(2) [OF Some refl u] Some show ?thesis by (simp add: remove_tombstone_fields)
  qed
qed simp

lemma gc_snapshot_frame:
  "copies (fst (gc_snapshot seq s)) = copies s" "pins (fst (gc_snapshot seq s)) = pins s"
  "publications (fst (gc_snapshot seq s)) = publications s"
  "object_edges (fst (gc_snapshot seq s)) = object_edges s"
  by (simp_all add: gc_snapshot_def fst_in_txn copies_def Let_def split: sum.splits)

lemma preserved_live: "snd (gc_snapshot seq s) = Inr snap \<Longrightarrow> preserved_set snap = live_objects s"
  using gc_snapshot_Inr [of seq s snap] by (auto simp: preserved_set_def live_objects_def)

text \<open>A pass unlinks only marked locations past their grace whose object is not live now.\<close>

lemma unlink_due_spec:
  assumes "unlink_due world mode now s = (t, res)"
  shows "pins t = pins s \<and> publications t = publications s \<and> object_edges t = object_edges s
    \<and> (case res of
         Inl e \<Rightarrow> copies t = copies s
       | Inr r \<Rightarrow> copies t = copies s - set (unlinked r)
           \<and> (\<forall>l \<in> set (unlinked r).
                protection_for (live_objects s) world mode (fst l) (policy_of world (fst l)) = None
                \<and> (\<exists>m. (l, m) \<in> set (gc_tombstones s) \<and> grace_until_seq m \<le> now)))"
proof (cases "due_gc_tombstones now s = []")
  case True
  with assms show ?thesis by (auto simp: unlink_due_def)
next
  case False
  note snap = gc_snapshot_frame [of now s]
  have due: "\<exists>m. (l, m) \<in> set (gc_tombstones s) \<and> grace_until_seq m \<le> now"
    if "l \<in> set (map fst (due_gc_tombstones now s))" for l
    using that by (auto simp: due_gc_tombstones_def)
  show ?thesis
  proof (cases "gc_snapshot now s")
    case (Pair s1 out)
    then have s1: "copies s1 = copies s" "pins s1 = pins s" "publications s1 = publications s"
        "object_edges s1 = object_edges s" using snap by simp_all
    show ?thesis
    proof (cases out)
      case (Inl e)
      with assms False Pair s1 show ?thesis by (auto simp: unlink_due_def)
    next
      case (Inr sn)
      obtain t' r where u: "unlink_loop (preserved_set sn) world mode (map fst (due_gc_tombstones now s)) s1 = (t', r)"
        by (meson surj_pair)
      have "preserved_set sn = live_objects s" using preserved_live [of now s sn] Pair Inr by simp
      with assms False Pair Inr u have "t = t'" "res = Inr r" by (simp_all add: unlink_due_def)
      with unlink_loop_spec [OF u] s1 due \<open>preserved_set sn = live_objects s\<close> show ?thesis by auto
    qed
  qed
qed

section \<open>The contract between writers and the collector\<close>


section \<open>Published objects\<close>











section \<open>What a plan lists and what its execution takes\<close>

lemma plan_gc_Inr:
  assumes "plan_gc world mode seq s = (t, Inr plan)"
  defines "prot \<equiv> \<lambda>l. protection_for (live_objects s) world mode (fst l) (policy_of world (fst l))"
  defines "cand \<equiv> sort_key (eviction_key world) (filter (\<lambda>l. prot l = None) (map fst (reconciliation_scan s)))"
  shows "plan = \<lparr>plan_mode = mode, reclaim = take (reclaim_budget world) cand,
      protected = List.map_filter (\<lambda>l. map_option (Pair l) (prot l)) (map fst (reconciliation_scan s))
        @ map (\<lambda>l. (l, BudgetTruncated)) (drop (reclaim_budget world) cand),
      truncated = (length cand > reclaim_budget world), plan_seq = seq\<rparr>
    \<and> locations t = locations s \<and> seq < 2 ^ 63"
proof -
  obtain s1 out where g: "gc_snapshot seq s = (s1, out)" by (meson surj_pair)
  with assms(1) obtain snap where o: "out = Inr snap" "s1 = t"
    by (cases out) (auto simp: plan_gc_def Let_def)
  have "locations s1 = locations s" using g op_locations by (metis fst_conv)
  moreover have "preserved_set snap = live_objects s" using preserved_live [of seq s snap] g o by simp
  moreover have "seq < 2 ^ 63"
    using g o by (auto simp: gc_snapshot_def to_seq_def split: if_splits)
  ultimately show ?thesis
    using assms(1) g o by (auto simp: plan_gc_def Let_def prot_def cand_def reconciliation_scan_def)
qed

lemma execute_loop_spec:
  "execute_loop locs s = (t, ds, ks) \<Longrightarrow>
     copies t = copies s - set locs \<and> pins t = pins s
     \<and> publications t = publications s \<and> object_edges t = object_edges s \<and> (store_inv s \<longrightarrow> store_inv t)
     \<and> set ds = set locs \<inter> copies s \<and> length ds + length ks = length locs
     \<and> (distinct locs \<and> set locs \<subseteq> copies s \<longrightarrow> ds = locs \<and> ks = [])"
proof (induction locs s arbitrary: t ds ks rule: execute_loop.induct)
  case (2 l locs s)
  obtain s1 r where r: "remove_location_by_key (fst l) (snd l) s = (s1, r)" by (meson surj_pair)
  obtain t' d k where x: "execute_loop locs s1 = (t', d, k)" by (metis prod.collapse)
  have s1: "copies s1 = copies s - {l}" "pins s1 = pins s" "publications s1 = publications s"
      "object_edges s1 = object_edges s" "store_inv s \<Longrightarrow> store_inv s1"
    using remove_location_fields(1-4) [of "fst l" "snd l" s] store_inv_tables(6) [of s "fst l" "snd l"] r
    by simp_all
  have hit: "r = Inr True \<longleftrightarrow> l \<in> copies s"
    using r map_of_eq_None_iff [of "locations s" l]
    by (cases l) (auto simp: remove_location_by_key_def in_txn_def copies_def)
  have res: "t = t'" "ds = (if r = Inr True then l # d else d)" "ks = (if r = Inr True then k else l # k)"
    using "2.prems" r x by (auto split: if_splits)
  from "2.IH" [OF r [symmetric] refl x] s1 show ?case
    unfolding res hit by (cases "l \<in> copies s") auto
qed simp

text \<open>Execution works off the plan alone: it takes every planned copy that is there and no other.\<close>

lemma execute_gc_spec:
  assumes "execute_gc plan s = (t, Inr rc)"
  shows "copies t = copies s - set (reclaim plan) \<and> set (reclaimed rc) = set (reclaim plan) \<inter> copies s
    \<and> pins t = pins s \<and> planned rc = length (reclaimed rc) + length (skipped rc)
    \<and> (distinct (reclaim plan) \<and> set (reclaim plan) \<subseteq> copies s \<longrightarrow> reclaimed rc = reclaim plan \<and> skipped rc = [])"
proof -
  obtain s1 d k where x: "execute_loop (reclaim plan) s = (s1, d, k)" by (metis prod.collapse)
  from assms x have "copies t = copies s1" "pins t = pins s1" "rc = \<lparr>planned = length (reclaim plan), reclaimed = d, skipped = k\<rparr>"
    by (auto simp: execute_gc_def record_gc_receipt_def in_txn_def copies_def split: sum.splits)
  with execute_loop_spec [OF x] show ?thesis by simp
qed



section \<open>Clients and collector\<close>






lemma plan_gc_fst: "fst (plan_gc world mode seq s) = fst (gc_snapshot seq s)"
  by (simp add: plan_gc_def Let_def split: prod.splits sum.splits)









section \<open>Properties\<close>



definition sample_world :: gc_world where
  "sample_world =
     \<lparr>protections = \<lparr>active_builds = {}, materializations = {}, transfers = {}, open_readers = {}\<rparr>,
      policies = [], reconciliation_complete = True, reclaim_budget = 5\<rparr>"







lemma plan_gc_ok: "seq < 2 ^ 63 \<Longrightarrow> \<exists>t plan. plan_gc world mode seq s = (t, Inr plan)"
  using gc_snapshot_ok [of seq s] by (cases "gc_snapshot seq s") (auto simp: plan_gc_def Let_def)

lemma sample_budget: "reclaim_budget sample_world = 5" by (simp add: sample_world_def)



lemma mset_partition_option:
  "mset (filter (\<lambda>x. f x = None) xs) + mset (map fst (List.map_filter (\<lambda>x. map_option (Pair x) (f x)) xs)) = mset xs"
  by (induction xs) (auto simp: List.map_filter_def)

lemma set_map_filter_pair:
  "set (List.map_filter (\<lambda>x. map_option (Pair x) (f x)) xs) = {(x, y). x \<in> set xs \<and> f x = Some y}"
  by (induction xs) (auto simp: List.map_filter_def)

lemma sorted_take_drop:
  "sorted (map f xs) \<Longrightarrow> x \<in> set (take n xs) \<Longrightarrow> y \<in> set (drop n xs) \<Longrightarrow> f x \<le> f y"
  using sorted_append [of "map f (take n xs)" "map f (drop n xs)"] by (simp flip: map_append)

lemma protection_not_truncated: "protection_for P world mode k pol \<noteq> Some BudgetTruncated"
  by (auto simp: protection_for_def split: policy_class.splits if_splits)

text \<open>C35: A plan is exact and deterministic. Every location the store holds is planned or protected,
  once; the reason of each protected one is the first protection that applies, or the budget; the
  planned ones are unprotected, sorted by class, last use and key, at most as many as the budget, and
  precede all that the budget cut off. Planning moves no location.\<close>

theorem plan_gc_exact:
  assumes "plan_gc world mode seq s = (t, Inr plan)"
  defines "prot \<equiv> \<lambda>l. protection_for (live_objects s) world mode (fst l) (policy_of world (fst l))"
  shows "mset (reclaim plan) + mset (map fst (protected plan)) = mset (map fst (locations s))
    \<and> length (reclaim plan) \<le> reclaim_budget world
    \<and> (\<forall>l \<in> set (reclaim plan). prot l = None)
    \<and> (\<forall>l r. (l, r) \<in> set (protected plan) \<longrightarrow> prot l = (if r = BudgetTruncated then None else Some r))
    \<and> sorted (map (eviction_key world) (reclaim plan))
    \<and> (\<forall>l \<in> set (reclaim plan). \<forall>l'. (l', BudgetTruncated) \<in> set (protected plan)
         \<longrightarrow> eviction_key world l \<le> eviction_key world l')
    \<and> (truncated plan \<longleftrightarrow> (\<exists>l. (l, BudgetTruncated) \<in> set (protected plan)))
    \<and> copies t = copies s"
proof -
  let ?scan = "map fst (reconciliation_scan s)" and ?b = "reclaim_budget world"
  let ?c = "sort_key (eviction_key world) (filter (\<lambda>l. prot l = None) ?scan)"
  let ?g = "List.map_filter (\<lambda>l. map_option (Pair l) (prot l)) ?scan"
  have plan: "reclaim plan = take ?b ?c" "protected plan = ?g @ map (\<lambda>l. (l, BudgetTruncated)) (drop ?b ?c)"
      "truncated plan = (length ?c > ?b)" "copies t = copies s"
    using plan_gc_Inr [OF assms(1)] by (simp_all add: copies_def prot_def)
  have sorted: "sorted (map (eviction_key world) ?c)" by simp
  have cand: "prot l = None" if "l \<in> set (take ?b ?c) \<or> l \<in> set (drop ?b ?c)" for l
    using that by (auto dest!: in_set_takeD in_set_dropD)
  have guarded: "prot l = Some r \<and> r \<noteq> BudgetTruncated" if "(l, r) \<in> set ?g" for l r
    using that protection_not_truncated by (auto simp: set_map_filter_pair prot_def)
  have cut: "(l, BudgetTruncated) \<in> set (protected plan) \<longleftrightarrow> l \<in> set (drop ?b ?c)" for l
    using guarded [of l BudgetTruncated] by (auto simp: plan)
  have "mset (take ?b ?c) + mset (drop ?b ?c) = mset (filter (\<lambda>l. prot l = None) ?scan)"
    unfolding mset_append [symmetric] append_take_drop_id by simp
  then have "mset (reclaim plan) + mset (map fst (protected plan)) = mset ?scan"
    using mset_partition_option [of prot ?scan] by (simp add: plan comp_def ac_simps)
  then have a1: "mset (reclaim plan) + mset (map fst (protected plan)) = mset (map fst (locations s))"
    by (simp add: reconciliation_scan_def)
  have a2: "length (reclaim plan) \<le> ?b" by (simp add: plan)
  have a3: "\<forall>l \<in> set (reclaim plan). prot l = None" unfolding plan(1) using cand by blast
  have "prot l = None \<and> r = BudgetTruncated \<or> prot l = Some r \<and> r \<noteq> BudgetTruncated"
    if "(l, r) \<in> set (protected plan)" for l r
    using that guarded [of l r] cand [of l] unfolding plan(2) set_append set_map by blast
  then have a4: "\<forall>l r. (l, r) \<in> set (protected plan) \<longrightarrow> prot l = (if r = BudgetTruncated then None else Some r)"
    by (metis (full_types))
  have a5: "sorted (map (eviction_key world) (reclaim plan))"
    unfolding plan(1) take_map [symmetric] using sorted by (rule sorted_wrt_take)
  have a6: "\<forall>l \<in> set (reclaim plan). \<forall>l'. (l', BudgetTruncated) \<in> set (protected plan)
      \<longrightarrow> eviction_key world l \<le> eviction_key world l'"
    unfolding cut plan(1) using sorted_take_drop [OF sorted] by blast
  have a7: "truncated plan \<longleftrightarrow> (\<exists>l. (l, BudgetTruncated) \<in> set (protected plan))"
    unfolding cut plan(3) using ex_in_conv [of "set (drop ?b ?c)"] by (simp add: not_le)
  show ?thesis by (intro conjI a1 a2 a3 a4 a5 a6 a7 plan(4))
qed

definition sample_garbage :: store where
  "sample_garbage = fst (add_location (sample_digest 6) ''q'' None ''raw'' True store_new)"

lemma sample_garbage_tables:
  "locations sample_garbage = [((digest_key (sample_digest 6), ''q''),
     \<lparr>verified_seq = None, encoding = ''raw'', quarantined = False, loc_durable = True\<rparr>)]"
  "pins sample_garbage = []" "store_inv sample_garbage"
  by (simp_all add: sample_garbage_def add_location_def to_seq_option_def in_txn_def store_new_def
      store_inv_def inv_authority_def inv_generation_def inv_publication_def inv_tables_def active_rows_def)

lemma sample_garbage_unprotected:
  "protection_for (live_objects sample_garbage) sample_world mode k (policy_of sample_world k) = None"
  by (simp add: protection_for_def live_objects_def live_roots_def sample_garbage_tables sample_world_def
      policy_of_def default_policy_def)

theorem plan_gc_exact_witness:
  "\<exists>t plan. plan_gc sample_world Normal 3 sample_garbage = (t, Inr plan)
     \<and> reclaim plan = [(digest_key (sample_digest 6), ''q'')] \<and> \<not> truncated plan"
proof -
  let ?l = "(digest_key (sample_digest 6), ''q'')"
  obtain t plan where p: "plan_gc sample_world Normal 3 sample_garbage = (t, Inr plan)"
    using plan_gc_ok [of 3 sample_world Normal sample_garbage] by auto
  note e = plan_gc_exact [OF p, unfolded sample_garbage_unprotected]
  have m: "mset (reclaim plan) + mset (map fst (protected plan)) = {#?l#}"
    using e by (simp add: sample_garbage_tables del: sample_key)
  have "length (reclaim plan) = 1"
    using plan_gc_Inr [OF p] by (simp add: sample_garbage_unprotected reconciliation_scan_def
        sample_garbage_tables sample_budget)
  then obtain l where l: "reclaim plan = [l]" by (cases "reclaim plan") auto
  with m have "l = ?l" "protected plan = []" by (auto simp: add_eq_conv_ex simp del: sample_key)
  with l p e show ?thesis by auto
qed

text \<open>A dry run is the run. Executing a plan on the store it was made for skips nothing, reclaims the
  planned locations in the planned order and removes exactly those copies, none of them of an object
  that is reachable from a pin.\<close>

theorem dry_run_parity:
  assumes "store_inv s" "plan_gc world mode seq s = (t, Inr plan)" "execute_gc plan t = (u, Inr rc)"
  shows "reclaimed rc = reclaim plan \<and> skipped rc = [] \<and> copies u = copies s - set (reclaim plan)
    \<and> (\<forall>l \<in> copies s. fst l \<in> live_objects s \<longrightarrow> l \<in> copies u)"
proof -
  let ?prot = "\<lambda>l. protection_for (live_objects s) world mode (fst l) (policy_of world (fst l))"
  let ?c = "sort_key (eviction_key world) (filter (\<lambda>l. ?prot l = None) (map fst (reconciliation_scan s)))"
  have plan: "reclaim plan = take (reclaim_budget world) ?c" and t: "copies t = copies s"
    using plan_gc_Inr [OF assms(2)] by (simp_all add: copies_def)
  have "distinct (map fst (reconciliation_scan s))"
    using assms(1) by (simp add: store_inv_def inv_tables_def reconciliation_scan_def distinct_map)
  then have "distinct (reclaim plan)" unfolding plan by (intro distinct_take) simp
  moreover have sub: "l \<in> copies s \<and> ?prot l = None" if "l \<in> set (reclaim plan)" for l
    using in_set_takeD [OF that [unfolded plan]] by (auto simp: copies_def reconciliation_scan_def)
  then have "set (reclaim plan) \<subseteq> copies t" using t by blast
  ultimately have "reclaimed rc = reclaim plan" "skipped rc = []" "copies u = copies s - set (reclaim plan)"
    using execute_gc_spec [OF assms(3)] t by simp_all
  moreover from this(3) have "\<forall>l \<in> copies s. fst l \<in> live_objects s \<longrightarrow> l \<in> copies u"
    using sub protection_for_preserved by blast
  ultimately show ?thesis by blast
qed

lemma execute_gc_ok:
  "plan_seq plan < 2 ^ 63 \<Longrightarrow> length (reclaim plan) < 2 ^ 63 \<Longrightarrow> \<exists>t rc. execute_gc plan s = (t, Inr rc)"
proof -
  assume a: "plan_seq plan < 2 ^ 63" "length (reclaim plan) < 2 ^ 63"
  obtain s1 d k where x: "execute_loop (reclaim plan) s = (s1, d, k)" by (metis prod.collapse)
  from execute_loop_spec [OF x] a have "length d < 2 ^ 63" "length k < 2 ^ 63" by simp_all
  with a x show ?thesis by (simp add: execute_gc_def record_gc_receipt_def to_seq_def in_txn_def)
qed

lemma sample_plan:
  obtains t plan where "plan_gc sample_world Normal 3 sample_garbage = (t, Inr plan)"
    "reclaim plan = [(digest_key (sample_digest 6), ''q'')]" "plan_seq plan = 3" "pins t = []"
    "copies t = {(digest_key (sample_digest 6), ''q'')}"
proof -
  obtain t plan where p: "plan_gc sample_world Normal 3 sample_garbage = (t, Inr plan)"
    using plan_gc_ok [of 3 sample_world Normal sample_garbage] by auto
  have "pins t = []" using plan_gc_fst [of sample_world Normal 3 sample_garbage] p gc_snapshot_frame(2) [of 3 sample_garbage]
    by (simp add: sample_garbage_tables)
  moreover have "reclaim plan = [(digest_key (sample_digest 6), ''q'')]" "plan_seq plan = 3"
      "copies t = {(digest_key (sample_digest 6), ''q'')}"
    using plan_gc_Inr [OF p]
    by (simp_all add: sample_garbage_unprotected reconciliation_scan_def sample_garbage_tables sample_budget copies_def
        del: sample_key)
  ultimately show ?thesis using that p by blast
qed

theorem dry_run_parity_witness:
  "\<exists>t plan u rc. plan_gc sample_world Normal 3 sample_garbage = (t, Inr plan) \<and> execute_gc plan t = (u, Inr rc)
     \<and> reclaimed rc = [(digest_key (sample_digest 6), ''q'')] \<and> copies u = {}"
proof -
  obtain t plan where p: "plan_gc sample_world Normal 3 sample_garbage = (t, Inr plan)"
      "reclaim plan = [(digest_key (sample_digest 6), ''q'')]" "plan_seq plan = 3" by (rule sample_plan)
  obtain u rc where e: "execute_gc plan t = (u, Inr rc)" using execute_gc_ok [of plan t] p by auto
  from dry_run_parity [OF sample_garbage_tables(3) p(1) e] p e show ?thesis
    by (auto simp: copies_def sample_garbage_tables)
qed

text \<open>Executing a plan looks at no protection again: a planned copy whose object has become live
  since, for example by a new pin, is deleted and reported as reclaimed, not as skipped. Only the
  mark, grace and unlink pipeline has the check.\<close>

theorem execute_gc_takes_pinned_copies:
  assumes "execute_gc plan s = (t, Inr rc)" "l \<in> set (reclaim plan)" "l \<in> copies s" "fst l \<in> live_objects s"
  shows "l \<notin> copies t \<and> l \<in> set (reclaimed rc) \<and> live_roots t = live_roots s"
  using execute_gc_spec [OF assms(1)] assms(2,3) by (auto simp: live_roots_def)

theorem execute_gc_takes_pinned_copies_witness:
  "\<exists>t plan u rc. plan_gc sample_world Normal 3 sample_garbage = (t, Inr plan)
     \<and> execute_gc plan (fst (create_pin 1 (sample_digest 6) ''o'' ''build'' None None True '''' t)) = (u, Inr rc)
     \<and> (digest_key (sample_digest 6), ''q'') \<in> set (reclaimed rc) \<and> digest_key (sample_digest 6) \<in> live_roots u"
proof -
  let ?l = "(digest_key (sample_digest 6), ''q'')"
  obtain t plan where p: "plan_gc sample_world Normal 3 sample_garbage = (t, Inr plan)"
      "reclaim plan = [?l]" "plan_seq plan = 3" "pins t = []" "copies t = {?l}" by (rule sample_plan)
  let ?s = "fst (create_pin 1 (sample_digest 6) ''o'' ''build'' None None True '''' t)"
  obtain u rc where e: "execute_gc plan ?s = (u, Inr rc)" using execute_gc_ok [of plan ?s] p by auto
  have live: "digest_key (sample_digest 6) \<in> live_roots ?s"
    using p(4) by (auto simp: live_roots_def create_pin_def to_seq_option_def in_txn_def sql_insert_def)
  then have "fst ?l \<in> live_objects ?s" by (auto simp: live_objects_def)
  moreover have "?l \<in> copies ?s" using p(5) by (simp add: copies_def)
  ultimately show ?thesis
    using execute_gc_takes_pinned_copies [OF e, of ?l] p(1,2) e live by auto
qed

text \<open>The pipeline unlinks no copy early: a pass removes exactly the copies it reports, each marked by
  an earlier pass whose grace window has closed by now, and unprotected in a snapshot of the same
  pass. A failed pass removes none.\<close>

theorem unlink_due_safe:
  "let (t, res) = unlink_due world mode now s
   in pins t = pins s \<and> publications t = publications s
      \<and> (case res of
           Inl e \<Rightarrow> copies t = copies s
         | Inr r \<Rightarrow> copies t = copies s - set (unlinked r)
             \<and> set (unlinked r) \<subseteq> {l. \<exists>m. (l, m) \<in> set (gc_tombstones s) \<and> grace_until_seq m \<le> now
                  \<and> protection_for (live_objects s) world mode (fst l) (policy_of world (fst l)) = None})"
  using unlink_due_spec [of world mode now s] by (auto split: prod.splits sum.splits) fastforce

text \<open>Only the coordinator in charge lets go of a published result: if a scoped release changes a
  pin of the publication class that protects, the caller named that pin and presented the authority
  that is active in the store. No worker can, whatever owner string it presents.\<close>

theorem publication_pin_needs_authority:
  assumes "map_of (pins s) j = Some row" "\<not> released row" "pin_class row = PUBLICATION_PIN_CLASS"
    and "map_of (pins (fst (release_pin_scoped dig i who s))) j \<noteq> Some row"
  shows "j = i \<and> (\<exists>a active. who = Coordinator a \<and> active_authority s = Inr (Some active)
           \<and> au_digest active = dig a)"
proof -
  have other: "map_of (pins (fst (release_pin i own s))) j = Some row" if "j \<noteq> i" for own
    using that assms(1) by (auto simp: release_pin_def fst_in_txn map_of_map_entry split: option.splits)
  have "j = i"
    using assms(1,4) other
    by (cases who) (auto simp: release_pin_scoped_def pin_row_def split: option.splits sum.splits prod.splits if_splits,
        (metis fst_conv option.inject)+)
  moreover have "\<exists>a active. who = Coordinator a \<and> active_authority s = Inr (Some active) \<and> au_digest active = dig a"
    using assms \<open>j = i\<close>
    by (cases who) (auto simp: release_pin_scoped_def pin_row_def split: option.splits sum.splits if_splits)
  ultimately show ?thesis by simp
qed

theorem publication_pin_needs_authority_witness:
  "let s = fst (acquire_authority sample_authority store_new)\<lparr>pins := [(9, publication_pin sample_publication)]\<rparr>
   in map_of (pins (fst (release_pin_scoped id 9 (Coordinator (sample_digest 1)) s))) 9
        \<noteq> Some (publication_pin sample_publication)
      \<and> (\<exists>active. active_authority s = Inr (Some active) \<and> au_digest active = sample_digest 1)"
proof -
  let ?s = "fst (acquire_authority sample_authority store_new)\<lparr>pins := [(9, publication_pin sample_publication)]\<rparr>"
  let ?t = "fst (release_pin_scoped id 9 (Coordinator (sample_digest 1)) ?s)"
  have p: "map_of (pins ?s) 9 = Some (publication_pin sample_publication)"
      "\<not> released (publication_pin sample_publication)"
      "pin_class (publication_pin sample_publication) = PUBLICATION_PIN_CLASS"
    by (simp_all add: publication_pin_def PUBLICATION_PIN_CLASS_def)
  have "active_authority ?s = Inr (Some sample_authority)"
    by (simp add: active_authority_def acquire_authority_def sample_authority_def store_new_def intern_def to_seq_def
        in_txn_def active_authority_key_def)
  then have t: "map_of (pins ?t) 9 \<noteq> Some (publication_pin sample_publication)"
    by (simp add: release_pin_scoped_def pin_row_def publication_pin_def sample_authority_def release_pin_def in_txn_def)
  from publication_pin_needs_authority [OF p this] t show ?thesis by (auto simp: Let_def)
qed

end
