(* ===== verification/Manifest.thy ===== *)
theory Manifest
  imports Canonical "HOL-Library.Product_Lexorder"
begin

text \<open>
  Result manifests: the record of \<open>rabs-protocol/src/result_identity.rs\<close> and its canonical bytes,
  \<open>rabs-cas/src/manifest_codec.rs\<close>. The reader is a buffer and a position, every field is read by
  \<open>reader_take\<close>, and each refusal is a value. The lossy text of an unexpected domain is kept as its bytes.

  The locale \<open>wire_field\<close> is the contract of a reading step: it returns a value exactly if the bytes
  ahead begin with a text of that value, and stops behind it. Steps in sequence, branches, and the
  loop over the outputs keep the contract.
\<close>

section \<open>Manifests\<close>

unbundle bit_operations_syntax

datatype result_kind = Success | DeterministicFailure

datatype output_role =
    Materializable
  | DepInfo
  | ProvisionalMetadata
  | BuildScriptMetadata
  | TestSideEffect

record logical_output =
  out_role :: output_role
  virtual_path :: "byte list"
  object :: typed_digest

record manifest =
  mf_action_key :: typed_digest
  mf_descriptor_digest :: typed_digest
  mf_key_epoch :: "32 word"
  mf_projection_epoch :: "32 word"
  mf_result_kind :: result_kind
  artifact_bundle_root :: "typed_digest option"
  logical_outputs :: "logical_output list"
  semantic_result_digest :: typed_digest
  observable_result_digest :: typed_digest

fun duplicate_output :: "logical_output list \<Rightarrow> bool" where
  "duplicate_output [] = False"
| "duplicate_output (a # rest) =
     (list_ex (\<lambda>b. out_role a = out_role b \<and> virtual_path a = virtual_path b) rest \<or> duplicate_output rest)"

definition validate :: "manifest \<Rightarrow> string + unit" where
  "validate m =
     (if mf_result_kind m = DeterministicFailure \<and> logical_outputs m \<noteq> []
      then Inl ''deterministic failures must have an empty output map''
      else if mf_result_kind m = DeterministicFailure \<and> artifact_bundle_root m \<noteq> None
      then Inl ''deterministic failures must have no artifact bundle root''
      else if duplicate_output (logical_outputs m)
      then Inl ''duplicate (role, virtual_path) in logical-output map''
      else Inr ())"

datatype divergence_class =
    IdempotentSameResult
  | SemanticDivergence
  | ObservableOnlyDivergence
  | ProjectionCompletenessIncident

definition classify_same_key_candidate ::
  "manifest \<Rightarrow> typed_digest \<Rightarrow> manifest \<Rightarrow> typed_digest \<Rightarrow> divergence_class" where
  "classify_same_key_candidate committed committed_id candidate candidate_id =
     (if committed_id = candidate_id then IdempotentSameResult
      else if semantic_result_digest committed \<noteq> semantic_result_digest candidate then SemanticDivergence
      else if observable_result_digest committed \<noteq> observable_result_digest candidate
      then ObservableOnlyDivergence
      else ProjectionCompletenessIncident)"

section \<open>Encoding\<close>

definition DOMAIN_ARTIFACT_BUNDLE_ROOT :: string where
  "DOMAIN_ARTIFACT_BUNDLE_ROOT = ''rabs.artifact-bundle-root.v1''"

definition ATP_OBJECT_CONTENT_DOMAIN :: string where
  "ATP_OBJECT_CONTENT_DOMAIN = ''rabs.object.sha256.v1''"

definition SEMANTIC_PROJECTION_DOMAIN :: string where
  "SEMANTIC_PROJECTION_DOMAIN = ''rabs.semantic-result-projection.sha256.v1''"

definition OBSERVABLE_PROJECTION_DOMAIN :: string where
  "OBSERVABLE_PROJECTION_DOMAIN = ''rabs.observable-result-projection.sha256.v1''"

definition MAGIC :: "byte list" where
  "MAGIC = str_bytes ''RMF1''"

definition VERSION :: byte where
  "VERSION = 1"

definition ALGO_SHA256_V1 :: byte where
  "ALGO_SHA256_V1 = 1"

datatype manifest_codec_error =
    BadMagic
  | UnsupportedVersion byte
  | Truncated string
  | TrailingBytes nat
  | UnexpectedDomain string string "byte list"
  | UnknownAlgorithm byte
  | UnknownResultKind byte
  | UnknownOutputRole byte
  | LengthOverflow string

fun result_kind_tag :: "result_kind \<Rightarrow> byte" where
  "result_kind_tag Success = 0"
| "result_kind_tag DeterministicFailure = 1"

definition result_kind_from_tag :: "byte \<Rightarrow> result_kind option" where
  "result_kind_from_tag t = (if t = 0 then Some Success else if t = 1 then Some DeterministicFailure else None)"

fun output_role_tag :: "output_role \<Rightarrow> byte" where
  "output_role_tag Materializable = 0"
| "output_role_tag DepInfo = 1"
| "output_role_tag ProvisionalMetadata = 2"
| "output_role_tag BuildScriptMetadata = 3"
| "output_role_tag TestSideEffect = 4"

definition output_role_from_tag :: "byte \<Rightarrow> output_role option" where
  "output_role_from_tag t =
     (if t = 0 then Some Materializable else if t = 1 then Some DepInfo
      else if t = 2 then Some ProvisionalMetadata else if t = 3 then Some BuildScriptMetadata
      else if t = 4 then Some TestSideEffect else None)"

definition canonical_outputs :: "manifest \<Rightarrow> logical_output list" where
  "canonical_outputs m = sort_key (\<lambda>v. (output_role_tag (out_role v), virtual_path v)) (logical_outputs m)"

definition be_bytes :: "nat \<Rightarrow> 'a :: len word \<Rightarrow> byte list" where
  "be_bytes n w = rev (le_bytes n w)"

definition be_word :: "byte list \<Rightarrow> 'a :: len word" where
  "be_word bs = le_word (rev bs)"

text \<open>The \<open>try_from(len).unwrap_or(MAX)\<close> of the length fields.\<close>

definition len_or_max :: "nat \<Rightarrow> 'a :: len word" where
  "len_or_max n = (if n < 2 ^ LENGTH('a) then of_nat n else - 1)"

definition put_digest :: "byte list \<Rightarrow> typed_digest \<Rightarrow> byte list" where
  "put_digest out d =
     out @ [ALGO_SHA256_V1] @ be_bytes 2 (len_or_max (length (str_bytes (domain d))) :: 16 word)
     @ str_bytes (domain d) @ bytes d"

definition put_output :: "byte list \<Rightarrow> logical_output \<Rightarrow> byte list" where
  "put_output out v =
     put_digest (out @ [output_role_tag (out_role v)]
       @ be_bytes 4 (len_or_max (length (virtual_path v)) :: 32 word) @ virtual_path v) (object v)"

definition encode_manifest_v1 :: "manifest \<Rightarrow> byte list" where
  "encode_manifest_v1 m =
     (let out = MAGIC @ [VERSION];
          out = put_digest out (mf_action_key m);
          out = put_digest out (mf_descriptor_digest m);
          out = out @ be_bytes 4 (mf_key_epoch m) @ be_bytes 4 (mf_projection_epoch m)
            @ [result_kind_tag (mf_result_kind m)];
          out = (case artifact_bundle_root m of None \<Rightarrow> out @ [0] | Some root \<Rightarrow> put_digest (out @ [1]) root);
          outputs = canonical_outputs m;
          out = out @ be_bytes 4 (len_or_max (length outputs) :: 32 word);
          out = foldl put_output out outputs;
          out = put_digest out (semantic_result_digest m)
      in put_digest out (observable_result_digest m))"

section \<open>Decoding\<close>

record reader =
  rbytes :: "byte list"
  at :: nat

type_synonym 'a parsed = "manifest_codec_error + 'a \<times> reader"

definition reader_new :: "byte list \<Rightarrow> reader" where
  "reader_new bs = \<lparr>rbytes = bs, at = 0\<rparr>"

definition and_then :: "'a parsed \<Rightarrow> ('a \<Rightarrow> reader \<Rightarrow> manifest_codec_error + 'b) \<Rightarrow> manifest_codec_error + 'b" where
  "and_then p f = (case p of Inl e \<Rightarrow> Inl e | Inr (x, r) \<Rightarrow> f x r)"

definition reader_take :: "nat \<Rightarrow> string \<Rightarrow> reader \<Rightarrow> byte list parsed" where
  "reader_take n field r =
     (if at r + n \<ge> 2 ^ 64 then Inl (LengthOverflow field)
      else if at r + n > length (rbytes r) then Inl (Truncated field)
      else Inr (take n (drop (at r) (rbytes r)), r\<lparr>at := at r + n\<rparr>))"

definition reader_u8 :: "string \<Rightarrow> reader \<Rightarrow> byte parsed" where
  "reader_u8 field r = and_then (reader_take 1 field r) (\<lambda>bs r. Inr (bs ! 0, r))"

definition reader_u16 :: "string \<Rightarrow> reader \<Rightarrow> 16 word parsed" where
  "reader_u16 field r = and_then (reader_take 2 field r) (\<lambda>bs r. Inr (be_word bs, r))"

definition reader_u32 :: "string \<Rightarrow> reader \<Rightarrow> 32 word parsed" where
  "reader_u32 field r = and_then (reader_take 4 field r) (\<lambda>bs r. Inr (be_word bs, r))"

definition reader_digest :: "string \<Rightarrow> string \<Rightarrow> reader \<Rightarrow> typed_digest parsed" where
  "reader_digest field expected r =
     and_then (reader_u8 field r) (\<lambda>algo r.
       if algo \<noteq> ALGO_SHA256_V1 then Inl (UnknownAlgorithm algo)
       else and_then (reader_u16 field r) (\<lambda>len r.
         and_then (reader_take (unat len) field r) (\<lambda>dm r.
           if dm \<noteq> str_bytes expected then Inl (UnexpectedDomain field expected dm)
           else and_then (reader_take 32 field r) (\<lambda>bs r. Inr (\<lparr>domain = expected, bytes = bs\<rparr>, r)))))"

definition read_bundle_root :: "reader \<Rightarrow> typed_digest option parsed" where
  "read_bundle_root r =
     and_then (reader_u8 ''bundle_root_present'' r) (\<lambda>present r.
       if present = 0 then Inr (None, r)
       else if present = 1
       then and_then (reader_digest ''bundle_root'' DOMAIN_ARTIFACT_BUNDLE_ROOT r) (\<lambda>root r. Inr (Some root, r))
       else Inl (UnknownResultKind present))"

definition read_output :: "reader \<Rightarrow> logical_output parsed" where
  "read_output r =
     and_then (reader_u8 ''output_role'' r) (\<lambda>tag r.
       case output_role_from_tag tag of
         None \<Rightarrow> Inl (UnknownOutputRole tag)
       | Some role \<Rightarrow>
           and_then (reader_u32 ''output_path_len'' r) (\<lambda>len r.
             and_then (reader_take (unat len) ''output_path'' r) (\<lambda>path r.
               and_then (reader_digest ''output_object'' ATP_OBJECT_CONTENT_DOMAIN r) (\<lambda>obj r.
                 Inr (\<lparr>out_role = role, virtual_path = path, object = obj\<rparr>, r)))))"

fun read_many :: "(reader \<Rightarrow> 'a parsed) \<Rightarrow> nat \<Rightarrow> reader \<Rightarrow> 'a list parsed" where
  "read_many get 0 r = Inr ([], r)"
| "read_many get (Suc n) r = and_then (get r) (\<lambda>x r. and_then (read_many get n r) (\<lambda>xs r. Inr (x # xs, r)))"

text \<open>The fields \<open>decode_manifest_v1\<close> reads before its check for trailing bytes.\<close>

definition read_manifest :: "reader \<Rightarrow> manifest parsed" where
  "read_manifest r =
     and_then (reader_take 4 ''magic'' r) (\<lambda>magic r.
       if magic \<noteq> MAGIC then Inl BadMagic
       else and_then (reader_u8 ''version'' r) (\<lambda>version r.
         if version \<noteq> VERSION then Inl (UnsupportedVersion version)
         else
           and_then (reader_digest ''action_key'' DOMAIN_ACTION_KEY r) (\<lambda>action_key r.
           and_then (reader_digest ''descriptor'' DOMAIN_DESCRIPTOR r) (\<lambda>descriptor r.
           and_then (reader_u32 ''key_epoch'' r) (\<lambda>epoch r.
           and_then (reader_u32 ''projection_epoch'' r) (\<lambda>projection r.
           and_then (reader_u8 ''result_kind'' r) (\<lambda>tag r.
             case result_kind_from_tag tag of
               None \<Rightarrow> Inl (UnknownResultKind tag)
             | Some kind \<Rightarrow>
                 and_then (read_bundle_root r) (\<lambda>root r.
                 and_then (reader_u32 ''output_count'' r) (\<lambda>count r.
                 and_then (read_many read_output (unat count) r) (\<lambda>outputs r.
                 and_then (reader_digest ''semantic_digest'' SEMANTIC_PROJECTION_DOMAIN r) (\<lambda>semantic r.
                 and_then (reader_digest ''observable_digest'' OBSERVABLE_PROJECTION_DOMAIN r) (\<lambda>observable r.
                   Inr (\<lparr>mf_action_key = action_key, mf_descriptor_digest = descriptor, mf_key_epoch = epoch,
                     mf_projection_epoch = projection, mf_result_kind = kind, artifact_bundle_root = root,
                     logical_outputs = outputs, semantic_result_digest = semantic,
                     observable_result_digest = observable\<rparr>, r)))))))))))))"

definition decode_manifest_v1 :: "byte list \<Rightarrow> manifest_codec_error + manifest" where
  "decode_manifest_v1 bs =
     and_then (read_manifest (reader_new bs)) (\<lambda>m r.
       if at r \<noteq> length bs then Inl (TrailingBytes (length bs - at r)) else Inr m)"

section \<open>Reading what was written\<close>

text \<open>A reader of the buffer \<open>b\<close> with \<open>w\<close> left to read.\<close>

definition before :: "byte list \<Rightarrow> byte list \<Rightarrow> reader" where
  "before b w = \<lparr>rbytes = b, at = length b - length w\<rparr>"

definition in_buf :: "byte list \<Rightarrow> byte list \<Rightarrow> bool" where
  "in_buf b w \<longleftrightarrow> suffix w b \<and> length b < 2 ^ 64"

lemma in_buf_append: "in_buf b (v @ w) \<Longrightarrow> in_buf b w"
  by (auto simp: in_buf_def dest: suffix_appendD)

lemma and_then_Inr: "and_then p f = Inr y \<longleftrightarrow> (\<exists>x r. p = Inr (x, r) \<and> f x r = Inr y)"
  by (auto simp: and_then_def split: sum.splits)

named_theorems wire \<open>steps that keep the contract of a reading step\<close>

locale wire_field =
  fixes get :: "reader \<Rightarrow> 'a parsed" and text_of :: "'a \<Rightarrow> byte list \<Rightarrow> bool"
  assumes reads: "in_buf b w \<Longrightarrow> get (before b w) = Inr (x, r) \<longleftrightarrow> (\<exists>v s. text_of x v \<and> w = v @ s \<and> r = before b s)"
begin

lemma reads_then:
  "in_buf b w \<Longrightarrow> and_then (get (before b w)) f = Inr y
     \<longleftrightarrow> (\<exists>x v s. text_of x v \<and> w = v @ s \<and> in_buf b s \<and> f x (before b s) = Inr y)"
  unfolding and_then_Inr reads using in_buf_append by blast

lemma then_wire:
  assumes "\<And>x. wire_field (h x) (R x)"
  shows "wire_field (\<lambda>r. and_then (get r) h) (\<lambda>y v. \<exists>x v1 v2. text_of x v1 \<and> R x y v2 \<and> v = v1 @ v2)"
proof
  fix b w y r
  assume b: "in_buf b w"
  note inner = wire_field.reads [OF assms]
  show "and_then (get (before b w)) h = Inr (y, r) \<longleftrightarrow>
      (\<exists>v s. (\<exists>x v1 v2. text_of x v1 \<and> R x y v2 \<and> v = v1 @ v2) \<and> w = v @ s \<and> r = before b s)"
    unfolding reads_then [OF b]
  proof
    assume "\<exists>x v s. text_of x v \<and> w = v @ s \<and> in_buf b s \<and> h x (before b s) = Inr (y, r)"
    then obtain x v1 s where x: "text_of x v1" "w = v1 @ s" "in_buf b s" "h x (before b s) = Inr (y, r)" by blast
    from x(4) [unfolded inner [OF x(3)]] obtain v2 t where "R x y v2" "s = v2 @ t" "r = before b t" by blast
    with x(1,2) show "\<exists>v s. (\<exists>x v1 v2. text_of x v1 \<and> R x y v2 \<and> v = v1 @ v2) \<and> w = v @ s \<and> r = before b s"
      by (intro exI [of _ "v1 @ v2"] exI [of _ t]) auto
  next
    assume "\<exists>v s. (\<exists>x v1 v2. text_of x v1 \<and> R x y v2 \<and> v = v1 @ v2) \<and> w = v @ s \<and> r = before b s"
    then obtain x v1 v2 t where x: "text_of x v1" "R x y v2" "w = v1 @ v2 @ t" "r = before b t" by auto
    with b have "in_buf b (v2 @ t)" using in_buf_append by blast
    with x inner [OF this, of x y r]
    show "\<exists>x v s. text_of x v \<and> w = v @ s \<and> in_buf b s \<and> h x (before b s) = Inr (y, r)" by blast
  qed
qed

end

lemma wire_eqI: "wire_field g R \<Longrightarrow> (\<And>x v. R x v \<longleftrightarrow> S x v) \<Longrightarrow> wire_field g S"
  by (simp add: wire_field_def)

lemma done_wire [wire]: "wire_field (\<lambda>r. Inr (y, r)) (\<lambda>x v. x = y \<and> v = [])"
  by unfold_locales auto

lemma error_wire [wire]: "wire_field (\<lambda>r. Inl e) (\<lambda>_ _. False)"
  by unfold_locales auto

lemma if_wire [wire]:
  "wire_field f R \<Longrightarrow> wire_field g S \<Longrightarrow>
     wire_field (\<lambda>r. if c then f r else g r) (\<lambda>x v. if c then R x v else S x v)"
  by (simp add: wire_field_def)

lemma case_wire [wire]:
  "wire_field f R \<Longrightarrow> (\<And>y. wire_field (g y) (S y)) \<Longrightarrow>
     wire_field (\<lambda>r. case c of None \<Rightarrow> f r | Some y \<Rightarrow> g y r)
       (\<lambda>x v. case c of None \<Rightarrow> R x v | Some y \<Rightarrow> S y x v)"
  by (cases c) simp_all

lemma many_wire [wire]:
  assumes "wire_field get R"
  shows "wire_field (read_many get n) (\<lambda>xs v. length xs = n \<and> (\<exists>vs. list_all2 R xs vs \<and> v = concat vs))"
proof (induction n)
  case 0
  have "read_many get 0 = (\<lambda>r. Inr ([], r))" by (rule ext) simp
  then show ?case by (simp only:) (rule wire_eqI [OF done_wire], auto)
next
  case (Suc n)
  have "wire_field (\<lambda>r. and_then (get r) (\<lambda>x r. and_then (read_many get n r) (\<lambda>xs r. Inr (x # xs, r))))
      (\<lambda>xs v. \<exists>x v1 v2. R x v1 \<and> (\<exists>ys w1 w2. (length ys = n \<and> (\<exists>vs. list_all2 R ys vs \<and> w1 = concat vs))
         \<and> (xs = x # ys \<and> w2 = []) \<and> v2 = w1 @ w2) \<and> v = v1 @ v2)"
    by (intro wire_field.then_wire [OF assms] wire_field.then_wire [OF Suc.IH] done_wire)
  moreover have "read_many get (Suc n) = (\<lambda>r. and_then (get r) (\<lambda>x r. and_then (read_many get n r) (\<lambda>xs r. Inr (x # xs, r))))"
    by (rule ext) simp
  ultimately show ?case
    by (simp only:) (erule wire_eqI, fastforce simp: length_Suc_conv list_all2_Cons1)
qed

interpretation taken: wire_field "reader_take n field" "\<lambda>x v. v = x \<and> length x = n" for n field
proof
  fix b w x r
  assume "in_buf b w"
  then obtain p where p: "b = p @ w" "length b < 2 ^ 64" by (auto simp: in_buf_def suffix_def)
  show "reader_take n field (before b w) = Inr (x, r)
      \<longleftrightarrow> (\<exists>v s. (v = x \<and> length x = n) \<and> w = v @ s \<and> r = before b s)"
  proof
    assume "reader_take n field (before b w) = Inr (x, r)"
    then have "n \<le> length w" "x = take n w" "r = \<lparr>rbytes = b, at = length p + n\<rparr>"
      using p by (auto simp: reader_take_def before_def split: if_splits)
    then show "\<exists>v s. (v = x \<and> length x = n) \<and> w = v @ s \<and> r = before b s"
      using p by (intro exI [of _ x] exI [of _ "drop n w"]) (simp add: before_def)
  qed (use p in \<open>auto simp: reader_take_def before_def\<close>)
qed

lemmas seq_wire [wire] = wire_field.then_wire
lemmas take_wire [wire] = taken.wire_field_axioms

lemma length_be_bytes [simp]: "length (be_bytes n w) = n"
  by (simp add: be_bytes_def)

lemma be_word_bytes: "LENGTH('a) \<le> 8 * n \<Longrightarrow> be_word (be_bytes n w) = (w :: 'a :: len word)"
  by (simp add: be_word_def be_bytes_def le_word_bytes)

lemma le_bytes_word: "LENGTH('a) = 8 * length bs \<Longrightarrow> le_bytes (length bs) (le_word bs :: 'a :: len word) = bs"
proof (rule nth_equalityI)
  fix j
  assume a: "LENGTH('a) = 8 * length bs" "j < length (le_bytes (length bs) (le_word bs :: 'a word))"
  show "le_bytes (length bs) (le_word bs :: 'a word) ! j = bs ! j"
  proof (rule bit_word_eqI)
    fix i
    assume "i < LENGTH(8)"
    then have "(8 * j + i) div 8 = j" "(8 * j + i) mod 8 = i" by simp_all
    with a \<open>i < LENGTH(8)\<close> show "bit (le_bytes (length bs) (le_word bs :: 'a word) ! j) i = bit (bs ! j) i"
      by (auto simp: nth_le_bytes bit_simps bit_le_word)
  qed
qed simp

lemma be_bytes_word: "LENGTH('a) = 8 * n \<Longrightarrow> length bs = n \<Longrightarrow> be_bytes n (be_word bs :: 'a :: len word) = bs"
  using le_bytes_word [of "rev bs", where 'a = 'a] by (simp add: be_word_def be_bytes_def)

lemma be_text:
  "LENGTH('a) = 8 * n \<Longrightarrow> length bs = n \<and> x = be_word bs \<longleftrightarrow> bs = be_bytes n (x :: 'a :: len word)"
  using be_bytes_word [of n bs, where 'a = 'a] be_word_bytes [of n x] by auto

lemma u8_wire [wire]: "wire_field (reader_u8 field) (\<lambda>x v. v = [x])"
  unfolding reader_u8_def [abs_def]
  by (rule wire_eqI, rule wire, rule wire, rule wire) (auto simp: length_Suc_conv)

lemma u16_wire [wire]: "wire_field (reader_u16 field) (\<lambda>x v. v = be_bytes 2 x)"
  unfolding reader_u16_def [abs_def]
  by (rule wire_eqI, rule wire, rule wire, rule wire) (use be_text [of 2, where 'a = 16] in auto)

lemma u32_wire [wire]: "wire_field (reader_u32 field) (\<lambda>x v. v = be_bytes 4 x)"
  unfolding reader_u32_def [abs_def]
  by (rule wire_eqI, rule wire, rule wire, rule wire) (use be_text [of 4, where 'a = 32] in auto)

definition digest_in :: "string \<Rightarrow> typed_digest \<Rightarrow> bool" where
  "digest_in dm d \<longleftrightarrow> domain d = dm \<and> length (bytes d) = 32"

lemma len_or_max_eq: "n < 2 ^ LENGTH('a) \<Longrightarrow> unat len = n \<longleftrightarrow> len = (len_or_max n :: 'a :: len word)"
  by (auto simp: len_or_max_def unat_of_nat take_bit_eq_mod)

lemma len_or_max_unat: "n < 2 ^ LENGTH('a) \<Longrightarrow> unat (len_or_max n :: 'a :: len word) = n"
  using len_or_max_eq by blast

lemma len_or_max_of_unat: "len_or_max (unat w) = (w :: 'a :: len word)"
  using unat_bound [of w] by (simp add: len_or_max_def)

lemma put_digest_append: "put_digest out d = out @ put_digest [] d"
  by (simp add: put_digest_def)

lemma digest_wire:
  assumes "length dm < 2 ^ 16"
  shows "wire_field (reader_digest field dm) (\<lambda>d v. digest_in dm d \<and> v = put_digest [] d)"
  unfolding reader_digest_def [abs_def]
proof (rule wire_eqI, (rule wire)+)
  fix d v
  show "(\<exists>x v1 v2. v1 = [x] \<and> (if x \<noteq> ALGO_SHA256_V1 then False
        else \<exists>xa v1 v2a. v1 = be_bytes 2 (xa :: 16 word) \<and> (\<exists>xb v1 v2. (v1 = xb \<and> length xb = unat xa)
          \<and> (if xb \<noteq> str_bytes dm then False
             else \<exists>x v1 v2a. (v1 = x \<and> length x = 32) \<and> (d = \<lparr>domain = dm, bytes = x\<rparr> \<and> v2a = []) \<and> v2 = v1 @ v2a)
          \<and> v2a = v1 @ v2) \<and> v2 = v1 @ v2a) \<and> v = v1 @ v2)
     \<longleftrightarrow> digest_in dm d \<and> v = put_digest [] d"
    using assms len_or_max_unat [of "length (domain d)", where 'a = 16]
    by (auto simp: digest_in_def put_digest_def len_or_max_of_unat) metis
qed

lemma digest_wires [wire]:
  "wire_field (reader_digest field DOMAIN_ACTION_KEY) (\<lambda>d v. digest_in DOMAIN_ACTION_KEY d \<and> v = put_digest [] d)"
  "wire_field (reader_digest field DOMAIN_DESCRIPTOR) (\<lambda>d v. digest_in DOMAIN_DESCRIPTOR d \<and> v = put_digest [] d)"
  "wire_field (reader_digest field DOMAIN_ARTIFACT_BUNDLE_ROOT)
     (\<lambda>d v. digest_in DOMAIN_ARTIFACT_BUNDLE_ROOT d \<and> v = put_digest [] d)"
  "wire_field (reader_digest field ATP_OBJECT_CONTENT_DOMAIN)
     (\<lambda>d v. digest_in ATP_OBJECT_CONTENT_DOMAIN d \<and> v = put_digest [] d)"
  "wire_field (reader_digest field SEMANTIC_PROJECTION_DOMAIN)
     (\<lambda>d v. digest_in SEMANTIC_PROJECTION_DOMAIN d \<and> v = put_digest [] d)"
  "wire_field (reader_digest field OBSERVABLE_PROJECTION_DOMAIN)
     (\<lambda>d v. digest_in OBSERVABLE_PROJECTION_DOMAIN d \<and> v = put_digest [] d)"
  by (intro digest_wire; simp add: DOMAIN_ACTION_KEY_def DOMAIN_DESCRIPTOR_def DOMAIN_ARTIFACT_BUNDLE_ROOT_def
      ATP_OBJECT_CONTENT_DOMAIN_def SEMANTIC_PROJECTION_DOMAIN_def OBSERVABLE_PROJECTION_DOMAIN_def)+

definition put_bundle_root :: "byte list \<Rightarrow> typed_digest option \<Rightarrow> byte list" where
  "put_bundle_root out root = (case root of None \<Rightarrow> out @ [0] | Some d \<Rightarrow> put_digest (out @ [1]) d)"

lemma bundle_root_wire [wire]:
  "wire_field read_bundle_root
     (\<lambda>root v. pred_option (digest_in DOMAIN_ARTIFACT_BUNDLE_ROOT) root \<and> v = put_bundle_root [] root)"
  unfolding read_bundle_root_def [abs_def]
proof (rule wire_eqI, (rule wire)+)
  fix root v
  show "(\<exists>x v1 v2. v1 = [x] \<and> (if x = 0 then root = None \<and> v2 = []
        else if x = 1 then \<exists>d v1 v2a. (digest_in DOMAIN_ARTIFACT_BUNDLE_ROOT d \<and> v1 = put_digest [] d)
          \<and> (root = Some d \<and> v2a = []) \<and> v2 = v1 @ v2a
        else False) \<and> v = v1 @ v2)
     \<longleftrightarrow> pred_option (digest_in DOMAIN_ARTIFACT_BUNDLE_ROOT) root \<and> v = put_bundle_root [] root"
    using put_digest_append [of "[1]"]
    by (cases root) (auto simp: put_bundle_root_def split: if_splits, (metis zero_neq_one)+)
qed

definition output_ok :: "logical_output \<Rightarrow> bool" where
  "output_ok v \<longleftrightarrow> length (virtual_path v) < 2 ^ 32 \<and> digest_in ATP_OBJECT_CONTENT_DOMAIN (object v)"

lemma output_role_tags: "output_role_from_tag t = Some role \<longleftrightarrow> t = output_role_tag role"
  by (cases role) (auto simp: output_role_from_tag_def)

lemma result_kind_tags: "result_kind_from_tag t = Some kind \<longleftrightarrow> t = result_kind_tag kind"
  by (cases kind) (auto simp: result_kind_from_tag_def)

lemma put_output_append: "put_output out v = out @ put_output [] v"
  unfolding put_output_def by (metis append.assoc append_Nil put_digest_append)

lemma output_wire [wire]: "wire_field read_output (\<lambda>x v. output_ok x \<and> v = put_output [] x)"
  unfolding read_output_def [abs_def]
proof (rule wire_eqI, (rule wire)+)
  fix y v
  show "(\<exists>x v1 v2. v1 = [x] \<and> (case output_role_from_tag x of None \<Rightarrow> False
      | Some role \<Rightarrow> \<exists>xa v1 v2a. v1 = be_bytes 4 (xa :: 32 word) \<and> (\<exists>p v1 v2. (v1 = p \<and> length p = unat xa) \<and>
          (\<exists>d v1 v2a. (digest_in ATP_OBJECT_CONTENT_DOMAIN d \<and> v1 = put_digest [] d)
             \<and> (y = \<lparr>out_role = role, virtual_path = p, object = d\<rparr> \<and> v2a = []) \<and> v2 = v1 @ v2a)
          \<and> v2a = v1 @ v2) \<and> v2 = v1 @ v2a) \<and> v = v1 @ v2)
     \<longleftrightarrow> output_ok y \<and> v = put_output [] y" (is "?l \<longleftrightarrow> ?r")
  proof
    assume ?l
    then obtain t role p d and len :: "32 word" where "output_role_from_tag t = Some role" "length p = unat len"
      "digest_in ATP_OBJECT_CONTENT_DOMAIN d" "y = \<lparr>out_role = role, virtual_path = p, object = d\<rparr>"
      "v = t # be_bytes 4 len @ p @ put_digest [] d" by (auto split: option.splits)
    then show ?r using unat_bound [of len] put_digest_append [of "_ # _"]
      by (simp add: output_ok_def put_output_def output_role_tags len_or_max_of_unat)
  next
    assume ?r
    then have "output_role_from_tag (output_role_tag (out_role y)) = Some (out_role y)"
      "unat (len_or_max (length (virtual_path y)) :: 32 word) = length (virtual_path y)"
      by (simp_all add: output_role_tags output_ok_def len_or_max_unat)
    with \<open>?r\<close> show ?l
      by (auto simp: output_ok_def put_output_def put_digest_append [of "_ # _"])
        (intro exI [of _ "len_or_max (length (virtual_path y))"] conjI exI [of _ "virtual_path y"]
          exI [of _ "put_digest [] (object y)"] exI [of _ "object y"]; simp)
  qed
qed
definition manifest_ok :: "manifest \<Rightarrow> bool" where
  "manifest_ok m \<longleftrightarrow>
     digest_in DOMAIN_ACTION_KEY (mf_action_key m) \<and> digest_in DOMAIN_DESCRIPTOR (mf_descriptor_digest m)
     \<and> pred_option (digest_in DOMAIN_ARTIFACT_BUNDLE_ROOT) (artifact_bundle_root m)
     \<and> length (logical_outputs m) < 2 ^ 32 \<and> list_all output_ok (logical_outputs m)
     \<and> digest_in SEMANTIC_PROJECTION_DOMAIN (semantic_result_digest m)
     \<and> digest_in OBSERVABLE_PROJECTION_DOMAIN (observable_result_digest m)"

text \<open>The bytes of a manifest with its outputs in the order of the vector.\<close>

definition manifest_text :: "manifest \<Rightarrow> byte list" where
  "manifest_text m =
     MAGIC @ [VERSION] @ put_digest [] (mf_action_key m) @ put_digest [] (mf_descriptor_digest m)
     @ be_bytes 4 (mf_key_epoch m) @ be_bytes 4 (mf_projection_epoch m) @ [result_kind_tag (mf_result_kind m)]
     @ put_bundle_root [] (artifact_bundle_root m)
     @ be_bytes 4 (len_or_max (length (logical_outputs m)) :: 32 word)
     @ concat (map (put_output []) (logical_outputs m))
     @ put_digest [] (semantic_result_digest m) @ put_digest [] (observable_result_digest m)"

lemma list_all2_function:
  "list_all2 (\<lambda>x v. P x \<and> v = f x) xs vs \<longleftrightarrow> list_all P xs \<and> vs = map f xs"
  by (induction xs arbitrary: vs) (auto simp: list_all2_Cons1)

lemma length_MAGIC: "length MAGIC = 4"
  by (simp add: MAGIC_def)

lemma then_text: "A x v1 \<Longrightarrow> B x v2 \<Longrightarrow> \<exists>x w1 w2. A x w1 \<and> B x w2 \<and> v1 @ v2 = w1 @ w2"
  by blast

lemma last_text: "A x v \<Longrightarrow> B x [] \<Longrightarrow> \<exists>x w1 w2. A x w1 \<and> B x w2 \<and> v = w1 @ w2"
  by force

lemma else_text: "\<not> c \<Longrightarrow> Q \<Longrightarrow> if c then P else Q" by simp

lemma some_text: "c = Some y \<Longrightarrow> Q y \<Longrightarrow> case c of None \<Rightarrow> P | Some y \<Rightarrow> Q y" by simp

lemma manifest_wire: "wire_field read_manifest (\<lambda>m v. manifest_ok m \<and> v = manifest_text m)"
  unfolding read_manifest_def [abs_def]
proof (rule wire_eqI, (rule wire)+, goal_cases)
  case (1 m v)
  show ?case (is "?l \<longleftrightarrow> ?r")
  proof
    assume ?l
    then show ?r
      using unat_bound [where 'a = 32]
      by (auto simp: manifest_ok_def manifest_text_def list_all2_function result_kind_tags len_or_max_of_unat
          split: if_splits option.splits)
  next
    assume ?r
    then have "unat (len_or_max (length (logical_outputs m)) :: 32 word) = length (logical_outputs m)"
      "result_kind_from_tag (result_kind_tag (mf_result_kind m)) = Some (mf_result_kind m)"
      by (simp_all add: manifest_ok_def len_or_max_unat result_kind_tags)
    note c = this
    have v: "v = manifest_text m" and ok: "manifest_ok m" using \<open>?r\<close> by simp_all
    show ?l
      unfolding v manifest_text_def
      by (rule then_text [of _ MAGIC], simp add: length_MAGIC, rule else_text, simp,
          rule then_text [of _ VERSION], simp, rule else_text, simp,
          rule then_text [of _ "mf_action_key m"], use ok in \<open>simp add: manifest_ok_def\<close>,
          rule then_text [of _ "mf_descriptor_digest m"], use ok in \<open>simp add: manifest_ok_def\<close>,
          rule then_text [of _ "mf_key_epoch m"], simp,
          rule then_text [of _ "mf_projection_epoch m"], simp,
          rule then_text [of _ "result_kind_tag (mf_result_kind m)"], simp,
          rule some_text [OF c(2)],
          rule then_text [of _ "artifact_bundle_root m"], use ok in \<open>simp add: manifest_ok_def\<close>,
          rule then_text [of _ "len_or_max (length (logical_outputs m))"], simp,
          rule then_text [of _ "logical_outputs m"], use ok c(1) in \<open>simp add: manifest_ok_def list_all2_function\<close>,
          rule then_text [of _ "semantic_result_digest m"], use ok in \<open>simp add: manifest_ok_def\<close>,
          rule last_text [of _ "observable_result_digest m"], use ok in \<open>simp add: manifest_ok_def\<close>, simp)
  qed
qed

lemma decode_exact:
  assumes "length bs < 2 ^ 64"
  shows "decode_manifest_v1 bs = Inr m \<longleftrightarrow> manifest_ok m \<and> bs = manifest_text m"
proof -
  have r: "reader_new bs = before bs bs" "in_buf bs bs"
    using assms by (simp_all add: reader_new_def before_def in_buf_def)
  have stop: "at (before bs s) = length bs \<longleftrightarrow> s = []" if "bs = v @ s" for v s
    using that by (auto simp: before_def)
  show ?thesis
    unfolding decode_manifest_v1_def r(1) wire_field.reads_then [OF manifest_wire r(2)]
  proof
    assume "\<exists>x v s. (manifest_ok x \<and> v = manifest_text x) \<and> bs = v @ s \<and> in_buf bs s
      \<and> (if at (before bs s) \<noteq> length bs then Inl (TrailingBytes (length bs - at (before bs s))) else Inr x) = Inr m"
    then show "manifest_ok m \<and> bs = manifest_text m" using stop by (auto split: if_splits)
  next
    assume m: "manifest_ok m \<and> bs = manifest_text m"
    have "in_buf bs []" using assms by (simp add: in_buf_def)
    with m stop [of bs "[]"]
    show "\<exists>x v s. (manifest_ok x \<and> v = manifest_text x) \<and> bs = v @ s \<and> in_buf bs s
      \<and> (if at (before bs s) \<noteq> length bs then Inl (TrailingBytes (length bs - at (before bs s))) else Inr x) = Inr m"
      by (intro exI [of _ m] exI [of _ bs] exI [of _ "[]"]) simp
  qed
qed

lemma fold_put_output: "foldl put_output out xs = out @ concat (map (put_output []) xs)"
  by (induction xs arbitrary: out) (simp_all, metis append.assoc put_output_append)

lemma encode_text: "encode_manifest_v1 m = manifest_text (m\<lparr>logical_outputs := canonical_outputs m\<rparr>)"
proof -
  have root: "(case artifact_bundle_root m of None \<Rightarrow> out @ [0] | Some d \<Rightarrow> put_digest (out @ [1]) d)
      = out @ put_bundle_root [] (artifact_bundle_root m)" for out
    using put_digest_append [of "out @ [1]"] put_digest_append [of "[1]"]
    by (cases "artifact_bundle_root m") (simp_all add: put_bundle_root_def)
  show ?thesis
    unfolding encode_manifest_v1_def Let_def root fold_put_output manifest_text_def
    by (simp add: put_digest_append [of "_ @ _"] put_digest_append [of "_ # _"])
qed

lemma canonical_outputs_mset: "set (canonical_outputs m) = set (logical_outputs m)"
  "length (canonical_outputs m) = length (logical_outputs m)"
  by (simp_all add: canonical_outputs_def)

lemma manifest_ok_canonical: "manifest_ok (m\<lparr>logical_outputs := canonical_outputs m\<rparr>) = manifest_ok m"
  by (simp add: manifest_ok_def canonical_outputs_mset list_all_iff)

text \<open>C29: A manifest survives storage. Decoding the canonical bytes of a well-typed manifest gives it back
  with its outputs in canonical order; every other field, the two result digests included, is unchanged.\<close>

theorem manifest_roundtrip:
  assumes "manifest_ok m" "length (encode_manifest_v1 m) < 2 ^ 64"
  shows "decode_manifest_v1 (encode_manifest_v1 m) = Inr (m\<lparr>logical_outputs := canonical_outputs m\<rparr>)"
  using decode_exact [OF assms(2)] assms(1) by (simp add: encode_text manifest_ok_canonical)

definition sample_manifest :: manifest where
  "sample_manifest =
     (let d = (\<lambda>dm. \<lparr>domain = dm, bytes = replicate 32 7\<rparr>)
      in \<lparr>mf_action_key = d DOMAIN_ACTION_KEY, mf_descriptor_digest = d DOMAIN_DESCRIPTOR, mf_key_epoch = 1,
          mf_projection_epoch = 2, mf_result_kind = Success, artifact_bundle_root = None,
          logical_outputs =
            [\<lparr>out_role = DepInfo, virtual_path = [1], object = d ATP_OBJECT_CONTENT_DOMAIN\<rparr>,
             \<lparr>out_role = Materializable, virtual_path = [2], object = d ATP_OBJECT_CONTENT_DOMAIN\<rparr>],
          semantic_result_digest = d SEMANTIC_PROJECTION_DOMAIN,
          observable_result_digest = d OBSERVABLE_PROJECTION_DOMAIN\<rparr>)"

lemma sample_manifest_ok: "manifest_ok sample_manifest"
  by (simp add: manifest_ok_def sample_manifest_def digest_in_def output_ok_def Let_def)

lemma sample_manifest_small: "length (encode_manifest_v1 sample_manifest) < 2 ^ 64" "length (manifest_text sample_manifest) < 2 ^ 64"
  by (simp_all add: encode_text canonical_outputs_def manifest_text_def sample_manifest_def Let_def MAGIC_def put_digest_def
      put_bundle_root_def put_output_def DOMAIN_ACTION_KEY_def DOMAIN_DESCRIPTOR_def ATP_OBJECT_CONTENT_DOMAIN_def
      SEMANTIC_PROJECTION_DOMAIN_def OBSERVABLE_PROJECTION_DOMAIN_def)

theorem manifest_roundtrip_witness:
  "\<exists>m. decode_manifest_v1 (encode_manifest_v1 sample_manifest) = Inr m \<and> mf_projection_epoch m = 2
     \<and> map out_role (logical_outputs m) = [Materializable, DepInfo]"
  using manifest_roundtrip [OF sample_manifest_ok sample_manifest_small(1)]
  by (simp add: canonical_outputs_def) (simp add: sample_manifest_def Let_def)

text \<open>Decoding is exact and fails closed. Bytes are accepted only as a text of a well-typed manifest, with
  every byte accounted for, and they are that manifest's canonical bytes exactly if its outputs are in
  canonical order: the decoder does not check that order.\<close>

theorem manifest_decode_exact:
  assumes "length bs < 2 ^ 64" "decode_manifest_v1 bs = Inr m"
  shows "manifest_ok m \<and> (encode_manifest_v1 m = bs \<longleftrightarrow> canonical_outputs m = logical_outputs m)"
proof -
  from assms decode_exact have m: "manifest_ok m" "bs = manifest_text m" by blast+
  have "canonical_outputs m = logical_outputs m" if "encode_manifest_v1 m = bs"
  proof -
    from that have "decode_manifest_v1 bs = Inr (m\<lparr>logical_outputs := canonical_outputs m\<rparr>)"
      using decode_exact [OF assms(1)] m(1) by (simp add: encode_text manifest_ok_canonical)
    with assms(2) have "logical_outputs (m\<lparr>logical_outputs := canonical_outputs m\<rparr>) = logical_outputs m" by simp
    then show ?thesis by simp
  qed
  with m show ?thesis by (auto simp: encode_text)
qed

theorem manifest_decode_exact_witness:
  "decode_manifest_v1 (manifest_text sample_manifest) = Inr sample_manifest
   \<and> encode_manifest_v1 sample_manifest \<noteq> manifest_text sample_manifest"
proof -
  have d: "decode_manifest_v1 (manifest_text sample_manifest) = Inr sample_manifest"
    using decode_exact [OF sample_manifest_small(2)] sample_manifest_ok by simp
  moreover have "canonical_outputs sample_manifest \<noteq> logical_outputs sample_manifest"
    by (simp add: canonical_outputs_def sample_manifest_def Let_def)
  ultimately show ?thesis using manifest_decode_exact [OF sample_manifest_small(2) d] by simp
qed

lemma duplicate_output_iff:
  "duplicate_output xs \<longleftrightarrow> \<not> distinct (map (\<lambda>v. (output_role_tag (out_role v), virtual_path v)) xs)"
proof -
  have "output_role_tag r = output_role_tag r' \<longleftrightarrow> r = r'" for r r' by (cases r; cases r') simp_all
  then show ?thesis by (induction xs) (auto simp: list_ex_iff image_iff)
qed

lemma canonical_outputs_unique:
  assumes "validate m = Inr ()" "validate m' = Inr ()"
  shows "canonical_outputs m = canonical_outputs m' \<longleftrightarrow> set (logical_outputs m) = set (logical_outputs m')"
proof
  let ?k = "\<lambda>v. (output_role_tag (out_role v), virtual_path v)"
  assume eq: "set (logical_outputs m) = set (logical_outputs m')"
  have d: "distinct (map ?k (logical_outputs m))" "distinct (map ?k (logical_outputs m'))"
    using assms by (simp_all add: validate_def duplicate_output_iff split: if_splits)
  have "distinct (map ?k (canonical_outputs n))" if "distinct (map ?k (logical_outputs n))" for n
    using that by (simp add: canonical_outputs_def distinct_map)
  with d eq show "canonical_outputs m = canonical_outputs m'"
    by (intro map_sorted_distinct_set_unique [where f = ?k])
      (auto simp: canonical_outputs_mset distinct_map, simp_all add: canonical_outputs_def)
qed (metis canonical_outputs_mset(1))

text \<open>The canonical bytes are a function of the manifest's value and determine it: two valid manifests
  have the same bytes exactly if they agree in every field and have the same set of outputs, however
  their vectors were built.\<close>

theorem manifest_bytes_canonical:
  assumes "manifest_ok m" "manifest_ok m'" "validate m = Inr ()" "validate m' = Inr ()"
    and "length (encode_manifest_v1 m) < 2 ^ 64"
  shows "encode_manifest_v1 m = encode_manifest_v1 m' \<longleftrightarrow>
    m\<lparr>logical_outputs := []\<rparr> = m'\<lparr>logical_outputs := []\<rparr> \<and> set (logical_outputs m) = set (logical_outputs m')"
proof -
  let ?c = "\<lambda>m. m\<lparr>logical_outputs := canonical_outputs m\<rparr> :: manifest"
  have "?c m = ?c m'" if "encode_manifest_v1 m = encode_manifest_v1 m'"
  proof -
    have "decode_manifest_v1 (encode_manifest_v1 m) = Inr (?c n)"
      if "manifest_ok n" "encode_manifest_v1 n = encode_manifest_v1 m" for n
      using that decode_exact [OF assms(5), of "?c n"] by (simp add: encode_text manifest_ok_canonical)
    from this [OF assms(1)] this [OF assms(2)] that show ?thesis by simp
  qed
  then have "encode_manifest_v1 m = encode_manifest_v1 m' \<longleftrightarrow> ?c m = ?c m'" by (auto simp: encode_text)
  also have "\<dots> \<longleftrightarrow> m\<lparr>logical_outputs := []\<rparr> = m'\<lparr>logical_outputs := []\<rparr> \<and> canonical_outputs m = canonical_outputs m'"
    by (cases m; cases m') auto
  finally show ?thesis using canonical_outputs_unique [OF assms(3,4)] by simp
qed

theorem manifest_bytes_canonical_witness:
  "encode_manifest_v1 (sample_manifest\<lparr>logical_outputs := rev (logical_outputs sample_manifest)\<rparr>)
     = encode_manifest_v1 sample_manifest"
proof -
  let ?m = "sample_manifest\<lparr>logical_outputs := rev (logical_outputs sample_manifest)\<rparr>"
  have "manifest_ok ?m" using sample_manifest_ok by (simp add: manifest_ok_def list_all_iff)
  moreover have "validate sample_manifest = Inr ()" "validate ?m = Inr ()"
    by (simp_all add: validate_def sample_manifest_def Let_def)
  ultimately show ?thesis
    using manifest_bytes_canonical [OF sample_manifest_ok, of ?m] sample_manifest_small(1) by simp
qed

end
