(* ===== verification/Publication.thy ===== *)
theory Publication
  imports Gc Manifest
begin

text \<open>
  Admission of prepared results, \<open>rabs-cas/src/publication.rs\<close>, over the metadata store, with the bundle
  root of \<open>rabs-key/src/logical_output_map.rs\<close> and the authority types of
  \<open>rabs-protocol/src/generation.rs\<close>. The tables that only admission uses stand beside the metadata
  store in \<open>coordinator_store\<close>; they belong to the same SQL store. The hash and the manifest resolver
  are arguments, as the resolver is in the code. An operation on the store returns the store it leaves,
  also when it fails. Escaped paths in refusals are kept as bytes.
\<close>

section \<open>Authority\<close>

record coordinator_authority =
  cluster :: string
  credential_generation :: "64 word"
  coord_term :: "64 word"
  incarnation_id :: "128 word"

record action_generation =
  generation_id :: "128 word"
  per_key_ordinal :: "64 word"
  created_under_authority_digest :: typed_digest

record attempt_authority =
  coordinator :: coordinator_authority
  auth_action_key :: typed_digest
  auth_generation :: action_generation
  attempt_id :: "128 word"
  execution_lease_id :: "128 word"
  auth_renewal_seq :: "64 word"
  worker_peer_id :: string
  worker_boot_generation :: "64 word"
  worker_incarnation_id :: "128 word"

section \<open>Projections\<close>

definition AUTHORITY_DIGEST_DOMAIN :: string where
  "AUTHORITY_DIGEST_DOMAIN = ''rabs.coordinator-authority.sha256.v1''"

text \<open>The bytes \<open>Framing\<close> has fed to its hasher.\<close>

definition framing_field :: "byte list \<Rightarrow> byte list \<Rightarrow> byte list" where
  "framing_field bs h = h @ be_bytes 8 (of_nat (length bs) :: 64 word) @ bs"

definition framing_new :: "string \<Rightarrow> byte list" where
  "framing_new dm = framing_field (str_bytes dm) []"

definition framing_u64 :: "64 word \<Rightarrow> byte list \<Rightarrow> byte list" where
  "framing_u64 v h = framing_field (be_bytes 8 v) h"

definition framing_digest :: "typed_digest \<Rightarrow> byte list \<Rightarrow> byte list" where
  "framing_digest d h = framing_field (bytes d) (framing_field (str_bytes (domain d)) h)"

definition framing_finish :: "(byte list \<Rightarrow> byte list) \<Rightarrow> string \<Rightarrow> byte list \<Rightarrow> typed_digest" where
  "framing_finish sha256 dm h = \<lparr>domain = dm, bytes = sha256 h\<rparr>"

definition authority_digest :: "(byte list \<Rightarrow> byte list) \<Rightarrow> coordinator_authority \<Rightarrow> typed_digest" where
  "authority_digest sha256 a =
     framing_finish sha256 AUTHORITY_DIGEST_DOMAIN
       (framing_field (be_bytes 16 (incarnation_id a))
         (framing_u64 (coord_term a)
           (framing_u64 (credential_generation a)
             (framing_field (str_bytes (cluster a)) (framing_new AUTHORITY_DIGEST_DOMAIN)))))"

fun projection_kind_tag :: "result_kind \<Rightarrow> 64 word" where
  "projection_kind_tag Manifest.Success = 0"
| "projection_kind_tag Manifest.DeterministicFailure = 1"

fun projection_role_tag :: "output_role \<Rightarrow> 64 word" where
  "projection_role_tag Materializable = 0"
| "projection_role_tag DepInfo = 1"
| "projection_role_tag ProvisionalMetadata = 2"
| "projection_role_tag BuildScriptMetadata = 3"
| "projection_role_tag TestSideEffect = 4"

definition projection_outputs :: "manifest \<Rightarrow> logical_output list" where
  "projection_outputs m =
     sort_key (\<lambda>v. (projection_role_tag (out_role v), Manifest.virtual_path v)) (logical_outputs m)"

definition semantic_projection :: "manifest \<Rightarrow> byte list" where
  "semantic_projection m =
     (let h = framing_digest (mf_descriptor_digest m)
            (framing_digest (mf_action_key m) (framing_new SEMANTIC_PROJECTION_DOMAIN));
          h = framing_u64 (projection_kind_tag (mf_result_kind m))
            (framing_u64 (ucast (mf_projection_epoch m)) (framing_u64 (ucast (mf_key_epoch m)) h));
          h = (case artifact_bundle_root m of
                 None \<Rightarrow> framing_u64 0 h
               | Some root \<Rightarrow> framing_digest root (framing_u64 1 h));
          outputs = projection_outputs m;
          h = framing_u64 (of_nat (length outputs)) h
      in foldl (\<lambda>h v. framing_digest (object v)
           (framing_field (Manifest.virtual_path v) (framing_u64 (projection_role_tag (out_role v)) h))) h outputs)"

definition semantic_result_digest_v1 :: "(byte list \<Rightarrow> byte list) \<Rightarrow> manifest \<Rightarrow> typed_digest" where
  "semantic_result_digest_v1 sha256 m = framing_finish sha256 SEMANTIC_PROJECTION_DOMAIN (semantic_projection m)"

definition observable_result_digest_v1 ::
  "(byte list \<Rightarrow> byte list) \<Rightarrow> manifest \<Rightarrow> typed_digest \<Rightarrow> typed_digest" where
  "observable_result_digest_v1 sha256 m observations =
     framing_finish sha256 OBSERVABLE_PROJECTION_DOMAIN
       (framing_digest observations
         (framing_digest (semantic_result_digest_v1 sha256 m) (framing_new OBSERVABLE_PROJECTION_DOMAIN)))"

section \<open>Bundle root\<close>

fun role_tag :: "output_role \<Rightarrow> 32 word" where
  "role_tag Materializable = 1"
| "role_tag DepInfo = 2"
| "role_tag ProvisionalMetadata = 3"
| "role_tag BuildScriptMetadata = 4"
| "role_tag TestSideEffect = 5"

definition bundle_canonical :: "logical_output list \<Rightarrow> byte list" where
  "bundle_canonical outputs =
     (let rows = sort_key (\<lambda>v. (Manifest.virtual_path v, role_tag (out_role v))) outputs
      in foldl (\<lambda>e v. put_bytes (bytes (object v)) (put_str (domain (object v))
           (put_u32 (role_tag (out_role v)) (put_bytes (Manifest.virtual_path v) e))))
           (put_u64 (of_nat (length rows)) []) rows)"

definition compute_bundle_root :: "(byte list \<Rightarrow> byte list) \<Rightarrow> logical_output list \<Rightarrow> typed_digest option" where
  "compute_bundle_root sha256 outputs =
     (if outputs = [] then None
      else Some (compute sha256 DOMAIN_ARTIFACT_BUNDLE_ROOT (bundle_canonical outputs)))"

datatype bundle_root_error =
    Structural string
  | RootMismatch
  | MissingRoot

definition verify_manifest_bundle_root ::
  "(byte list \<Rightarrow> byte list) \<Rightarrow> manifest \<Rightarrow> bundle_root_error + unit" where
  "verify_manifest_bundle_root sha256 m =
     (case validate m of
        Inl e \<Rightarrow> Inl (Structural e)
      | Inr _ \<Rightarrow>
          case (artifact_bundle_root m, compute_bundle_root sha256 (logical_outputs m)) of
            (None, None) \<Rightarrow> Inr ()
          | (Some stored, Some expected) \<Rightarrow> if stored = expected then Inr () else Inl RootMismatch
          | (Some _, None) \<Rightarrow> Inl (Structural ''bundle root present with empty output map'')
          | (None, Some _) \<Rightarrow> Inl MissingRoot)"

section \<open>Offers\<close>

record evidence_bundle =
  ev_action_key :: typed_digest
  ev_manifest_id :: typed_digest
  execution_snapshot_root :: typed_digest
  observed_input_report :: typed_digest
  raw_process_evidence :: typed_digest
  provenance_receipt :: typed_digest
  incremental_snapshot :: "typed_digest option"

record provisional_ancestor_ref =
  ref_producer :: typed_digest
  ref_role :: output_role
  ref_path :: "byte list"
  consumed_object :: typed_digest

fun output_role_name :: "output_role \<Rightarrow> string" where
  "output_role_name Materializable = ''materializable''"
| "output_role_name DepInfo = ''dep-info''"
| "output_role_name ProvisionalMetadata = ''provisional-metadata''"
| "output_role_name BuildScriptMetadata = ''build-script-metadata''"
| "output_role_name TestSideEffect = ''test-side-effect''"

record offer =
  authority :: attempt_authority
  of_manifest :: manifest
  manifest_id :: typed_digest
  evidence :: evidence_bundle
  evidence_id :: typed_digest
  canonical_observations :: typed_digest
  of_ancestors :: "provisional_ancestor_ref list"

datatype offer_build_error =
    ManifestInvalid string
  | EvidenceManifestMismatch
  | BuildActionKeyMismatch
  | UndeclaredOutput "byte list"
  | DuplicateAncestorRef "byte list"
  | SelfAncestorRef
  | BundleRoot bundle_root_error

definition ancestor_key :: "provisional_ancestor_ref \<Rightarrow> string \<times> string \<times> byte list" where
  "ancestor_key a = (digest_key (ref_producer a), output_role_name (ref_role a), ref_path a)"

fun duplicate_neighbour :: "provisional_ancestor_ref list \<Rightarrow> byte list option" where
  "duplicate_neighbour (a # b # rest) =
     (if ref_producer a = ref_producer b \<and> ref_role a = ref_role b \<and> ref_path a = ref_path b
      then Some (ref_path b) else duplicate_neighbour (b # rest))"
| "duplicate_neighbour _ = None"

definition build ::
  "(byte list \<Rightarrow> byte list) \<Rightarrow> attempt_authority \<Rightarrow> manifest \<Rightarrow> typed_digest \<Rightarrow> evidence_bundle \<Rightarrow> typed_digest
     \<Rightarrow> typed_digest \<Rightarrow> (output_role \<times> byte list) list \<Rightarrow> provisional_ancestor_ref list
     \<Rightarrow> offer_build_error + offer" where
  "build sha256 auth m mid ev eid observations declared_outputs ancestors =
     (case validate m of
        Inl e \<Rightarrow> Inl (ManifestInvalid e)
      | Inr _ \<Rightarrow>
          let ancestors = sort_key ancestor_key ancestors
          in case duplicate_neighbour ancestors of
               Some p \<Rightarrow> Inl (DuplicateAncestorRef p)
             | None \<Rightarrow>
                 if list_ex (\<lambda>a. ref_producer a = mf_action_key m) ancestors then Inl SelfAncestorRef
                 else if ev_manifest_id ev \<noteq> mid then Inl EvidenceManifestMismatch
                 else if ev_action_key ev \<noteq> mf_action_key m \<or> auth_action_key auth \<noteq> mf_action_key m
                 then Inl BuildActionKeyMismatch
                 else
                   case find (\<lambda>v. (out_role v, Manifest.virtual_path v) \<notin> set declared_outputs) (logical_outputs m) of
                     Some v \<Rightarrow> Inl (UndeclaredOutput (Manifest.virtual_path v))
                   | None \<Rightarrow>
                       let m = m\<lparr>artifact_bundle_root := compute_bundle_root sha256 (logical_outputs m)\<rparr>
                       in case verify_manifest_bundle_root sha256 m of
                            Inl e \<Rightarrow> Inl (BundleRoot e)
                          | Inr _ \<Rightarrow>
                              let m = m\<lparr>semantic_result_digest := semantic_result_digest_v1 sha256 m\<rparr>;
                                  m = m\<lparr>observable_result_digest := observable_result_digest_v1 sha256 m observations\<rparr>
                              in Inr \<lparr>authority = auth, of_manifest = m, manifest_id = mid, evidence = ev,
                                   evidence_id = eid, canonical_observations = observations,
                                   of_ancestors = ancestors\<rparr>)"

section \<open>The coordinator's store\<close>

record action_entry =
  ae_key_epoch :: "32 word"
  ae_projection_epoch :: "32 word"

record incident_row =
  inc_class :: string
  inc_committed :: string
  inc_candidate :: string
  inc_evidence :: string
  inc_pin :: "128 word"
  inc_generation :: "128 word"
  inc_attempt :: "128 word"
  inc_detail :: string

record coordinator_store =
  meta :: store
  action_entries :: "(string \<times> (string \<times> action_entry)) list"
  adoption_edges :: "((string \<times> string \<times> byte list \<times> string) \<times> string) list"
  incidents :: "((string \<times> nat) \<times> incident_row) list"
  trust_evaluations :: "((string \<times> nat) \<times> string) list"
  provenance_edges :: "(string \<times> string \<times> string) list"
  decision_receipts :: "((string \<times> string \<times> nat) \<times> (string \<times> string)) list"

type_synonym 'a op = "coordinator_store \<Rightarrow> coordinator_store \<times> (store_error + 'a)"

definition on_meta :: "(store \<Rightarrow> store \<times> (store_error + 'a)) \<Rightarrow> 'a op" where
  "on_meta f s = (case f (meta s) of (m, r) \<Rightarrow> (s\<lparr>meta := m\<rparr>, r))"

text \<open>The \<open>?\<close> between two operations.\<close>

definition seq_op :: "'a op \<Rightarrow> 'b op \<Rightarrow> 'b op" where
  "seq_op f g s = (case f s of (s1, Inl e) \<Rightarrow> (s1, Inl e) | (s1, Inr _) \<Rightarrow> g s1)"

definition skip_op :: "unit op" where
  "skip_op s = (s, Inr ())"

definition upsert_action_entry :: "typed_digest \<Rightarrow> action_entry \<Rightarrow> unit op" where
  "upsert_action_entry k e s =
     (s\<lparr>meta := intern (domain k) (meta s),
        action_entries := AList.update (digest_key k) (domain k, e) (action_entries s)\<rparr>, Inr ())"

definition lookup_action :: "typed_digest \<Rightarrow> coordinator_store \<Rightarrow> store_error + action_entry option" where
  "lookup_action k s =
     (case map_of (action_entries s) (digest_key k) of
        None \<Rightarrow> Inr None
      | Some (dm, e) \<Rightarrow> if dm \<in> set (domains (meta s)) then Inr (Some e) else Inl (DomainNotInterned dm))"

definition published_manifest_key_str :: "string \<Rightarrow> coordinator_store \<Rightarrow> string option" where
  "published_manifest_key_str a s = map_option (\<lambda>p. digest_key (pe_manifest p)) (map_of (publications (meta s)) a)"

definition has_adoption_edge :: "string \<Rightarrow> string \<Rightarrow> byte list \<Rightarrow> string \<Rightarrow> string \<Rightarrow> coordinator_store \<Rightarrow> bool" where
  "has_adoption_edge producer role path from_key to_key s \<longleftrightarrow>
     map_of (adoption_edges s) (producer, role, path, from_key) = Some to_key"

definition list_provisional_ancestors :: "string \<Rightarrow> coordinator_store \<Rightarrow> provisional_ancestor_row list" where
  "list_provisional_ancestors consumer s =
     map (\<lambda>((_, producer, role, path), obj, ad). \<lparr>producer_action_key = producer, anc_role = role,
         virtual_path = path, anc_object_key = obj, adopted = ad\<rparr>)
       (sort_key fst (filter (\<lambda>((c, _), _). c = consumer) (ancestry (meta s))))"

definition add_quarantine :: "string \<Rightarrow> string \<Rightarrow> string \<Rightarrow> unit op" where
  "add_quarantine scope subject reason =
     on_meta (in_txn (\<lambda>s. Inr ((), s\<lparr>quarantines := AList.update (scope, subject) reason (quarantines s)\<rparr>)))"

definition set_serving_disposition_key :: "string \<Rightarrow> string \<Rightarrow> unit op" where
  "set_serving_disposition_key action disposition =
     on_meta (in_txn (\<lambda>s. Inr ((), s\<lparr>serving_states :=
        (if map_of (serving_states s) action \<noteq> None
         then AList.map_entry action (\<lambda>(_, v). (disposition, v)) (serving_states s)
         else (action, disposition, 1) # serving_states s)\<rparr>)))"

definition record_divergence_incident :: "typed_digest \<Rightarrow> string \<Rightarrow> nat \<Rightarrow> incident_row \<Rightarrow> unit op" where
  "record_divergence_incident auth action seq row s =
     (case to_seq seq ''seq'' of
        Inl e \<Rightarrow> (s, Inl e)
      | Inr sq \<Rightarrow>
          case require_active auth (meta s) of
            Inl e \<Rightarrow> (s, Inl e)
          | Inr _ \<Rightarrow>
              case map_of (incidents s) (action, sq) of
                Some stored \<Rightarrow> (s, if stored = row then Inr () else Inl (AppendConflict ''divergence_incidents''))
              | None \<Rightarrow> (s\<lparr>incidents := ((action, sq), row) # incidents s\<rparr>, Inr ()))"

definition latest_trust_evaluation :: "string \<Rightarrow> coordinator_store \<Rightarrow> string option" where
  "latest_trust_evaluation action s =
     (case rev (sort_key (snd \<circ> fst) (filter (\<lambda>((a, _), _). a = action) (trust_evaluations s))) of
        [] \<Rightarrow> None
      | (_, state) # _ \<Rightarrow> Some state)"

definition list_served_consumers :: "string \<Rightarrow> coordinator_store \<Rightarrow> string list" where
  "list_served_consumers action s =
     sort (map (fst \<circ> snd) (filter (\<lambda>(f, _, kind). f = action \<and> kind = ''served-to'') (provenance_edges s)))"

definition record_decision_receipt :: "string \<Rightarrow> string \<Rightarrow> nat \<Rightarrow> string \<Rightarrow> string \<Rightarrow> unit op" where
  "record_decision_receipt kind subject seq decision reason s =
     (case to_seq seq ''seq'' of
        Inl e \<Rightarrow> (s, Inl e)
      | Inr sq \<Rightarrow>
          case map_of (decision_receipts s) (kind, subject, sq) of
            Some stored \<Rightarrow> (s, if stored = (decision, reason) then Inr () else Inl (AppendConflict ''decision_receipts''))
          | None \<Rightarrow> (s\<lparr>decision_receipts := ((kind, subject, sq), decision, reason) # decision_receipts s\<rparr>, Inr ()))"

section \<open>Refusals and outcomes\<close>

datatype offer_refusal =
    NotActiveAuthority
  | GenerationAuthorityMismatch
  | UnknownGeneration
  | GenerationTombstoned
  | UnknownAttempt
  | UnknownLease
  | LeaseReleased
  | DescriptorMismatch
  | ActionKeyMismatch
  | UnknownActionEntry
  | EpochMismatch
  | BundleRootMismatch bundle_root_error
  | SemanticDigestMismatch
  | ObservableDigestMismatch
  | IncompleteObjectClosure string
  | ObjectNotDurable string
  | CommittedManifestUnavailable
  | ProvisionalProducerNotCommitted string
  | AncestorManifestUnavailable string
  | AncestorOutputMissing string "byte list"
  | DivergentProvisionalAncestor string "byte list"
  | Store store_error

record consumer_escalation =
  consumer :: string
  trust_state :: string
  esc_decision :: string

record divergence_quarantine =
  dq_class :: divergence_class
  incident_seq :: nat
  candidate_pin_id :: "128 word"
  escalations :: "consumer_escalation list"

record publication_record =
  rec_action_key :: typed_digest
  rec_manifest_id :: typed_digest
  rec_evidence_id :: typed_digest
  committed_causal_sequence :: nat

datatype publication_outcome =
    Committed publication_record
  | IdempotentEvidenceAppended
  | Quarantined divergence_quarantine

datatype commit_durability_profile = RequireDurableClosure | AcceptVolatileLocations

fun result_kind_to_tag :: "result_kind \<Rightarrow> Metadata_Store.result_kind_tag" where
  "result_kind_to_tag Manifest.Success = Metadata_Store.Success"
| "result_kind_to_tag Manifest.DeterministicFailure = Metadata_Store.DeterministicFailure"

section \<open>Provisional ancestry\<close>

record pending_check =
  pc_producer :: string
  pc_role :: string
  pc_path :: "byte list"
  pc_consumed :: string
  direct :: bool

text \<open>The checks of one reference: the row it is recorded as.\<close>

definition check_ancestor ::
  "(string \<Rightarrow> manifest option) \<Rightarrow> coordinator_store \<Rightarrow> pending_check \<Rightarrow> offer_refusal + provisional_ancestor_row" where
  "check_ancestor resolver s c =
     (case published_manifest_key_str (pc_producer c) s of
        None \<Rightarrow> Inl (ProvisionalProducerNotCommitted (pc_producer c))
      | Some mk \<Rightarrow>
          case resolver mk of
            None \<Rightarrow> Inl (AncestorManifestUnavailable (pc_producer c))
          | Some m \<Rightarrow>
              case find (\<lambda>v. output_role_name (out_role v) = pc_role c \<and> Manifest.virtual_path v = pc_path c)
                     (logical_outputs m) of
                None \<Rightarrow> Inl (AncestorOutputMissing (pc_producer c) (pc_path c))
              | Some v \<Rightarrow>
                  let committed_key = digest_key (object v);
                      row = (\<lambda>ad. \<lparr>producer_action_key = pc_producer c, anc_role = pc_role c,
                        virtual_path = pc_path c, anc_object_key = pc_consumed c, adopted = ad\<rparr>)
                  in if committed_key = pc_consumed c then Inr (row False)
                     else if has_adoption_edge (pc_producer c) (pc_role c) (pc_path c) (pc_consumed c) committed_key s
                     then Inr (row True)
                     else Inl (DivergentProvisionalAncestor (pc_producer c) (pc_path c)))"

definition lineage_checks :: "string \<Rightarrow> string set \<Rightarrow> coordinator_store \<Rightarrow> pending_check list" where
  "lineage_checks producer walked s =
     map (\<lambda>r. \<lparr>pc_producer = producer_action_key r, pc_role = anc_role r, pc_path = Metadata_Store.virtual_path r,
         pc_consumed = anc_object_key r, direct = False\<rparr>)
       (filter (\<lambda>r. producer_action_key r \<notin> walked) (list_provisional_ancestors producer s))"

function ancestry_loop ::
  "(string \<Rightarrow> manifest option) \<Rightarrow> coordinator_store \<Rightarrow> string set \<Rightarrow> pending_check list
     \<Rightarrow> offer_refusal + provisional_ancestor_row list" where
  "ancestry_loop resolver s walked [] = Inr []"
| "ancestry_loop resolver s walked (c # queue) =
     (case check_ancestor resolver s c of
        Inl e \<Rightarrow> Inl e
      | Inr row \<Rightarrow>
          let walked' = insert (pc_producer c) walked;
              queue' = (if pc_producer c \<in> walked then queue
                        else queue @ lineage_checks (pc_producer c) walked' s)
          in case ancestry_loop resolver s walked' queue' of
               Inl e \<Rightarrow> Inl e
             | Inr rows \<Rightarrow> Inr (if direct c then row # rows else rows))"
  by pat_completeness auto

lemma check_ancestor_published:
  "check_ancestor resolver s c = Inr row \<Longrightarrow> pc_producer c \<in> fst ` set (publications (meta s))"
  using map_of_eq_None_iff [of "publications (meta s)" "pc_producer c"]
  by (auto simp: check_ancestor_def published_manifest_key_str_def split: option.splits)

termination ancestry_loop
proof (relation "measures [\<lambda>(_, s, walked, _). card (fst ` set (publications (meta s)) - walked), \<lambda>(_, _, _, q). length q]")
  fix resolver :: "string \<Rightarrow> manifest option" and s walked c queue row walked' queue'
  assume a: "check_ancestor resolver s c = Inr row" "walked' = insert (pc_producer c) walked"
    "queue' = (if pc_producer c \<in> walked then queue else queue @ lineage_checks (pc_producer c) walked' s)"
  let ?p = "fst ` set (publications (meta s))"
  have "card (?p - insert (pc_producer c) walked) < card (?p - walked)" if "pc_producer c \<notin> walked"
    using that check_ancestor_published [OF a(1)] by (intro psubset_card_mono) auto
  then show "((resolver, s, walked', queue'), resolver, s, walked, c # queue)
      \<in> measures [\<lambda>(_, s, walked, _). card (fst ` set (publications (meta s)) - walked), \<lambda>(_, _, _, q). length q]"
    using a by (auto simp: insert_absorb)
qed simp

definition verify_provisional_ancestry ::
  "(string \<Rightarrow> manifest option) \<Rightarrow> offer \<Rightarrow> coordinator_store \<Rightarrow> offer_refusal + provisional_ancestor_row list" where
  "verify_provisional_ancestry resolver off s =
     ancestry_loop resolver s {}
       (map (\<lambda>a. \<lparr>pc_producer = digest_key (ref_producer a), pc_role = output_role_name (ref_role a),
          pc_path = ref_path a, pc_consumed = digest_key (consumed_object a), direct = True\<rparr>) (of_ancestors off))"

section \<open>Divergence\<close>

definition DISPOSITION_QUARANTINED :: string where
  "DISPOSITION_QUARANTINED = ''quarantined''"

definition DISPOSITION_PRESENTATION_QUARANTINED :: string where
  "DISPOSITION_PRESENTATION_QUARANTINED = ''presentation-quarantined''"

definition DIVERGENCE_EVIDENCE_PIN_CLASS :: string where
  "DIVERGENCE_EVIDENCE_PIN_CLASS = ''divergence-evidence''"

fun divergence_class_tag :: "divergence_class \<Rightarrow> string" where
  "divergence_class_tag IdempotentSameResult = ''idempotent''"
| "divergence_class_tag SemanticDivergence = ''semantic''"
| "divergence_class_tag ObservableOnlyDivergence = ''observable-only''"
| "divergence_class_tag ProjectionCompletenessIncident = ''projection-completeness''"

fun divergence_quarantine_reason :: "divergence_class \<Rightarrow> string" where
  "divergence_quarantine_reason IdempotentSameResult = ''same-key re-offer''"
| "divergence_quarantine_reason SemanticDivergence = ''semantic divergence: determinism/key-soundness incident''"
| "divergence_quarantine_reason ObservableOnlyDivergence = ''observable-only divergence: presentation quarantine''"
| "divergence_quarantine_reason ProjectionCompletenessIncident =
     ''projection completeness incident: equal digests, different manifests''"

definition escalation_decision :: "string \<Rightarrow> string" where
  "escalation_decision state =
     (if state = ''ci-policy-approved'' \<or> state = ''project-release-eligible'' then ''recall-and-reverify''
      else ''notify-and-reverify'')"

definition candidate_edges :: "offer \<Rightarrow> typed_digest list" where
  "candidate_edges off =
     evidence_id off # (case artifact_bundle_root (of_manifest off) of None \<Rightarrow> [] | Some root \<Rightarrow> [root])
     @ map object (logical_outputs (of_manifest off))"

definition add_candidate_edges :: "offer \<Rightarrow> unit op" where
  "add_candidate_edges off =
     foldr (\<lambda>d rest. seq_op (on_meta (add_object_edge (manifest_id off) d ''divergence-candidate'')) rest)
       (candidate_edges off) skip_op"

fun escalate :: "string \<Rightarrow> string \<Rightarrow> nat \<Rightarrow> string list \<Rightarrow> consumer_escalation list op" where
  "escalate action state seq [] s = (s, Inr [])"
| "escalate action state seq (c # cs) s =
     (case record_decision_receipt ''divergence-escalation'' c seq (escalation_decision state)
             (''semantic divergence on '' @ action @ ''; trust '' @ state) s of
        (s1, Inl e) \<Rightarrow> (s1, Inl e)
      | (s1, Inr _) \<Rightarrow>
          case escalate action state seq cs s1 of
            (s2, Inl e) \<Rightarrow> (s2, Inl e)
          | (s2, Inr es) \<Rightarrow>
              (s2, Inr (\<lparr>consumer = c, trust_state = state, esc_decision = escalation_decision state\<rparr> # es)))"

definition escalations_of :: "divergence_class \<Rightarrow> offer \<Rightarrow> nat \<Rightarrow> consumer_escalation list op" where
  "escalations_of cls off seq s =
     (let action = digest_key (mf_action_key (of_manifest off))
      in if cls = SemanticDivergence
         then escalate action
                (case latest_trust_evaluation action s of None \<Rightarrow> ''unevaluated'' | Some st \<Rightarrow> st)
                seq (list_served_consumers action s) s
         else (s, Inr []))"

definition incident_evidence :: "string \<Rightarrow> nat \<Rightarrow> string" where
  "incident_evidence action seq = ''divergence-incident:'' @ action @ '':'' @ show_nat seq"

definition quarantine_divergence ::
  "typed_digest \<Rightarrow> offer \<Rightarrow> divergence_class \<Rightarrow> string \<Rightarrow> 128 word \<Rightarrow> 128 word \<Rightarrow> 128 word \<Rightarrow> nat
     \<Rightarrow> divergence_quarantine op" where
  "quarantine_divergence auth off cls committed_key gen att pin seq =
     (let action = digest_key (mf_action_key (of_manifest off));
          candidate_key = digest_key (manifest_id off);
          reason = divergence_quarantine_reason cls
      in seq_op (add_quarantine ''action-entry'' action reason)
        (seq_op (set_serving_disposition_key action
            (if cls = ObservableOnlyDivergence then DISPOSITION_PRESENTATION_QUARANTINED
             else DISPOSITION_QUARANTINED))
        (seq_op (add_candidate_edges off)
        (seq_op (on_meta (create_pin pin (manifest_id off) ''coordinator'' DIVERGENCE_EVIDENCE_PIN_CLASS None
            (Some (incident_evidence action seq)) True reason))
        (seq_op (on_meta (append_evidence (mf_action_key (of_manifest off)) candidate_key (evidence_id off) gen att))
        (seq_op (record_divergence_incident auth action seq
            \<lparr>inc_class = divergence_class_tag cls, inc_committed = committed_key, inc_candidate = candidate_key,
             inc_evidence = digest_key (evidence_id off), inc_pin = pin, inc_generation = gen, inc_attempt = att,
             inc_detail = reason\<rparr>)
        (\<lambda>s. case escalations_of cls off seq s of
               (s1, Inl e) \<Rightarrow> (s1, Inl e)
             | (s1, Inr es) \<Rightarrow>
                 (s1, Inr \<lparr>dq_class = cls, incident_seq = seq, candidate_pin_id = pin, escalations = es\<rparr>))))))))"

section \<open>Admission\<close>

definition offer_closure :: "offer \<Rightarrow> typed_digest list" where
  "offer_closure off =
     [manifest_id off, evidence_id off]
     @ (case artifact_bundle_root (of_manifest off) of None \<Rightarrow> [] | Some root \<Rightarrow> [root])
     @ map object (logical_outputs (of_manifest off))
     @ [execution_snapshot_root (evidence off), observed_input_report (evidence off),
        raw_process_evidence (evidence off), provenance_receipt (evidence off)]
     @ (case incremental_snapshot (evidence off) of None \<Rightarrow> [] | Some sn \<Rightarrow> [sn])"

fun check_closure :: "commit_durability_profile \<Rightarrow> typed_digest list \<Rightarrow> store \<Rightarrow> offer_refusal option" where
  "check_closure durability [] s = None"
| "check_closure durability (d # ds) s =
     (if \<not> object_located d s then Some (IncompleteObjectClosure (digest_key d))
      else if durability = RequireDurableClosure \<and> \<not> object_durably_located d s
      then Some (ObjectNotDurable (digest_key d))
      else check_closure durability ds s)"

text \<open>Steps 1 to 7.5 of \<open>process_offer\<close>: they read the store and write nothing.\<close>

definition admit ::
  "(byte list \<Rightarrow> byte list) \<Rightarrow> offer \<Rightarrow> typed_digest \<Rightarrow> (string \<Rightarrow> manifest option)
     \<Rightarrow> commit_durability_profile \<Rightarrow> coordinator_store \<Rightarrow> offer_refusal + provisional_ancestor_row list" where
  "admit sha256 off expected_descriptor resolver durability s =
     (let m = of_manifest off; au = authority off; offered = authority_digest sha256 (coordinator au);
          gen = generation_id (auth_generation au)
      in case active_authority (meta s) of
           Inl e \<Rightarrow> Inl (Store e)
         | Inr active \<Rightarrow>
             if map_option au_digest active \<noteq> Some offered then Inl NotActiveAuthority
             else if created_under_authority_digest (auth_generation au) \<noteq> offered
             then Inl GenerationAuthorityMismatch
             else if generation_state gen (meta s) = None then Inl UnknownGeneration
             else if generation_state gen (meta s) = Some True then Inl GenerationTombstoned
             else if \<not> attempt_exists (attempt_id au) gen (meta s) then Inl UnknownAttempt
             else if lease_state (execution_lease_id au) (meta s) = None then Inl UnknownLease
             else if fst (the (lease_state (execution_lease_id au) (meta s))) then Inl LeaseReleased
             else if mf_descriptor_digest m \<noteq> expected_descriptor then Inl DescriptorMismatch
             else if mf_action_key m \<noteq> auth_action_key au then Inl ActionKeyMismatch
             else
               case lookup_action (mf_action_key m) s of
                 Inl e \<Rightarrow> Inl (Store e)
               | Inr None \<Rightarrow> Inl UnknownActionEntry
               | Inr (Some entry) \<Rightarrow>
                   if ae_key_epoch entry \<noteq> mf_key_epoch m \<or> ae_projection_epoch entry \<noteq> mf_projection_epoch m
                   then Inl EpochMismatch
                   else
                     case verify_manifest_bundle_root sha256 m of
                       Inl rule \<Rightarrow> Inl (BundleRootMismatch rule)
                     | Inr _ \<Rightarrow>
                         if semantic_result_digest_v1 sha256 m \<noteq> semantic_result_digest m
                         then Inl SemanticDigestMismatch
                         else if observable_result_digest_v1 sha256 m (canonical_observations off)
                                 \<noteq> observable_result_digest m
                         then Inl ObservableDigestMismatch
                         else
                           case check_closure durability (offer_closure off) (meta s) of
                             Some refusal \<Rightarrow> Inl refusal
                           | None \<Rightarrow> verify_provisional_ancestry resolver off s)"

definition store_result :: "coordinator_store \<times> (store_error + 'a) \<Rightarrow> ('a \<Rightarrow> 'b) \<Rightarrow> coordinator_store \<times> (offer_refusal + 'b)" where
  "store_result p f = (case p of (s, Inl e) \<Rightarrow> (s, Inl (Store e)) | (s, Inr x) \<Rightarrow> (s, Inr (f x)))"

definition divergence_of :: "manifest \<Rightarrow> manifest \<Rightarrow> divergence_class" where
  "divergence_of committed m =
     (if semantic_result_digest committed \<noteq> semantic_result_digest m then SemanticDivergence
      else if observable_result_digest committed \<noteq> observable_result_digest m then ObservableOnlyDivergence
      else ProjectionCompletenessIncident)"

definition publication_row_of :: "offer \<Rightarrow> 128 word \<Rightarrow> provisional_ancestor_row list \<Rightarrow> publication_row" where
  "publication_row_of off pin rows =
     \<lparr>pub_action = mf_action_key (of_manifest off), descriptor_digest = mf_descriptor_digest (of_manifest off),
      manifest_digest = manifest_id off, evidence_digest = evidence_id off,
      winner_generation = generation_id (auth_generation (authority off)),
      winner_attempt = attempt_id (authority off), result_kind = result_kind_to_tag (mf_result_kind (of_manifest off)),
      pin_id = pin, pin_owner = ''coordinator'', provisional_ancestors = rows\<rparr>"

definition process_offer ::
  "(byte list \<Rightarrow> byte list) \<Rightarrow> offer \<Rightarrow> typed_digest \<Rightarrow> (string \<Rightarrow> manifest option) \<Rightarrow> 128 word \<Rightarrow> nat
     \<Rightarrow> commit_durability_profile \<Rightarrow> coordinator_store \<Rightarrow> coordinator_store \<times> (offer_refusal + publication_outcome)" where
  "process_offer sha256 off expected_descriptor resolver pin seq durability s =
     (case admit sha256 off expected_descriptor resolver durability s of
        Inl e \<Rightarrow> (s, Inl e)
      | Inr rows \<Rightarrow>
          let m = of_manifest off; au = authority off; offered = authority_digest sha256 (coordinator au);
              gen = generation_id (auth_generation au); att = attempt_id au
          in case published_manifest_key_str (digest_key (mf_action_key m)) s of
               Some committed_key \<Rightarrow>
                 if committed_key = digest_key (manifest_id off)
                 then store_result (on_meta (append_evidence (mf_action_key m) committed_key (evidence_id off) gen att) s)
                        (\<lambda>_. IdempotentEvidenceAppended)
                 else
                   (case resolver committed_key of
                      None \<Rightarrow> (s, Inl CommittedManifestUnavailable)
                    | Some committed \<Rightarrow>
                        store_result (quarantine_divergence offered off (divergence_of committed m) committed_key
                          gen att pin seq s) Quarantined)
             | None \<Rightarrow>
                 (case on_meta (commit_publication offered (publication_row_of off pin rows)) s of
                    (s1, Inl e) \<Rightarrow> (s1, Inl (Store e))
                  | (s1, Inr Metadata_Store.Committed) \<Rightarrow>
                      (s1, Inr (Committed \<lparr>rec_action_key = mf_action_key m, rec_manifest_id = manifest_id off,
                        rec_evidence_id = evidence_id off, committed_causal_sequence = seq\<rparr>))
                  | (s1, Inr _) \<Rightarrow>
                      (s1, Inl (Store (Corruption ''publication row appeared during admission'')))))"

section \<open>What admission reads\<close>


lemma admit_Inr:
  assumes "admit sha256 off ed resolver durability s = Inr rows"
  defines "m \<equiv> of_manifest off" and "au \<equiv> authority off"
  shows "\<exists>active. active_authority (meta s) = Inr (Some active) \<and> au_digest active = authority_digest sha256 (coordinator au)"
    and "created_under_authority_digest (auth_generation au) = authority_digest sha256 (coordinator au)"
    and "generation_state (generation_id (auth_generation au)) (meta s) = Some False"
    and "attempt_exists (attempt_id au) (generation_id (auth_generation au)) (meta s)"
    and "\<exists>n. lease_state (execution_lease_id au) (meta s) = Some (False, n)"
    and "mf_descriptor_digest m = ed" "mf_action_key m = auth_action_key au"
    and "semantic_result_digest m = semantic_result_digest_v1 sha256 m"
    and "observable_result_digest m = observable_result_digest_v1 sha256 m (canonical_observations off)"
    and "check_closure durability (offer_closure off) (meta s) = None"
    and "verify_provisional_ancestry resolver off s = Inr rows"
  using assms(1) unfolding admit_def Let_def m_def [symmetric] au_def [symmetric]
  by (auto split: sum.splits option.splits if_splits)

lemma commit_committed:
  assumes "commit_publication au row s = (t, Inr Metadata_Store.Committed)"
  shows "map_of (publications s) (digest_key (pub_action row)) = None"
    and "publications t = (digest_key (pub_action row), publication_entry_of row) # publications s"
    and "pins t = (pin_id row, publication_pin row) # pins s"
    and "object_edges t = object_edges s" "locations t = locations s"
    and "ancestry t = fold (\<lambda>a. sql_insert_ignore (digest_key (pub_action row), producer_action_key a, anc_role a,
           Metadata_Store.virtual_path a) (anc_object_key a, adopted a)) (provisional_ancestors row) (ancestry s)"
  using assms
  by (auto simp: commit_publication_def in_txn_def commit_body_def Let_def sql_insert_def intern_def make_servable_def
      insert_evidence_def insert_ancestors_def split: sum.splits option.splits if_splits)

lemma process_offer_Committed:
  assumes "process_offer sha256 off ed resolver pin seq durability s = (t, Inr (Committed r))"
  shows "\<exists>rows m. admit sha256 off ed resolver durability s = Inr rows
    \<and> commit_publication (authority_digest sha256 (coordinator (authority off))) (publication_row_of off pin rows) (meta s)
        = (m, Inr Metadata_Store.Committed) \<and> t = s\<lparr>meta := m\<rparr>"
  using assms
  by (auto simp: process_offer_def Let_def store_result_def on_meta_def
      split: sum.splits option.splits if_splits prod.splits commit_outcome.splits)

section \<open>What admission writes\<close>

text \<open>\<open>keeps F f\<close>: the operation leaves the part \<open>F\<close> of the store alone, also when it fails.\<close>

definition keeps :: "(coordinator_store \<Rightarrow> 'b) \<Rightarrow> 'a op \<Rightarrow> bool" where
  "keeps F f \<longleftrightarrow> (\<forall>s. F (fst (f s)) = F s)"

lemma keeps_seq [intro]: "keeps F f \<Longrightarrow> keeps F g \<Longrightarrow> keeps F (seq_op f g)"
  by (auto simp: keeps_def seq_op_def split: prod.splits sum.splits) (metis fst_conv)+

lemma keeps_meta [intro]: "(\<And>m. G (fst (f m)) = G m) \<Longrightarrow> keeps (\<lambda>s. G (meta s)) (on_meta f)"
  by (auto simp: keeps_def on_meta_def split: prod.splits) (metis fst_conv)

lemma keeps_skip [intro]: "keeps F skip_op"
  by (simp add: keeps_def skip_op_def)

lemma record_divergence_incident_meta [simp]: "meta (fst (record_divergence_incident au a seq row s)) = meta s"
  by (auto simp: record_divergence_incident_def split: sum.splits option.splits)

lemma escalations_meta [simp]: "meta (fst (escalations_of cls off seq s)) = meta s"
proof -
  have r: "meta (fst (record_decision_receipt k c seq d w s)) = meta s" for k c seq d w s
    by (auto simp: record_decision_receipt_def split: sum.splits option.splits)
  have "meta (fst (escalate a st n cs s)) = meta s" for a st n cs s
  proof (induction cs arbitrary: s)
    case (Cons c cs)
    let ?rec = "record_decision_receipt ''divergence-escalation'' c n (escalation_decision st)
      (''semantic divergence on '' @ a @ ''; trust '' @ st) s"
    obtain s1 x where x: "?rec = (s1, x)" by (meson surj_pair)
    obtain s2 y where y: "escalate a st n cs s1 = (s2, y)" by (meson surj_pair)
    have "meta s1 = meta s" "meta s2 = meta s1"
      using r [of "''divergence-escalation''" c n _ _ s] x Cons.IH [of s1] y by (metis fst_conv)+
    then show ?case unfolding escalate.simps x by (cases x; cases y) (simp_all add: y)
  qed simp
  then show ?thesis by (simp add: escalations_of_def Let_def)
qed

lemma keeps_foldr: "(\<And>d. keeps F (h d)) \<Longrightarrow> keeps F (foldr (\<lambda>d rest. seq_op (h d) rest) ds skip_op)"
  by (induction ds) auto

lemma keeps_candidate_edges:
  "(\<And>d m. G (fst (add_object_edge (manifest_id off) d ''divergence-candidate'' m)) = G m) \<Longrightarrow>
     keeps (\<lambda>s. G (meta s)) (add_candidate_edges off)"
  unfolding add_candidate_edges_def by (intro keeps_foldr keeps_meta)

text \<open>The writes behind the two that quarantine.\<close>

lemma keeps_after_quarantine:
  assumes edge: "\<And>d m. G (fst (add_object_edge (manifest_id off) d ''divergence-candidate'' m)) = G m"
    and pin: "\<And>cls ev rs m. G (fst (create_pin pin (manifest_id off) ''coordinator'' cls None ev True rs m)) = G m"
    and evidence: "\<And>mk m. G (fst (append_evidence (mf_action_key (of_manifest off)) mk (evidence_id off) gen att m)) = G m"
    and "s2 = fst (set_serving_disposition_key (digest_key (mf_action_key (of_manifest off)))
      (if cls = ObservableOnlyDivergence then DISPOSITION_PRESENTATION_QUARANTINED else DISPOSITION_QUARANTINED)
      (fst (add_quarantine ''action-entry'' (digest_key (mf_action_key (of_manifest off)))
        (divergence_quarantine_reason cls) s)))"
  shows "G (meta (fst (quarantine_divergence au off cls ck gen att pin seq s))) = G (meta s2)"
proof -
  let ?a = "digest_key (mf_action_key (of_manifest off))" and ?r = "divergence_quarantine_reason cls"
  let ?row = "\<lparr>inc_class = divergence_class_tag cls, inc_committed = ck, inc_candidate = digest_key (manifest_id off),
    inc_evidence = digest_key (evidence_id off), inc_pin = pin, inc_generation = gen, inc_attempt = att, inc_detail = ?r\<rparr>"
  define rest where "rest = seq_op (add_candidate_edges off)
    (seq_op (on_meta (create_pin pin (manifest_id off) ''coordinator'' DIVERGENCE_EVIDENCE_PIN_CLASS None
        (Some (incident_evidence ?a seq)) True ?r))
    (seq_op (on_meta (append_evidence (mf_action_key (of_manifest off)) (digest_key (manifest_id off)) (evidence_id off) gen att))
    (seq_op (record_divergence_incident au ?a seq ?row)
    (\<lambda>s. case escalations_of cls off seq s of (s1, Inl e) \<Rightarrow> (s1, Inl e)
       | (s1, Inr es) \<Rightarrow> (s1, Inr \<lparr>dq_class = cls, incident_seq = seq, candidate_pin_id = pin, escalations = es\<rparr>)))))"
  have last: "keeps (\<lambda>s. G (meta s)) (\<lambda>s. case escalations_of cls off seq s of (s1, Inl e) \<Rightarrow> (s1, Inl e)
       | (s1, Inr es) \<Rightarrow> (s1, Inr \<lparr>dq_class = cls, incident_seq = seq, candidate_pin_id = pin, escalations = es\<rparr>))"
    unfolding keeps_def
  proof
    fix s
    obtain s1 x where x: "escalations_of cls off seq s = (s1, x)" by (meson surj_pair)
    then have "meta s1 = meta s" using escalations_meta [of cls off seq s] by simp
    then show "G (meta (fst (case escalations_of cls off seq s of (s1, Inl e) \<Rightarrow> (s1, Inl e)
       | (s1, Inr es) \<Rightarrow> (s1, Inr \<lparr>dq_class = cls, incident_seq = seq, candidate_pin_id = pin, escalations = es\<rparr>)))) = G (meta s)"
      by (cases x) (simp_all add: x)
  qed
  have incident: "keeps (\<lambda>s. G (meta s)) (record_divergence_incident au ?a seq ?row)" by (simp add: keeps_def)
  have "keeps (\<lambda>s. G (meta s)) rest"
    unfolding rest_def
    by (intro keeps_seq keeps_candidate_edges keeps_meta edge pin evidence incident last)
  moreover have "fst (quarantine_divergence au off cls ck gen att pin seq s) = fst (rest s2)"
    unfolding quarantine_divergence_def Let_def rest_def [symmetric] assms(4)
    by (simp add: seq_op_def add_quarantine_def set_serving_disposition_key_def on_meta_def in_txn_def)
  ultimately show ?thesis by (simp add: keeps_def)
qed

section \<open>Properties\<close>


text \<open>A divergent result never replaces the committed one. When an admitted offer names a published
  key with another manifest, the publication stays as it was, the action is quarantined and its
  serving state is no longer servable, whatever later write of the incident fails.\<close>

theorem divergent_offer_quarantines:
  assumes "admit sha256 off ed resolver durability s = Inr rows"
    and "published_manifest_key_str (digest_key (mf_action_key (of_manifest off))) s = Some ck"
    and "ck \<noteq> digest_key (manifest_id off)" "resolver ck = Some committed"
  shows "let a = digest_key (mf_action_key (of_manifest off));
             t = fst (process_offer sha256 off ed resolver pin seq durability s)
    in publications (meta t) = publications (meta s) \<and> map_of (quarantines (meta t)) (''action-entry'', a) \<noteq> None
       \<and> (\<exists>d v. map_of (serving_states (meta t)) a = Some (d, v) \<and> d \<noteq> ''servable'')"
proof -
  let ?a = "digest_key (mf_action_key (of_manifest off))"
  let ?cls = "divergence_of committed (of_manifest off)"
  let ?d = "if ?cls = ObservableOnlyDivergence then DISPOSITION_PRESENTATION_QUARANTINED else DISPOSITION_QUARANTINED"
  let ?s2 = "fst (set_serving_disposition_key ?a ?d
    (fst (add_quarantine ''action-entry'' ?a (divergence_quarantine_reason ?cls) s)))"
  let ?q = "quarantine_divergence (authority_digest sha256 (coordinator (authority off))) off ?cls ck
    (generation_id (auth_generation (authority off))) (attempt_id (authority off)) pin seq s"
  let ?G = "\<lambda>m. (publications m, quarantines m, serving_states m)"
  have t: "fst (process_offer sha256 off ed resolver pin seq durability s) = fst ?q"
    using assms by (auto simp: process_offer_def Let_def store_result_def split: prod.splits sum.splits)
  have "?G (meta (fst ?q)) = ?G (meta ?s2)"
    by (rule keeps_after_quarantine [where G = ?G, OF _ _ _ refl])
      (simp_all add: add_object_edge_def create_pin_def append_evidence_def fst_in_txn sql_insert_def sql_insert_ignore_def
        intern_def insert_evidence_def split: sum.splits)
  moreover have "publications (meta ?s2) = publications (meta s)" "map_of (quarantines (meta ?s2)) (''action-entry'', ?a) \<noteq> None"
      "\<exists>v. map_of (serving_states (meta ?s2)) ?a = Some (?d, v)"
    by (auto simp: set_serving_disposition_key_def add_quarantine_def on_meta_def in_txn_def map_of_map_entry update_conv'
        split: prod.splits)
  ultimately show ?thesis
    unfolding t Let_def by (auto simp: DISPOSITION_PRESENTATION_QUARANTINED_def DISPOSITION_QUARANTINED_def)
qed

text \<open>A typed refusal wrote nothing: unless the store itself failed, an offer that is not admitted
  leaves the store exactly as it was.\<close>

theorem refusals_write_nothing:
  assumes "process_offer sha256 off ed resolver pin seq durability s = (t, Inl e)" "\<And>x. e \<noteq> Store x"
  shows "t = s"
  using assms
  by (auto simp: process_offer_def Let_def store_result_def
      split: sum.splits option.splits if_splits prod.splits commit_outcome.splits)

section \<open>Lineage\<close>

definition lineage :: "coordinator_store \<Rightarrow> (string \<times> string) set" where
  "lineage s = {(c, p). \<exists>role path x. ((c, p, role, path), x) \<in> set (ancestry (meta s))}"

definition published_actions :: "coordinator_store \<Rightarrow> string set" where
  "published_actions s = fst ` set (publications (meta s))"

lemma list_ancestors_producers: "producer_action_key ` set (list_provisional_ancestors c s) = {p. (c, p) \<in> lineage s}"
proof -
  have "producer_action_key ` set (list_provisional_ancestors c s)
      = (\<lambda>r. fst (snd (fst r))) ` {r \<in> set (ancestry (meta s)). fst (fst r) = c}"
    unfolding list_provisional_ancestors_def set_map image_image set_sort set_filter
    by (intro image_cong) (auto split: prod.splits)
  also have "\<dots> = {p. (c, p) \<in> lineage s}" by (force simp: lineage_def)
  finally show ?thesis .
qed

lemma lineage_checks_producers:
  "pc_producer ` set (lineage_checks p walked s) = {q. (p, q) \<in> lineage s \<and> q \<notin> walked}"
proof -
  have "pc_producer ` set (lineage_checks p walked s)
      = {q \<in> producer_action_key ` set (list_provisional_ancestors p s). q \<notin> walked}"
    by (auto simp: lineage_checks_def image_image)
  then show ?thesis by (auto simp: list_ancestors_producers)
qed

lemma check_ancestor_row: "check_ancestor resolver s c = Inr row \<Longrightarrow> producer_action_key row = pc_producer c"
  by (auto simp: check_ancestor_def Let_def split: option.splits if_splits)

lemma ancestry_loop_rows:
  "ancestry_loop resolver s walked queue = Inr rows \<Longrightarrow> producer_action_key ` set rows \<subseteq> published_actions s"
proof (induction resolver s walked queue arbitrary: rows rule: ancestry_loop.induct)
  case (2 resolver s walked c queue)
  from "2.prems" obtain row where row: "check_ancestor resolver s c = Inr row"
    by (auto split: sum.splits)
  let ?w = "insert (pc_producer c) walked"
  let ?q = "if pc_producer c \<in> walked then queue else queue @ lineage_checks (pc_producer c) ?w s"
  from "2.prems" row obtain rows' where "ancestry_loop resolver s ?w ?q = Inr rows'"
      "rows = (if direct c then row # rows' else rows')"
    by (auto simp: Let_def split: sum.splits)
  with "2.IH" [OF row refl refl] check_ancestor_row [OF row] check_ancestor_published [OF row] show ?case
    by (auto simp: published_actions_def)
qed simp

text \<open>The walk is closed under recorded lineage when it succeeds.\<close>

lemma ancestry_loop_closed:
  "ancestry_loop resolver s walked queue = Inr rows \<Longrightarrow> walked \<subseteq> published_actions s \<Longrightarrow>
     lineage s `` walked \<subseteq> walked \<union> pc_producer ` set queue \<Longrightarrow>
     (lineage s)\<^sup>* `` (walked \<union> pc_producer ` set queue) \<subseteq> published_actions s"
proof (induction resolver s walked queue arbitrary: rows rule: ancestry_loop.induct)
  case (1 resolver s walked)
  then have "(lineage s)\<^sup>* `` walked = walked" by (intro Image_closed_trancl) simp
  with 1 show ?case by simp
next
  case (2 resolver s walked c queue)
  from "2.prems"(1) obtain row where row: "check_ancestor resolver s c = Inr row"
    by (auto split: sum.splits)
  let ?w = "insert (pc_producer c) walked"
  let ?q = "if pc_producer c \<in> walked then queue else queue @ lineage_checks (pc_producer c) ?w s"
  from "2.prems"(1) row obtain rows' where rec: "ancestry_loop resolver s ?w ?q = Inr rows'"
    by (auto simp: Let_def split: sum.splits)
  have "?w \<subseteq> published_actions s"
    using "2.prems"(2) check_ancestor_published [OF row] by (auto simp: published_actions_def)
  moreover have "lineage s `` ?w \<subseteq> ?w \<union> pc_producer ` set ?q"
  proof (cases "pc_producer c \<in> walked")
    case True
    with "2.prems"(3) show ?thesis by (auto simp: insert_absorb)
  next
    case False
    with "2.prems"(3) show ?thesis by (auto simp: image_Un lineage_checks_producers)
  qed
  ultimately have "(lineage s)\<^sup>* `` (?w \<union> pc_producer ` set ?q) \<subseteq> published_actions s"
    by (rule "2.IH" [OF row refl refl rec])
  moreover have "walked \<union> pc_producer ` set (c # queue) \<subseteq> ?w \<union> pc_producer ` set ?q"
    by (auto simp: image_Un)
  ultimately show ?case by blast
qed

text \<open>The ancestry walk covers the whole lineage. It ends on every store, cyclic lineage included, and
  when it accepts an offer every producer reachable from the offer's references over recorded lineage
  is published.\<close>

theorem accepted_lineage_is_committed:
  assumes "verify_provisional_ancestry resolver off s = Inr rows" "a \<in> set (of_ancestors off)"
    and "(digest_key (ref_producer a), p) \<in> (lineage s)\<^sup>*"
  shows "p \<in> published_actions s"
proof -
  let ?q = "map (\<lambda>a. \<lparr>pc_producer = digest_key (ref_producer a), pc_role = output_role_name (ref_role a),
    pc_path = ref_path a, pc_consumed = digest_key (consumed_object a), direct = True\<rparr>) (of_ancestors off)"
  have "(lineage s)\<^sup>* `` ({} \<union> pc_producer ` set ?q) \<subseteq> published_actions s"
    using assms(1) by (intro ancestry_loop_closed [of resolver s "{}" ?q rows]) (simp_all add: verify_provisional_ancestry_def)
  moreover have "digest_key (ref_producer a) \<in> pc_producer ` set ?q" using assms(2) by (force simp: image_iff)
  ultimately show ?thesis using assms(3) by blast
qed

inductive offer_step :: "coordinator_store \<Rightarrow> coordinator_store \<Rightarrow> bool" where
  offer_processed: "offer_step s (fst (process_offer sha256 off ed resolver pin seq durability s))"
| offer_entry: "offer_step s (fst (upsert_action_entry k e s))"

definition lineage_inv :: "coordinator_store \<Rightarrow> bool" where
  "lineage_inv s \<longleftrightarrow> snd ` lineage s \<subseteq> published_actions s"

lemma set_insert_ignore: "set (fold (\<lambda>a. sql_insert_ignore (k a) (v a)) rows t) \<subseteq> set t \<union> (\<lambda>a. (k a, v a)) ` set rows"
  by (induction rows arbitrary: t) (auto simp: sql_insert_ignore_def split: if_splits, fastforce+)

lemma lineage_inv_same:
  "lineage_inv s \<Longrightarrow> publications (meta t) = publications (meta s) \<Longrightarrow> ancestry (meta t) = ancestry (meta s) \<Longrightarrow> lineage_inv t"
  by (simp add: lineage_inv_def lineage_def published_actions_def)

lemma commit_not_committed:
  "commit_publication au row s = (t, r) \<Longrightarrow> r \<noteq> Inr Metadata_Store.Committed \<Longrightarrow>
     publications t = publications s \<and> ancestry t = ancestry s"
  by (auto simp: commit_publication_def in_txn_def commit_body_def Let_def sql_insert_def intern_def conflict_quarantine_def
      split: sum.splits option.splits if_splits)

lemma commit_lineage_inv:
  assumes inv: "lineage_inv s" and rows: "producer_action_key ` set (provisional_ancestors row) \<subseteq> published_actions s"
    and c: "commit_publication au row (meta s) = (m, r)"
  shows "lineage_inv (s\<lparr>meta := m\<rparr>)"
proof (cases "r = Inr Metadata_Store.Committed")
  case True
  with c have "commit_publication au row (meta s) = (m, Inr Metadata_Store.Committed)" by simp
  note c' = commit_committed [OF this]
  have "snd ` lineage (s\<lparr>meta := m\<rparr>) \<subseteq> snd ` lineage s \<union> producer_action_key ` set (provisional_ancestors row)"
    using set_insert_ignore [of "\<lambda>a. (digest_key (pub_action row), producer_action_key a, anc_role a,
           Metadata_Store.virtual_path a)" "\<lambda>a. (anc_object_key a, adopted a)" "provisional_ancestors row" "ancestry (meta s)"]
    by (fastforce simp: lineage_def c'(6) image_iff)
  moreover have "published_actions s \<subseteq> published_actions (s\<lparr>meta := m\<rparr>)"
    by (auto simp: published_actions_def c'(2))
  moreover have "snd ` lineage s \<union> producer_action_key ` set (provisional_ancestors row) \<subseteq> published_actions s"
    using inv rows by (simp add: lineage_inv_def)
  ultimately show ?thesis unfolding lineage_inv_def by (meson order_trans)
next
  case False
  with commit_not_committed [OF c] inv show ?thesis by (auto intro: lineage_inv_same)
qed

text \<open>An admitted offer whose action is published already changes neither publications nor lineage nor
  generations, whether it is a duplicate, diverges or fails half way.\<close>

lemma process_offer_existing:
  assumes some: "published_manifest_key_str (digest_key (mf_action_key (of_manifest off))) s = Some ck"
  shows "(publications (meta (fst (process_offer sha256 off ed resolver pin seq durability s))),
      ancestry (meta (fst (process_offer sha256 off ed resolver pin seq durability s))),
      generations (meta (fst (process_offer sha256 off ed resolver pin seq durability s))))
    = (publications (meta s), ancestry (meta s), generations (meta s))"
proof -
  let ?p = "process_offer sha256 off ed resolver pin seq durability s"
  let ?a = "digest_key (mf_action_key (of_manifest off))" and ?G = "\<lambda>m. (publications m, ancestry m, generations m)"
  let ?q = "\<lambda>cls. quarantine_divergence (authority_digest sha256 (coordinator (authority off))) off cls ck
    (generation_id (auth_generation (authority off))) (attempt_id (authority off)) pin seq s"
  have q: "?G (meta (fst (?q cls))) = ?G (meta s)" for cls
  proof -
    have "?G (meta (fst (?q cls))) = ?G (meta (fst (set_serving_disposition_key ?a
        (if cls = ObservableOnlyDivergence then DISPOSITION_PRESENTATION_QUARANTINED else DISPOSITION_QUARANTINED)
        (fst (add_quarantine ''action-entry'' ?a (divergence_quarantine_reason cls) s)))))"
      by (rule keeps_after_quarantine [where G = ?G, OF _ _ _ refl])
        (simp_all add: add_object_edge_def create_pin_def append_evidence_def fst_in_txn sql_insert_def
          sql_insert_ignore_def intern_def insert_evidence_def split: sum.splits)
    also have "\<dots> = ?G (meta s)"
      by (simp add: set_serving_disposition_key_def add_quarantine_def on_meta_def in_txn_def)
    finally show ?thesis .
  qed
  have "fst ?p = s \<or> ?G (meta (fst ?p)) = ?G (meta s)"
    using some q
    by (auto simp: process_offer_def Let_def store_result_def on_meta_def append_evidence_def in_txn_def intern_def
        insert_evidence_def split: sum.splits option.splits prod.splits; metis fst_conv)
  then show ?thesis by auto
qed

lemma process_offer_fresh:
  assumes "admit sha256 off ed resolver durability s = Inr rows"
    and "published_manifest_key_str (digest_key (mf_action_key (of_manifest off))) s = None"
    and "commit_publication (authority_digest sha256 (coordinator (authority off))) (publication_row_of off pin rows) (meta s)
      = (m, r)"
  shows "fst (process_offer sha256 off ed resolver pin seq durability s) = s\<lparr>meta := m\<rparr>"
  using assms by (auto simp: process_offer_def Let_def on_meta_def split: sum.splits commit_outcome.splits)

lemma lineage_inv_step:
  assumes inv: "lineage_inv s" and step: "offer_step s t"
  shows "lineage_inv t"
  using step
proof cases
  case (offer_processed sha256 off ed resolver pin seq durability)
  show ?thesis
  proof (cases "admit sha256 off ed resolver durability s")
    case (Inl e)
    with offer_processed inv show ?thesis by (simp add: process_offer_def)
  next
    case (Inr rows)
    let ?au = "authority_digest sha256 (coordinator (authority off))" and ?row = "publication_row_of off pin rows"
    have rows: "producer_action_key ` set (provisional_ancestors ?row) \<subseteq> published_actions s"
      using admit_Inr(11) [OF Inr] ancestry_loop_rows
      by (auto simp: verify_provisional_ancestry_def publication_row_of_def)
    obtain m r where c: "commit_publication ?au ?row (meta s) = (m, r)" by (meson surj_pair)
    show ?thesis
    proof (cases "published_manifest_key_str (digest_key (mf_action_key (of_manifest off))) s")
      case None
      with process_offer_fresh [OF Inr None c] commit_lineage_inv [OF inv rows c] offer_processed show ?thesis by simp
    next
      case (Some ck)
      with process_offer_existing [OF Some] offer_processed inv show ?thesis
        by (auto intro: lineage_inv_same)
    qed
  qed
next
  case (offer_entry k e)
  with inv show ?thesis by (simp add: upsert_action_entry_def lineage_inv_def lineage_def published_actions_def intern_def)
qed

interpretation admission: transition_system "\<lambda>s. ancestry (meta s) = []" offer_step lineage_inv
  by unfold_locales (simp add: lineage_inv_def lineage_def, erule (1) lineage_inv_step)

text \<open>C26: No dependent is committed before its producers. Whatever offers a coordinator processes, every
  producer named in the lineage recorded with a committed result is itself published.\<close>

theorem recorded_lineage_is_committed:
  assumes "reach_from (\<lambda>s. ancestry (meta s) = []) offer_step s" "(c, p) \<in> lineage s"
  shows "p \<in> published_actions s"
  using admission.reachable_good [OF assms(1)] assms(2) by (force simp: lineage_inv_def)

section \<open>Reachability after a commit\<close>

lemma live_roots_pin: "pins t = (i, p) # pins s \<Longrightarrow> \<not> released p \<Longrightarrow> live_roots t = insert (root_key p) (live_roots s)"
  by (auto simp: live_roots_def)

text \<open>C38: A commit protects the manifest and nothing behind it. No edge is recorded from a committed
  manifest to its outputs, bundle root or evidence, so what is live afterwards is what was live before
  and what was already reachable from the manifest: the copies of a fresh output stay unprotected, and
  the collector may take them while the publication is servable and pinned.\<close>

theorem committed_outputs_unprotected:
  assumes "process_offer sha256 off ed resolver pin seq durability s = (t, Inr (Committed r))"
    and "k \<notin> live_objects (meta s)" "(digest_key (manifest_id off), k) \<notin> (object_graph (meta s))\<^sup>*"
  shows "k \<notin> live_objects (meta t)"
proof -
  obtain rows m where p: "commit_publication (authority_digest sha256 (coordinator (authority off)))
      (publication_row_of off pin rows) (meta s) = (m, Inr Metadata_Store.Committed)" "t = s\<lparr>meta := m\<rparr>"
    using process_offer_Committed [OF assms(1)] by blast
  note c = commit_committed [OF p(1)]
  have "live_roots (meta t) = insert (digest_key (manifest_id off)) (live_roots (meta s))"
    using live_roots_pin [of m, OF c(3)] by (simp add: p(2) publication_pin_def publication_row_of_def)
  moreover have "object_graph (meta t) = object_graph (meta s)" by (simp add: object_graph_def p(2) c(4))
  ultimately show ?thesis using assms(2,3) by (auto simp: live_objects_def)
qed

section \<open>A committed offer\<close>

definition sample_hash :: "byte list \<Rightarrow> byte list" where
  "sample_hash _ = []"

definition sample_coordinator_authority :: coordinator_authority where
  "sample_coordinator_authority = \<lparr>cluster = ''c'', credential_generation = 1, coord_term = 1, incarnation_id = 1\<rparr>"

definition sample_result :: manifest where
  "sample_result =
     \<lparr>mf_action_key = sample_digest 2, mf_descriptor_digest = sample_digest 3, mf_key_epoch = 1, mf_projection_epoch = 1,
      mf_result_kind = Manifest.Success, artifact_bundle_root = Some \<lparr>domain = DOMAIN_ARTIFACT_BUNDLE_ROOT, bytes = []\<rparr>,
      logical_outputs = [\<lparr>out_role = Materializable, virtual_path = [1], object = sample_digest 6\<rparr>],
      semantic_result_digest = \<lparr>domain = SEMANTIC_PROJECTION_DOMAIN, bytes = []\<rparr>,
      observable_result_digest = \<lparr>domain = OBSERVABLE_PROJECTION_DOMAIN, bytes = []\<rparr>\<rparr>"

definition sample_offer :: offer where
  "sample_offer =
     \<lparr>authority = \<lparr>coordinator = sample_coordinator_authority, auth_action_key = sample_digest 2,
        auth_generation = \<lparr>generation_id = 7, per_key_ordinal = 1,
          created_under_authority_digest = \<lparr>domain = AUTHORITY_DIGEST_DOMAIN, bytes = []\<rparr>\<rparr>,
        attempt_id = 8, execution_lease_id = 9, auth_renewal_seq = 0, worker_peer_id = ''w'',
        worker_boot_generation = 1, worker_incarnation_id = 1\<rparr>,
      of_manifest = sample_result, manifest_id = sample_digest 4,
      evidence = \<lparr>ev_action_key = sample_digest 2, ev_manifest_id = sample_digest 4,
        execution_snapshot_root = sample_digest 5, observed_input_report = sample_digest 5,
        raw_process_evidence = sample_digest 5, provenance_receipt = sample_digest 5, incremental_snapshot = None\<rparr>,
      evidence_id = sample_digest 5, canonical_observations = sample_digest 1,
      of_ancestors = [\<lparr>ref_producer = sample_digest 10, ref_role = Materializable, ref_path = [1],
        consumed_object = sample_digest 6\<rparr>]\<rparr>"

definition sample_location :: location_entry where
  "sample_location = \<lparr>verified_seq = None, encoding = ''raw'', quarantined = False, loc_durable = True\<rparr>"

definition sample_coordinator :: coordinator_store where
  "sample_coordinator =
     \<lparr>meta = store_new\<lparr>domains := [AUTHORITY_DIGEST_DOMAIN, ''d''],
        authorities := [(digest_key \<lparr>domain = AUTHORITY_DIGEST_DOMAIN, bytes = []\<rparr>, \<lparr>au_digest = \<lparr>domain = AUTHORITY_DIGEST_DOMAIN, bytes = []\<rparr>, cluster_id = ''c'',
          au_incarnation = 1, au_term = 1, acquired_seq = 1\<rparr>, False)],
        generations := [(7, \<lparr>gen_action_key = ''a'', gen_authority_key = ''auth'', tombstoned = False\<rparr>)],
        attempts := [(8, \<lparr>att_generation = 7, att_worker = ''w'', att_seq = 1\<rparr>)],
        leases := [(9, \<lparr>lease_attempt = 8, lease_renewal_seq = 0, lease_expires_at = 5, lease_released = False\<rparr>)],
        publications := [(digest_key (sample_digest 10), \<lparr>pe_descriptor = sample_digest 3, pe_manifest = sample_digest 11,
          pe_generation = 1, pe_attempt = 1, pe_kind = Metadata_Store.Success, pe_pin = 1\<rparr>)],
        locations := map (\<lambda>d. ((digest_key d, ''p''), sample_location))
          [sample_digest 4, sample_digest 5, sample_digest 6, \<lparr>domain = DOMAIN_ARTIFACT_BUNDLE_ROOT, bytes = []\<rparr>]\<rparr>,
      action_entries = [(digest_key (sample_digest 2), ''d'', \<lparr>ae_key_epoch = 1, ae_projection_epoch = 1\<rparr>)],
      adoption_edges = [], incidents = [], trust_evaluations = [], provenance_edges = [], decision_receipts = []\<rparr>"

definition sample_resolver :: "string \<Rightarrow> manifest option" where
  "sample_resolver k = Some sample_result"

lemma sample_keys_distinct:
  "digest_key (sample_digest 10) \<noteq> digest_key (sample_digest 2)" "digest_key (sample_digest 6) \<noteq> digest_key (sample_digest 4)"
  by (simp_all add: hex_byte_def hex_digit_def)

lemma sample_digests:
  "authority_digest sample_hash a = \<lparr>domain = AUTHORITY_DIGEST_DOMAIN, bytes = []\<rparr>"
  "semantic_result_digest_v1 sample_hash m = \<lparr>domain = SEMANTIC_PROJECTION_DOMAIN, bytes = []\<rparr>"
  "observable_result_digest_v1 sample_hash m d = \<lparr>domain = OBSERVABLE_PROJECTION_DOMAIN, bytes = []\<rparr>"
  "verify_manifest_bundle_root sample_hash sample_result = Inr ()"
  by (simp_all add: authority_digest_def semantic_result_digest_v1_def observable_result_digest_v1_def framing_finish_def
      sample_hash_def verify_manifest_bundle_root_def compute_bundle_root_def compute_def validate_def sample_result_def)

lemma sample_ancestry:
  "\<exists>row. verify_provisional_ancestry sample_resolver sample_offer sample_coordinator = Inr [row]
     \<and> producer_action_key row = digest_key (sample_digest 10)"
proof -
  let ?c = "\<lparr>pc_producer = digest_key (sample_digest 10), pc_role = ''materializable'', pc_path = [1],
    pc_consumed = digest_key (sample_digest 6), direct = True\<rparr>"
  have "\<exists>row. check_ancestor sample_resolver sample_coordinator ?c = Inr row
      \<and> producer_action_key row = digest_key (sample_digest 10)"
    by (simp add: check_ancestor_def published_manifest_key_str_def sample_coordinator_def sample_resolver_def
        sample_result_def del: sample_key)
  moreover have "lineage_checks p w sample_coordinator = []" for p w
    by (simp add: lineage_checks_def list_provisional_ancestors_def sample_coordinator_def store_new_def)
  ultimately show ?thesis
    by (auto simp: verify_provisional_ancestry_def sample_offer_def Let_def simp del: sample_key)
qed

lemma sample_closure: "check_closure RequireDurableClosure (offer_closure sample_offer) (meta sample_coordinator) = None"
  by (simp add: offer_closure_def sample_offer_def sample_result_def sample_coordinator_def object_located_def
      object_durably_located_def sample_location_def del: sample_key)

lemma sample_rows:
  "active_authority (meta sample_coordinator) = Inr (Some \<lparr>au_digest = \<lparr>domain = AUTHORITY_DIGEST_DOMAIN, bytes = []\<rparr>,
      cluster_id = ''c'', au_incarnation = 1, au_term = 1, acquired_seq = 1\<rparr>)"
  "generation_state 7 (meta sample_coordinator) = Some False"
  "attempt_exists 8 7 (meta sample_coordinator)"
  "lease_state 9 (meta sample_coordinator) = Some (False, 0)"
  "lookup_action (sample_digest 2) sample_coordinator = Inr (Some \<lparr>ae_key_epoch = 1, ae_projection_epoch = 1\<rparr>)"
  by (simp_all add: sample_coordinator_def active_authority_def generation_state_def attempt_exists_def lease_state_def
      lookup_action_def del: sample_key)

lemma sample_admitted:
  "\<exists>row. admit sample_hash sample_offer (sample_digest 3) sample_resolver RequireDurableClosure sample_coordinator
     = Inr [row] \<and> producer_action_key row = digest_key (sample_digest 10)"
  using sample_rows sample_ancestry sample_closure sample_digests
  by (simp add: admit_def Let_def sample_offer_def [unfolded sample_result_def] sample_result_def)
definition sample_process :: "128 word \<Rightarrow> coordinator_store \<times> (offer_refusal + publication_outcome)" where
  "sample_process pin = process_offer sample_hash sample_offer (sample_digest 3) sample_resolver pin 4
     RequireDurableClosure sample_coordinator"

lemma sample_committed:
  obtains t r row m where "sample_process 20 = (t, Inr (Committed r))" "t = sample_coordinator\<lparr>meta := m\<rparr>"
    "commit_publication \<lparr>domain = AUTHORITY_DIGEST_DOMAIN, bytes = []\<rparr> (publication_row_of sample_offer 20 [row])
       (meta sample_coordinator) = (m, Inr Metadata_Store.Committed)"
    "producer_action_key row = digest_key (sample_digest 10)"
proof -
  obtain row where a: "admit sample_hash sample_offer (sample_digest 3) sample_resolver RequireDurableClosure
      sample_coordinator = Inr [row]" "producer_action_key row = digest_key (sample_digest 10)"
    using sample_admitted by blast
  let ?au = "\<lparr>domain = AUTHORITY_DIGEST_DOMAIN, bytes = []\<rparr>" and ?row = "publication_row_of sample_offer 20 [row]"
  have none: "map_of (publications (meta sample_coordinator)) (digest_key (sample_digest 2)) = None"
    using sample_keys_distinct(1) by (simp add: sample_coordinator_def del: sample_key)
  have act: "pub_action ?row = sample_digest 2" "pin_id ?row = 20"
    by (simp_all add: publication_row_of_def sample_offer_def sample_result_def)
  let ?i = "fold intern [domain (pub_action ?row), domain (descriptor_digest ?row), domain (manifest_digest ?row),
    domain (evidence_digest ?row)] (meta sample_coordinator)"
  have i: "require_active ?au ?i = Inr ()" "map_of (publications ?i) (digest_key (pub_action ?row)) = None"
      "map_of (pins ?i) (pin_id ?row) = None"
    using none by (simp_all add: act intern_def require_active_def active_authority_key_def)
      (simp_all add: sample_coordinator_def store_new_def)
  obtain m where "commit_body ?au ?row ?i = Inr (Metadata_Store.Committed, m)"
    using commit_body_fresh [OF i(1,2)] i(3) by auto
  then have c: "commit_publication ?au ?row (meta sample_coordinator) = (m, Inr Metadata_Store.Committed)"
    by (simp add: commit_publication_def in_txn_def)
  have "published_manifest_key_str (digest_key (mf_action_key (of_manifest sample_offer))) sample_coordinator = None"
    using none by (simp add: published_manifest_key_str_def sample_offer_def sample_result_def del: sample_key)
  with a(1) c have "\<exists>r. sample_process 20 = (sample_coordinator\<lparr>meta := m\<rparr>, Inr (Committed r))"
    by (simp add: sample_process_def process_offer_def Let_def on_meta_def sample_digests)
  with c a(2) that show ?thesis by blast
qed


theorem accepted_lineage_is_committed_witness:
  "digest_key (sample_digest 10) \<in> published_actions sample_coordinator"
proof -
  obtain row where v: "verify_provisional_ancestry sample_resolver sample_offer sample_coordinator = Inr [row]"
    using sample_ancestry by blast
  let ?a = "\<lparr>ref_producer = sample_digest 10, ref_role = Materializable, ref_path = [1], consumed_object = sample_digest 6\<rparr>"
  have "?a \<in> set (of_ancestors sample_offer)" by (simp add: sample_offer_def)
  from accepted_lineage_is_committed [OF v this, of "digest_key (sample_digest 10)"] show ?thesis
    by (simp del: sample_key)
qed

theorem recorded_lineage_is_committed_witness:
  "(digest_key (sample_digest 2), digest_key (sample_digest 10)) \<in> lineage (fst (sample_process 20))
   \<and> digest_key (sample_digest 10) \<in> published_actions (fst (sample_process 20))"
proof -
  obtain t r row m where p: "sample_process 20 = (t, Inr (Committed r))" "t = sample_coordinator\<lparr>meta := m\<rparr>"
    "commit_publication \<lparr>domain = AUTHORITY_DIGEST_DOMAIN, bytes = []\<rparr> (publication_row_of sample_offer 20 [row])
       (meta sample_coordinator) = (m, Inr Metadata_Store.Committed)"
    "producer_action_key row = digest_key (sample_digest 10)" by (rule sample_committed)
  have empty: "ancestry (meta sample_coordinator) = []" by (simp add: sample_coordinator_def store_new_def)
  have "lineage t = {(digest_key (sample_digest 2), digest_key (sample_digest 10))}"
    using commit_committed(6) [OF p(3)] empty p(4)
    by (auto simp: lineage_def p(2) sql_insert_ignore_def publication_row_of_def sample_offer_def sample_result_def
        simp del: sample_key)
  then have l: "(digest_key (sample_digest 2), digest_key (sample_digest 10)) \<in> lineage (fst (sample_process 20))"
    using p(1) by simp
  have "reach_from (\<lambda>s. ancestry (meta s) = []) offer_step (fst (sample_process 20))"
    unfolding sample_process_def by (rule reach_move, rule reach_start, rule empty, rule offer_processed)
  from recorded_lineage_is_committed [OF this l] l show ?thesis by simp
qed

lemma sample_not_live: "live_objects (meta sample_coordinator) = {}" "object_graph (meta sample_coordinator) = {}"
  by (simp_all add: live_objects_def live_roots_def object_graph_def sample_coordinator_def store_new_def)

text \<open>The output of the committed sample is unprotected in the store its commit leaves.\<close>

theorem committed_outputs_unprotected_witness:
  "digest_key (sample_digest 6) \<in> digest_key ` object ` set (logical_outputs (of_manifest sample_offer))
   \<and> protection_for (live_objects (meta (fst (sample_process 20)))) sample_world Normal
       (digest_key (sample_digest 6)) default_policy = None"
proof -
  obtain t r where p: "sample_process 20 = (t, Inr (Committed r))" by (rule sample_committed)
  have m: "manifest_id sample_offer = sample_digest 4" by (simp add: sample_offer_def)
  have "digest_key (sample_digest 6) \<notin> live_objects (meta t)"
    using committed_outputs_unprotected [OF p [unfolded sample_process_def], of "digest_key (sample_digest 6)"]
      sample_keys_distinct(2) by (simp add: m sample_not_live del: sample_key)
  then have "digest_key (sample_digest 6) \<notin> live_objects (meta (fst (sample_process 20)))" using p by simp
  then show ?thesis
    by (auto simp: protection_for_def sample_world_def default_policy_def sample_offer_def sample_result_def
        simp del: sample_key)
qed

theorem refusals_write_nothing_witness:
  "process_offer sample_hash sample_offer (sample_digest 1) sample_resolver 20 4 RequireDurableClosure sample_coordinator
     = (sample_coordinator, Inl DescriptorMismatch)"
proof -
  let ?p = "process_offer sample_hash sample_offer (sample_digest 1) sample_resolver 20 4 RequireDurableClosure sample_coordinator"
  have "admit sample_hash sample_offer (sample_digest 1) sample_resolver RequireDurableClosure sample_coordinator
      = Inl DescriptorMismatch"
    using sample_admitted
    by (auto simp: admit_def Let_def sample_offer_def sample_result_def sample_digest_def
        split: sum.splits option.splits if_splits)
  then have p: "?p = (fst ?p, Inl DescriptorMismatch)" by (simp add: process_offer_def)
  from refusals_write_nothing [OF p] p show ?thesis by simp
qed

text \<open>A store where the key of the sample is published with another manifest.\<close>

definition sample_diverged :: coordinator_store where
  "sample_diverged = sample_coordinator\<lparr>meta := (meta sample_coordinator)
     \<lparr>publications := (digest_key (sample_digest 2), \<lparr>pe_descriptor = sample_digest 3, pe_manifest = sample_digest 11,
        pe_generation = 1, pe_attempt = 1, pe_kind = Metadata_Store.Success, pe_pin = 1\<rparr>)
        # publications (meta sample_coordinator)\<rparr>\<rparr>"

lemma sample_diverged_admitted:
  "admit sample_hash (sample_offer\<lparr>of_ancestors := []\<rparr>) (sample_digest 3) sample_resolver RequireDurableClosure sample_diverged
     = Inr []"
  (is "admit _ ?o _ _ _ _ = _")
proof -
  have fields: "authorities (meta sample_diverged) = authorities (meta sample_coordinator)"
    "domains (meta sample_diverged) = domains (meta sample_coordinator)"
    "generations (meta sample_diverged) = generations (meta sample_coordinator)"
    "attempts (meta sample_diverged) = attempts (meta sample_coordinator)"
    "leases (meta sample_diverged) = leases (meta sample_coordinator)"
    "locations (meta sample_diverged) = locations (meta sample_coordinator)"
    "action_entries sample_diverged = action_entries sample_coordinator"
    by (simp_all add: sample_diverged_def)
  have same: "active_authority (meta sample_diverged) = active_authority (meta sample_coordinator)"
    "generation_state g (meta sample_diverged) = generation_state g (meta sample_coordinator)"
    "attempt_exists i g (meta sample_diverged) = attempt_exists i g (meta sample_coordinator)"
    "lease_state l (meta sample_diverged) = lease_state l (meta sample_coordinator)"
    "lookup_action k sample_diverged = lookup_action k sample_coordinator"
    "object_located d (meta sample_diverged) = object_located d (meta sample_coordinator)"
    "object_durably_located d (meta sample_diverged) = object_durably_located d (meta sample_coordinator)" for g i l k d
    unfolding active_authority_def generation_state_def attempt_exists_def lease_state_def
      lookup_action_def object_located_def object_durably_located_def fields by (rule refl)+
  have "check_closure dur ds (meta sample_diverged) = check_closure dur ds (meta sample_coordinator)" for dur ds
    by (induction ds) (simp_all add: same)
  moreover have "offer_closure ?o = offer_closure sample_offer" by (simp add: offer_closure_def)
  ultimately have "check_closure RequireDurableClosure (offer_closure ?o) (meta sample_diverged) = None"
    using sample_closure by simp
  moreover have "verify_provisional_ancestry sample_resolver ?o sample_diverged = Inr []"
    by (simp add: verify_provisional_ancestry_def)
  ultimately show ?thesis
    using sample_rows sample_digests unfolding same [symmetric]
    by (simp add: admit_def Let_def sample_offer_def [unfolded sample_result_def] sample_result_def)
qed

lemma sample_diverged_published:
  defines "off \<equiv> sample_offer\<lparr>of_ancestors := []\<rparr>"
  shows "published_manifest_key_str (digest_key (mf_action_key (of_manifest off))) sample_diverged
      = Some (digest_key (sample_digest 11))"
    and "digest_key (sample_digest 11) \<noteq> digest_key (manifest_id off)"
    and "sample_resolver (digest_key (sample_digest 11)) = Some sample_result"
    and "mf_action_key (of_manifest off) = sample_digest 2"
  by (simp_all add: off_def published_manifest_key_str_def sample_diverged_def sample_offer_def sample_result_def
      sample_resolver_def hex_byte_def hex_digit_def)

theorem divergent_offer_quarantines_witness:
  "map_of (quarantines (meta (fst (process_offer sample_hash (sample_offer\<lparr>of_ancestors := []\<rparr>) (sample_digest 3)
     sample_resolver 20 4 RequireDurableClosure sample_diverged)))) (''action-entry'', digest_key (sample_digest 2)) \<noteq> None"
  using divergent_offer_quarantines [OF sample_diverged_admitted sample_diverged_published(1-3), of 20 4]
  unfolding Let_def sample_diverged_published(4) by blast

end
