(* ===== verification/Fencing.thy ===== *)
theory Fencing
  imports Publication
begin

text \<open>
  Who may speak for the cluster: the coordinator's acquisition sequence and the peers' high-water marks
  (\<open>rabs-protocol/src/authority.rs\<close>), lease renewals (\<open>rabs-protocol/src/generation.rs\<close>), worker
  incarnations (\<open>rabs-protocol/src/worker_fence.rs\<close>), edge ownership and its bounded handoff
  (\<open>rabs-protocol/src/edge_fence.rs\<close>), and the durable fence rows of
  \<open>rabs-cas/src/metadata_store.rs\<close>, which stand beside the store's other tables.
\<close>

section \<open>Coordinator authority\<close>

record peer_high_water_mark =
  mark_cluster :: string
  mark_credential_generation :: "64 word"
  highest_term :: "64 word"
  last_incarnation :: "128 word"
  mark_reset_generation :: "64 word"

datatype authority_decision =
    AcceptAdvanceTerm
  | AcceptSameIncarnation
  | AcceptNewGenerationPendingCredentialProof
  | AcceptViaOperatorReset
  | RejectStaleCredentialGeneration
  | RejectStaleTerm
  | RejectIncarnationConflict
  | RejectClusterMismatch

definition mark_evaluate ::
  "peer_high_water_mark \<Rightarrow> coordinator_authority \<Rightarrow> 64 word option \<Rightarrow> authority_decision" where
  "mark_evaluate mk a reset_proof =
     (if cluster a \<noteq> mark_cluster mk then RejectClusterMismatch
      else if (case reset_proof of Some r \<Rightarrow> mark_reset_generation mk < r | None \<Rightarrow> False) then AcceptViaOperatorReset
      else if credential_generation a < mark_credential_generation mk then RejectStaleCredentialGeneration
      else if mark_credential_generation mk < credential_generation a then AcceptNewGenerationPendingCredentialProof
      else if coord_term a < highest_term mk then RejectStaleTerm
      else if highest_term mk < coord_term a then AcceptAdvanceTerm
      else if incarnation_id a = last_incarnation mk then AcceptSameIncarnation
      else RejectIncarnationConflict)"

datatype acquisition_error =
    LockHeldElsewhere
  | TermNotDurablyAdvanced
  | TermNotMonotonic
  | CredentialGenerationRegressed
  | IncarnationNotFresh
  | OutOfOrder

record coordinator_boot =
  boot_cluster :: string
  last_durable_term :: "64 word"
  last_credential_generation :: "64 word"
  previous_incarnation :: "128 word option"
  lock_held :: bool
  term_advanced :: "(64 word \<times> 64 word) option"
  boot_incarnation :: "128 word option"

definition boot_new :: "string \<Rightarrow> 64 word \<Rightarrow> 64 word \<Rightarrow> 128 word option \<Rightarrow> coordinator_boot" where
  "boot_new c last_term last_generation previous =
     \<lparr>boot_cluster = c, last_durable_term = last_term, last_credential_generation = last_generation,
      previous_incarnation = previous, lock_held = False, term_advanced = None, boot_incarnation = None\<rparr>"

definition acquire_lock :: "bool \<Rightarrow> coordinator_boot \<Rightarrow> acquisition_error + coordinator_boot" where
  "acquire_lock lock_free b = (if \<not> lock_free then Inl LockHeldElsewhere else Inr (b\<lparr>lock_held := True\<rparr>))"

definition advance_term_durably :: "64 word \<Rightarrow> 64 word \<Rightarrow> coordinator_boot \<Rightarrow> acquisition_error + coordinator_boot" where
  "advance_term_durably new_term generation b =
     (if \<not> lock_held b then Inl OutOfOrder
      else if new_term \<le> last_durable_term b then Inl TermNotMonotonic
      else if generation < last_credential_generation b then Inl CredentialGenerationRegressed
      else Inr (b\<lparr>term_advanced := Some (new_term, generation)\<rparr>))"

definition set_fresh_incarnation :: "128 word \<Rightarrow> coordinator_boot \<Rightarrow> acquisition_error + coordinator_boot" where
  "set_fresh_incarnation i b =
     (if term_advanced b = None then Inl OutOfOrder
      else if previous_incarnation b = Some i then Inl IncarnationNotFresh
      else Inr (b\<lparr>boot_incarnation := Some i\<rparr>))"

definition issue_authority :: "coordinator_boot \<Rightarrow> acquisition_error + coordinator_authority" where
  "issue_authority b =
     (if \<not> lock_held b then Inl OutOfOrder
      else case term_advanced b of
        None \<Rightarrow> Inl TermNotDurablyAdvanced
      | Some (t, g) \<Rightarrow>
          case boot_incarnation b of
            None \<Rightarrow> Inl OutOfOrder
          | Some i \<Rightarrow> Inr \<lparr>cluster = boot_cluster b, credential_generation = g, coord_term = t, incarnation_id = i\<rparr>)"

section \<open>Lease renewal\<close>

record lease_renewal =
  renewal_lease :: "128 word"
  renewal_offer_seq :: "64 word"

datatype renewal_decision = Accept | RefuseStaleSequence | RefuseWrongLease

definition evaluate_renewal :: "attempt_authority \<Rightarrow> lease_renewal \<Rightarrow> renewal_decision" where
  "evaluate_renewal au r =
     (if renewal_lease r \<noteq> execution_lease_id au then RefuseWrongLease
      else if renewal_offer_seq r \<le> auth_renewal_seq au then RefuseStaleSequence
      else Accept)"

section \<open>Worker incarnations\<close>

record worker_fence_record =
  wf_peer_id :: string
  highest_boot_generation :: "64 word"
  active_incarnation :: "128 word option"
  reenrollment_generation :: "64 word"

record worker_session_offer =
  ws_peer_id :: string
  ws_boot_generation :: "64 word"
  ws_incarnation :: "128 word"
  reenrollment_proof :: "64 word option"

datatype worker_admission =
    AdmitNewGeneration
  | AdmitReconnect
  | AdmitResume
  | AdmitViaReenrollment
  | RejectStaleBootGeneration
  | RejectCloneAmbiguity
  | RejectIdentityMismatch

definition worker_evaluate :: "worker_fence_record \<Rightarrow> worker_session_offer \<Rightarrow> worker_admission" where
  "worker_evaluate r off =
     (if ws_peer_id off \<noteq> wf_peer_id r then RejectIdentityMismatch
      else if (case reenrollment_proof off of Some p \<Rightarrow> reenrollment_generation r < p | None \<Rightarrow> False)
      then AdmitViaReenrollment
      else if ws_boot_generation off < highest_boot_generation r then RejectStaleBootGeneration
      else if highest_boot_generation r < ws_boot_generation off then AdmitNewGeneration
      else case active_incarnation r of
        None \<Rightarrow> AdmitResume
      | Some active \<Rightarrow> if active = ws_incarnation off then AdmitReconnect else RejectCloneAmbiguity)"

section \<open>Edge ownership\<close>

record edge_fence_record =
  fr_edge_id :: string
  fr_boot_generation :: "64 word"
  owner_incarnation :: "128 word"
  fenced_incarnation :: "128 word"
  fr_session_set :: "128 word list"
  fenced_at_seq :: "64 word"

record handoff_token =
  tk_edge_id :: string
  predecessor_incarnation :: "128 word"
  successor_incarnation :: "128 word"
  session_set :: "128 word list"
  authorized_by :: typed_digest

datatype fence_error =
    PredecessorMismatch "128 word" "128 word"
  | WrongEdge
  | NotAuthorized
  | HandoffAlreadyActive
  | NoActiveHandoff
  | HandoffExpired "64 word"
  | FrontiersIncomplete bool bool
  | NotSoleOwner "128 word" "128 word"
  | NotInHandoff "128 word"

record active_handoff =
  hw_token :: handoff_token
  deadline_seq :: "64 word"
  predecessor_reported :: bool
  successor_reported :: bool

record edge_ownership =
  edge_id :: string
  boot_generation :: "64 word"
  sole_owner :: "128 word"
  handoff :: "active_handoff option"

definition cold_boot :: "string \<Rightarrow> 64 word \<Rightarrow> 128 word \<Rightarrow> edge_ownership" where
  "cold_boot e g i = \<lparr>edge_id = e, boot_generation = g, sole_owner = i, handoff = None\<rparr>"

definition check_rights :: "edge_ownership \<Rightarrow> 128 word \<Rightarrow> fence_error + unit" where
  "check_rights e i = (if i = sole_owner e then Inr () else Inl (NotSoleOwner i (sole_owner e)))"

definition honored_predecessor :: "edge_ownership \<Rightarrow> 128 word option" where
  "honored_predecessor e = map_option (\<lambda>h. predecessor_incarnation (hw_token h)) (handoff e)"

definition begin_handoff ::
  "handoff_token \<Rightarrow> typed_digest \<Rightarrow> 64 word \<Rightarrow> edge_ownership \<Rightarrow> fence_error + edge_ownership" where
  "begin_handoff token au deadline e =
     (if handoff e \<noteq> None then Inl HandoffAlreadyActive
      else if tk_edge_id token \<noteq> edge_id e then Inl WrongEdge
      else if authorized_by token \<noteq> au then Inl NotAuthorized
      else if predecessor_incarnation token \<noteq> sole_owner e
      then Inl (PredecessorMismatch (predecessor_incarnation token) (sole_owner e))
      else Inr (e\<lparr>handoff := Some \<lparr>hw_token = token, deadline_seq = deadline, predecessor_reported = False,
        successor_reported = False\<rparr>\<rparr>))"

definition report_frontier :: "128 word \<Rightarrow> edge_ownership \<Rightarrow> fence_error + edge_ownership" where
  "report_frontier i e =
     (case handoff e of
        None \<Rightarrow> Inl NoActiveHandoff
      | Some h \<Rightarrow>
          if i = predecessor_incarnation (hw_token h) then Inr (e\<lparr>handoff := Some (h\<lparr>predecessor_reported := True\<rparr>)\<rparr>)
          else if i = successor_incarnation (hw_token h) then Inr (e\<lparr>handoff := Some (h\<lparr>successor_reported := True\<rparr>)\<rparr>)
          else Inl (NotInHandoff i))"

text \<open>An expired window is closed although the call fails.\<close>

definition complete_handoff :: "64 word \<Rightarrow> edge_ownership \<Rightarrow> edge_ownership \<times> (fence_error + edge_fence_record)" where
  "complete_handoff current_seq e =
     (case handoff e of
        None \<Rightarrow> (e, Inl NoActiveHandoff)
      | Some h \<Rightarrow>
          if deadline_seq h < current_seq then (e\<lparr>handoff := None\<rparr>, Inl (HandoffExpired (deadline_seq h)))
          else if \<not> (predecessor_reported h \<and> successor_reported h)
          then (e, Inl (FrontiersIncomplete (predecessor_reported h) (successor_reported h)))
          else
            let e' = e\<lparr>handoff := None, boot_generation := boot_generation e + 1,
                  sole_owner := successor_incarnation (hw_token h)\<rparr>
            in (e', Inr \<lparr>fr_edge_id = edge_id e, fr_boot_generation = boot_generation e',
                  owner_incarnation = successor_incarnation (hw_token h),
                  fenced_incarnation = predecessor_incarnation (hw_token h),
                  fr_session_set = session_set (hw_token h), fenced_at_seq = current_seq\<rparr>))"

section \<open>Durable fence rows\<close>

record edge_handoff_row =
  eh_active :: "128 word"
  eh_predecessor :: "128 word"
  begun_seq :: nat
  eh_resolved :: bool

record fence_store =
  base :: store
  operator_resets :: "(nat \<times> nat) list"
  peer_marks :: "(string \<times> (nat \<times> nat)) list"
  worker_fences :: "(string \<times> 128 word) list"
  edge_fences :: "(string \<times> 128 word) list"
  edge_handoffs :: "(string \<times> edge_handoff_row) list"

definition fence_txn :: "(fence_store \<Rightarrow> store_error + fence_store) \<Rightarrow> fence_store \<Rightarrow> fence_store \<times> (store_error + unit)" where
  "fence_txn body s = (case body s of Inr t \<Rightarrow> (t, Inr ()) | Inl e \<Rightarrow> (s, Inl e))"

definition record_operator_reset :: "nat \<Rightarrow> nat \<Rightarrow> fence_store \<Rightarrow> fence_store \<times> (store_error + unit)" where
  "record_operator_reset generation seq s =
     (case to_seq generation ''reset generation'' of
        Inl e \<Rightarrow> (s, Inl e)
      | Inr g \<Rightarrow>
          case to_seq seq ''seq'' of
            Inl e \<Rightarrow> (s, Inl e)
          | Inr sq \<Rightarrow>
              fence_txn (\<lambda>s.
                if list_ex (\<lambda>(h, _). g \<le> h) (operator_resets s) then Inl StaleOperatorReset
                else case sql_insert g sq (operator_resets s) of
                  Inl e \<Rightarrow> Inl e
                | Inr t \<Rightarrow> Inr (s\<lparr>operator_resets := t\<rparr>)) s)"

definition highest_operator_reset :: "fence_store \<Rightarrow> nat option" where
  "highest_operator_reset s = (if operator_resets s = [] then None else Some (Max (fst ` set (operator_resets s))))"

definition record_peer_authority_high_water ::
  "typed_digest \<Rightarrow> string \<Rightarrow> nat \<Rightarrow> nat \<Rightarrow> fence_store \<Rightarrow> fence_store \<times> (store_error + unit)" where
  "record_peer_authority_high_water au peer t observed s =
     (case to_seq t ''term'' of
        Inl e \<Rightarrow> (s, Inl e)
      | Inr tm \<Rightarrow>
          case to_seq observed ''observed_seq'' of
            Inl e \<Rightarrow> (s, Inl e)
          | Inr obs \<Rightarrow>
              fence_txn (\<lambda>s.
                case require_active au (base s) of
                  Inl e \<Rightarrow> Inl e
                | Inr _ \<Rightarrow>
                    case map_of (peer_marks s) peer of
                      Some (stored, _) \<Rightarrow>
                        if t < stored then Inl StalePeerAuthority
                        else if t = stored then Inr s
                        else Inr (s\<lparr>peer_marks := AList.update peer (tm, obs) (peer_marks s)\<rparr>)
                    | None \<Rightarrow> Inr (s\<lparr>peer_marks := AList.update peer (tm, obs) (peer_marks s)\<rparr>)) s)"

definition advance_worker_fence ::
  "typed_digest \<Rightarrow> string \<Rightarrow> 128 word \<Rightarrow> fence_store \<Rightarrow> fence_store \<times> (store_error + unit)" where
  "advance_worker_fence au worker i =
     fence_txn (\<lambda>s.
       case require_active au (base s) of
         Inl e \<Rightarrow> Inl e
       | Inr _ \<Rightarrow>
           case map_of (worker_fences s) worker of
             Some stored \<Rightarrow>
               if i < stored then Inl StaleWorkerIncarnation
               else if i = stored then Inr s
               else Inr (s\<lparr>worker_fences := AList.update worker i (worker_fences s)\<rparr>)
           | None \<Rightarrow> Inr (s\<lparr>worker_fences := AList.update worker i (worker_fences s)\<rparr>))"

definition advance_edge_fence ::
  "typed_digest \<Rightarrow> string \<Rightarrow> 128 word \<Rightarrow> fence_store \<Rightarrow> fence_store \<times> (store_error + unit)" where
  "advance_edge_fence au edge i =
     fence_txn (\<lambda>s.
       case require_active au (base s) of
         Inl e \<Rightarrow> Inl e
       | Inr _ \<Rightarrow>
           case map_of (edge_fences s) edge of
             Some stored \<Rightarrow>
               if i < stored then Inl StaleEdgeIncarnation
               else if i = stored then Inr s
               else Inr (s\<lparr>edge_fences := AList.update edge i (edge_fences s)\<rparr>)
           | None \<Rightarrow> Inr (s\<lparr>edge_fences := AList.update edge i (edge_fences s)\<rparr>))"

definition open_handoff :: "string \<Rightarrow> 128 word \<Rightarrow> 128 word \<Rightarrow> nat \<Rightarrow> fence_store \<Rightarrow> store_error + fence_store" where
  "open_handoff edge active predecessor begun s =
     (if (case map_of (edge_fences s) edge of Some f \<Rightarrow> f \<noteq> predecessor | None \<Rightarrow> False)
      then Inl EdgeHandoffPredecessorMismatch
      else if active \<le> predecessor then Inl StaleEdgeIncarnation
      else Inr (s\<lparr>edge_handoffs := AList.update edge \<lparr>eh_active = active, eh_predecessor = predecessor,
        begun_seq = begun, eh_resolved = False\<rparr> (edge_handoffs s)\<rparr>))"

definition begin_edge_handoff ::
  "typed_digest \<Rightarrow> string \<Rightarrow> 128 word \<Rightarrow> 128 word \<Rightarrow> nat \<Rightarrow> fence_store \<Rightarrow> fence_store \<times> (store_error + unit)" where
  "begin_edge_handoff au edge active predecessor begun s =
     (case to_seq begun ''begun_seq'' of
        Inl e \<Rightarrow> (s, Inl e)
      | Inr bg \<Rightarrow>
          fence_txn (\<lambda>s.
            case require_active au (base s) of
              Inl e \<Rightarrow> Inl e
            | Inr _ \<Rightarrow>
                case map_of (edge_handoffs s) edge of
                  Some row \<Rightarrow>
                    if \<not> eh_resolved row
                    then (if eh_active row = active \<and> eh_predecessor row = predecessor then Inr s
                          else Inl EdgeHandoffActive)
                    else open_handoff edge active predecessor bg s
                | None \<Rightarrow> open_handoff edge active predecessor bg s) s)"

definition resolve_edge_handoff ::
  "typed_digest \<Rightarrow> string \<Rightarrow> 128 word \<Rightarrow> fence_store \<Rightarrow> fence_store \<times> (store_error + unit)" where
  "resolve_edge_handoff au edge active =
     fence_txn (\<lambda>s.
       case require_active au (base s) of
         Inl e \<Rightarrow> Inl e
       | Inr _ \<Rightarrow>
           case map_of (edge_handoffs s) edge of
             None \<Rightarrow> Inl UnknownEdgeHandoff
           | Some row \<Rightarrow>
               if eh_resolved row \<or> eh_active row \<noteq> active then Inl UnknownEdgeHandoff
               else Inr (s\<lparr>edge_handoffs := AList.map_entry edge (eh_resolved_update (\<lambda>_. True)) (edge_handoffs s),
                 edge_fences := AList.update edge active (edge_fences s)\<rparr>))"

definition active_edge_handoff :: "string \<Rightarrow> fence_store \<Rightarrow> edge_handoff_row option" where
  "active_edge_handoff edge s =
     (case map_of (edge_handoffs s) edge of
        None \<Rightarrow> None
      | Some row \<Rightarrow> if eh_resolved row then None else Some row)"

section \<open>Authority is ordered\<close>

text \<open>\<open>records mk a\<close>: the mark of a peer whose last accepted authority is \<open>a\<close>.\<close>

definition records :: "peer_high_water_mark \<Rightarrow> coordinator_authority \<Rightarrow> bool" where
  "records mk a \<longleftrightarrow> mark_cluster mk = cluster a \<and> mark_credential_generation mk = credential_generation a
     \<and> highest_term mk = coord_term a \<and> last_incarnation mk = incarnation_id a"

definition accepted :: "authority_decision \<Rightarrow> bool" where
  "accepted d \<longleftrightarrow> d \<in> {AcceptAdvanceTerm, AcceptSameIncarnation, AcceptNewGenerationPendingCredentialProof,
     AcceptViaOperatorReset}"

lemma accepted_iff:
  assumes "records mk a" "cluster b = cluster a"
  shows "accepted (mark_evaluate mk b None) \<longleftrightarrow>
    credential_generation a < credential_generation b
    \<or> credential_generation a = credential_generation b
      \<and> (coord_term a < coord_term b \<or> coord_term a = coord_term b \<and> incarnation_id a = incarnation_id b)"
  using assms by (auto simp: records_def mark_evaluate_def accepted_def)

text \<open>Two coordinators never displace each other in turn. Of two different authorities at most one is
  accepted, without an operator reset, by a peer whose mark records the other: acceptance follows one
  line of succession, and a restored or cloned coordinator cannot take its place in it again.\<close>

theorem no_split_authority:
  assumes "records mk a" "records mk' b" "a \<noteq> b"
  shows "\<not> (accepted (mark_evaluate mk b None) \<and> accepted (mark_evaluate mk' a None))"
proof
  assume acc: "accepted (mark_evaluate mk b None) \<and> accepted (mark_evaluate mk' a None)"
  have c: "cluster b = cluster a"
    using assms(1) acc by (auto simp: records_def mark_evaluate_def accepted_def split: if_splits)
  have "credential_generation a = credential_generation b \<and> coord_term a = coord_term b \<and> incarnation_id a = incarnation_id b"
    using acc unfolding accepted_iff [OF assms(1) c] accepted_iff [OF assms(2) c [symmetric]] by auto
  with c assms(3) show False by simp
qed

definition sample_mark :: peer_high_water_mark where
  "sample_mark = \<lparr>mark_cluster = ''c'', mark_credential_generation = 1, highest_term = 1, last_incarnation = 1,
     mark_reset_generation = 0\<rparr>"

text \<open>A clone of the sample authority, with an incarnation of its own.\<close>

theorem no_split_authority_witness:
  "let clone = sample_coordinator_authority\<lparr>incarnation_id := 2\<rparr>; mark = sample_mark\<lparr>last_incarnation := 2\<rparr>
   in records mark clone \<and> \<not> (accepted (mark_evaluate sample_mark clone None)
        \<and> accepted (mark_evaluate mark sample_coordinator_authority None))"
  using no_split_authority [of sample_mark sample_coordinator_authority "sample_mark\<lparr>last_incarnation := 2\<rparr>"
      "sample_coordinator_authority\<lparr>incarnation_id := 2\<rparr>"]
  by (simp add: records_def sample_mark_def sample_coordinator_authority_def)

section \<open>Booting a coordinator\<close>

text \<open>The acquisition steps in any order and number; a refused step changes nothing.\<close>

inductive boot_step :: "coordinator_boot \<Rightarrow> coordinator_boot \<Rightarrow> bool" where
  boot_lock: "acquire_lock free b = Inr b' \<Longrightarrow> boot_step b b'"
| boot_term: "advance_term_durably t g b = Inr b' \<Longrightarrow> boot_step b b'"
| boot_fresh: "set_fresh_incarnation i b = Inr b' \<Longrightarrow> boot_step b b'"

definition boots_after :: "coordinator_authority \<Rightarrow> coordinator_boot \<Rightarrow> bool" where
  "boots_after old b \<longleftrightarrow> b = boot_new (cluster old) (coord_term old) (credential_generation old) (Some (incarnation_id old))"

definition boot_inv :: "coordinator_authority \<Rightarrow> coordinator_boot \<Rightarrow> bool" where
  "boot_inv old b \<longleftrightarrow> boot_cluster b = cluster old \<and> last_durable_term b = coord_term old
     \<and> last_credential_generation b = credential_generation old \<and> previous_incarnation b = Some (incarnation_id old)
     \<and> (\<forall>t g. term_advanced b = Some (t, g) \<longrightarrow> coord_term old < t \<and> credential_generation old \<le> g \<and> lock_held b)
     \<and> (\<forall>i. boot_incarnation b = Some i \<longrightarrow> i \<noteq> incarnation_id old)"

lemma boot_inv_step: "boot_inv old b \<Longrightarrow> boot_step b b' \<Longrightarrow> boot_inv old b'"
  by (erule boot_step.cases)
    (auto simp: boot_inv_def acquire_lock_def advance_term_durably_def set_fresh_incarnation_def split: if_splits)

interpretation boot: transition_system "boots_after old" boot_step "boot_inv old" for old
  by unfold_locales (simp add: boots_after_def boot_inv_def boot_new_def, erule (1) boot_inv_step)

text \<open>C9: A booted coordinator fences its predecessor. Whatever acquisition steps were taken, in whatever
  order, an authority that is issued is accepted as newer by every peer whose mark records the
  predecessor, and a peer that has accepted it refuses the predecessor as stale. Its incarnation is new.\<close>

theorem boot_fences_predecessor:
  assumes "reach_from (boots_after old) boot_step b" "issue_authority b = Inr new"
    and "records mk old" "records mk' new"
  shows "mark_evaluate mk new None \<in> {AcceptAdvanceTerm, AcceptNewGenerationPendingCredentialProof}
    \<and> mark_evaluate mk' old None \<in> {RejectStaleTerm, RejectStaleCredentialGeneration}
    \<and> incarnation_id new \<noteq> incarnation_id old"
proof -
  have inv: "boot_inv old b" by (rule boot.reachable_good [OF assms(1)])
  from assms(2) obtain t g i where b: "term_advanced b = Some (t, g)" "boot_incarnation b = Some i"
      "new = \<lparr>cluster = boot_cluster b, credential_generation = g, coord_term = t, incarnation_id = i\<rparr>"
    by (auto simp: issue_authority_def split: if_splits option.splits)
  have "cluster new = cluster old" "coord_term old < coord_term new" "credential_generation old \<le> credential_generation new"
      "incarnation_id new \<noteq> incarnation_id old"
    using inv b by (simp_all add: boot_inv_def)
  then show ?thesis using assms(3,4) by (auto simp: mark_evaluate_def records_def)
qed

definition sample_boot :: coordinator_boot where
  "sample_boot = (boot_new ''c'' 1 1 (Some 1))\<lparr>lock_held := True, term_advanced := Some (2, 1), boot_incarnation := Some 5\<rparr>"

theorem boot_fences_predecessor_witness:
  "\<exists>new. issue_authority sample_boot = Inr new \<and> coord_term new = 2
     \<and> mark_evaluate sample_mark new None \<in> {AcceptAdvanceTerm, AcceptNewGenerationPendingCredentialProof}"
proof -
  let ?R = "reach_from (boots_after sample_coordinator_authority) boot_step"
  let ?b = "boot_new ''c'' 1 1 (Some 1)"
  have "?R ?b" by (rule reach_start) (simp add: boots_after_def sample_coordinator_authority_def)
  then have "?R (?b\<lparr>lock_held := True\<rparr>)"
    by (rule reach_move) (rule boot_lock [of True], simp add: acquire_lock_def)
  then have "?R (?b\<lparr>lock_held := True, term_advanced := Some (2, 1)\<rparr>)"
    by (rule reach_move) (rule boot_term [of 2 1], simp add: advance_term_durably_def boot_new_def word_le_nat_alt)
  then have r: "?R sample_boot"
    unfolding sample_boot_def by (rule reach_move) (rule boot_fresh [of 5], simp add: set_fresh_incarnation_def boot_new_def)
  let ?new = "\<lparr>cluster = ''c'', credential_generation = 1, coord_term = 2, incarnation_id = 5\<rparr>"
  have i: "issue_authority sample_boot = Inr ?new" by (simp add: issue_authority_def sample_boot_def boot_new_def)
  have "records sample_mark sample_coordinator_authority"
    by (simp add: records_def sample_mark_def sample_coordinator_authority_def)
  moreover have "records (sample_mark\<lparr>highest_term := 2, last_incarnation := 5\<rparr>) ?new"
    by (simp add: records_def sample_mark_def)
  ultimately show ?thesis using boot_fences_predecessor [OF r i] i by fastforce
qed

section \<open>One owner per edge\<close>

inductive edge_step :: "edge_ownership \<Rightarrow> edge_ownership \<Rightarrow> bool" where
  edge_begin: "begin_handoff token au deadline e = Inr e' \<Longrightarrow> edge_step e e'"
| edge_report: "report_frontier i e = Inr e' \<Longrightarrow> edge_step e e'"
| edge_complete: "edge_step e (fst (complete_handoff seq e))"

definition edge_booted :: "edge_ownership \<Rightarrow> bool" where
  "edge_booted e \<longleftrightarrow> (\<exists>n g i. e = cold_boot n g i)"

text \<open>The open window is about the current owner, and a side that reported is a party of it.\<close>

definition edge_inv :: "edge_ownership \<Rightarrow> bool" where
  "edge_inv e \<longleftrightarrow> (\<forall>h. handoff e = Some h \<longrightarrow> predecessor_incarnation (hw_token h) = sole_owner e
     \<and> tk_edge_id (hw_token h) = edge_id e
     \<and> (successor_reported h \<longrightarrow> successor_incarnation (hw_token h) \<noteq> sole_owner e))"

lemma edge_inv_step: "edge_inv e \<Longrightarrow> edge_step e e' \<Longrightarrow> edge_inv e'"
  by (erule edge_step.cases)
    (auto simp: edge_inv_def begin_handoff_def report_frontier_def complete_handoff_def Let_def
      split: if_splits option.splits)

interpretation edge: transition_system edge_booted edge_step edge_inv
  by unfold_locales (force simp: edge_booted_def edge_inv_def cold_boot_def, erule (1) edge_inv_step)

lemma edge_complete_Inr:
  assumes "edge_inv e" "complete_handoff seq e = (e', Inr r)"
  obtains h where "handoff e = Some h" "seq \<le> deadline_seq h" "predecessor_reported h" "successor_reported h"
    "sole_owner e' = successor_incarnation (hw_token h)" "sole_owner e' \<noteq> sole_owner e"
    "fenced_incarnation r = sole_owner e" "owner_incarnation r = sole_owner e'"
    "boot_generation e' = boot_generation e + 1" "handoff e' = None"
proof -
  from assms(2) obtain h where h: "handoff e = Some h" "seq \<le> deadline_seq h" "predecessor_reported h" "successor_reported h"
      "e' = e\<lparr>handoff := None, boot_generation := boot_generation e + 1, sole_owner := successor_incarnation (hw_token h)\<rparr>"
      "owner_incarnation r = successor_incarnation (hw_token h)" "fenced_incarnation r = predecessor_incarnation (hw_token h)"
    by (auto simp: complete_handoff_def Let_def not_less split: option.splits if_splits)
  have "predecessor_incarnation (hw_token h) = sole_owner e" "successor_incarnation (hw_token h) \<noteq> sole_owner e"
    using assms(1) h(1,4) by (simp_all add: edge_inv_def)
  with h show ?thesis by (intro that [OF h(1-4)]) simp_all
qed

lemma edge_step_kept:
  "edge_step e e' \<Longrightarrow> sole_owner e' = sole_owner e \<and> boot_generation e' = boot_generation e \<or>
     (\<exists>seq r. complete_handoff seq e = (e', Inr r))"
  by (erule edge_step.cases)
    (auto simp: begin_handoff_def report_frontier_def complete_handoff_def Let_def split: if_splits option.splits)

text \<open>C24: Ownership of an edge moves only through a completed handoff. From every reachable state, every
  call, refused ones included, either keeps the owner and the generation, or is a completion that
  succeeded: then a window about the owner was open and not past its deadline, both sides had
  reported, the new owner is the successor of that window, the generation advances by one and the
  window closes; the new owner has rights and the fenced incarnation is refused.\<close>

theorem edge_ownership_transfer:
  assumes "reach_from edge_booted edge_step e" "edge_step e e'"
  shows "sole_owner e' = sole_owner e \<and> boot_generation e' = boot_generation e \<or>
     (\<exists>seq r h. complete_handoff seq e = (e', Inr r) \<and> handoff e = Some h \<and> seq \<le> deadline_seq h
       \<and> predecessor_reported h \<and> successor_reported h
       \<and> sole_owner e' = successor_incarnation (hw_token h) \<and> sole_owner e' \<noteq> sole_owner e
       \<and> fenced_incarnation r = sole_owner e \<and> owner_incarnation r = sole_owner e'
       \<and> boot_generation e' = boot_generation e + 1 \<and> handoff e' = None
       \<and> check_rights e' (owner_incarnation r) = Inr ()
       \<and> check_rights e' (fenced_incarnation r) = Inl (NotSoleOwner (sole_owner e) (sole_owner e')))"
  using edge_step_kept [OF assms(2)]
proof
  assume "\<exists>seq r. complete_handoff seq e = (e', Inr r)"
  then obtain seq r where c: "complete_handoff seq e = (e', Inr r)" by blast
  have "edge_inv e" by (rule edge.reachable_good [OF assms(1)])
  from edge_complete_Inr [OF this c] c show ?thesis by (metis check_rights_def)
qed simp

definition sample_token :: "128 word \<Rightarrow> 128 word \<Rightarrow> handoff_token" where
  "sample_token p q = \<lparr>tk_edge_id = ''e'', predecessor_incarnation = p, successor_incarnation = q, session_set = [],
     authorized_by = sample_digest 1\<rparr>"

definition sample_window :: "64 word \<Rightarrow> 128 word \<Rightarrow> 128 word \<Rightarrow> edge_ownership" where
  "sample_window g p q = \<lparr>edge_id = ''e'', boot_generation = g, sole_owner = p, handoff = Some \<lparr>hw_token = sample_token p q,
     deadline_seq = 100, predecessor_reported = True, successor_reported = True\<rparr>\<rparr>"

lemma sample_window_reachable:
  assumes "reach_from edge_booted edge_step (cold_boot ''e'' g p)" "p \<noteq> q"
  shows "reach_from edge_booted edge_step (sample_window g p q)"
proof -
  let ?R = "reach_from edge_booted edge_step" and ?e = "cold_boot ''e'' g p"
  let ?h = "\<lparr>hw_token = sample_token p q, deadline_seq = 100, predecessor_reported = False, successor_reported = False\<rparr>"
  have "?R (?e\<lparr>handoff := Some ?h\<rparr>)"
    by (rule reach_move [OF assms(1)], rule edge_begin [of "sample_token p q" "sample_digest 1" 100])
      (simp add: begin_handoff_def cold_boot_def sample_token_def)
  then have "?R (?e\<lparr>handoff := Some (?h\<lparr>predecessor_reported := True\<rparr>)\<rparr>)"
    by (rule reach_move) (rule edge_report [of p], simp add: report_frontier_def cold_boot_def sample_token_def)
  then show ?thesis
    unfolding sample_window_def
    by (rule reach_move) (rule edge_report [of q], use assms(2) in \<open>simp add: report_frontier_def cold_boot_def sample_token_def\<close>)
qed

theorem edge_ownership_transfer_witness:
  "let e = sample_window 3 5 6; e' = fst (complete_handoff 7 e)
   in edge_step e e' \<and> sole_owner e' = 6 \<and> boot_generation e' = 4 \<and> handoff e' = None"
proof -
  let ?e' = "fst (complete_handoff 7 (sample_window 3 5 6))"
  have "reach_from edge_booted edge_step (cold_boot ''e'' 3 5)" by (rule reach_start) (auto simp: edge_booted_def)
  from sample_window_reachable [OF this, of 6] have r: "reach_from edge_booted edge_step (sample_window 3 5 6)" by simp
  have s: "edge_step (sample_window 3 5 6) ?e'" by (rule edge_complete)
  have "sole_owner ?e' = 6" by (simp add: complete_handoff_def sample_window_def sample_token_def)
  moreover have "sole_owner (sample_window 3 5 6) = 5" "boot_generation (sample_window 3 5 6) = 3"
    by (simp_all add: sample_window_def)
  ultimately show ?thesis using edge_ownership_transfer [OF r s] s by (auto simp: Let_def)
qed

text \<open>A fenced incarnation can come back. Nothing compares a handoff's successor with the incarnations fenced
  before: after a handoff from 5 to 6, a second one makes 5 the owner again.\<close>

theorem fenced_incarnation_returns:
  "\<exists>e r e'. complete_handoff 7 (sample_window 3 5 6) = (e, Inr r) \<and> fenced_incarnation r = 5
     \<and> edge_step\<^sup>*\<^sup>* e e' \<and> check_rights e' 5 = Inr ()"
proof -
  let ?e = "\<lparr>edge_id = ''e'', boot_generation = 4, sole_owner = 6, handoff = None\<rparr>"
  let ?h = "\<lparr>hw_token = sample_token 6 5, deadline_seq = 100, predecessor_reported = False, successor_reported = False\<rparr>"
  have c: "\<exists>r. complete_handoff 7 (sample_window 3 5 6) = (?e, Inr r) \<and> fenced_incarnation r = 5"
    by (simp add: complete_handoff_def sample_window_def sample_token_def)
  have s1: "edge_step ?e (?e\<lparr>handoff := Some ?h\<rparr>)"
    by (rule edge_begin [of "sample_token 6 5" "sample_digest 1" 100]) (simp add: begin_handoff_def sample_token_def)
  have s2: "edge_step (?e\<lparr>handoff := Some ?h\<rparr>) (?e\<lparr>handoff := Some (?h\<lparr>predecessor_reported := True\<rparr>)\<rparr>)"
    by (rule edge_report [of 6]) (simp add: report_frontier_def sample_token_def)
  have s3: "edge_step (?e\<lparr>handoff := Some (?h\<lparr>predecessor_reported := True\<rparr>)\<rparr>)
      (?e\<lparr>handoff := Some (?h\<lparr>predecessor_reported := True, successor_reported := True\<rparr>)\<rparr>)"
    by (rule edge_report [of 5]) (simp add: report_frontier_def sample_token_def)
  let ?w = "?e\<lparr>handoff := Some (?h\<lparr>predecessor_reported := True, successor_reported := True\<rparr>)\<rparr>"
  have s4: "edge_step ?w (fst (complete_handoff 8 ?w))" by (rule edge_complete)
  have "edge_step\<^sup>*\<^sup>* ?e (fst (complete_handoff 8 ?w))"
    using s1 s2 s3 s4 by (meson converse_rtranclp_into_rtranclp rtranclp.rtrancl_refl)
  moreover have "check_rights (fst (complete_handoff 8 ?w)) 5 = Inr ()"
    by (simp add: complete_handoff_def check_rights_def sample_token_def)
  ultimately show ?thesis using c by blast
qed


section \<open>Durable fences\<close>

text \<open>The calls on the fence tables, with any store step in between.\<close>

inductive fence_step :: "fence_store \<Rightarrow> fence_store \<Rightarrow> bool" where
  fence_base: "store_step (base s) b \<Longrightarrow> fence_step s (s\<lparr>base := b\<rparr>)"
| fence_reset: "fence_step s (fst (record_operator_reset g seq s))"
| fence_peer: "fence_step s (fst (record_peer_authority_high_water au p t obs s))"
| fence_worker: "fence_step s (fst (advance_worker_fence au w i s))"
| fence_edge: "fence_step s (fst (advance_edge_fence au e i s))"
| fence_begin: "fence_step s (fst (begin_edge_handoff au e i p b s))"
| fence_resolve: "fence_step s (fst (resolve_edge_handoff au e i s))"

text \<open>\<open>rises f t t'\<close>: no row is lost and its value under \<open>f\<close> does not drop.\<close>

definition rises :: "('v \<Rightarrow> 'a :: order) \<Rightarrow> ('k \<times> 'v) list \<Rightarrow> ('k \<times> 'v) list \<Rightarrow> bool" where
  "rises f t t' \<longleftrightarrow> (\<forall>k v. map_of t k = Some v \<longrightarrow> (\<exists>v'. map_of t' k = Some v' \<and> f v \<le> f v'))"

lemma rises_refl [simp]: "rises f t t" by (simp add: rises_def)

lemma rises_trans: "rises f a b \<Longrightarrow> rises f b c \<Longrightarrow> rises f a c"
  unfolding rises_def by (meson order_trans)

lemma rises_update: "(\<And>w. map_of t k = Some w \<Longrightarrow> f w \<le> f v) \<Longrightarrow> rises f t (AList.update k v t)"
  by (auto simp: rises_def update_conv')

lemma to_seq_value: "to_seq v w = Inr n \<Longrightarrow> n = v"
  by (auto simp: to_seq_def split: if_splits)

lemma fst_fence_txn: "fst (fence_txn body s) = (case body s of Inr t \<Rightarrow> t | Inl e \<Rightarrow> s)"
  by (simp add: fence_txn_def split: sum.splits)

lemma fst_record_peer:
  "fst (record_peer_authority_high_water au p t obs s) \<in>
     {s} \<union> (if (\<forall>w. map_of (peer_marks s) p = Some w \<longrightarrow> fst w \<le> t)
           then {s\<lparr>peer_marks := AList.update p (t, obs) (peer_marks s)\<rparr>} else {})"
proof (cases "to_seq t ''term''"; cases "to_seq obs ''observed_seq''")
  fix tm ob
  assume q: "to_seq t ''term'' = Inr tm" "to_seq obs ''observed_seq'' = Inr ob"
  then have "tm = t" "ob = obs" by (auto dest: to_seq_value)
  with q show ?thesis
    by (auto simp: record_peer_authority_high_water_def fst_fence_txn split: sum.splits option.splits if_splits)
qed (simp_all add: record_peer_authority_high_water_def)

lemma fst_advance_worker:
  "fst (advance_worker_fence au w i s) \<in>
     {s} \<union> (if (\<forall>j. map_of (worker_fences s) w = Some j \<longrightarrow> j \<le> i)
           then {s\<lparr>worker_fences := AList.update w i (worker_fences s)\<rparr>} else {})"
  by (auto simp: advance_worker_fence_def fst_fence_txn split: sum.splits option.splits if_splits)

lemma fence_step_rises:
  assumes "fence_step s t"
  shows "rises fst (peer_marks s) (peer_marks t) \<and> rises id (worker_fences s) (worker_fences t)
    \<and> set (operator_resets s) \<subseteq> set (operator_resets t)"
  using assms
proof cases
  case (fence_reset g seq)
  then show ?thesis
    by (auto simp: record_operator_reset_def fst_fence_txn sql_insert_def split: sum.splits if_splits)
next
  case (fence_peer au p tm obs)
  then show ?thesis using fst_record_peer [of au p tm obs s] by (auto intro!: rises_update split: if_splits)
next
  case (fence_worker au w i)
  then show ?thesis using fst_advance_worker [of au w i s] by (auto intro!: rises_update split: if_splits)
next
  case (fence_edge au e i)
  then show ?thesis by (auto simp: advance_edge_fence_def fst_fence_txn split: sum.splits option.splits if_splits)
next
  case (fence_begin au e i p b)
  then show ?thesis
    by (auto simp: begin_edge_handoff_def open_handoff_def fst_fence_txn split: sum.splits option.splits if_splits)
next
  case (fence_resolve au e i)
  then show ?thesis by (auto simp: resolve_edge_handoff_def fst_fence_txn split: sum.splits option.splits if_splits)
qed simp

text \<open>The durable marks only rise. Through any sequence of calls, with any other store steps between them,
  the recorded term of a peer and the recorded incarnation of a worker never drop or vanish, so an older
  incarnation of a worker stays refused for good; and the operator resets only accumulate.\<close>

theorem durable_fences_rise:
  assumes "fence_step\<^sup>*\<^sup>* s t" "map_of (worker_fences s) w = Some i" "j < i" "require_active au (base t) = Inr ()"
  shows "snd (advance_worker_fence au w j t) = Inl StaleWorkerIncarnation
    \<and> (\<forall>p m. map_of (peer_marks s) p = Some m \<longrightarrow> (\<exists>m'. map_of (peer_marks t) p = Some m' \<and> fst m \<le> fst m'))
    \<and> set (operator_resets s) \<subseteq> set (operator_resets t)"
proof -
  have "rises fst (peer_marks s) (peer_marks t) \<and> rises id (worker_fences s) (worker_fences t)
      \<and> set (operator_resets s) \<subseteq> set (operator_resets t)"
    using assms(1)
  proof (induction rule: rtranclp_induct)
    case (step t u)
    from step.IH fence_step_rises [OF step.hyps(2)] show ?case
      by (intro conjI) (blast intro: rises_trans)+
  qed simp
  then have r: "rises fst (peer_marks s) (peer_marks t)" "rises id (worker_fences s) (worker_fences t)"
      "set (operator_resets s) \<subseteq> set (operator_resets t)" by simp_all
  from r(2) obtain i' where "map_of (worker_fences t) w = Some i'" "i \<le> i'"
    using assms(2) unfolding rises_def id_apply by blast
  then have "snd (advance_worker_fence au w j t) = Inl StaleWorkerIncarnation"
    using assms(3,4) by (simp add: advance_worker_fence_def fence_txn_def order.strict_trans2)
  with r(1,3) show ?thesis unfolding rises_def by blast
qed

definition sample_fences :: fence_store where
  "sample_fences = \<lparr>base = meta sample_coordinator, operator_resets = [], peer_marks = [], worker_fences = [(''w'', 5)],
     edge_fences = [(''e'', 5)], edge_handoffs = []\<rparr>"

lemma sample_fences_active: "require_active \<lparr>domain = AUTHORITY_DIGEST_DOMAIN, bytes = []\<rparr> (meta sample_coordinator) = Inr ()"
  by (simp add: require_active_def active_authority_key_def sample_coordinator_def)

theorem durable_fences_rise_witness:
  "snd (advance_worker_fence \<lparr>domain = AUTHORITY_DIGEST_DOMAIN, bytes = []\<rparr> ''w'' 4
     (fst (advance_worker_fence \<lparr>domain = AUTHORITY_DIGEST_DOMAIN, bytes = []\<rparr> ''w'' 7 sample_fences)))
     = Inl StaleWorkerIncarnation"
proof -
  let ?au = "\<lparr>domain = AUTHORITY_DIGEST_DOMAIN, bytes = []\<rparr>"
  let ?t = "fst (advance_worker_fence ?au ''w'' 7 sample_fences)"
  have r: "fence_step\<^sup>*\<^sup>* sample_fences ?t" by (rule r_into_rtranclp) (rule fence_worker)
  have w: "map_of (worker_fences sample_fences) ''w'' = Some 5" by (simp add: sample_fences_def)
  have "base ?t = base sample_fences" using fst_advance_worker [of ?au "''w''" 7 sample_fences] by (auto split: if_splits)
  then have a: "require_active ?au (base ?t) = Inr ()" using sample_fences_active by (simp add: sample_fences_def)
  from durable_fences_rise [OF r w _ a, of 4] show ?thesis by simp
qed

text \<open>The fence of an edge can drop. Resolving a handoff writes its incarnation whatever the fence has become
  since the handoff began: with a handoff to 6 open, the fence is advanced to 9, and resolving the
  handoff sets it back to 6, where 7 and 8 pass again.\<close>

theorem edge_fence_drops:
  "let au = \<lparr>domain = AUTHORITY_DIGEST_DOMAIN, bytes = []\<rparr>;
       s1 = fst (begin_edge_handoff au ''e'' 6 5 1 sample_fences);
       s2 = fst (advance_edge_fence au ''e'' 9 s1);
       s3 = fst (resolve_edge_handoff au ''e'' 6 s2)
   in map_of (edge_fences s2) ''e'' = Some 9 \<and> snd (resolve_edge_handoff au ''e'' 6 s2) = Inr ()
      \<and> map_of (edge_fences s3) ''e'' = Some 6 \<and> snd (advance_edge_fence au ''e'' 7 s3) = Inr ()"
  by (simp add: Let_def begin_edge_handoff_def to_seq_def fence_txn_def sample_fences_active open_handoff_def
      advance_edge_fence_def resolve_edge_handoff_def sample_fences_def word_le_nat_alt word_less_nat_alt)

end
