(* ===== verification/Stateful_Delivery.thy ===== *)
theory Stateful_Delivery
  imports Local_Protocol
begin

text \<open>
  Delivery of build effects with write-ahead intents, \<open>rabs-protocol/src/stateful_delivery.rs\<close>. The
  engine exposes the items of a plan one after the other. Before a stateful item becomes visible its
  intent is durable; after a crash an intent without an acknowledgement is resolved by looking at the
  destination. Sequence numbers are \<open>nat\<close>, the \<open>BTreeSet\<close> of intents is a set.

  The theory closes the loop: the engine, the visible world, crashes at any moment, and a resolution
  that inspects the world. The main result is that every stateful effect happens exactly once.
\<close>

section \<open>Plans\<close>

datatype delivery_item_kind = Transcript | StatefulWrite | Terminal

datatype plan_error = MissingTerminal | TerminalNotLast | Empty

record delivery_plan =
  items :: "delivery_item_kind list"

definition plan_new :: "delivery_item_kind list \<Rightarrow> plan_error + delivery_plan" where
  "plan_new its =
     (if its = [] then Inl Empty
      else
        let terminals = length (filter (\<lambda>i. i = Terminal) its)
        in if terminals = 0 then Inl MissingTerminal
           else if terminals > 1 \<or> last its \<noteq> Terminal then Inl TerminalNotLast
           else Inr \<lparr>items = its\<rparr>)"

definition plan_len :: "delivery_plan \<Rightarrow> nat" where
  "plan_len p = length (items p)"

definition plan_kind :: "delivery_plan \<Rightarrow> nat \<Rightarrow> delivery_item_kind option" where
  "plan_kind p seq =
     (if seq = 0 then None
      else if seq - 1 < length (items p) then Some (items p ! (seq - 1)) else None)"

section \<open>Durable state, visible world, engine\<close>

record durable_delivery_state =
  intents :: "nat set"
  acked_frontier :: nat

datatype destination_inspection = EffectLanded | EffectAbsent

record visible_world =
  exposed :: "nat list"

definition inspect :: "visible_world \<Rightarrow> nat \<Rightarrow> destination_inspection" where
  "inspect w seq = (if seq \<in> set (exposed w) then EffectLanded else EffectAbsent)"

datatype recovery_class =
    CleanResume nat
  | DeliveryUncertain nat
  | Complete

datatype delivery_error =
    NotNextItem nat
  | IntentNotRecorded nat
  | NotAStatefulItem nat
  | AlreadyExposing nat
  | NotExposing nat
  | UncertainUnresolved nat
  | NothingUncertain
  | UnknownSequence nat

record delivery_engine =
  plan :: delivery_plan
  durable :: durable_delivery_state
  exposing :: "nat option"
  unresolved_uncertain :: "nat option"

definition engine_new :: "delivery_plan \<Rightarrow> delivery_engine" where
  "engine_new p =
     \<lparr>plan = p, durable = \<lparr>intents = {}, acked_frontier = 0\<rparr>, exposing = None,
      unresolved_uncertain = None\<rparr>"

definition next_seq :: "delivery_engine \<Rightarrow> nat" where
  "next_seq e = acked_frontier (durable e) + 1"

definition guard_uncertain :: "delivery_engine \<Rightarrow> delivery_error + unit" where
  "guard_uncertain e =
     (case unresolved_uncertain e of Some seq \<Rightarrow> Inl (UncertainUnresolved seq) | None \<Rightarrow> Inr ())"

definition record_intent :: "nat \<Rightarrow> delivery_engine \<Rightarrow> delivery_error + delivery_engine" where
  "record_intent seq e =
     (case guard_uncertain e of
        Inl err \<Rightarrow> Inl err
      | Inr _ \<Rightarrow>
          if seq \<noteq> next_seq e then Inl (NotNextItem (next_seq e))
          else
            case plan_kind (plan e) seq of
              None \<Rightarrow> Inl (UnknownSequence seq)
            | Some StatefulWrite \<Rightarrow>
                Inr (e\<lparr>durable := (durable e)\<lparr>intents := insert seq (intents (durable e))\<rparr>\<rparr>)
            | Some _ \<Rightarrow> Inl (NotAStatefulItem seq))"

definition begin_expose ::
  "nat \<Rightarrow> delivery_engine \<Rightarrow> visible_world \<Rightarrow> delivery_error + delivery_engine \<times> visible_world" where
  "begin_expose seq e w =
     (case guard_uncertain e of
        Inl err \<Rightarrow> Inl err
      | Inr _ \<Rightarrow>
          case exposing e of
            Some x \<Rightarrow> Inl (AlreadyExposing x)
          | None \<Rightarrow>
              if seq \<noteq> next_seq e then Inl (NotNextItem (next_seq e))
              else
                case plan_kind (plan e) seq of
                  None \<Rightarrow> Inl (UnknownSequence seq)
                | Some kind \<Rightarrow>
                    if kind = StatefulWrite \<and> seq \<notin> intents (durable e) then Inl (IntentNotRecorded seq)
                    else Inr (e\<lparr>exposing := Some seq\<rparr>, w\<lparr>exposed := exposed w @ [seq]\<rparr>))"

definition delivery_ack :: "nat \<Rightarrow> delivery_engine \<Rightarrow> delivery_error + delivery_engine" where
  "delivery_ack seq e =
     (case guard_uncertain e of
        Inl err \<Rightarrow> Inl err
      | Inr _ \<Rightarrow>
          if exposing e \<noteq> Some seq then Inl (NotExposing seq)
          else Inr (e\<lparr>exposing := None, durable := (durable e)\<lparr>acked_frontier := seq\<rparr>\<rparr>))"

definition recovery_classify :: "delivery_engine \<Rightarrow> recovery_class" where
  "recovery_classify e =
     (if acked_frontier (durable e) \<ge> plan_len (plan e) then Complete
      else if next_seq e \<in> intents (durable e) then DeliveryUncertain (next_seq e)
      else CleanResume (next_seq e))"

definition crash :: "delivery_engine \<Rightarrow> delivery_engine" where
  "crash e =
     (let recovered = e\<lparr>exposing := None, unresolved_uncertain := None\<rparr>
      in case recovery_classify recovered of
           DeliveryUncertain seq \<Rightarrow> recovered\<lparr>unresolved_uncertain := Some seq\<rparr>
         | _ \<Rightarrow> recovered)"

definition resolve_uncertain ::
  "destination_inspection \<Rightarrow> delivery_engine \<Rightarrow> delivery_error + delivery_engine" where
  "resolve_uncertain inspection e =
     (case unresolved_uncertain e of
        None \<Rightarrow> Inl NothingUncertain
      | Some seq \<Rightarrow>
          let e' = e\<lparr>unresolved_uncertain := None\<rparr>
          in case inspection of
               EffectLanded \<Rightarrow> Inr (e'\<lparr>durable := (durable e')\<lparr>acked_frontier := seq\<rparr>\<rparr>)
             | EffectAbsent \<Rightarrow> Inr e')"

definition delivery_complete :: "delivery_engine \<Rightarrow> bool" where
  "delivery_complete e \<longleftrightarrow> acked_frontier (durable e) \<ge> plan_len (plan e)"

definition delivery_frontier_report :: "delivery_engine \<Rightarrow> frontier_report" where
  "delivery_frontier_report e =
     \<lparr>transcript_exposed = (acked_frontier (durable e) > 0), transcript_uncertain = False,
      stateful_intent_recorded = (intents (durable e) \<noteq> {}),
      stateful_uncertain = (unresolved_uncertain e \<noteq> None),
      last_fully_delivered_seq = acked_frontier (durable e)\<rparr>"

section \<open>Delivery with crashes\<close>

text \<open>Resolution inspects the world for the uncertain item, as the edge does. A refused call changes
  nothing.\<close>

inductive delivery_step ::
  "delivery_engine \<times> visible_world \<Rightarrow> delivery_engine \<times> visible_world \<Rightarrow> bool" where
  step_intent: "record_intent seq e = Inr e' \<Longrightarrow> delivery_step (e, w) (e', w)"
| step_expose: "begin_expose seq e w = Inr (e', w') \<Longrightarrow> delivery_step (e, w) (e', w')"
| step_ack: "delivery_ack seq e = Inr e' \<Longrightarrow> delivery_step (e, w) (e', w)"
| step_crash: "delivery_step (e, w) (crash e, w)"
| step_resolve: "unresolved_uncertain e = Some seq \<Longrightarrow> resolve_uncertain (inspect w seq) e = Inr e' \<Longrightarrow>
    delivery_step (e, w) (e', w)"

definition delivery_start :: "delivery_engine \<times> visible_world \<Rightarrow> bool" where
  "delivery_start s \<longleftrightarrow>
     (\<exists>its p. plan_new its = Inr p \<and> s = (engine_new p, \<lparr>exposed = []\<rparr>))"

definition stateful :: "delivery_engine \<Rightarrow> nat \<Rightarrow> bool" where
  "stateful e seq \<longleftrightarrow> plan_kind (plan e) seq = Some StatefulWrite"

text \<open>\<open>n\<close> is the frontier. Items up to \<open>n\<close> are visible, at most the next one is, and a visible
  stateful item has its intent; the next item is visible without being exposed right now only while
  its uncertainty stands.\<close>

definition delivery_inv :: "delivery_engine \<times> visible_world \<Rightarrow> bool" where
  "delivery_inv s \<longleftrightarrow>
     (let e = fst s; n = acked_frontier (durable e); xs = exposed (snd s)
      in plan_new (items (plan e)) = Inr (plan e) \<and> n \<le> plan_len (plan e)
         \<and> {1..n} \<subseteq> set xs \<and> set xs \<subseteq> {1..Suc n} \<and> set xs \<subseteq> {1..plan_len (plan e)} \<and> sorted xs
         \<and> (\<forall>seq. stateful e seq \<longrightarrow> count_list xs seq \<le> 1)
         \<and> (\<forall>seq \<in> set xs. stateful e seq \<longrightarrow> seq \<in> intents (durable e))
         \<and> (\<forall>seq. exposing e = Some seq \<longrightarrow> seq = Suc n \<and> seq \<in> set xs \<and> unresolved_uncertain e = None)
         \<and> (\<forall>seq. unresolved_uncertain e = Some seq \<longrightarrow>
               seq = Suc n \<and> seq \<in> intents (durable e) \<and> n < plan_len (plan e))
         \<and> (Suc n \<in> set xs \<and> stateful e (Suc n) \<longrightarrow>
               exposing e = Some (Suc n) \<or> unresolved_uncertain e = Some (Suc n)))"

lemma guard_uncertain_Inr [simp]: "guard_uncertain e = Inr u \<longleftrightarrow> unresolved_uncertain e = None"
  by (auto simp: guard_uncertain_def split: option.splits)

lemma guard_uncertain_cases:
  "(case guard_uncertain e of Inl err \<Rightarrow> Inl err | Inr _ \<Rightarrow> r) = Inr v \<longleftrightarrow>
     unresolved_uncertain e = None \<and> r = Inr v"
  by (auto simp: guard_uncertain_def split: option.splits)

lemma record_intent_Inr:
  "record_intent seq e = Inr e' \<longleftrightarrow>
     unresolved_uncertain e = None \<and> seq = next_seq e \<and> stateful e seq
     \<and> e' = e\<lparr>durable := (durable e)\<lparr>intents := insert seq (intents (durable e))\<rparr>\<rparr>"
  by (auto simp: record_intent_def guard_uncertain_cases stateful_def
      split: if_splits option.splits delivery_item_kind.splits)

lemma begin_expose_Inr:
  "begin_expose seq e w = Inr (e', w') \<longleftrightarrow>
     unresolved_uncertain e = None \<and> exposing e = None \<and> seq = next_seq e
     \<and> plan_kind (plan e) seq \<noteq> None \<and> (stateful e seq \<longrightarrow> seq \<in> intents (durable e))
     \<and> e' = e\<lparr>exposing := Some seq\<rparr> \<and> w' = w\<lparr>exposed := exposed w @ [seq]\<rparr>"
  by (auto simp: begin_expose_def guard_uncertain_cases stateful_def
      split: if_splits option.splits)

lemma delivery_ack_Inr:
  "delivery_ack seq e = Inr e' \<longleftrightarrow>
     unresolved_uncertain e = None \<and> exposing e = Some seq
     \<and> e' = e\<lparr>exposing := None, durable := (durable e)\<lparr>acked_frontier := seq\<rparr>\<rparr>"
  by (auto simp: delivery_ack_def guard_uncertain_cases split: if_splits)

lemma stateful_update [simp]:
  "stateful (e\<lparr>durable := d\<rparr>) = stateful e" "stateful (e\<lparr>exposing := x\<rparr>) = stateful e"
  "stateful (e\<lparr>unresolved_uncertain := u\<rparr>) = stateful e"
  by (simp_all add: stateful_def fun_eq_iff)

lemma plan_kind_range: "plan_kind p seq \<noteq> None \<longleftrightarrow> 1 \<le> seq \<and> seq \<le> plan_len p"
  by (auto simp: plan_kind_def plan_len_def)

lemma delivery_invI:
  assumes "plan_new (items (plan e)) = Inr (plan e)" "acked_frontier (durable e) \<le> plan_len (plan e)"
    and "{1..acked_frontier (durable e)} \<subseteq> set (exposed w)"
    and "set (exposed w) \<subseteq> {1..Suc (acked_frontier (durable e))}"
    and "set (exposed w) \<subseteq> {1..plan_len (plan e)}" "sorted (exposed w)"
    and "\<And>seq. stateful e seq \<Longrightarrow> count_list (exposed w) seq \<le> 1"
    and "\<And>seq. seq \<in> set (exposed w) \<Longrightarrow> stateful e seq \<Longrightarrow> seq \<in> intents (durable e)"
    and "\<And>seq. exposing e = Some seq \<Longrightarrow>
      seq = Suc (acked_frontier (durable e)) \<and> seq \<in> set (exposed w) \<and> unresolved_uncertain e = None"
    and "\<And>seq. unresolved_uncertain e = Some seq \<Longrightarrow>
      seq = Suc (acked_frontier (durable e)) \<and> seq \<in> intents (durable e)
      \<and> acked_frontier (durable e) < plan_len (plan e)"
    and "Suc (acked_frontier (durable e)) \<in> set (exposed w) \<Longrightarrow> stateful e (Suc (acked_frontier (durable e))) \<Longrightarrow>
      exposing e = Some (Suc (acked_frontier (durable e)))
      \<or> unresolved_uncertain e = Some (Suc (acked_frontier (durable e)))"
  shows "delivery_inv (e, w)"
  unfolding delivery_inv_def Let_def fst_conv snd_conv using assms by simp

lemma delivery_invD:
  assumes "delivery_inv (e, w)"
  shows "plan_new (items (plan e)) = Inr (plan e)" "acked_frontier (durable e) \<le> plan_len (plan e)"
    and "{1..acked_frontier (durable e)} \<subseteq> set (exposed w)"
    and "set (exposed w) \<subseteq> {1..Suc (acked_frontier (durable e))}"
    and "set (exposed w) \<subseteq> {1..plan_len (plan e)}" "sorted (exposed w)"
    and "stateful e seq \<Longrightarrow> count_list (exposed w) seq \<le> 1"
    and "seq \<in> set (exposed w) \<Longrightarrow> stateful e seq \<Longrightarrow> seq \<in> intents (durable e)"
    and "exposing e = Some seq \<Longrightarrow>
      seq = Suc (acked_frontier (durable e)) \<and> seq \<in> set (exposed w) \<and> unresolved_uncertain e = None"
    and "unresolved_uncertain e = Some seq \<Longrightarrow>
      seq = Suc (acked_frontier (durable e)) \<and> seq \<in> intents (durable e)
      \<and> acked_frontier (durable e) < plan_len (plan e)"
    and "Suc (acked_frontier (durable e)) \<in> set (exposed w) \<Longrightarrow> stateful e (Suc (acked_frontier (durable e))) \<Longrightarrow>
      exposing e = Some (Suc (acked_frontier (durable e)))
      \<or> unresolved_uncertain e = Some (Suc (acked_frontier (durable e)))"
  using assms unfolding delivery_inv_def Let_def fst_conv snd_conv by blast+

lemma delivery_inv_intent:
  assumes inv: "delivery_inv (e, w)" and "record_intent seq e = Inr e'"
  shows "delivery_inv (e', w)"
proof -
  have "e' = e\<lparr>durable := (durable e)\<lparr>intents := insert seq (intents (durable e))\<rparr>\<rparr>"
    using assms(2) by (simp add: record_intent_Inr)
  then show ?thesis
    by (intro delivery_invI) (use delivery_invD [OF inv] in simp_all)
qed

lemma delivery_inv_expose:
  assumes inv: "delivery_inv (e, w)" and "begin_expose seq e w = Inr (e', w')"
  shows "delivery_inv (e', w')"
proof -
  note D = delivery_invD [OF inv]
  let ?n = "acked_frontier (durable e)"
  have e: "unresolved_uncertain e = None" "exposing e = None" "seq = Suc ?n" "seq \<le> plan_len (plan e)"
      "stateful e seq \<Longrightarrow> seq \<in> intents (durable e)"
      "e' = e\<lparr>exposing := Some seq\<rparr>" "w' = w\<lparr>exposed := exposed w @ [seq]\<rparr>"
    using assms(2) plan_kind_range [of "plan e" seq] unfolding begin_expose_Inr next_seq_def
    by (auto simp del: not_None_eq)
  have new: "seq \<notin> set (exposed w)" if "stateful e seq" using D(11) that e(1-3) by auto
  show ?thesis unfolding e(6,7)
  proof (rule delivery_invI)
    show "sorted (exposed (w\<lparr>exposed := exposed w @ [seq]\<rparr>))"
      using D(4,6) e(3) by (auto simp: sorted_append)
    show "count_list (exposed (w\<lparr>exposed := exposed w @ [seq]\<rparr>)) k \<le> 1" if "stateful (e\<lparr>exposing := Some seq\<rparr>) k" for k
      using D(7) [of k] new that by (cases "k = seq") (auto simp: count_list_0_iff)
  qed (use D e in auto)
qed

lemma delivery_inv_advance:
  assumes inv: "delivery_inv (e, w)" and seq: "seq = Suc (acked_frontier (durable e))" "seq \<in> set (exposed w)"
    and "durable e' = (durable e)\<lparr>acked_frontier := seq\<rparr>" "plan e' = plan e" "exposing e' = None"
      "unresolved_uncertain e' = None" "stateful e' = stateful e"
  shows "delivery_inv (e', w)"
proof (rule delivery_invI)
  note D = delivery_invD [OF inv]
  show "{1..acked_frontier (durable e')} \<subseteq> set (exposed w)"
    using D(3) seq assms(4) by (auto simp: atLeastAtMostSuc_conv)
  show "acked_frontier (durable e') \<le> plan_len (plan e')" using D(5) seq(2) assms(4,5) by auto
  show "set (exposed w) \<subseteq> {1..Suc (acked_frontier (durable e'))}" using D(4) seq(1) assms(4) by auto
  assume "Suc (acked_frontier (durable e')) \<in> set (exposed w)"
  then have False using D(4) seq(1) assms(4) by auto
  then show "exposing e' = Some (Suc (acked_frontier (durable e'))) \<or>
      unresolved_uncertain e' = Some (Suc (acked_frontier (durable e')))" ..
qed (use delivery_invD [OF inv] assms in simp_all)

lemma delivery_inv_ack:
  assumes inv: "delivery_inv (e, w)" and "delivery_ack seq e = Inr e'"
  shows "delivery_inv (e', w)"
proof -
  have e: "exposing e = Some seq" "unresolved_uncertain e = None"
      "e' = e\<lparr>exposing := None, durable := (durable e)\<lparr>acked_frontier := seq\<rparr>\<rparr>"
    using assms(2) by (simp_all add: delivery_ack_Inr)
  then show ?thesis
    using delivery_invD(9) [OF inv e(1)] by (intro delivery_inv_advance [OF inv, of seq]) auto
qed

lemma crash_eq:
  "crash e = e\<lparr>exposing := None, unresolved_uncertain :=
     (if acked_frontier (durable e) < plan_len (plan e) \<and> next_seq e \<in> intents (durable e)
      then Some (next_seq e) else None)\<rparr>"
  by (simp add: crash_def recovery_classify_def next_seq_def Let_def)

lemma delivery_inv_crash:
  assumes inv: "delivery_inv (e, w)"
  shows "delivery_inv (crash e, w)"
  unfolding crash_eq
proof (rule delivery_invI, goal_cases)
  case 11
  then show ?case
    using delivery_invD(5,8) [OF inv] by (auto simp: next_seq_def)
qed (use delivery_invD [OF inv] in \<open>auto simp: next_seq_def split: if_splits\<close>)

lemma delivery_inv_resolve:
  assumes inv: "delivery_inv (e, w)" and u: "unresolved_uncertain e = Some seq"
    and "resolve_uncertain (inspect w seq) e = Inr e'"
  shows "delivery_inv (e', w)"
proof (cases "seq \<in> set (exposed w)")
  case True
  have "e' = e\<lparr>unresolved_uncertain := None, durable := (durable e)\<lparr>acked_frontier := seq\<rparr>\<rparr>"
    using assms(3) u True by (auto simp: resolve_uncertain_def inspect_def)
  moreover have "exposing e = None" using delivery_invD(9) [OF inv] u by (cases "exposing e") auto
  ultimately show ?thesis
    using True delivery_invD(10) [OF inv u] by (intro delivery_inv_advance [OF inv, of seq]) simp_all
next
  case False
  then have e': "e' = e\<lparr>unresolved_uncertain := None\<rparr>"
    using assms(3) u by (auto simp: resolve_uncertain_def inspect_def)
  show ?thesis unfolding e'
    by (rule delivery_invI) (use False delivery_invD [OF inv] delivery_invD(10) [OF inv u] in simp_all)
qed

lemmas delivery_inv_intros = delivery_inv_intent delivery_inv_expose delivery_inv_ack delivery_inv_crash
  delivery_inv_resolve

lemma delivery_step_inv: "delivery_inv s \<Longrightarrow> delivery_step s t \<Longrightarrow> delivery_inv t"
  by (erule delivery_step.cases; hypsubst) (erule (2) delivery_inv_intros | erule (1) delivery_inv_intros | erule delivery_inv_intros)+

lemma plan_new_Inr: "plan_new its = Inr p \<Longrightarrow> plan_new (items p) = Inr p"
  by (auto simp: plan_new_def Let_def split: if_splits)

lemma delivery_inv_start: "delivery_start s \<Longrightarrow> delivery_inv s"
  by (auto simp: delivery_start_def delivery_inv_def engine_new_def Let_def dest: plan_new_Inr)

interpretation delivery: transition_system delivery_start delivery_step delivery_inv
  by unfold_locales (simp_all only: delivery_inv_start delivery_step_inv)

section \<open>Progress\<close>

text \<open>\<open>advances s\<close>: some run from \<open>s\<close> acknowledges one more item of the same plan.\<close>

definition advances :: "delivery_engine \<times> visible_world \<Rightarrow> bool" where
  "advances s \<longleftrightarrow>
     (\<exists>t. delivery_step\<^sup>*\<^sup>* s t \<and> plan (fst t) = plan (fst s)
        \<and> acked_frontier (durable (fst t)) = acked_frontier (durable (fst s)) + 1)"

lemma advances_step:
  assumes "delivery_step s t" "advances t" "plan (fst t) = plan (fst s)"
    "acked_frontier (durable (fst t)) = acked_frontier (durable (fst s))"
  shows "advances s"
  using assms unfolding advances_def by (metis converse_rtranclp_into_rtranclp)

lemma advances_now:
  assumes "delivery_step s t" "plan (fst t) = plan (fst s)"
    "acked_frontier (durable (fst t)) = acked_frontier (durable (fst s)) + 1"
  shows "advances s"
  using assms unfolding advances_def by blast

lemma exposing_advances:
  assumes "delivery_inv (e, w)" "unresolved_uncertain e = None" "exposing e = Some seq"
  shows "advances (e, w)"
proof (rule advances_now)
  show "delivery_step (e, w) (e\<lparr>exposing := None, durable := (durable e)\<lparr>acked_frontier := seq\<rparr>\<rparr>, w)"
    using assms(2,3) by (intro step_ack [of seq]) (simp add: delivery_ack_Inr)
qed (use delivery_invD(9) [OF assms(1,3)] in simp_all)

lemma ready_advances:
  assumes inv: "delivery_inv (e, w)" and "unresolved_uncertain e = None" "exposing e = None"
    and "\<not> delivery_complete e" "stateful e (next_seq e) \<Longrightarrow> next_seq e \<in> intents (durable e)"
  shows "advances (e, w)"
proof -
  let ?t = "(e\<lparr>exposing := Some (next_seq e)\<rparr>, w\<lparr>exposed := exposed w @ [next_seq e]\<rparr>)"
  have "plan_kind (plan e) (next_seq e) \<noteq> None"
    using assms(4) by (simp add: plan_kind_range delivery_complete_def next_seq_def del: not_None_eq)
  then have b: "begin_expose (next_seq e) e w = Inr ?t"
    using assms(2,3,5) by (auto simp: begin_expose_Inr)
  then have "delivery_step (e, w) ?t" by (rule step_expose)
  moreover have "advances ?t"
    by (rule exposing_advances [OF delivery_inv_expose [OF inv b]]) (use assms(2) in simp_all)
  ultimately show ?thesis by (rule advances_step) simp_all
qed

lemma idle_advances:
  assumes inv: "delivery_inv (e, w)" and "unresolved_uncertain e = None" "exposing e = None"
    and "\<not> delivery_complete e"
  shows "advances (e, w)"
proof (cases "stateful e (next_seq e) \<and> next_seq e \<notin> intents (durable e)")
  case True
  let ?e = "e\<lparr>durable := (durable e)\<lparr>intents := insert (next_seq e) (intents (durable e))\<rparr>\<rparr>"
  have r: "record_intent (next_seq e) e = Inr ?e" using True assms(2) by (simp add: record_intent_Inr)
  then have "delivery_step (e, w) (?e, w)" by (rule step_intent)
  moreover have "advances (?e, w)"
    by (rule ready_advances [OF delivery_inv_intent [OF inv r]])
      (use assms in \<open>simp_all add: delivery_complete_def next_seq_def\<close>)
  ultimately show ?thesis by (rule advances_step) simp_all
next
  case False
  with assms show ?thesis by (intro ready_advances) auto
qed

lemma uncertain_advances:
  assumes inv: "delivery_inv (e, w)" and u: "unresolved_uncertain e = Some seq"
  shows "advances (e, w)"
proof (cases "seq \<in> set (exposed w)")
  case True
  let ?e = "e\<lparr>unresolved_uncertain := None, durable := (durable e)\<lparr>acked_frontier := seq\<rparr>\<rparr>"
  have "delivery_step (e, w) (?e, w)"
    using True u by (intro step_resolve [OF u]) (simp add: resolve_uncertain_def inspect_def)
  then show ?thesis by (rule advances_now) (use delivery_invD(10) [OF inv u] in simp_all)
next
  case False
  let ?e = "e\<lparr>unresolved_uncertain := None\<rparr>"
  have r: "resolve_uncertain (inspect w seq) e = Inr ?e"
    using False u by (simp add: resolve_uncertain_def inspect_def)
  then have "delivery_step (e, w) (?e, w)" by (rule step_resolve [OF u])
  moreover have "exposing e = None" using delivery_invD(9) [OF inv] u by (cases "exposing e") auto
  then have "advances (?e, w)"
    by (intro idle_advances [OF delivery_inv_resolve [OF inv u r]])
      (use delivery_invD(10) [OF inv u] in \<open>simp_all add: delivery_complete_def\<close>)
  ultimately show ?thesis by (rule advances_step) simp_all
qed

section \<open>Exactly once\<close>

text \<open>C4: Every stateful effect happens exactly once. However often the edge crashes, and wherever, a
  stateful item becomes visible at most once and only behind its durable intent, effects become
  visible in plan order, and never beyond the item after the acknowledged frontier. Whatever is
  acknowledged, by an acknowledgement or by resolving an uncertainty, has landed: every item up to the
  frontier is visible, a stateful one exactly once. So a completed delivery has made every item
  visible, the terminal one last.\<close>

theorem stateful_effects_exactly_once:
  assumes "reach_from delivery_start delivery_step (e, w)"
  shows "sorted (exposed w)
    \<and> (\<forall>seq. stateful e seq \<longrightarrow> count_list (exposed w) seq \<le> 1)
    \<and> (\<forall>seq \<in> set (exposed w). stateful e seq \<longrightarrow> seq \<in> intents (durable e))
    \<and> {1..acked_frontier (durable e)} \<subseteq> set (exposed w)
    \<and> set (exposed w) \<subseteq> {1..acked_frontier (durable e) + 1}
    \<and> (\<forall>seq \<in> {1..acked_frontier (durable e)}. stateful e seq \<longrightarrow> count_list (exposed w) seq = 1)
    \<and> (delivery_complete e \<longrightarrow>
         set (exposed w) = {1..plan_len (plan e)} \<and> last (items (plan e)) = Terminal
         \<and> (\<forall>seq. stateful e seq \<longrightarrow> count_list (exposed w) seq = 1))"
proof -
  have inv: "delivery_inv (e, w)" by (rule delivery.reachable_good [OF assms])
  note D = delivery_invD [OF inv]
  have once: "count_list (exposed w) seq = 1" if "seq \<in> {1..acked_frontier (durable e)}" "stateful e seq" for seq
  proof -
    have "count_list (exposed w) seq \<noteq> 0" using that(1) D(3) by (auto simp: count_list_0_iff)
    with D(7) [OF that(2)] show ?thesis by linarith
  qed
  have "last (items (plan e)) = Terminal"
    using D(1) by (auto simp: plan_new_def Let_def split: if_splits)
  moreover have "set (exposed w) = {1..plan_len (plan e)}" if "delivery_complete e"
    using D(2,3,5) that by (auto simp: delivery_complete_def)
  moreover have "seq \<in> {1..acked_frontier (durable e)}" if "delivery_complete e" "stateful e seq" for seq
    using that plan_kind_range [of "plan e" seq] by (simp add: stateful_def delivery_complete_def)
  ultimately show ?thesis using D(3,4,6-8) once by (simp add: Suc_eq_plus1 [symmetric])
qed

text \<open>A crash after the effect landed and before its acknowledgement.\<close>

definition crashed_run :: "delivery_engine \<times> visible_world" where
  "crashed_run =
     (\<lparr>plan = \<lparr>items = [StatefulWrite, Terminal]\<rparr>, durable = \<lparr>intents = {1}, acked_frontier = 0\<rparr>,
       exposing = None, unresolved_uncertain = Some 1\<rparr>,
      \<lparr>exposed = [1]\<rparr>)"

lemma crashed_run_reachable: "reach_from delivery_start delivery_step crashed_run"
proof -
  let ?R = "reach_from delivery_start delivery_step"
  let ?p = "\<lparr>items = [StatefulWrite, Terminal]\<rparr>"
  let ?e = "engine_new ?p" and ?w = "\<lparr>exposed = []\<rparr>"
  let ?e1 = "?e\<lparr>durable := \<lparr>intents = {1}, acked_frontier = 0\<rparr>\<rparr>"
  have k: "plan_kind ?p (Suc 0) = Some StatefulWrite" by (simp add: plan_kind_def)
  have "?R (?e, ?w)"
    by (rule reach_start) (auto simp: delivery_start_def plan_new_def intro!: exI [of _ "[StatefulWrite, Terminal]"])
  then have "?R (?e1, ?w)"
    by - (erule reach_move, rule step_intent [of 1], simp add: record_intent_Inr engine_new_def next_seq_def stateful_def k)
  then have "?R (?e1\<lparr>exposing := Some 1\<rparr>, \<lparr>exposed = [1]\<rparr>)"
    by - (erule reach_move, rule step_expose [of 1], simp add: begin_expose_Inr engine_new_def next_seq_def k)
  then have "?R (crash (?e1\<lparr>exposing := Some 1\<rparr>), \<lparr>exposed = [1]\<rparr>)"
    by - (erule reach_move, rule step_crash)
  then show ?thesis by (simp add: crashed_run_def crash_eq engine_new_def plan_len_def next_seq_def)
qed

definition resolved_run :: "delivery_engine \<times> visible_world" where
  "resolved_run =
     (\<lparr>plan = \<lparr>items = [StatefulWrite, Terminal]\<rparr>, durable = \<lparr>intents = {1}, acked_frontier = 1\<rparr>,
       exposing = None, unresolved_uncertain = None\<rparr>,
      \<lparr>exposed = [1]\<rparr>)"

lemma resolved_run_reachable: "reach_from delivery_start delivery_step resolved_run"
proof (rule reach_move [OF crashed_run_reachable])
  show "delivery_step crashed_run resolved_run"
    unfolding crashed_run_def resolved_run_def
    by (rule step_resolve [of _ 1]) (simp_all add: resolve_uncertain_def inspect_def)
qed

theorem stateful_effects_exactly_once_witness:
  "count_list (exposed (snd resolved_run)) 1 = 1 \<and> 1 \<in> intents (durable (fst resolved_run))
     \<and> acked_frontier (durable (fst resolved_run)) = 1"
  using stateful_effects_exactly_once [of "fst resolved_run" "snd resolved_run"] resolved_run_reachable
  by (simp add: resolved_run_def)

text \<open>C34: Delivery is never stuck. From every reachable state that is not complete, crashed or not,
  a continuation delivers the next item.\<close>

theorem delivery_can_advance:
  assumes "reach_from delivery_start delivery_step s" "\<not> delivery_complete (fst s)"
  shows "\<exists>t. delivery_step\<^sup>*\<^sup>* s t \<and> plan (fst t) = plan (fst s)
    \<and> acked_frontier (durable (fst t)) = acked_frontier (durable (fst s)) + 1"
proof -
  obtain e w where s: "s = (e, w)" by (cases s)
  have inv: "delivery_inv (e, w)" using delivery.reachable_good [OF assms(1)] s by simp
  have "advances (e, w)"
    using uncertain_advances [OF inv] exposing_advances [OF inv] idle_advances [OF inv] assms(2) s
    by (cases "unresolved_uncertain e"; cases "exposing e") auto
  then show ?thesis by (simp add: advances_def s)
qed

theorem delivery_can_advance_witness:
  "\<exists>t. delivery_step\<^sup>*\<^sup>* crashed_run t \<and> acked_frontier (durable (fst t)) = 1"
  using delivery_can_advance [OF crashed_run_reachable]
  by (auto simp: crashed_run_def delivery_complete_def plan_len_def)

section \<open>Fallback\<close>

lemma delivery_report_honest:
  "delivery_inv s \<Longrightarrow> \<exists>seq \<in> set (exposed (snd s)). stateful (fst s) seq \<Longrightarrow>
     stateful_intent_recorded (delivery_frontier_report (fst s))"
  using delivery_invD(8) [of "fst s" "snd s"] by (auto simp: delivery_frontier_report_def)

interpretation stateful_lane: frontier_reporter
  "\<lambda>s. delivery_frontier_report (fst s)" "\<lambda>s. \<exists>seq \<in> set (exposed (snd s)). stateful (fst s) seq"
  delivery_inv
  by unfold_locales (use delivery_report_honest in blast)

text \<open>Once a stateful effect is visible no configuration permits a local rerun, labeled or not.\<close>

theorem no_local_rerun_after_stateful_effect:
  assumes "reach_from delivery_start delivery_step (e, w)" "seq \<in> set (exposed w)" "stateful e seq"
  shows "\<not> reruns_locally (decide_fallback (delivery_frontier_report e) cfg i)"
proof -
  have "stateful_intent_recorded (delivery_frontier_report e)"
    using delivery_report_honest [OF delivery.reachable_good [OF assms(1)]] assms(2,3) by auto
  then show ?thesis by (simp add: decide_fallback_def permitted_fallback_def reruns_locally_def)
qed

theorem no_local_rerun_after_stateful_effect_witness:
  "\<not> reruns_locally (decide_fallback (delivery_frontier_report (fst crashed_run))
       \<lparr>labeled_transcript_recovery = True\<rparr> 7)"
  using no_local_rerun_after_stateful_effect [of "fst crashed_run" "snd crashed_run" 1] crashed_run_reachable
  by (simp add: crashed_run_def stateful_def plan_kind_def)

text \<open>The frontier report of the delivery engine is blind to an item that is visible but not yet
  acknowledged. After a transcript item was shown and the edge crashed, the report claims that nothing
  was exposed, the fallback decision is an unlabeled local rerun, and resuming shows the item twice.\<close>

theorem unacknowledged_transcript_not_reported:
  "\<exists>e w. reach_from delivery_start delivery_step (e, w) \<and> exposed w = [1, 1]
     \<and> decide_fallback (delivery_frontier_report e) cfg i = RunOriginalSeamless"
proof -
  let ?R = "reach_from delivery_start delivery_step"
  let ?p = "\<lparr>items = [Transcript, Terminal]\<rparr>"
  let ?e = "engine_new ?p"
  have k: "plan_kind ?p (Suc 0) = Some Transcript" by (simp add: plan_kind_def)
  have x: "begin_expose 1 ?e w = Inr (?e\<lparr>exposing := Some 1\<rparr>, w\<lparr>exposed := exposed w @ [1]\<rparr>)" for w
    by (simp add: begin_expose_Inr engine_new_def next_seq_def stateful_def k)
  have c: "crash (?e\<lparr>exposing := Some 1\<rparr>) = ?e" by (simp add: crash_eq engine_new_def next_seq_def)
  have "?R (?e, \<lparr>exposed = []\<rparr>)"
    by (rule reach_start) (auto simp: delivery_start_def plan_new_def intro!: exI [of _ "[Transcript, Terminal]"])
  then have "?R (?e\<lparr>exposing := Some 1\<rparr>, \<lparr>exposed = [1]\<rparr>)"
    by - (erule reach_to, rule step_expose [OF x], simp)
  then have "?R (?e, \<lparr>exposed = [1]\<rparr>)" by - (erule reach_to, rule step_crash, simp only: c)
  then have "?R (?e\<lparr>exposing := Some 1\<rparr>, \<lparr>exposed = [1, 1]\<rparr>)"
    by - (erule reach_to, rule step_expose [OF x], simp)
  moreover have "decide_fallback (delivery_frontier_report (?e\<lparr>exposing := Some 1\<rparr>)) cfg i = RunOriginalSeamless"
    by (simp add: decide_fallback_seamless delivery_frontier_report_def engine_new_def)
  ultimately show ?thesis by (intro exI conjI) (assumption, simp_all)
qed

end
