(* ===== verification/Action_Machines.thy ===== *)
theory Action_Machines
  imports Publication Stateful_Delivery
begin

text \<open>
  The four machines of \<open>rabs-action/src/state_machines.rs\<close>, the generation fence of
  \<open>rabs-action/src/generation_fence.rs\<close> and the serving table of
  \<open>rabs-action/src/serving_transitions.rs\<close>. The machines are the abstract contract of other
  components: the publication slot and the generation fence are refined by the metadata store and by
  offer admission, the subscriber machine by the delivery engine. A match on a pair of states is written
  as membership in the list of its arms.
\<close>

section \<open>Build operation\<close>

datatype build_operation_state =
    Created
  | Snapshotting
  | CargoStarting
  | CargoRunning
  | CargoDraining
  | Completed
  | Cancelled
  | FailedBeforeStart
  | FailedAfterObservableCommit
  | LocalFallbackCompleted
  | AbandonedClient
  | InternalFailure

definition operation_is_terminal :: "build_operation_state \<Rightarrow> bool" where
  "operation_is_terminal s \<longleftrightarrow> s \<notin> set [Created, Snapshotting, CargoStarting, CargoRunning, CargoDraining]"

definition operation_may_transition :: "build_operation_state \<Rightarrow> build_operation_state \<Rightarrow> bool" where
  "operation_may_transition f t \<longleftrightarrow>
     \<not> operation_is_terminal f
     \<and> ((f, t) \<in> set [(Created, Snapshotting), (Snapshotting, CargoStarting), (CargoStarting, CargoRunning),
           (CargoRunning, CargoDraining), (CargoDraining, Completed)]
        \<or> t \<in> set [Cancelled, AbandonedClient, InternalFailure]
        \<or> f \<in> set [Created, Snapshotting, CargoStarting] \<and> t = FailedBeforeStart
        \<or> f \<in> set [CargoRunning, CargoDraining] \<and> t = FailedAfterObservableCommit
        \<or> f \<in> set [Created, Snapshotting, CargoStarting, CargoRunning] \<and> t = LocalFallbackCompleted)"

section \<open>Publication slot\<close>

datatype publication_slot_state = Absent | Executing | Committed

definition slot_may_transition :: "publication_slot_state \<Rightarrow> publication_slot_state \<Rightarrow> bool" where
  "slot_may_transition f t \<longleftrightarrow>
     (f, t) \<in> set [(Absent, Executing), (Executing, Committed), (Executing, Absent)]"

section \<open>Execution attempt\<close>

datatype attempt_state =
    Created
  | LeaseOffered
  | LeaseAccepted
  | AwaitingInputs
  | Materializing
  | Running
  | ProcessExited
  | HarvestingOutputs
  | UploadingOutputs
  | VerifyingOutputs
  | HarvestingCanonicalObservations
  | VerifyingFailure
  | PreparedResultOffered
  | AcceptedAsWinner
  | RejectedAsDuplicate
  | RejectedAsStale
  | RejectedAsDivergent
  | Draining
  | Finished

definition attempt_may_transition :: "attempt_state \<Rightarrow> attempt_state \<Rightarrow> bool" where
  "attempt_may_transition f t \<longleftrightarrow>
     (f, t) \<in> set
       [(attempt_state.Created, LeaseOffered), (LeaseOffered, LeaseAccepted), (LeaseAccepted, AwaitingInputs),
        (AwaitingInputs, Materializing), (Materializing, Running), (Running, ProcessExited),
        (ProcessExited, HarvestingOutputs), (ProcessExited, HarvestingCanonicalObservations),
        (HarvestingOutputs, UploadingOutputs), (UploadingOutputs, VerifyingOutputs),
        (VerifyingOutputs, PreparedResultOffered),
        (HarvestingCanonicalObservations, VerifyingFailure), (VerifyingFailure, PreparedResultOffered),
        (PreparedResultOffered, AcceptedAsWinner), (PreparedResultOffered, RejectedAsDuplicate),
        (PreparedResultOffered, RejectedAsStale), (PreparedResultOffered, RejectedAsDivergent),
        (Draining, Finished)]
     \<or> t = Draining \<and> f \<notin> set [Draining, Finished]"

definition may_offer :: "attempt_state \<Rightarrow> bool" where
  "may_offer s \<longleftrightarrow> s = PreparedResultOffered"

section \<open>Subscriber delivery\<close>


record exposure_frontiers =
  ef_transcript_exposed :: bool
  ef_stateful_intent_recorded :: bool

datatype fallback_class =
    SeamlessNonpublishing
  | LabeledTranscriptRecoveryOnly
  | NoUncoordinatedFallback

definition fallback_class_of :: "exposure_frontiers \<Rightarrow> fallback_class" where
  "fallback_class_of f =
     (if ef_stateful_intent_recorded f then NoUncoordinatedFallback
      else if ef_transcript_exposed f then LabeledTranscriptRecoveryOnly
      else SeamlessNonpublishing)"


section \<open>Generation fence\<close>

datatype fence_decision = Admitted | RejectReused

record generation_fence =
  active_ids :: "128 word list"
  tombstone_ids :: "128 word list"

definition fence_new :: generation_fence where
  "fence_new = \<lparr>active_ids = [], tombstone_ids = []\<rparr>"

definition fence_seen :: "generation_fence \<Rightarrow> 128 word \<Rightarrow> bool" where
  "fence_seen f i \<longleftrightarrow> i \<in> set (active_ids f) \<or> i \<in> set (tombstone_ids f)"

definition fence_admit :: "128 word \<Rightarrow> generation_fence \<Rightarrow> generation_fence \<times> fence_decision" where
  "fence_admit i f =
     (if fence_seen f i then (f, RejectReused) else (f\<lparr>active_ids := active_ids f @ [i]\<rparr>, Admitted))"

primrec position :: "'a \<Rightarrow> 'a list \<Rightarrow> nat option" where
  "position x [] = None"
| "position x (y # ys) = (if y = x then Some 0 else map_option Suc (position x ys))"

text \<open>\<open>Vec::swap_remove\<close>: the last element takes the place of the removed one.\<close>

definition swap_remove :: "nat \<Rightarrow> 'a list \<Rightarrow> 'a list" where
  "swap_remove n xs = butlast (xs[n := last xs])"

definition fence_close :: "128 word \<Rightarrow> generation_fence \<Rightarrow> generation_fence" where
  "fence_close i f =
     (case position i (active_ids f) of
        None \<Rightarrow> f
      | Some pos \<Rightarrow> f\<lparr>active_ids := swap_remove pos (active_ids f), tombstone_ids := tombstone_ids f @ [i]\<rparr>)"

definition fence_evict :: "128 word \<Rightarrow> generation_fence \<Rightarrow> generation_fence" where
  "fence_evict i f = fence_close i f"

section \<open>Serving table\<close>

datatype serving_disposition =
    Eligible
  | EvidencePending
  | ExpiredNeedsRevalidation
  | Quarantined
  | ObjectsUnavailable
  | EvictedFromActiveIndex

datatype serving_trigger =
    EvidenceComplete
  | QuarantineOpened
  | QuarantineReleased "64 word option"
  | ValidityExpired
  | RevalidationByteIdentical
  | RevalidationMismatch
  | ObjectsMissing
  | ObjectsRefetched
  | RetentionEvicted

datatype refuse_reason = TerminalEvicted | ReleaseWithoutReceipt | NotInTable

datatype transition_decision =
    Apply serving_disposition
  | QuarantineWithDivergenceIncident
  | Refuse refuse_reason

definition serving_evaluate :: "serving_disposition \<Rightarrow> serving_trigger \<Rightarrow> transition_decision" where
  "serving_evaluate current trigger =
     (if current = EvictedFromActiveIndex then Refuse TerminalEvicted
      else case trigger of
        RetentionEvicted \<Rightarrow> Apply EvictedFromActiveIndex
      | QuarantineOpened \<Rightarrow> Apply Quarantined
      | EvidenceComplete \<Rightarrow> if current = EvidencePending then Apply Eligible else Refuse NotInTable
      | ValidityExpired \<Rightarrow> if current = Eligible then Apply ExpiredNeedsRevalidation else Refuse NotInTable
      | RevalidationByteIdentical \<Rightarrow>
          if current = ExpiredNeedsRevalidation then Apply Eligible else Refuse NotInTable
      | RevalidationMismatch \<Rightarrow>
          if current = ExpiredNeedsRevalidation then QuarantineWithDivergenceIncident else Refuse NotInTable
      | ObjectsMissing \<Rightarrow>
          if current = Eligible \<or> current = ExpiredNeedsRevalidation then Apply ObjectsUnavailable
          else Refuse NotInTable
      | ObjectsRefetched \<Rightarrow> if current = ObjectsUnavailable then Apply Eligible else Refuse NotInTable
      | QuarantineReleased receipt \<Rightarrow>
          if current = Quarantined
          then (case receipt of Some _ \<Rightarrow> Apply Eligible | None \<Rightarrow> Refuse ReleaseWithoutReceipt)
          else Refuse NotInTable)"

section \<open>Runs\<close>

text \<open>A run of a machine is a list of states each of which may follow the one before. Where a rank drops
  in every move the rank of its first state bounds a run; and a state a run visits after its first has a
  predecessor on it.\<close>

lemma run_bound:
  assumes "\<And>a b. P a b \<Longrightarrow> rank b < (rank a :: nat)" "successively P (x # xs)"
  shows "length xs \<le> rank x"
  using assms(2)
proof (induction xs arbitrary: x)
  case (Cons a xs)
  then have "rank a < rank x" "length xs \<le> rank a" by (simp_all add: assms(1))
  then show ?case by simp
qed simp

lemma run_predecessor:
  assumes "successively P (x # xs)" "y \<in> set xs"
  shows "\<exists>p \<in> set (x # xs). P p y"
  using assms by (induction xs arbitrary: x) auto

lemma run_predecessor_after:
  assumes "successively P (x # xs)" "y \<in> set xs" "\<not> P x y"
  shows "\<exists>p \<in> set xs. P p y"
  using run_predecessor [OF assms(1,2)] assms(3) by auto

primrec attempt_rank :: "attempt_state \<Rightarrow> nat" where
  "attempt_rank attempt_state.Created = 13"
| "attempt_rank LeaseOffered = 12"
| "attempt_rank LeaseAccepted = 11"
| "attempt_rank AwaitingInputs = 10"
| "attempt_rank Materializing = 9"
| "attempt_rank Running = 8"
| "attempt_rank ProcessExited = 7"
| "attempt_rank HarvestingOutputs = 6"
| "attempt_rank UploadingOutputs = 5"
| "attempt_rank VerifyingOutputs = 4"
| "attempt_rank HarvestingCanonicalObservations = 5"
| "attempt_rank VerifyingFailure = 4"
| "attempt_rank PreparedResultOffered = 3"
| "attempt_rank AcceptedAsWinner = 2"
| "attempt_rank RejectedAsDuplicate = 2"
| "attempt_rank RejectedAsStale = 2"
| "attempt_rank RejectedAsDivergent = 2"
| "attempt_rank Draining = 1"
| "attempt_rank Finished = 0"

lemma attempt_rank_drops: "attempt_may_transition a b \<Longrightarrow> attempt_rank b < attempt_rank a"
  by (cases a) (auto simp: attempt_may_transition_def)

lemma attempt_into:
  "attempt_may_transition a AcceptedAsWinner \<longleftrightarrow> a = PreparedResultOffered"
  "attempt_may_transition a PreparedResultOffered \<longleftrightarrow> a = VerifyingOutputs \<or> a = VerifyingFailure"
  "attempt_may_transition a VerifyingOutputs \<longleftrightarrow> a = UploadingOutputs"
  "attempt_may_transition a UploadingOutputs \<longleftrightarrow> a = HarvestingOutputs"
  "attempt_may_transition a HarvestingOutputs \<longleftrightarrow> a = ProcessExited"
  "attempt_may_transition a VerifyingFailure \<longleftrightarrow> a = HarvestingCanonicalObservations"
  "attempt_may_transition a HarvestingCanonicalObservations \<longleftrightarrow> a = ProcessExited"
  "attempt_may_transition a Finished \<longleftrightarrow> a = Draining"
  by (auto simp: attempt_may_transition_def)

lemma attempt_stuck: "(\<forall>b. \<not> attempt_may_transition a b) \<longleftrightarrow> a = Finished"
proof
  assume "\<forall>b. \<not> attempt_may_transition a b"
  then have "\<not> attempt_may_transition a Draining" "\<not> attempt_may_transition a Finished" by simp_all
  then show "a = Finished" by (cases a) (simp_all add: attempt_may_transition_def)
qed (simp add: attempt_may_transition_def)

lemma attempt_offer_verified:
  assumes "successively attempt_may_transition (attempt_state.Created # ss)" "PreparedResultOffered \<in> set ss"
  shows "ProcessExited \<in> set ss \<and> (VerifyingOutputs \<in> set ss \<or> VerifyingFailure \<in> set ss)"
proof -
  note before = run_predecessor_after [OF assms(1)]
  have "VerifyingOutputs \<in> set ss \<or> VerifyingFailure \<in> set ss"
    using before [OF assms(2)] by (auto simp: attempt_into)
  moreover from this have "HarvestingOutputs \<in> set ss \<or> HarvestingCanonicalObservations \<in> set ss"
    using before [of VerifyingOutputs] before [of VerifyingFailure] before [of UploadingOutputs]
    by (auto simp: attempt_into)
  then have "ProcessExited \<in> set ss"
    using before [of HarvestingOutputs] before [of HarvestingCanonicalObservations] by (auto simp: attempt_into)
  ultimately show ?thesis by simp
qed

text \<open>C25: Every attempt ends. A run of the attempt machine from its creation makes at most thirteen moves, it
  can always go on until it is finished, and finishing is only reached through draining. A run that was
  accepted as the winner saw its process exit and passed one of the two verification states.\<close>

theorem attempt_runs_end:
  assumes "successively attempt_may_transition (attempt_state.Created # ss)"
  shows "length ss \<le> 13
    \<and> ((\<forall>t. \<not> attempt_may_transition (last (attempt_state.Created # ss)) t) \<longleftrightarrow> Finished \<in> set ss)
    \<and> (Finished \<in> set ss \<longrightarrow> Draining \<in> set ss)
    \<and> (AcceptedAsWinner \<in> set ss \<longrightarrow>
        ProcessExited \<in> set ss \<and> (VerifyingOutputs \<in> set ss \<or> VerifyingFailure \<in> set ss))"
proof (intro conjI)
  show "length ss \<le> 13" using run_bound [of attempt_may_transition attempt_rank, OF attempt_rank_drops assms] by simp
  note before = run_predecessor_after [OF assms]
  have "last (attempt_state.Created # ss) = Finished" if "Finished \<in> set ss"
  proof -
    from that obtain as bs where "ss = as @ Finished # bs" by (meson split_list)
    with assms have "successively attempt_may_transition (Finished # bs)"
      by (simp add: successively_append_iff successively_Cons split: if_splits)
    then have "bs = []" using attempt_stuck by (cases bs) auto
    with \<open>ss = as @ Finished # bs\<close> show ?thesis by simp
  qed
  moreover have "Finished \<in> set ss" if "last (attempt_state.Created # ss) = Finished"
    using that by (cases ss rule: rev_cases) simp_all
  ultimately show "(\<forall>t. \<not> attempt_may_transition (last (attempt_state.Created # ss)) t) \<longleftrightarrow> Finished \<in> set ss"
    unfolding attempt_stuck by blast
  show "Finished \<in> set ss \<longrightarrow> Draining \<in> set ss" using before [of Finished] by (auto simp: attempt_into)
  show "AcceptedAsWinner \<in> set ss \<longrightarrow>
      ProcessExited \<in> set ss \<and> (VerifyingOutputs \<in> set ss \<or> VerifyingFailure \<in> set ss)"
    using before [of AcceptedAsWinner] attempt_offer_verified [OF assms] by (auto simp: attempt_into)
qed

theorem attempt_runs_end_witness:
  "let ss = [LeaseOffered, LeaseAccepted, AwaitingInputs, Materializing, Running, ProcessExited,
      HarvestingCanonicalObservations, VerifyingFailure, PreparedResultOffered, AcceptedAsWinner, Draining, Finished]
   in length ss \<le> 13 \<and> VerifyingFailure \<in> set ss"
  using attempt_runs_end [of "[LeaseOffered, LeaseAccepted, AwaitingInputs, Materializing, Running, ProcessExited,
      HarvestingCanonicalObservations, VerifyingFailure, PreparedResultOffered, AcceptedAsWinner, Draining, Finished]"]
  by (simp add: attempt_may_transition_def)

primrec operation_rank :: "build_operation_state \<Rightarrow> nat" where
  "operation_rank build_operation_state.Created = 5"
| "operation_rank Snapshotting = 4"
| "operation_rank CargoStarting = 3"
| "operation_rank CargoRunning = 2"
| "operation_rank CargoDraining = 1"
| "operation_rank Completed = 0"
| "operation_rank Cancelled = 0"
| "operation_rank FailedBeforeStart = 0"
| "operation_rank FailedAfterObservableCommit = 0"
| "operation_rank LocalFallbackCompleted = 0"
| "operation_rank AbandonedClient = 0"
| "operation_rank InternalFailure = 0"

lemma operation_rank_drops: "operation_may_transition a b \<Longrightarrow> operation_rank b < operation_rank a"
  by (cases a) (auto simp: operation_may_transition_def operation_is_terminal_def)

lemma operation_terminal_stuck: "operation_is_terminal a \<longleftrightarrow> (\<forall>b. \<not> operation_may_transition a b)"
  by (auto simp: operation_may_transition_def)

lemma no_start_failure:
  assumes "successively operation_may_transition (x # ss)" "operation_rank x \<le> 2"
  shows "FailedBeforeStart \<notin> set ss"
  using assms
proof (induction ss arbitrary: x)
  case (Cons a ss)
  then have s: "operation_may_transition x a" "successively operation_may_transition (a # ss)" by simp_all
  then have "operation_rank a \<le> 2" using operation_rank_drops [of x a] Cons.prems(2) by simp
  moreover have "a \<noteq> FailedBeforeStart" using s(1) Cons.prems(2) by (auto simp: operation_may_transition_def)
  ultimately show ?case using Cons.IH [OF s(2)] by simp
qed simp

lemma run_to_live:
  assumes "successively operation_may_transition (x # ss)" "\<not> operation_is_terminal (last (x # ss))" "y \<in> set (x # ss)"
  shows "\<not> operation_is_terminal y"
  using assms
proof (induction ss arbitrary: x)
  case (Cons a ss)
  then show ?case by (cases "y = x") (auto simp: operation_may_transition_def)
qed simp

text \<open>Every build operation ends: a run from its creation makes at most five moves, exactly the terminal
  states have no move, and the two failures tell whether Cargo ran.\<close>

theorem operation_runs_end:
  assumes "successively operation_may_transition (build_operation_state.Created # ss)"
  shows "length ss \<le> 5
    \<and> (FailedBeforeStart \<in> set ss \<longrightarrow> CargoRunning \<notin> set ss)
    \<and> (FailedAfterObservableCommit \<in> set ss \<longrightarrow> CargoRunning \<in> set ss)
    \<and> (Completed \<in> set ss \<longrightarrow> CargoDraining \<in> set ss)"
proof (intro conjI)
  show "length ss \<le> 5" using run_bound [of operation_may_transition operation_rank, OF operation_rank_drops assms] by simp
  have into: "operation_may_transition a Snapshotting \<longleftrightarrow> a = build_operation_state.Created"
    "operation_may_transition a CargoStarting \<longleftrightarrow> a = Snapshotting"
    "operation_may_transition a CargoRunning \<longleftrightarrow> a = CargoStarting"
    "operation_may_transition a CargoDraining \<longleftrightarrow> a = CargoRunning"
    "operation_may_transition a Completed \<longleftrightarrow> a = CargoDraining"
    "operation_may_transition a FailedAfterObservableCommit \<longleftrightarrow> a = CargoRunning \<or> a = CargoDraining" for a
    by (auto simp: operation_may_transition_def operation_is_terminal_def)
  note before = run_predecessor_after [OF assms]
  show "FailedAfterObservableCommit \<in> set ss \<longrightarrow> CargoRunning \<in> set ss"
    using before [of FailedAfterObservableCommit] before [of CargoDraining] by (auto simp: into)
  show "Completed \<in> set ss \<longrightarrow> CargoDraining \<in> set ss" using before [of Completed] by (auto simp: into)
  show "FailedBeforeStart \<in> set ss \<longrightarrow> CargoRunning \<notin> set ss"
  proof (intro impI notI)
    assume "FailedBeforeStart \<in> set ss" "CargoRunning \<in> set ss"
    from \<open>CargoRunning \<in> set ss\<close> obtain as bs where ss: "ss = as @ CargoRunning # bs" by (meson split_list)
    with assms have "successively operation_may_transition ((build_operation_state.Created # as) @ CargoRunning # bs)" by simp
    then have b: "successively operation_may_transition (CargoRunning # bs)"
      and a: "successively operation_may_transition (build_operation_state.Created # as)"
        "operation_may_transition (last (build_operation_state.Created # as)) CargoRunning"
      unfolding successively_append_iff by simp_all
    have "FailedBeforeStart \<notin> set bs" using no_start_failure [OF b] by simp
    moreover have "FailedBeforeStart \<notin> set as"
      using run_to_live [OF a(1), of FailedBeforeStart] a(2) by (auto simp: into operation_is_terminal_def)
    ultimately show False using \<open>FailedBeforeStart \<in> set ss\<close> ss by simp
  qed
qed


section \<open>The publication slot of a key\<close>

text \<open>A generation of a key is live when its row carries the key and no tombstone. The slot of a key is
  committed once it has a publication, and before that executing while a generation of it is live.\<close>

definition live_generation :: "store \<Rightarrow> 128 word \<Rightarrow> string \<Rightarrow> bool" where
  "live_generation s i k \<longleftrightarrow>
     (\<exists>g. map_of (generations s) i = Some g \<and> gen_action_key g = k \<and> \<not> tombstoned g)"

definition slot_of :: "store \<Rightarrow> string \<Rightarrow> publication_slot_state" where
  "slot_of s k =
     (if map_of (publications s) k \<noteq> None then publication_slot_state.Committed
      else if \<exists>i. live_generation s i k then Executing else Absent)"

definition slot_moves :: "store \<Rightarrow> store \<Rightarrow> string \<Rightarrow> bool" where
  "slot_moves s t k \<longleftrightarrow> slot_of t k = slot_of s k \<or> slot_may_transition (slot_of s k) (slot_of t k)"

lemma slot_moves_same:
  "publications t = publications s \<Longrightarrow> generations t = generations s \<Longrightarrow> slot_moves s t k"
  by (simp add: slot_moves_def slot_of_def live_generation_def)

lemma slot_moves_generations:
  "publications t = publications s \<Longrightarrow> slot_moves s t k"
  by (auto simp: slot_moves_def slot_of_def slot_may_transition_def)

lemma slot_moves_publish:
  assumes "publications t = (k', e) # publications s" "generations t = generations s"
    and "live_generation s i k'"
  shows "slot_moves s t k"
  using assms by (auto simp: slot_moves_def slot_of_def slot_may_transition_def live_generation_def)

lemma slot_moves_commit:
  assumes "live_generation s (winner_generation row) (digest_key (pub_action row))"
  shows "slot_moves s (fst (commit_publication au row s)) k"
  using commit_step_cases [of s au row] commit_grows(3) [of au row s] assms
  by (auto intro: slot_moves_same slot_moves_publish)

text \<open>The store's steps, with the fence at commit that the winner is a live generation of the action.\<close>

inductive fenced_step :: "store \<Rightarrow> store \<Rightarrow> bool" where
  fenced_write: "store_step s t \<Longrightarrow> publications t = publications s \<Longrightarrow> fenced_step s t"
| fenced_commit: "live_generation s (winner_generation row) (digest_key (pub_action row)) \<Longrightarrow>
    fenced_step s (fst (commit_publication au row s))"

lemma fenced_slot: "fenced_step s t \<Longrightarrow> slot_moves s t k"
  by (erule fenced_step.cases) (auto intro: slot_moves_generations slot_moves_commit)

lemma slot_path:
  "fenced_step\<^sup>*\<^sup>* s t \<Longrightarrow> slot_may_transition\<^sup>*\<^sup>* (slot_of s k) (slot_of t k)"
proof (induction rule: rtranclp_induct)
  case (step t u)
  then show ?case using fenced_slot [OF step.hyps(2), of k]
    by (auto simp: slot_moves_def intro: rtranclp.rtrancl_into_rtrancl)
qed simp

text \<open>What processing an offer does to publications and generations.\<close>

lemma process_offer_effect:
  defines "key \<equiv> \<lambda>off. digest_key (mf_action_key (of_manifest off))"
  assumes "t = fst (process_offer sha256 off ed resolver pin seq durability s)"
  shows "generations (meta t) = generations (meta s)
    \<and> (publications (meta t) = publications (meta s)
       \<or> map_of (publications (meta s)) (key off) = None
         \<and> generation_state (generation_id (auth_generation (authority off))) (meta s) = Some False
         \<and> (\<exists>e. publications (meta t) = (key off, e) # publications (meta s)))"
proof (cases "admit sha256 off ed resolver durability s")
  case (Inl e)
  with assms show ?thesis by (simp add: process_offer_def)
next
  case (Inr rows)
  show ?thesis
  proof (cases "published_manifest_key_str (key off) s")
    case None
    let ?au = "authority_digest sha256 (coordinator (authority off))" and ?row = "publication_row_of off pin rows"
    obtain m r where c: "commit_publication ?au ?row (meta s) = (m, r)" by (meson surj_pair)
    have t: "meta t = m" using process_offer_fresh [OF Inr None [unfolded key_def] c] assms(2) by simp
    have "pub_action ?row = mf_action_key (of_manifest off)" by (simp add: publication_row_of_def)
    then show ?thesis
      using commit_step_cases [of "meta s" ?au ?row] commit_grows(3) [of ?au ?row "meta s"] admit_Inr(3) [OF Inr]
      unfolding c t key_def by auto
  next
    case (Some ck)
    with process_offer_existing [OF Some [unfolded key_def]] assms(2) show ?thesis by simp
  qed
qed

text \<open>C7: Offer admission refines the publication slot. When the generation an offer names is recorded for
  the offer's action, processing the offer leaves the slot of every key where it is or moves it as the
  slot machine allows, on every outcome; in particular a committed slot never moves, and a slot becomes
  committed only from executing.\<close>

theorem offer_refines_slot:
  assumes "t = fst (process_offer sha256 off ed resolver pin seq durability s)"
    and bound: "\<And>g. map_of (generations (meta s)) (generation_id (auth_generation (authority off))) = Some g \<Longrightarrow>
      gen_action_key g = digest_key (mf_action_key (of_manifest off))"
  shows "(slot_of (meta t) k = slot_of (meta s) k \<or> slot_may_transition (slot_of (meta s) k) (slot_of (meta t) k))
    \<and> (slot_of (meta s) k = publication_slot_state.Committed \<longrightarrow> slot_of (meta t) k = publication_slot_state.Committed)"
proof -
  note e = process_offer_effect [OF assms(1)]
  have "slot_moves (meta s) (meta t) k"
  proof (cases "publications (meta t) = publications (meta s)")
    case True
    with e show ?thesis by (intro slot_moves_same) simp_all
  next
    case False
    with e obtain g where "map_of (generations (meta s)) (generation_id (auth_generation (authority off))) = Some g" "\<not> tombstoned g"
      by (auto simp: generation_state_def)
    with bound have "live_generation (meta s) (generation_id (auth_generation (authority off))) (digest_key (mf_action_key (of_manifest off)))"
      by (auto simp: live_generation_def)
    with False e show ?thesis by (auto intro: slot_moves_publish)
  qed
  then show ?thesis by (auto simp: slot_moves_def slot_may_transition_def)
qed

text \<open>A live generation of the sample's own action.\<close>

definition sample_executing :: coordinator_store where
  "sample_executing = sample_coordinator\<lparr>meta := (meta sample_coordinator)
     \<lparr>generations := [(7, \<lparr>gen_action_key = digest_key (sample_digest 2), gen_authority_key = ''auth'', tombstoned = False\<rparr>)]\<rparr>\<rparr>"

theorem offer_refines_slot_witness:
  "let t = fst (process_offer sample_hash sample_offer (sample_digest 3) sample_resolver 20 4 RequireDurableClosure sample_executing)
   in slot_of (meta sample_executing) (digest_key (sample_digest 2)) = Executing
      \<and> (slot_of (meta t) (digest_key (sample_digest 2)) = Executing
         \<or> slot_may_transition Executing (slot_of (meta t) (digest_key (sample_digest 2))))"
proof -
  let ?t = "fst (process_offer sample_hash sample_offer (sample_digest 3) sample_resolver 20 4 RequireDurableClosure sample_executing)"
  have g: "generations (meta sample_executing)
      = [(7, \<lparr>gen_action_key = digest_key (sample_digest 2), gen_authority_key = ''auth'', tombstoned = False\<rparr>)]"
    "publications (meta sample_executing) = publications (meta sample_coordinator)"
    by (simp_all add: sample_executing_def)
  have s: "slot_of (meta sample_executing) (digest_key (sample_digest 2)) = Executing"
    using sample_keys_distinct(1)
    by (simp add: slot_of_def live_generation_def g del: sample_key) (simp add: sample_coordinator_def del: sample_key)
  have "gen_action_key x = digest_key (mf_action_key (of_manifest sample_offer))"
    if "map_of (generations (meta sample_executing)) (generation_id (auth_generation (authority sample_offer))) = Some x" for x
    using that by (auto simp: g sample_offer_def sample_result_def split: if_splits)
  from offer_refines_slot [of ?t, OF refl this, of "digest_key (sample_digest 2)"] s show ?thesis by (simp add: Let_def)
qed

text \<open>Without that binding the refinement fails. Admission asks only that some generation with the offered
  identifier is live: an offer under a generation of another action moves the slot of its key from absent
  to committed at once.\<close>

theorem absent_slot_committed:
  "let t = fst (sample_process 20)
   in slot_of (meta sample_coordinator) (digest_key (sample_digest 2)) = Absent
      \<and> slot_of (meta t) (digest_key (sample_digest 2)) = publication_slot_state.Committed
      \<and> \<not> slot_may_transition Absent publication_slot_state.Committed"
proof -
  obtain t r row m where p: "sample_process 20 = (t, Inr (publication_outcome.Committed r))" "t = sample_coordinator\<lparr>meta := m\<rparr>"
    "commit_publication \<lparr>domain = AUTHORITY_DIGEST_DOMAIN, bytes = []\<rparr> (publication_row_of sample_offer 20 [row])
       (meta sample_coordinator) = (m, Inr Metadata_Store.Committed)" by (rule sample_committed)
  have "publications m = (digest_key (sample_digest 2), publication_entry_of (publication_row_of sample_offer 20 [row]))
      # publications (meta sample_coordinator)"
    using commit_committed(2) [OF p(3)] by (simp add: publication_row_of_def sample_offer_def sample_result_def)
  then have "slot_of m (digest_key (sample_digest 2)) = publication_slot_state.Committed" by (simp add: slot_of_def)
  moreover have "slot_of (meta sample_coordinator) (digest_key (sample_digest 2)) = Absent"
    using sample_keys_distinct(1) by (simp add: slot_of_def live_generation_def sample_coordinator_def del: sample_key)
      (simp add: digest_key_def)
  ultimately show ?thesis by (simp add: Let_def p(1,2) slot_may_transition_def)
qed


section \<open>The generation fence\<close>

lemma position_Some: "position x xs = Some n \<Longrightarrow> n < length xs \<and> xs ! n = x"
  by (induction xs arbitrary: n) (auto split: if_splits)

lemma position_None: "position x xs = None \<longleftrightarrow> x \<notin> set xs"
  by (induction xs) auto

lemma mset_swap_remove:
  assumes "n < length xs"
  shows "mset (swap_remove n xs) = mset xs - {#xs ! n#}"
proof (cases xs rule: rev_cases)
  case (snoc ys y)
  show ?thesis
  proof (cases "n < length ys")
    case True
    with snoc show ?thesis
      by (simp add: swap_remove_def list_update_append butlast_append mset_update nth_append)
  next
    case False
    with snoc assms have "n = length ys" by simp
    with snoc show ?thesis by (simp add: swap_remove_def)
  qed
qed (use assms in simp)

lemma fence_close_sets:
  assumes "distinct (active_ids f)"
  shows "set (active_ids (fence_close i f)) = set (active_ids f) - {i}"
    and "distinct (active_ids (fence_close i f))"
    and "set (tombstone_ids (fence_close i f)) = (set (active_ids f) \<inter> {i}) \<union> set (tombstone_ids f)"
proof -
  consider "position i (active_ids f) = None" | n where "position i (active_ids f) = Some n" by (cases "position i (active_ids f)") auto
  then have "set (active_ids (fence_close i f)) = set (active_ids f) - {i} \<and> distinct (active_ids (fence_close i f))
      \<and> set (tombstone_ids (fence_close i f)) = (set (active_ids f) \<inter> {i}) \<union> set (tombstone_ids f)"
  proof cases
    case 1
    then have "fence_close i f = f" "i \<notin> set (active_ids f)" by (simp_all add: fence_close_def position_None [symmetric])
    then show ?thesis using assms by simp
  next
    case 2
    note n = position_Some [OF 2]
    have m: "mset (swap_remove n (active_ids f)) = mset (active_ids f) - {#i#}"
      using mset_swap_remove [of n "active_ids f"] n by simp
    have d: "distinct (swap_remove n (active_ids f))"
      using assms m by (metis distinct_remove1 mset_eq_imp_distinct_iff mset_remove1)
    have s: "set (swap_remove n (active_ids f)) = set (active_ids f) - {i}"
      using assms m by (metis mset_eq_setD mset_remove1 set_remove1_eq)
    have "i \<in> set (active_ids f)" using n nth_mem by blast
    then show ?thesis using 2 d s by (auto simp: fence_close_def)
  qed
  then show "set (active_ids (fence_close i f)) = set (active_ids f) - {i}"
    "distinct (active_ids (fence_close i f))"
    "set (tombstone_ids (fence_close i f)) = (set (active_ids f) \<inter> {i}) \<union> set (tombstone_ids f)" by simp_all
qed

text \<open>\<open>fence_rel s f\<close>: the fence \<open>f\<close> knows the live and the tombstoned generations of the store \<open>s\<close>.\<close>

definition fence_rel :: "store \<Rightarrow> generation_fence \<Rightarrow> bool" where
  "fence_rel s f \<longleftrightarrow> distinct (active_ids f)
     \<and> set (active_ids f) = {i. generation_state i s = Some False}
     \<and> set (tombstone_ids f) = {i. generation_state i s = Some True}"

lemma fence_seen_rel: "fence_rel s f \<Longrightarrow> fence_seen f i \<longleftrightarrow> generation_state i s \<noteq> None"
  by (auto simp: fence_rel_def fence_seen_def)

lemma create_generation_Inr:
  assumes "snd (create_generation au i action s) = Inr ()"
  shows "map_of (generations s) i = None"
    and "generations (fst (create_generation au i action s))
      = (i, \<lparr>gen_action_key = digest_key action, gen_authority_key = digest_key au, tombstoned = False\<rparr>) # generations s"
  using assms by (auto simp: create_generation_def in_txn_def sql_insert_def split: sum.splits if_splits)

lemma tombstone_generation_state:
  "generation_state j (fst (tombstone_generation i s)) =
     (if j = i then map_option (\<lambda>_. True) (generation_state i s) else generation_state j s)"
  by (auto simp: tombstone_generation_def fst_in_txn generation_state_def map_of_map_entry split: option.splits)

text \<open>The store's generation table refines the generation fence. Whenever the store creates a
  generation the fence admits its identifier; tombstoning closes it; and the fence then still knows
  exactly the store's live and tombstoned generations. No other operation of the store changes what the
  fence knows. So the fence's promise, that an identifier once seen is never admitted again, is one the
  store keeps.\<close>

theorem store_refines_fence:
  assumes "fence_rel s f"
  shows "(snd (create_generation au i action s) = Inr () \<longrightarrow>
      snd (fence_admit i f) = Admitted
      \<and> fence_rel (fst (create_generation au i action s)) (fst (fence_admit i f)))
    \<and> fence_rel (fst (tombstone_generation i s)) (fence_close i f)
    \<and> (store_step s t \<and> generations t = generations s \<longrightarrow> fence_rel t f)"
proof (intro conjI impI)
  assume c: "snd (create_generation au i action s) = Inr ()"
  note g = create_generation_Inr [OF c]
  have "\<not> fence_seen f i" using g(1) by (simp add: fence_seen_rel [OF assms] generation_state_def)
  then show "snd (fence_admit i f) = Admitted" by (simp add: fence_admit_def)
  have "generation_state j (fst (create_generation au i action s)) = (if j = i then Some False else generation_state j s)" for j
    using g by (auto simp: generation_state_def)
  then show "fence_rel (fst (create_generation au i action s)) (fst (fence_admit i f))"
    using assms \<open>\<not> fence_seen f i\<close> g(1)
    by (auto simp: fence_rel_def fence_admit_def fence_seen_def generation_state_def)
next
  have a: "distinct (active_ids f)" "set (active_ids f) = {i. generation_state i s = Some False}"
      "set (tombstone_ids f) = {i. generation_state i s = Some True}"
    using assms by (simp_all add: fence_rel_def)
  show "fence_rel (fst (tombstone_generation i s)) (fence_close i f)"
    unfolding fence_rel_def fence_close_sets(1,3) [OF a(1)] tombstone_generation_state a(2,3)
    using fence_close_sets(2) [OF a(1)] by (auto split: if_splits)
next
  assume "store_step s t \<and> generations t = generations s"
  with assms show "fence_rel t f" by (simp add: fence_rel_def generation_state_def)
qed

theorem store_refines_fence_witness:
  "fence_rel (fst (tombstone_generation 7 (meta sample_coordinator))) (fence_close 7 \<lparr>active_ids = [7], tombstone_ids = []\<rparr>)"
proof -
  have "fence_rel (meta sample_coordinator) \<lparr>active_ids = [7], tombstone_ids = []\<rparr>"
    by (auto simp: fence_rel_def generation_state_def sample_coordinator_def split: if_splits)
  from store_refines_fence [OF this, of undefined 7 undefined "meta sample_coordinator"] show ?thesis by simp
qed

section \<open>The delivery engine as a subscriber\<close>











section \<open>Serving\<close>

text \<open>A serving record under a sequence of triggers: a refusal changes nothing, a divergence incident
  quarantines.\<close>

fun serving_apply :: "serving_disposition \<Rightarrow> serving_trigger \<Rightarrow> serving_disposition" where
  "serving_apply d t =
     (case serving_evaluate d t of
        Apply d' \<Rightarrow> d'
      | QuarantineWithDivergenceIncident \<Rightarrow> Quarantined
      | Refuse _ \<Rightarrow> d)"

lemma serving_apply_evicted: "serving_apply d t = EvictedFromActiveIndex \<longleftrightarrow> d = EvictedFromActiveIndex \<or> t = RetentionEvicted"
  by (cases d; cases t) (auto simp: serving_evaluate_def split: option.splits)

lemma serving_apply_tombstone:
  "serving_apply EvictedFromActiveIndex t = EvictedFromActiveIndex"
  "serving_apply d RetentionEvicted = EvictedFromActiveIndex"
  by (simp_all only: serving_apply_evicted simp_thms)

lemma serving_apply_quarantined:
  "serving_apply Quarantined t \<in> {Quarantined, EvictedFromActiveIndex} \<or> (\<exists>r. t = QuarantineReleased (Some r))"
  by (cases t) (auto simp: serving_evaluate_def split: option.splits)

lemma quarantined_run:
  assumes "\<forall>r. QuarantineReleased (Some r) \<notin> set ts" "d \<in> {Quarantined, EvictedFromActiveIndex}"
  shows "foldl serving_apply d ts \<in> {Quarantined, EvictedFromActiveIndex}"
  using assms
proof (induction ts arbitrary: d)
  case (Cons t ts)
  have "serving_apply d t \<in> {Quarantined, EvictedFromActiveIndex}"
    using Cons.prems serving_apply_quarantined [of t] serving_apply_evicted [of EvictedFromActiveIndex t]
    by (auto simp del: serving_apply.simps)
  with Cons.IH [of "serving_apply d t"] Cons.prems(1) show ?case by (simp del: serving_apply.simps)
qed simp

text \<open>Nothing gets out of quarantine without a repair receipt. Whatever triggers arrive, in whatever
  order, once a quarantine was opened and as long as no release with a receipt comes the record is
  quarantined or evicted, so it is not served; and an evicted record stays evicted for good.\<close>

theorem quarantine_needs_receipt:
  "((\<forall>r. QuarantineReleased (Some r) \<notin> set ts) \<longrightarrow>
      foldl serving_apply d (QuarantineOpened # ts) \<in> {Quarantined, EvictedFromActiveIndex})
   \<and> (RetentionEvicted \<in> set us \<longrightarrow> foldl serving_apply d us = EvictedFromActiveIndex)"
proof (intro conjI impI)
  assume "\<forall>r. QuarantineReleased (Some r) \<notin> set ts"
  moreover have "serving_apply d QuarantineOpened \<in> {Quarantined, EvictedFromActiveIndex}"
    by (simp add: serving_evaluate_def)
  ultimately show "foldl serving_apply d (QuarantineOpened # ts) \<in> {Quarantined, EvictedFromActiveIndex}"
    using quarantined_run by (simp del: serving_apply.simps)
next
  assume "RetentionEvicted \<in> set us"
  then show "foldl serving_apply d us = EvictedFromActiveIndex"
  proof (induction us arbitrary: d)
    case (Cons u us)
    have "foldl serving_apply EvictedFromActiveIndex vs = EvictedFromActiveIndex" for vs
      by (induction vs) (simp_all add: serving_apply_tombstone del: serving_apply.simps)
    with Cons show ?case by (cases "u = RetentionEvicted") (auto simp: serving_apply_tombstone simp del: serving_apply.simps)
  qed simp
qed

theorem quarantine_needs_receipt_witness:
  "foldl serving_apply Eligible [QuarantineOpened, EvidenceComplete, ObjectsRefetched, QuarantineReleased None]
     \<in> {Quarantined, EvictedFromActiveIndex}"
  using quarantine_needs_receipt [of "[EvidenceComplete, ObjectsRefetched, QuarantineReleased None]" Eligible "[]"] by simp

text \<open>Expiry does not survive a loss of objects. A result whose validity expired must be revalidated before
  it is served again, but losing its objects and fetching them back makes it eligible with no
  revalidation in between.\<close>

theorem expired_served_after_refetch:
  "foldl serving_apply Eligible [ValidityExpired, ObjectsMissing, ObjectsRefetched] = Eligible
   \<and> foldl serving_apply Eligible [ValidityExpired] = ExpiredNeedsRevalidation"
  by (simp add: serving_evaluate_def)

end
