(* ===== verification/Serving.thy ===== *)
theory Serving
  imports Action_Machines "HOL-Library.Char_ord"
begin

text \<open>
  Serving of committed results: the validity window and the revisioned serving record of
  \<open>rabs-protocol/src/serving.rs\<close>, the serving rows of \<open>rabs-cas/src/metadata_store.rs\<close>, and the gate
  of \<open>rabs-cas/src/serving_state.rs\<close>. The columns that only the serving record uses stand beside the
  coordinator's store; a row that was only ever given a disposition reads back with their defaults.
  Microseconds are integers of 64 bits, signed or not as in the code, with the saturating operations
  written out.
\<close>

section \<open>Validity\<close>

record serving_validity =
  evaluated_at_unix_micros :: int
  maximum_age_micros :: "nat option"
  clock_uncertainty_micros :: nat
  coordinator_clock_epoch :: nat

definition sat_sub_i64 :: "int \<Rightarrow> int \<Rightarrow> int" where
  "sat_sub_i64 a b = max (- (2 ^ 63)) (min (2 ^ 63 - 1) (a - b))"

definition sat_add_u64 :: "nat \<Rightarrow> nat \<Rightarrow> nat" where
  "sat_add_u64 a b = min (2 ^ 64 - 1) (a + b)"

definition still_valid :: "serving_validity \<Rightarrow> int \<Rightarrow> nat \<Rightarrow> bool" where
  "still_valid v now now_epoch =
     (if now_epoch \<noteq> coordinator_clock_epoch v then False
      else if now < evaluated_at_unix_micros v then False
      else case maximum_age_micros v of
        None \<Rightarrow> True
      | Some max_age \<Rightarrow>
          sat_add_u64 (nat (sat_sub_i64 now (evaluated_at_unix_micros v))) (clock_uncertainty_micros v) \<le> max_age)"

section \<open>The serving record\<close>

record action_serving_state =
  publication_record_id :: typed_digest
  disposition :: serving_disposition
  blocking_quarantine_ids :: "64 word list"
  state_revision :: "64 word"
  coordinator_authority_digest :: typed_digest
  validity :: serving_validity

definition accepts_update :: "action_serving_state \<Rightarrow> action_serving_state \<Rightarrow> bool" where
  "accepts_update r u \<longleftrightarrow> publication_record_id r = publication_record_id u \<and> state_revision r < state_revision u"

definition may_serve_now :: "action_serving_state \<Rightarrow> int \<Rightarrow> nat \<Rightarrow> bool" where
  "may_serve_now r now now_epoch \<longleftrightarrow>
     disposition r = Eligible \<and> blocking_quarantine_ids r = [] \<and> still_valid (validity r) now now_epoch"

definition evidence_set_digest_input :: "byte list list \<Rightarrow> byte list list" where
  "evidence_set_digest_input ids = remdups_adj (sort ids)"

section \<open>Serving rows\<close>

record serving_details =
  sd_revision :: nat
  sd_authority_key :: string
  sd_validity :: serving_validity

record serving_store =
  coord :: coordinator_store
  details :: "(string \<times> serving_details) list"
  blocking_rows :: "(string \<times> string \<times> string) list"

record serving_record_row =
  sr_disposition :: string
  sr_revision :: nat
  sr_authority_key :: string
  sr_validity :: serving_validity
  sr_blocking :: "(string \<times> string) list"

text \<open>The defaults of the added columns.\<close>

definition legacy_details :: serving_details where
  "legacy_details = \<lparr>sd_revision = 0, sd_authority_key = '''', sd_validity = \<lparr>evaluated_at_unix_micros = 0,
     maximum_age_micros = None, clock_uncertainty_micros = 0, coordinator_clock_epoch = 0\<rparr>\<rparr>"

definition details_of :: "string \<Rightarrow> serving_store \<Rightarrow> serving_details" where
  "details_of k s = (case map_of (details s) k of None \<Rightarrow> legacy_details | Some d \<Rightarrow> d)"

definition put_serving_body ::
  "typed_digest \<Rightarrow> string \<Rightarrow> string \<Rightarrow> nat \<Rightarrow> serving_validity \<Rightarrow> (string \<times> string) list
     \<Rightarrow> serving_store \<Rightarrow> store_error + serving_store" where
  "put_serving_body au k disp revision v blocking s =
     (let m = meta (coord s)
      in case require_active au m of
           Inl e \<Rightarrow> Inl e
         | Inr _ \<Rightarrow>
             if revision = 0 \<or> map_of (serving_states m) k \<noteq> None \<and> revision \<le> sd_revision (details_of k s)
             then Inl StaleServingRevision
             else if list_ex (\<lambda>q. map_of (quarantines m) q = None) blocking then Inl UnknownQuarantineReference
             else Inr (s\<lparr>coord := (coord s)\<lparr>meta := m\<lparr>serving_states := AList.update k (disp, 1) (serving_states m)\<rparr>\<rparr>,
               details := AList.update k \<lparr>sd_revision = revision, sd_authority_key = digest_key au, sd_validity = v\<rparr>
                 (details s),
               blocking_rows := fold (\<lambda>q. List.insert (k, q)) blocking (filter (\<lambda>(a, _). a \<noteq> k) (blocking_rows s))\<rparr>))"

definition put_serving_record ::
  "typed_digest \<Rightarrow> string \<Rightarrow> string \<Rightarrow> nat \<Rightarrow> serving_validity \<Rightarrow> (string \<times> string) list
     \<Rightarrow> serving_store \<Rightarrow> serving_store \<times> (store_error + unit)" where
  "put_serving_record au k disp revision v blocking s =
     (case to_seq revision ''state_revision'' of
        Inl e \<Rightarrow> (s, Inl e)
      | Inr _ \<Rightarrow>
          case to_seq_option (maximum_age_micros v) ''max_age_micros'' of
            Inl e \<Rightarrow> (s, Inl e)
          | Inr _ \<Rightarrow>
              case to_seq (clock_uncertainty_micros v) ''clock_uncertainty_micros'' of
                Inl e \<Rightarrow> (s, Inl e)
              | Inr _ \<Rightarrow>
                  case to_seq (coordinator_clock_epoch v) ''clock_epoch'' of
                    Inl e \<Rightarrow> (s, Inl e)
                  | Inr _ \<Rightarrow>
                      case put_serving_body au k disp revision v blocking s of
                        Inl e \<Rightarrow> (s, Inl e)
                      | Inr t \<Rightarrow> (t, Inr ()))"

definition serving_record :: "string \<Rightarrow> serving_store \<Rightarrow> serving_record_row option" where
  "serving_record k s =
     (case map_of (serving_states (meta (coord s))) k of
        None \<Rightarrow> None
      | Some (disp, _) \<Rightarrow>
          let d = details_of k s
          in Some \<lparr>sr_disposition = disp, sr_revision = sd_revision d, sr_authority_key = sd_authority_key d,
               sr_validity = sd_validity d,
               sr_blocking = sort (map snd (filter (\<lambda>(a, _). a = k) (blocking_rows s)))\<rparr>)"

section \<open>The gate\<close>

definition SERVABLE_DISPOSITION :: string where
  "SERVABLE_DISPOSITION = ''servable''"

datatype serve_decision =
    NoRecord
  | NotServable string
  | Blocked "(string \<times> string) list"
  | ExpiredClockEpoch
  | ExpiredClockRollback
  | ExpiredTtl
  | Servable

definition serving_gate :: "string \<Rightarrow> int \<Rightarrow> nat \<Rightarrow> serving_store \<Rightarrow> serve_decision" where
  "serving_gate k now now_epoch s =
     (case serving_record k s of
        None \<Rightarrow> NoRecord
      | Some r \<Rightarrow>
          if sr_disposition r \<noteq> SERVABLE_DISPOSITION then NotServable (sr_disposition r)
          else if sr_blocking r \<noteq> [] then Blocked (sr_blocking r)
          else if \<not> still_valid (sr_validity r) now now_epoch
          then (if now_epoch \<noteq> coordinator_clock_epoch (sr_validity r) then ExpiredClockEpoch
                else if now < evaluated_at_unix_micros (sr_validity r) then ExpiredClockRollback
                else ExpiredTtl)
          else Servable)"

section \<open>What the gate admits\<close>

text \<open>Below the largest storable age the saturating arithmetic of the window is exact.\<close>

lemma still_valid_iff:
  assumes "\<And>a. maximum_age_micros v = Some a \<Longrightarrow> a < 2 ^ 63 - 1"
  shows "still_valid v now ep \<longleftrightarrow> ep = coordinator_clock_epoch v \<and> evaluated_at_unix_micros v \<le> now
    \<and> (\<forall>a. maximum_age_micros v = Some a \<longrightarrow>
        now - evaluated_at_unix_micros v + int (clock_uncertainty_micros v) \<le> int a)"
proof (cases "maximum_age_micros v")
  case None
  then show ?thesis by (auto simp: still_valid_def)
next
  case (Some a)
  have a: "int a < 2 ^ 63 - 1" using assms [OF Some] by simp
  let ?d = "now - evaluated_at_unix_micros v" and ?u = "clock_uncertainty_micros v"
  have "sat_add_u64 (nat (sat_sub_i64 now (evaluated_at_unix_micros v))) ?u \<le> a \<longleftrightarrow> ?d + int ?u \<le> int a"
    if "0 \<le> ?d"
  proof (cases "?d \<le> 2 ^ 63 - 1")
    case True
    with that have "nat (sat_sub_i64 now (evaluated_at_unix_micros v)) = nat ?d" by (simp add: sat_sub_i64_def)
    moreover have "min (2 ^ 64 - 1) (nat ?d + ?u) \<le> a \<longleftrightarrow> nat ?d + ?u \<le> a" using a by (simp add: min_le_iff_disj)
    ultimately show ?thesis using that by (simp only: sat_add_u64_def) linarith
  next
    case False
    then have "nat (sat_sub_i64 now (evaluated_at_unix_micros v)) = 2 ^ 63 - 1" by (simp add: sat_sub_i64_def)
    moreover have "\<not> min (2 ^ 64 - 1) (2 ^ 63 - 1 + ?u) \<le> a" using a by (simp add: min_le_iff_disj)
    moreover have "\<not> ?d + int ?u \<le> int a" using False a by linarith
    ultimately show ?thesis by (simp only: sat_add_u64_def simp_thms)
  qed
  with Some show ?thesis by (auto simp: still_valid_def)
qed

text \<open>The gate serves exactly what is servable. It answers \<open>Servable\<close> if and only if a row with the
  servable disposition exists, no quarantine reference blocks it, the clock epoch is the one it was
  evaluated in, the clock is not before the evaluation, and the age with the clock's uncertainty added
  is within the bound. Rollback and discontinuity of the clock therefore only ever deny.\<close>

theorem serving_gate_exact:
  assumes "\<And>a. maximum_age_micros (sd_validity (details_of k s)) = Some a \<Longrightarrow> a < 2 ^ 63 - 1"
  shows "serving_gate k now ep s = Servable \<longleftrightarrow>
    (\<exists>n. map_of (serving_states (meta (coord s))) k = Some (SERVABLE_DISPOSITION, n))
    \<and> (\<forall>q. (k, q) \<notin> set (blocking_rows s))
    \<and> ep = coordinator_clock_epoch (sd_validity (details_of k s))
    \<and> evaluated_at_unix_micros (sd_validity (details_of k s)) \<le> now
    \<and> (\<forall>a. maximum_age_micros (sd_validity (details_of k s)) = Some a \<longrightarrow>
        now - evaluated_at_unix_micros (sd_validity (details_of k s))
          + int (clock_uncertainty_micros (sd_validity (details_of k s))) \<le> int a)"
proof -
  have nil: "sort xs = [] \<longleftrightarrow> xs = []" for xs :: "(string \<times> string) list"
    by (metis length_0_conv length_sort)
  have b: "filter (\<lambda>(a, _). a = k) (blocking_rows s) = [] \<longleftrightarrow> (\<forall>q. (k, q) \<notin> set (blocking_rows s))"
    by (auto simp: filter_empty_conv)
  have "serving_gate k now ep s = Servable \<longleftrightarrow>
      (\<exists>n. map_of (serving_states (meta (coord s))) k = Some (SERVABLE_DISPOSITION, n))
      \<and> (\<forall>q. (k, q) \<notin> set (blocking_rows s)) \<and> still_valid (sd_validity (details_of k s)) now ep"
    unfolding b [symmetric] by (auto simp: serving_gate_def serving_record_def Let_def nil split: option.splits)
  also note still_valid_iff [OF assms]
  finally show ?thesis .
qed

definition sample_serving :: serving_store where
  "sample_serving = \<lparr>coord = sample_coordinator\<lparr>meta := (meta sample_coordinator)\<lparr>serving_states := [(''k'', ''servable'', 1)]\<rparr>\<rparr>,
     details = [(''k'', \<lparr>sd_revision = 1, sd_authority_key = ''a'', sd_validity = \<lparr>evaluated_at_unix_micros = 100,
       maximum_age_micros = Some 50, clock_uncertainty_micros = 5, coordinator_clock_epoch = 2\<rparr>\<rparr>)],
     blocking_rows = []\<rparr>"

theorem serving_gate_exact_witness:
  "serving_gate ''k'' 145 2 sample_serving = Servable \<and> serving_gate ''k'' 146 2 sample_serving \<noteq> Servable
   \<and> serving_gate ''k'' 99 2 sample_serving \<noteq> Servable"
proof -
  have d: "details_of ''k'' sample_serving = \<lparr>sd_revision = 1, sd_authority_key = ''a'', sd_validity =
      \<lparr>evaluated_at_unix_micros = 100, maximum_age_micros = Some 50, clock_uncertainty_micros = 5, coordinator_clock_epoch = 2\<rparr>\<rparr>"
    by (simp add: details_of_def sample_serving_def)
  have "a < 2 ^ 63 - 1" if "maximum_age_micros (sd_validity (details_of ''k'' sample_serving)) = Some a" for a
    using that by (simp add: d)
  then have g: "serving_gate ''k'' now 2 sample_serving = Servable \<longleftrightarrow> 100 \<le> now \<and> now \<le> 145" for now
    using serving_gate_exact [of "''k''" sample_serving now 2]
    by (simp add: d) (auto simp: sample_serving_def SERVABLE_DISPOSITION_def)
  show ?thesis by (simp add: g)
qed

lemma set_fold_insert: "set (fold (\<lambda>q. List.insert (k, q)) qs rs) = set rs \<union> Pair k ` set qs"
  by (induction qs arbitrary: rs) auto

lemma distinct_fold_insert: "distinct rs \<Longrightarrow> distinct (fold (\<lambda>q. List.insert (k, q)) qs rs)"
  by (induction qs arbitrary: rs) simp_all

text \<open>A serving record that is written is the one read back: its disposition, revision, authority and
  validity, and its quarantine references as a sorted set. It is written only at a revision above the
  one stored and over quarantine rows that exist, and no other action's record changes.\<close>

theorem serving_record_roundtrip:
  assumes "distinct (blocking_rows s)" "put_serving_record au k disp rvn v blocking s = (t, Inr ())"
  shows "\<exists>r. serving_record k t = Some r \<and> sr_disposition r = disp \<and> sr_revision r = rvn
      \<and> sr_authority_key r = digest_key au \<and> sr_validity r = v
      \<and> set (sr_blocking r) = set blocking \<and> sorted (sr_blocking r) \<and> distinct (sr_blocking r)
      \<and> (\<forall>r0. serving_record k s = Some r0 \<longrightarrow> sr_revision r0 < rvn)
      \<and> (\<forall>q \<in> set blocking. map_of (quarantines (meta (coord s))) q \<noteq> None)
      \<and> (\<forall>k'. k' \<noteq> k \<longrightarrow> serving_record k' t = serving_record k' s)"
proof -
  have p: "put_serving_body au k disp rvn v blocking s = Inr t"
    using assms(2) by (auto simp: put_serving_record_def split: sum.splits)
  let ?m = "meta (coord s)"
  let ?b = "fold (\<lambda>q. List.insert (k, q)) blocking (filter (\<lambda>(a, _). a \<noteq> k) (blocking_rows s))"
  from p have g: "rvn \<noteq> 0" "map_of (serving_states ?m) k \<noteq> None \<longrightarrow> sd_revision (details_of k s) < rvn"
      "\<not> list_ex (\<lambda>q. map_of (quarantines ?m) q = None) blocking"
    and t: "t = s\<lparr>coord := (coord s)\<lparr>meta := ?m\<lparr>serving_states := AList.update k (disp, 1) (serving_states ?m)\<rparr>\<rparr>,
      details := AList.update k \<lparr>sd_revision = rvn, sd_authority_key = digest_key au, sd_validity = v\<rparr> (details s),
      blocking_rows := ?b\<rparr>"
    by (auto simp: put_serving_body_def Let_def not_le split: sum.splits if_splits)
  have blk: "set (map snd (filter (\<lambda>(a, _). a = k) ?b)) = set blocking" by (force simp: set_fold_insert)
  have dist: "distinct (map snd (filter (\<lambda>(a, _). a = k) ?b))"
    using distinct_fold_insert [of "filter (\<lambda>(a, _). a \<noteq> k) (blocking_rows s)" k blocking] assms(1)
    by (auto simp: distinct_map inj_on_def)
  have mine: "serving_record k t = Some \<lparr>sr_disposition = disp, sr_revision = rvn, sr_authority_key = digest_key au,
      sr_validity = v, sr_blocking = sort (map snd (filter (\<lambda>(a, _). a = k) ?b))\<rparr>"
    by (simp add: serving_record_def t details_of_def update_conv' Let_def)
  have other: "serving_record k' t = serving_record k' s" if "k' \<noteq> k" for k'
  proof -
    have "filter (\<lambda>(a, _). a = k') (fold (\<lambda>q. List.insert (k, q)) qs rs) = filter (\<lambda>(a, _). a = k') rs"
      for qs and rs :: "(string \<times> string \<times> string) list"
      using that by (induction qs arbitrary: rs) (auto simp: List.insert_def)
    moreover have "filter (\<lambda>(a, _). a = k') (filter (\<lambda>(a, _). a \<noteq> k) (blocking_rows s)) = filter (\<lambda>(a, _). a = k') (blocking_rows s)"
      using that by (simp add: filter_filter) (rule filter_cong, auto)
    ultimately have b: "filter (\<lambda>(a, _). a = k') (blocking_rows t) = filter (\<lambda>(a, _). a = k') (blocking_rows s)"
      by (simp add: t del: filter_filter)
    have c: "map_of (serving_states (meta (coord t))) k' = map_of (serving_states ?m) k'" "details_of k' t = details_of k' s"
      using that by (simp_all add: t details_of_def update_conv')
    show ?thesis unfolding serving_record_def b c ..
  qed
  have old: "\<forall>r0. serving_record k s = Some r0 \<longrightarrow> sr_revision r0 < rvn"
    using g(2) by (auto simp: serving_record_def Let_def split: option.splits)
  show ?thesis
    unfolding mine using blk dist old other g(3) by (auto simp: list_ex_iff)
qed


theorem serving_record_roundtrip_witness:
  "\<exists>r. serving_record ''k'' (fst (put_serving_record \<lparr>domain = AUTHORITY_DIGEST_DOMAIN, bytes = []\<rparr> ''k'' ''evidence-pending'' 2
      \<lparr>evaluated_at_unix_micros = 100, maximum_age_micros = None, clock_uncertainty_micros = 0, coordinator_clock_epoch = 2\<rparr>
      [] sample_serving)) = Some r \<and> sr_revision r = 2 \<and> sr_disposition r = ''evidence-pending''"
proof -
  let ?au = "\<lparr>domain = AUTHORITY_DIGEST_DOMAIN, bytes = []\<rparr>"
  let ?v = "\<lparr>evaluated_at_unix_micros = 100, maximum_age_micros = None, clock_uncertainty_micros = 0, coordinator_clock_epoch = 2\<rparr>"
  let ?p = "put_serving_record ?au ''k'' ''evidence-pending'' 2 ?v [] sample_serving"
  have a: "require_active ?au (meta (coord sample_serving)) = Inr ()"
    by (simp add: require_active_def active_authority_key_def sample_serving_def sample_coordinator_def)
  have d: "details_of ''k'' sample_serving = \<lparr>sd_revision = 1, sd_authority_key = ''a'', sd_validity =
      \<lparr>evaluated_at_unix_micros = 100, maximum_age_micros = Some 50, clock_uncertainty_micros = 5, coordinator_clock_epoch = 2\<rparr>\<rparr>"
    by (simp add: details_of_def sample_serving_def)
  have "snd ?p = Inr ()" by (simp add: put_serving_record_def put_serving_body_def a d to_seq_def to_seq_option_def Let_def)
  then have p: "?p = (fst ?p, Inr ())" by (simp add: prod_eq_iff)
  have "distinct (blocking_rows sample_serving)" by (simp add: sample_serving_def)
  from serving_record_roundtrip [OF this p] show ?thesis by blast
qed

section \<open>Divergence stops serving\<close>

text \<open>The rows of the serving table under the operations of admission.\<close>

lemma set_serving_disposition_states:
  "map_of (serving_states (meta (fst (set_serving_disposition_key k' d s)))) k =
     (if k = k' then Some (d, case map_of (serving_states (meta s)) k' of Some (_, v) \<Rightarrow> v | None \<Rightarrow> 1)
      else map_of (serving_states (meta s)) k)"
  by (auto simp: set_serving_disposition_key_def on_meta_def in_txn_def map_of_map_entry split: option.splits)

lemma commit_serving_states:
  assumes "k \<noteq> digest_key (pub_action row)"
  shows "map_of (serving_states (fst (commit_publication au row s))) k = map_of (serving_states s) k"
proof -
  have "map_of (serving_states (make_servable (digest_key (pub_action row)) s')) k = map_of (serving_states s') k" for s'
    using assms by (auto simp: make_servable_def map_of_map_entry)
  moreover have "serving_states (insert_evidence a e g t mk s') = serving_states s'"
      "serving_states (insert_ancestors a rs s') = serving_states s'" "serving_states (conflict_quarantine a s') = serving_states s'"
      "serving_states (intern dm s') = serving_states s'" for a e g t mk rs dm s'
    by (simp_all add: insert_evidence_def insert_ancestors_def conflict_quarantine_def intern_def)
  ultimately show ?thesis
    by (simp add: commit_publication_def fst_in_txn commit_body_def Let_def split: sum.splits option.splits)
qed

definition quarantine_dispositions :: "string set" where
  "quarantine_dispositions = {DISPOSITION_QUARANTINED, DISPOSITION_PRESENTATION_QUARANTINED}"

lemma quarantine_divergence_states:
  "map_of (serving_states (meta (fst (quarantine_divergence au off cls ck gen att pin seq s)))) k =
     (if k = digest_key (mf_action_key (of_manifest off))
      then Some (if cls = ObservableOnlyDivergence then DISPOSITION_PRESENTATION_QUARANTINED else DISPOSITION_QUARANTINED,
        case map_of (serving_states (meta s)) k of Some (_, v) \<Rightarrow> v | None \<Rightarrow> 1)
      else map_of (serving_states (meta s)) k)"
proof -
  let ?a = "digest_key (mf_action_key (of_manifest off))"
  let ?q = "fst (add_quarantine ''action-entry'' ?a (divergence_quarantine_reason cls) s)"
  let ?d = "if cls = ObservableOnlyDivergence then DISPOSITION_PRESENTATION_QUARANTINED else DISPOSITION_QUARANTINED"
  have "serving_states (meta (fst (quarantine_divergence au off cls ck gen att pin seq s)))
      = serving_states (meta (fst (set_serving_disposition_key ?a ?d ?q)))"
    by (rule keeps_after_quarantine [where G = serving_states, OF _ _ _ refl])
      (simp_all add: add_object_edge_def create_pin_def append_evidence_def fst_in_txn sql_insert_def
        sql_insert_ignore_def intern_def insert_evidence_def split: sum.splits)
  moreover have "serving_states (meta ?q) = serving_states (meta s)"
    by (simp add: add_quarantine_def on_meta_def in_txn_def)
  ultimately show ?thesis by (auto simp: set_serving_disposition_states)
qed

text \<open>A published key whose row is not servable.\<close>

definition suspended :: "string \<Rightarrow> coordinator_store \<Rightarrow> bool" where
  "suspended k s \<longleftrightarrow> k \<in> published_actions s
     \<and> (\<exists>d v. map_of (serving_states (meta s)) k = Some (d, v) \<and> d \<in> quarantine_dispositions)"

lemma published_key: "published_manifest_key_str k s = None \<longleftrightarrow> k \<notin> published_actions s"
  by (auto simp: published_manifest_key_str_def published_actions_def map_of_eq_None_iff split: option.splits)

lemma suspended_offer:
  assumes "suspended k s"
  shows "suspended k (fst (process_offer sha256 off ed resolver pin seq durability s))"
proof (cases "admit sha256 off ed resolver durability s")
  case (Inl e)
  with assms show ?thesis by (simp add: process_offer_def)
next
  case (Inr rows)
  let ?a = "digest_key (mf_action_key (of_manifest off))"
  let ?p = "process_offer sha256 off ed resolver pin seq durability s"
  show ?thesis
  proof (cases "published_manifest_key_str ?a s")
    case None
    let ?au = "authority_digest sha256 (coordinator (authority off))" and ?row = "publication_row_of off pin rows"
    obtain m r where c: "commit_publication ?au ?row (meta s) = (m, r)" by (meson surj_pair)
    have t: "fst ?p = s\<lparr>meta := m\<rparr>" by (rule process_offer_fresh [OF Inr None c])
    have "k \<noteq> digest_key (pub_action ?row)"
      using None assms by (auto simp: suspended_def published_key publication_row_of_def)
    from commit_serving_states [OF this, of ?au "meta s"] c
    have "map_of (serving_states m) k = map_of (serving_states (meta s)) k" by simp
    moreover have "published_actions s \<subseteq> published_actions (s\<lparr>meta := m\<rparr>)"
      using commit_step_cases [of "meta s" ?au ?row] c by (auto simp: published_actions_def)
    ultimately show ?thesis using assms unfolding t by (auto simp: suspended_def)
  next
    case (Some ck)
    have pub: "published_actions (fst ?p) = published_actions s"
      using process_offer_existing [OF Some, of sha256 ed resolver pin seq durability] by (simp add: published_actions_def)
    have "fst ?p = s \<or> serving_states (meta (fst ?p)) = serving_states (meta s)
        \<or> (\<exists>cls. fst ?p = fst (quarantine_divergence (authority_digest sha256 (coordinator (authority off))) off cls ck
            (generation_id (auth_generation (authority off))) (attempt_id (authority off)) pin seq s))"
      using Inr Some
      by (auto simp: process_offer_def Let_def store_result_def on_meta_def append_evidence_def in_txn_def intern_def
          insert_evidence_def split: sum.splits option.splits prod.splits; metis fst_conv)
    then show ?thesis
    proof (elim disjE exE)
      fix cls
      assume "fst ?p = fst (quarantine_divergence (authority_digest sha256 (coordinator (authority off))) off cls ck
            (generation_id (auth_generation (authority off))) (attempt_id (authority off)) pin seq s)"
      then show ?thesis using assms pub
        by (auto simp: suspended_def quarantine_divergence_states quarantine_dispositions_def)
    qed (use assms pub in \<open>simp_all add: suspended_def\<close>)
  qed
qed

lemma suspended_step: "suspended k s \<Longrightarrow> offer_step s t \<Longrightarrow> suspended k t"
proof (erule offer_step.cases, goal_cases)
  case (2 s' key e)
  then show ?case by (auto simp: suspended_def upsert_action_entry_def published_actions_def intern_def)
qed (simp add: suspended_offer)

text \<open>C23: A result in doubt is not served. From the moment an admitted offer diverges from the committed
  result, even when recording the incident fails half way, the gate refuses the action at every time and
  in every clock epoch, and keeps refusing it whatever further offers are processed, until a new serving
  record is written for it.\<close>

theorem divergence_stops_serving:
  assumes "admit sha256 off ed resolver durability s = Inr rows"
    and "published_manifest_key_str (digest_key (mf_action_key (of_manifest off))) s = Some ck"
    and "ck \<noteq> digest_key (manifest_id off)" "resolver ck = Some committed"
    and "offer_step\<^sup>*\<^sup>* (fst (process_offer sha256 off ed resolver pin seq durability s)) (coord ss)"
  shows "\<exists>d \<in> quarantine_dispositions. serving_gate (digest_key (mf_action_key (of_manifest off))) now ep ss = NotServable d"
proof -
  let ?a = "digest_key (mf_action_key (of_manifest off))"
  let ?p = "process_offer sha256 off ed resolver pin seq durability s"
  let ?q = "quarantine_divergence (authority_digest sha256 (coordinator (authority off))) off
    (divergence_of committed (of_manifest off)) ck (generation_id (auth_generation (authority off)))
    (attempt_id (authority off)) pin seq s"
  have q: "fst ?p = fst ?q"
    using assms(1-4) by (simp add: process_offer_def Let_def store_result_def split: prod.splits sum.splits)
  have "published_actions (fst ?p) = published_actions s"
    using process_offer_existing [OF assms(2), of sha256 ed resolver pin seq durability] by (simp add: published_actions_def)
  moreover have "?a \<in> published_actions s" using assms(2) published_key [of ?a s] by auto
  moreover have "\<exists>d v. map_of (serving_states (meta (fst ?p))) ?a = Some (d, v) \<and> d \<in> quarantine_dispositions"
    unfolding q by (simp add: quarantine_divergence_states quarantine_dispositions_def)
  ultimately have "suspended ?a (fst ?p)" by (simp add: suspended_def)
  with assms(5) have "suspended ?a (coord ss)"
    by (induction rule: rtranclp_induct) (auto intro: suspended_step)
  then obtain d v where "map_of (serving_states (meta (coord ss))) ?a = Some (d, v)" "d \<in> quarantine_dispositions"
    by (auto simp: suspended_def)
  moreover from this(2) have "d \<noteq> SERVABLE_DISPOSITION"
    by (auto simp: quarantine_dispositions_def SERVABLE_DISPOSITION_def DISPOSITION_QUARANTINED_def
        DISPOSITION_PRESENTATION_QUARANTINED_def)
  ultimately show ?thesis by (auto simp: serving_gate_def serving_record_def Let_def)
qed

theorem divergence_stops_serving_witness:
  "let t = fst (process_offer sample_hash (sample_offer\<lparr>of_ancestors := []\<rparr>) (sample_digest 3) sample_resolver 20 4
      RequireDurableClosure sample_diverged)
   in \<exists>d \<in> quarantine_dispositions. serving_gate (digest_key (sample_digest 2)) 0 0 \<lparr>coord = t, details = [], blocking_rows = []\<rparr>
        = NotServable d"
proof -
  let ?t = "fst (process_offer sample_hash (sample_offer\<lparr>of_ancestors := []\<rparr>) (sample_digest 3) sample_resolver 20 4
      RequireDurableClosure sample_diverged)"
  have "offer_step\<^sup>*\<^sup>* ?t (coord \<lparr>coord = ?t, details = [], blocking_rows = []\<rparr>)" by simp
  from divergence_stops_serving [OF sample_diverged_admitted sample_diverged_published(1-3) this]
  show ?thesis unfolding Let_def sample_diverged_published(4) .
qed

end
