(* ===== verification/Path_Topology.thy ===== *)
theory Path_Topology
  imports Prelude
begin

text \<open>
  Canonical project paths, \<open>rch-common/src/path_topology.rs\<close>: the two spellings of a project (below the
  canonical root and below the alias root) and the check that a project lies in the canonical root.
  The file system is a value of the model, with symbolic links and a bounded number of them per
  lookup, so that \<open>fs::canonicalize\<close> is a function that terminates and the theorems speak of resolved
  paths. The free text of errors is left out.
\<close>

section \<open>Paths\<close>

text \<open>A path is read through \<open>Path::components\<close>: repeated slashes and inner dots do not count, and two
  paths are equal when their components are. A canonical path, what \<open>fs::canonicalize\<close> returns, is
  absolute with ordinary components only and is given by the list of their names.\<close>

datatype component = CurDir | ParentDir | Normal string

record path =
  is_absolute :: bool
  components :: "component list"

type_synonym cpath = "string list"

definition abs_path :: "cpath \<Rightarrow> path" where
  "abs_path p = \<lparr>is_absolute = True, components = map Normal p\<rparr>"

text \<open>\<open>Path::starts_with\<close>, \<open>Path::strip_prefix\<close>, \<open>Path::join\<close>, \<open>Path::parent\<close> and \<open>Path::file_name\<close>.\<close>

definition path_starts_with :: "path \<Rightarrow> path \<Rightarrow> bool" where
  "path_starts_with p q \<longleftrightarrow> is_absolute p = is_absolute q \<and> prefix (components q) (components p)"

definition strip_prefix_path :: "path \<Rightarrow> path \<Rightarrow> component list option" where
  "strip_prefix_path p q =
     (if path_starts_with p q then Some (drop (length (components q)) (components p)) else None)"

definition join :: "path \<Rightarrow> path \<Rightarrow> path" where
  "join p q =
     (if is_absolute q then q
      else p\<lparr>components := components p @
             (if is_absolute p \<or> components p \<noteq> [] then dropWhile (\<lambda>c. c = CurDir) (components q) else components q)\<rparr>)"

definition parent :: "path \<Rightarrow> path option" where
  "parent p = (if components p = [] then None else Some (p\<lparr>components := butlast (components p)\<rparr>))"

fun normal_name :: "component \<Rightarrow> string option" where
  "normal_name (Normal n) = Some n"
| "normal_name _ = None"

definition file_name :: "path \<Rightarrow> string option" where
  "file_name p = (if components p = [] then None else normal_name (last (components p)))"

text \<open>\<open>PathBuf::from\<close> on text.\<close>

fun split_slash :: "string \<Rightarrow> string \<Rightarrow> string list" where
  "split_slash acc [] = [acc]"
| "split_slash acc (c # cs) = (if c = CHR ''/'' then acc # split_slash [] cs else split_slash (acc @ [c]) cs)"

definition component_of :: "string \<Rightarrow> component" where
  "component_of s = (if s = ''..'' then ParentDir else if s = ''.'' then CurDir else Normal s)"

definition path_from :: "string \<Rightarrow> path" where
  "path_from s =
     (let segments = map component_of (filter (\<lambda>x. x \<noteq> []) (split_slash [] s));
          absolute = starts_with s ''/''
      in \<lparr>is_absolute = absolute,
          components = (case segments of
             CurDir # rest \<Rightarrow> (if absolute then [] else [CurDir]) @ filter (\<lambda>c. c \<noteq> CurDir) rest
           | _ \<Rightarrow> filter (\<lambda>c. c \<noteq> CurDir) segments)\<rparr>)"

section \<open>The file system\<close>

text \<open>What the standard library's \<open>fs\<close> module sees: directories, files and symbolic links, the
  working directory, and the number of links one lookup may follow (\<open>ELOOP\<close> beyond it). Permissions
  and concurrent changes are left out.\<close>

datatype node = Directory | File | Symlink path

datatype io_error = NotFound | NotADirectory | FilesystemLoop

record file_system =
  nodes :: "cpath \<Rightarrow> node option"
  cwd :: cpath
  link_limit :: nat

text \<open>One path walk: the directory reached, the components to go, the links that may still be followed.
  The result keeps the unused budget.\<close>

function (sequential) walk :: "file_system \<Rightarrow> cpath \<Rightarrow> component list \<Rightarrow> nat \<Rightarrow> io_error + cpath \<times> nat" where
  "walk fs cur [] b = Inr (cur, b)"
| "walk fs cur (CurDir # cs) b = walk fs cur cs b"
| "walk fs cur (ParentDir # cs) b = walk fs (butlast cur) cs b"
| "walk fs cur (Normal c # cs) b =
     (case nodes fs (cur @ [c]) of
        None \<Rightarrow> Inl NotFound
      | Some Directory \<Rightarrow> walk fs (cur @ [c]) cs b
      | Some File \<Rightarrow> if cs = [] then Inr (cur @ [c], b) else Inl NotADirectory
      | Some (Symlink t) \<Rightarrow>
          if b = 0 then Inl FilesystemLoop
          else walk fs (if is_absolute t then [] else cur) (components t @ cs) (b - 1))"
  by pat_completeness auto
termination walk
  by (relation "measures [\<lambda>(fs, cur, cs, b). b, \<lambda>(fs, cur, cs, b). length cs]") auto

definition walk_from :: "file_system \<Rightarrow> path \<Rightarrow> cpath" where
  "walk_from fs p = (if is_absolute p then [] else cwd fs)"

text \<open>\<open>fs::canonicalize\<close>, \<open>Path::exists\<close>, \<open>Path::is_file\<close>, \<open>fs::symlink_metadata\<close> and \<open>fs::read_link\<close>.\<close>

definition canonicalize :: "file_system \<Rightarrow> path \<Rightarrow> io_error + cpath" where
  "canonicalize fs p = map_sum id fst (walk fs (walk_from fs p) (components p) (link_limit fs))"

definition path_exists :: "file_system \<Rightarrow> path \<Rightarrow> bool" where
  "path_exists fs p = (case canonicalize fs p of Inl _ \<Rightarrow> False | Inr _ \<Rightarrow> True)"

definition is_file :: "file_system \<Rightarrow> path \<Rightarrow> bool" where
  "is_file fs p = (case canonicalize fs p of Inl _ \<Rightarrow> False | Inr q \<Rightarrow> nodes fs q = Some File)"

definition lstat :: "file_system \<Rightarrow> path \<Rightarrow> io_error + node" where
  "lstat fs p =
     (case file_name p of
        None \<Rightarrow> (case canonicalize fs p of Inl e \<Rightarrow> Inl e | Inr _ \<Rightarrow> Inr Directory)
      | Some n \<Rightarrow>
          case canonicalize fs (p\<lparr>components := butlast (components p)\<rparr>) of
            Inl e \<Rightarrow> Inl e
          | Inr d \<Rightarrow>
              if d \<noteq> [] \<and> nodes fs d = Some File then Inl NotADirectory
              else case nodes fs (d @ [n]) of None \<Rightarrow> Inl NotFound | Some x \<Rightarrow> Inr x)"

definition read_link :: "file_system \<Rightarrow> path \<Rightarrow> path option" where
  "read_link fs p = (case lstat fs p of Inr (Symlink t) \<Rightarrow> Some t | _ \<Rightarrow> None)"

section \<open>Normalization\<close>

record path_topology_policy =
  canonical_root :: path
  alias_root :: path

definition DEFAULT_CANONICAL_PROJECT_ROOT :: string where
  "DEFAULT_CANONICAL_PROJECT_ROOT = ''/data/projects''"

definition DEFAULT_ALIAS_PROJECT_ROOT :: string where
  "DEFAULT_ALIAS_PROJECT_ROOT = ''/dp''"

definition default_policy :: path_topology_policy where
  "default_policy = \<lparr>canonical_root = path_from DEFAULT_CANONICAL_PROJECT_ROOT,
     alias_root = path_from DEFAULT_ALIAS_PROJECT_ROOT\<rparr>"

datatype normalization_decision =
    ReceivedInput path
  | VerifiedAbsoluteInput path
  | AliasPrefixDetected path
  | AliasSymlinkVerified path cpath
  | AliasSubtreeSymlinkVerified path cpath cpath
  | AliasDirectoryEntryVerified path cpath
  | CanonicalRootResolved cpath
  | CanonicalInputResolved cpath
  | VerifiedWithinCanonicalRoot cpath cpath

record normalized_project_path =
  canonical_path :: cpath
  np_canonical_root :: cpath
  used_alias_prefix :: bool
  np_decisions :: "normalization_decision list"

datatype path_normalization_error_kind =
    NotAbsoluteInput
  | CanonicalRootMissing
  | CanonicalRootResolveFailed
  | AliasMissing
  | AliasNotSymlink
  | AliasReadLinkFailed
  | AliasTargetResolveFailed
  | AliasWrongTarget
  | InputResolveFailed
  | OutsideCanonicalRoot

record path_normalization_error =
  ne_kind :: path_normalization_error_kind
  input_path :: path
  ne_decisions :: "normalization_decision list"

definition normalization_error ::
  "path_normalization_error_kind \<Rightarrow> path \<Rightarrow> normalization_decision list \<Rightarrow> path_normalization_error" where
  "normalization_error k p ds = \<lparr>ne_kind = k, input_path = p, ne_decisions = ds\<rparr>"

definition absolute_target :: "path \<Rightarrow> path \<Rightarrow> path" where
  "absolute_target alias_rt raw =
     (if is_absolute raw then raw
      else join (case parent alias_rt of Some d \<Rightarrow> d | None \<Rightarrow> abs_path []) raw)"

definition try_resolve_alias_target :: "file_system \<Rightarrow> path \<Rightarrow> cpath option" where
  "try_resolve_alias_target fs alias_rt =
     (case read_link fs alias_rt of
        None \<Rightarrow> None
      | Some raw \<Rightarrow>
          case canonicalize fs (absolute_target alias_rt raw) of Inl _ \<Rightarrow> None | Inr t \<Rightarrow> Some t)"

definition resolve_canonical_root ::
  "file_system \<Rightarrow> path \<Rightarrow> path_topology_policy \<Rightarrow> normalization_decision list
     \<Rightarrow> path_normalization_error + cpath \<times> normalization_decision list" where
  "resolve_canonical_root fs input policy ds =
     (if \<not> path_exists fs (canonical_root policy) then
        case try_resolve_alias_target fs (alias_root policy) of
          Some t \<Rightarrow> Inr (t, ds @ [CanonicalRootResolved t])
        | None \<Rightarrow> Inl (normalization_error CanonicalRootMissing input ds)
      else
        case canonicalize fs (canonical_root policy) of
          Inl _ \<Rightarrow> Inl (normalization_error CanonicalRootResolveFailed input ds)
        | Inr r \<Rightarrow> Inr (r, ds @ [CanonicalRootResolved r]))"

text \<open>The mapped entry is \<open>canonical_root.join(relative_input)\<close>; it is not resolved again.\<close>

definition try_map_alias_directory_entry ::
  "file_system \<Rightarrow> path \<Rightarrow> path \<Rightarrow> cpath \<Rightarrow> normalization_decision list
     \<Rightarrow> path_normalization_error + cpath option \<times> normalization_decision list" where
  "try_map_alias_directory_entry fs input alias_rt canonical ds =
     (case strip_prefix_path input alias_rt of
        None \<Rightarrow> Inl (normalization_error AliasNotSymlink input ds)
      | Some relative \<Rightarrow>
          if ParentDir \<in> set relative then Inl (normalization_error OutsideCanonicalRoot input ds)
          else
            let canonical_input = canonical @ List.map_filter normal_name relative
            in if \<not> path_exists fs (abs_path canonical_input) then Inr (None, ds)
               else Inr (Some canonical_input, ds @ [AliasDirectoryEntryVerified alias_rt canonical_input]))"

definition verify_alias ::
  "file_system \<Rightarrow> path \<Rightarrow> path \<Rightarrow> cpath \<Rightarrow> normalization_decision list
     \<Rightarrow> path_normalization_error + cpath option \<times> normalization_decision list" where
  "verify_alias fs input alias_rt canonical ds =
     (case lstat fs alias_rt of
        Inl e \<Rightarrow> Inl (normalization_error (if e = NotFound then AliasMissing else AliasReadLinkFailed) input ds)
      | Inr n \<Rightarrow>
          case n of
            Symlink raw \<Rightarrow>
              (case canonicalize fs (absolute_target alias_rt raw) of
                 Inl _ \<Rightarrow> Inl (normalization_error AliasTargetResolveFailed input ds)
               | Inr resolved \<Rightarrow>
                   if resolved \<noteq> canonical then
                     if prefix canonical resolved
                     then Inr (None, ds @ [AliasSubtreeSymlinkVerified alias_rt resolved canonical])
                     else
                       (case try_map_alias_directory_entry fs input alias_rt canonical ds of
                          Inl err \<Rightarrow> Inl err
                        | Inr (Some c, ds') \<Rightarrow> Inr (Some c, ds')
                        | Inr (None, ds') \<Rightarrow> Inl (normalization_error AliasWrongTarget input ds'))
                   else Inr (None, ds @ [AliasSymlinkVerified alias_rt resolved]))
          | _ \<Rightarrow>
              (case try_map_alias_directory_entry fs input alias_rt canonical ds of
                 Inl err \<Rightarrow> Inl err
               | Inr (Some c, ds') \<Rightarrow> Inr (Some c, ds')
               | Inr (None, ds') \<Rightarrow> Inl (normalization_error AliasNotSymlink input ds')))"

definition normalize_within ::
  "path \<Rightarrow> cpath \<Rightarrow> bool \<Rightarrow> cpath \<Rightarrow> normalization_decision list
     \<Rightarrow> path_normalization_error + normalized_project_path" where
  "normalize_within p root used input ds =
     (let ds' = ds @ [CanonicalInputResolved input]
      in if \<not> prefix root input then Inl (normalization_error OutsideCanonicalRoot p ds')
         else Inr \<lparr>canonical_path = input, np_canonical_root = root, used_alias_prefix = used,
                   np_decisions = ds' @ [VerifiedWithinCanonicalRoot input root]\<rparr>)"

definition normalize_resolved ::
  "file_system \<Rightarrow> path \<Rightarrow> cpath \<Rightarrow> bool \<Rightarrow> cpath option \<Rightarrow> normalization_decision list
     \<Rightarrow> path_normalization_error + normalized_project_path" where
  "normalize_resolved fs p root used mapped ds =
     (case mapped of
        Some input \<Rightarrow> normalize_within p root used input ds
      | None \<Rightarrow>
          case canonicalize fs p of
            Inl _ \<Rightarrow> Inl (normalization_error InputResolveFailed p ds)
          | Inr input \<Rightarrow> normalize_within p root used input ds)"

definition normalize_project_path_with_policy ::
  "file_system \<Rightarrow> path \<Rightarrow> path_topology_policy \<Rightarrow> path_normalization_error + normalized_project_path" where
  "normalize_project_path_with_policy fs p policy =
     (let ds = [ReceivedInput p]
      in if \<not> is_absolute p then Inl (normalization_error NotAbsoluteInput p ds)
         else
           case resolve_canonical_root fs p policy (ds @ [VerifiedAbsoluteInput p]) of
             Inl e \<Rightarrow> Inl e
           | Inr (root, ds1) \<Rightarrow>
               if path_starts_with p (alias_root policy) then
                 case verify_alias fs p (alias_root policy) root (ds1 @ [AliasPrefixDetected (alias_root policy)]) of
                   Inl e \<Rightarrow> Inl e
                 | Inr (mapped, ds2) \<Rightarrow> normalize_resolved fs p root True mapped ds2
               else normalize_resolved fs p root False None ds1)"

definition normalize_project_path :: "file_system \<Rightarrow> path \<Rightarrow> path_normalization_error + normalized_project_path" where
  "normalize_project_path fs p = normalize_project_path_with_policy fs p default_policy"

section \<open>What a path walk returns\<close>

text \<open>A real directory has directories only on its way; a real path is one whose proper prefixes are
  real directories and which is itself a directory or a file, not a link.\<close>

definition real_dir :: "file_system \<Rightarrow> cpath \<Rightarrow> bool" where
  "real_dir fs p \<longleftrightarrow> (\<forall>i. 0 < i \<longrightarrow> i \<le> length p \<longrightarrow> nodes fs (take i p) = Some Directory)"

definition real :: "file_system \<Rightarrow> cpath \<Rightarrow> bool" where
  "real fs p \<longleftrightarrow> real_dir fs (butlast p) \<and> (p = [] \<or> nodes fs p \<in> {Some Directory, Some File})"

lemma real_dir_Nil [simp]: "real_dir fs []"
  by (simp add: real_dir_def)

lemma real_dir_snoc [simp]: "real_dir fs (p @ [c]) \<longleftrightarrow> real_dir fs p \<and> nodes fs (p @ [c]) = Some Directory"
  by (auto simp: real_dir_def le_Suc_eq)

lemma real_dir_butlast: "real_dir fs p \<Longrightarrow> real_dir fs (butlast p)"
  by (cases p rule: rev_cases) simp_all

lemma real_dir_real: "real_dir fs p \<Longrightarrow> real fs p"
  by (cases p rule: rev_cases) (simp_all add: real_def)

lemma real_snoc: "real fs (p @ [c]) \<longleftrightarrow> real_dir fs p \<and> nodes fs (p @ [c]) \<in> {Some Directory, Some File}"
  by (simp add: real_def)

lemma real_dir_append: "real_dir fs (p @ q) \<Longrightarrow> real_dir fs p"
  by (induction q rule: rev_induct) (simp_all flip: append_assoc)

lemma walk_real:
  "walk fs cur cs b = Inr (q, r) \<Longrightarrow> real_dir fs cur \<Longrightarrow> real fs q \<and> r \<le> b"
  by (induction fs cur cs b rule: walk.induct)
    (force simp: real_dir_real real_dir_butlast real_snoc split: option.splits node.splits if_splits)+

lemma walk_names:
  "real fs (cur @ p) \<Longrightarrow> walk fs cur (map Normal p) b = Inr (cur @ p, b)"
proof (induction p arbitrary: cur)
  case (Cons c p)
  show ?case
  proof (cases p)
    case Nil
    then show ?thesis using Cons.prems by (auto simp: real_snoc)
  next
    case (Cons d p')
    have "real_dir fs (butlast (cur @ c # p))"
      using Cons.prems by (simp add: real_def)
    then have "real_dir fs ((cur @ [c]) @ butlast p)"
      using Cons by (simp add: butlast_append)
    then have "nodes fs (cur @ [c]) = Some Directory"
      by (metis real_dir_append real_dir_snoc)
    then show ?thesis using Cons.IH [of "cur @ [c]"] Cons.prems by simp
  qed
qed simp

text \<open>Walking a concatenation is walking its parts; a larger budget does not change a lookup that
  succeeded.\<close>

lemma walk_append:
  "walk fs cur (xs @ ys) b = Inr (q, r) \<Longrightarrow>
     \<exists>m s. walk fs cur xs b = Inr (m, s) \<and> walk fs m ys s = Inr (q, r)"
proof (induction fs cur xs b rule: walk.induct)
  case (4 fs cur c cs b)
  show ?case
  proof (cases "nodes fs (cur @ [c])")
    case (Some n)
    then show ?thesis using 4 by (cases n) (auto split: if_splits)
  qed (use "4.prems" in simp)
qed auto

lemma walk_budget:
  "walk fs cur cs b = Inr (q, r) \<Longrightarrow> walk fs cur cs (b + k) = Inr (q, r + k)"
  by (induction fs cur cs b rule: walk.induct) (auto split: option.splits node.splits if_splits)

lemma walk_append_dir:
  assumes "walk fs cur xs b = Inr (m, s)" "real_dir fs m"
  shows "walk fs cur (xs @ ys) b = walk fs m ys s"
  using assms
proof (induction fs cur xs b rule: walk.induct)
  case (4 fs cur c cs b)
  then show ?case by (auto split: option.splits node.splits if_splits)
qed auto

definition wf_fs :: "file_system \<Rightarrow> bool" where
  "wf_fs fs \<longleftrightarrow> real_dir fs (cwd fs)"

lemma canonicalize_real:
  assumes "wf_fs fs" "canonicalize fs p = Inr q"
  shows "real fs q"
proof -
  obtain r where "walk fs (walk_from fs p) (components p) (link_limit fs) = Inr (q, r)"
    using assms(2) by (auto simp: canonicalize_def map_sum_def split: sum.splits)
  then show ?thesis
    using assms(1) walk_real by (auto simp: walk_from_def wf_fs_def split: if_splits)
qed

lemma canonicalize_abs: "real fs p \<Longrightarrow> canonicalize fs (abs_path p) = Inr p"
  using walk_names [of fs "[]" p] by (simp add: canonicalize_def walk_from_def abs_path_def)



text \<open>The canonical root found and the trace do not depend on the input, apart from its echo.\<close>

lemma resolve_canonical_root_input:
  "resolve_canonical_root fs p policy ds = Inr (root, ds') \<Longrightarrow>
     resolve_canonical_root fs p2 policy ds2 = Inr (root, ds2 @ [CanonicalRootResolved root])"
  by (auto simp: resolve_canonical_root_def split: result_splits)

lemma try_map_alias_directory_entry_Some:
  "try_map_alias_directory_entry fs p a root ds = Inr (Some c, ds') \<Longrightarrow>
     path_exists fs (abs_path c) \<and> AliasDirectoryEntryVerified a c \<in> set ds' \<and> prefix root c"
  by (auto simp: try_map_alias_directory_entry_def Let_def split: result_splits)

lemma try_map_alias_directory_entry_None:
  "try_map_alias_directory_entry fs p a root ds = Inr (None, ds') \<Longrightarrow> ds' = ds"
  by (auto simp: try_map_alias_directory_entry_def Let_def split: result_splits)

lemma verify_alias_Some:
  "verify_alias fs p a root ds = Inr (Some c, ds') \<Longrightarrow>
     path_exists fs (abs_path c) \<and> AliasDirectoryEntryVerified a c \<in> set ds'"
  by (auto simp: verify_alias_def split: result_splits node.splits prod.splits
      dest: try_map_alias_directory_entry_Some)

lemma normalize_within_Inr:
  "normalize_within p root used c ds = Inr n \<longleftrightarrow>
     prefix root c \<and> n = \<lparr>canonical_path = c, np_canonical_root = root, used_alias_prefix = used,
       np_decisions = ds @ [CanonicalInputResolved c, VerifiedWithinCanonicalRoot c root]\<rparr>"
  by (auto simp: normalize_within_def Let_def)

lemma normalize_resolved_Inr:
  assumes "normalize_resolved fs p root used mapped ds = Inr n"
  shows "prefix root (canonical_path n) \<and> np_canonical_root n = root \<and> used_alias_prefix n = used \<and>
    set ds \<subseteq> set (np_decisions n) \<and>
    (case mapped of Some c \<Rightarrow> canonical_path n = c | None \<Rightarrow> canonicalize fs p = Inr (canonical_path n))"
  using assms by (auto simp: normalize_resolved_def normalize_within_Inr split: result_splits)

text \<open>The run behind an accepted input.\<close>

lemma normalize_project_path_run:
  assumes "normalize_project_path_with_policy fs p policy = Inr n"
  obtains root ds used mapped ds2 where "is_absolute p"
    "resolve_canonical_root fs p policy [ReceivedInput p, VerifiedAbsoluteInput p] = Inr (root, ds)"
    "normalize_resolved fs p root used mapped ds2 = Inr n"
    "\<And>c. mapped = Some c \<Longrightarrow>
       path_exists fs (abs_path c) \<and> AliasDirectoryEntryVerified (alias_root policy) c \<in> set ds2"
proof -
  obtain root ds where root: "is_absolute p"
    "resolve_canonical_root fs p policy [ReceivedInput p, VerifiedAbsoluteInput p] = Inr (root, ds)"
    using assms by (auto simp: normalize_project_path_with_policy_def Let_def split: result_splits)
  show thesis
  proof (cases "path_starts_with p (alias_root policy)")
    case True
    then obtain mapped ds2
      where "verify_alias fs p (alias_root policy) root (ds @ [AliasPrefixDetected (alias_root policy)]) = Inr (mapped, ds2)"
        "normalize_resolved fs p root True mapped ds2 = Inr n"
      using assms root by (auto simp: normalize_project_path_with_policy_def split: result_splits)
    then show thesis using that root verify_alias_Some by metis
  next
    case False
    then have "normalize_resolved fs p root False None ds = Inr n"
      using assms root by (simp add: normalize_project_path_with_policy_def)
    then show thesis using that root by blast
  qed
qed

lemma normalized_path_resolved:
  assumes "normalize_project_path_with_policy fs p policy = Inr n"
    "AliasDirectoryEntryVerified (alias_root policy) (canonical_path n) \<notin> set (np_decisions n)"
  shows "canonicalize fs p = Inr (canonical_path n)"
  using assms(1)
proof (rule normalize_project_path_run)
  fix root ds used mapped ds2
  assume "normalize_resolved fs p root used mapped ds2 = Inr n"
    "\<And>c. mapped = Some c \<Longrightarrow>
       path_exists fs (abs_path c) \<and> AliasDirectoryEntryVerified (alias_root policy) c \<in> set ds2"
  then show ?thesis
    using normalize_resolved_Inr [of fs p root used mapped ds2 n] assms(2) by (cases mapped) auto
qed


text \<open>Normalizing a normalized path again changes nothing.\<close>

theorem normalization_idempotent:
  assumes "wf_fs fs" and ok: "normalize_project_path_with_policy fs p policy = Inr n"
    and entry: "AliasDirectoryEntryVerified (alias_root policy) (canonical_path n) \<notin> set (np_decisions n)"
    and direct: "\<not> path_starts_with (abs_path (canonical_path n)) (alias_root policy)"
  shows "\<exists>n'. normalize_project_path_with_policy fs (abs_path (canonical_path n)) policy = Inr n' \<and>
    canonical_path n' = canonical_path n \<and> np_canonical_root n' = np_canonical_root n"
  using ok
proof (rule normalize_project_path_run)
  fix root ds used mapped ds2
  assume root: "resolve_canonical_root fs p policy [ReceivedInput p, VerifiedAbsoluteInput p] = Inr (root, ds)"
    and res: "normalize_resolved fs p root used mapped ds2 = Inr n"
  let ?q = "abs_path (canonical_path n)"
  have "canonicalize fs ?q = Inr (canonical_path n)"
    using normalized_path_resolved [OF ok entry] canonicalize_real [OF assms(1)] canonicalize_abs by blast
  moreover have "is_absolute ?q" by (simp add: abs_path_def)
  ultimately show ?thesis
    using normalize_resolved_Inr [OF res] direct resolve_canonical_root_input [OF root]
    by (simp add: normalize_project_path_with_policy_def normalize_resolved_def normalize_within_Inr)
qed

section \<open>The alias root\<close>

lemma walk_skip_dots: "walk fs cur (dropWhile (\<lambda>c. c = CurDir) cs) b = walk fs cur cs b"
  by (induction cs) auto

lemma real_not_file: "real fs p \<Longrightarrow> p = [] \<or> nodes fs p \<noteq> Some File \<Longrightarrow> real_dir fs p"
  by (cases p rule: rev_cases) (auto simp: real_def)

lemma canonicalize_walk:
  "canonicalize fs p = Inr q \<longleftrightarrow> (\<exists>r. walk fs (walk_from fs p) (components p) (link_limit fs) = Inr (q, r))"
  by (auto simp: canonicalize_def map_sum_def split: sum.splits)

lemma walk_same:
  assumes "walk fs cur cs b = Inr (q, r)" "walk fs cur cs b' = Inr (q', r')"
  shows "q = q'"
  using walk_budget [OF assms(1), of b'] walk_budget [OF assms(2), of b] by (simp add: add.commute)

text \<open>Walking through a linked alias leads where the link's target does.\<close>

lemma walk_alias:
  assumes fs: "wf_fs fs" and a: "is_absolute a" and l: "lstat fs a = Inr (Symlink raw)"
    and t: "canonicalize fs (absolute_target a raw) = Inr root"
    and w: "walk fs [] (components a) (link_limit fs) = Inr (m, s)"
  shows "m = root"
proof -
  obtain c where c: "file_name a = Some c" using l by (auto simp: lstat_def split: result_splits)
  let ?pre = "butlast (components a)"
  obtain d t0 where comps: "components a = ?pre @ [Normal c]"
    and d: "walk fs [] ?pre (link_limit fs) = Inr (d, t0)" "d = [] \<or> nodes fs d \<noteq> Some File"
      "nodes fs (d @ [c]) = Some (Symlink raw)"
  proof -
    obtain d where "canonicalize fs (a\<lparr>components := ?pre\<rparr>) = Inr d" "d = [] \<or> nodes fs d \<noteq> Some File"
      "nodes fs (d @ [c]) = Some (Symlink raw)"
      using l c by (auto simp: lstat_def split: result_splits)
    moreover have "components a = ?pre @ [Normal c]"
      using c unfolding file_name_def
      by (cases "components a" rule: rev_cases; cases "last (components a)") (auto split: if_splits)
    ultimately show thesis using that a by (auto simp: canonicalize_walk walk_from_def)
  qed
  have dir: "real_dir fs d"
    using walk_real [OF d(1)] real_not_file d(2) by simp
  let ?start = "if is_absolute raw then [] else d"
  have "walk fs [] (components a) (link_limit fs) = walk fs d [Normal c] t0"
    using walk_append_dir [OF d(1) dir] comps by metis
  then have here: "walk fs ?start (components raw) (t0 - 1) = Inr (m, s)"
    using w d(3) by (simp split: if_splits)
  have "\<exists>b r. walk fs ?start (components raw) b = Inr (root, r)"
  proof (cases "is_absolute raw")
    case False
    have "parent a = Some (a\<lparr>components := ?pre\<rparr>)" using comps by (auto simp: parent_def)
    then have "\<exists>r. walk fs [] (?pre @ dropWhile (\<lambda>c. c = CurDir) (components raw)) (link_limit fs) = Inr (root, r)"
      using t a False by (simp add: absolute_target_def join_def canonicalize_walk walk_from_def)
    then show ?thesis
      using False walk_append_dir [OF d(1) dir] walk_skip_dots by fastforce
  qed (use t in \<open>auto simp: absolute_target_def canonicalize_walk walk_from_def\<close>)
  then show ?thesis using walk_same here by metis
qed

lemma canonicalize_alias:
  assumes fs: "wf_fs fs" and a: "is_absolute a" and l: "lstat fs a = Inr (Symlink raw)"
    and t: "canonicalize fs (absolute_target a raw) = Inr root" and root: "real_dir fs root"
    and q: "canonicalize fs (a\<lparr>components := components a @ rel\<rparr>) = Inr q"
  shows "canonicalize fs (abs_path root\<lparr>components := map Normal root @ rel\<rparr>) = Inr q"
proof -
  obtain r where "walk fs [] (components a @ rel) (link_limit fs) = Inr (q, r)"
    using q a by (auto simp: canonicalize_walk walk_from_def)
  then obtain m s where m: "walk fs [] (components a) (link_limit fs) = Inr (m, s)" "walk fs m rel s = Inr (q, r)"
    using walk_append by blast
  have "m = root" using walk_alias [OF fs a l t m(1)] .
  moreover have "s \<le> link_limit fs" using walk_real [OF m(1)] by simp
  ultimately have "\<exists>r. walk fs root rel (link_limit fs) = Inr (q, r)"
    using walk_budget [OF m(2), of "link_limit fs - s"] by auto
  moreover have "walk fs [] (map Normal root @ rel) (link_limit fs) = walk fs root rel (link_limit fs)"
    using walk_append_dir [OF walk_names [of fs "[]" root] ] root real_dir_real [OF root] by simp
  ultimately show ?thesis by (simp add: canonicalize_walk walk_from_def abs_path_def)
qed

text \<open>A project named below a linked alias root and below the canonical root has one identity.\<close>

theorem alias_same_identity:
  assumes fs: "wf_fs fs" and roots: "canonical_root policy = abs_path root" "real_dir fs root"
    and a: "is_absolute (alias_root policy)" "lstat fs (alias_root policy) = Inr (Symlink raw)"
      "canonicalize fs (absolute_target (alias_root policy) raw) = Inr root"
    and ok: "normalize_project_path_with_policy fs
      (alias_root policy\<lparr>components := components (alias_root policy) @ rel\<rparr>) policy = Inr n"
    and direct: "\<not> path_starts_with (abs_path root\<lparr>components := map Normal root @ rel\<rparr>) (alias_root policy)"
  shows "\<exists>n'. normalize_project_path_with_policy fs (abs_path root\<lparr>components := map Normal root @ rel\<rparr>) policy = Inr n' \<and>
    canonical_path n' = canonical_path n \<and> np_canonical_root n' = root \<and> np_canonical_root n = root \<and>
    used_alias_prefix n \<and> \<not> used_alias_prefix n'"
proof -
  let ?p = "alias_root policy\<lparr>components := components (alias_root policy) @ rel\<rparr>"
  have c: "canonicalize fs (abs_path root) = Inr root" using canonicalize_abs real_dir_real roots(2) by blast
  have r: "resolve_canonical_root fs x policy ds = Inr (root, ds @ [CanonicalRootResolved root])" for x ds
    using c roots(1) by (simp add: resolve_canonical_root_def path_exists_def)
  have v: "verify_alias fs x (alias_root policy) root ds = Inr (None, ds @ [AliasSymlinkVerified (alias_root policy) root])" for x ds
    using a by (simp add: verify_alias_def)
  have s: "path_starts_with ?p (alias_root policy)" by (simp add: path_starts_with_def)
  obtain ds where "normalize_resolved fs ?p root True None ds = Inr n"
    using ok a(1) r v s by (auto simp: normalize_project_path_with_policy_def)
  note N = normalize_resolved_Inr [OF this]
  then have "canonicalize fs (abs_path root\<lparr>components := map Normal root @ rel\<rparr>) = Inr (canonical_path n)"
    using canonicalize_alias [OF fs a roots(2)] by simp
  moreover have "is_absolute (abs_path root\<lparr>components := map Normal root @ rel\<rparr>)" by (simp add: abs_path_def)
  ultimately show ?thesis
    using N r direct
    by (simp add: normalize_project_path_with_policy_def normalize_resolved_def normalize_within_Inr)
qed

text \<open>A host whose alias root is a link to the canonical root.\<close>

definition sample_host :: file_system where
  "sample_host = \<lparr>nodes = map_of [([''data''], Directory), ([''data'', ''projects''], Directory),
     ([''data'', ''projects'', ''app''], Directory), ([''dp''], Symlink (path_from ''/data/projects''))],
     cwd = [], link_limit = 40\<rparr>"

text \<open>A host whose alias root is a directory and one of whose projects is a link to another place.\<close>

definition sample_linked_host :: file_system where
  "sample_linked_host = \<lparr>nodes = map_of [([''data''], Directory), ([''data'', ''projects''], Directory),
     ([''data'', ''projects'', ''app''], Symlink (path_from ''/srv/app'')), ([''dp''], Directory),
     ([''srv''], Directory), ([''srv'', ''app''], Directory)],
     cwd = [], link_limit = 40\<rparr>"

definition sample_normalized :: normalized_project_path where
  "sample_normalized = \<lparr>canonical_path = [''data'', ''projects'', ''app''],
     np_canonical_root = [''data'', ''projects''], used_alias_prefix = True,
     np_decisions = [ReceivedInput (path_from ''/dp/app''), VerifiedAbsoluteInput (path_from ''/dp/app''),
       CanonicalRootResolved [''data'', ''projects''], AliasPrefixDetected (path_from ''/dp''),
       AliasSymlinkVerified (path_from ''/dp'') [''data'', ''projects''],
       CanonicalInputResolved [''data'', ''projects'', ''app''],
       VerifiedWithinCanonicalRoot [''data'', ''projects'', ''app''] [''data'', ''projects'']]\<rparr>"

lemma sample_host_wf: "wf_fs sample_host"
  by (simp add: wf_fs_def sample_host_def)

lemma sample_host_normalized:
  "normalize_project_path_with_policy sample_host (path_from ''/dp/app'') default_policy = Inr sample_normalized"
  by code_simp

lemma sample_host_root: "real_dir sample_host [''data'', ''projects'']"
  using real_dir_snoc [of sample_host "[''data'']" "''projects''"] real_dir_snoc [of sample_host "[]" "''data''"]
  by (simp add: sample_host_def)


theorem normalization_idempotent_witness:
  "\<exists>n'. normalize_project_path_with_policy sample_host (abs_path [''data'', ''projects'', ''app'']) default_policy = Inr n' \<and>
     canonical_path n' = [''data'', ''projects'', ''app'']"
proof -
  have "AliasDirectoryEntryVerified (alias_root default_policy) (canonical_path sample_normalized)
    \<notin> set (np_decisions sample_normalized)"
    "\<not> path_starts_with (abs_path (canonical_path sample_normalized)) (alias_root default_policy)"
    by code_simp+
  from normalization_idempotent [OF sample_host_wf sample_host_normalized this]
  show ?thesis by (auto simp: sample_normalized_def)
qed

theorem alias_same_identity_witness:
  "\<exists>n'. normalize_project_path_with_policy sample_host (path_from ''/data/projects/app'') default_policy = Inr n' \<and>
     canonical_path n' = [''data'', ''projects'', ''app'']"
proof -
  have eqs: "canonical_root default_policy = abs_path [''data'', ''projects'']"
    "is_absolute (alias_root default_policy)"
    "lstat sample_host (alias_root default_policy) = Inr (Symlink (path_from ''/data/projects''))"
    "canonicalize sample_host (absolute_target (alias_root default_policy) (path_from ''/data/projects'')) = Inr [''data'', ''projects'']"
    "alias_root default_policy\<lparr>components := components (alias_root default_policy) @ [Normal ''app'']\<rparr> = path_from ''/dp/app''"
    "\<not> path_starts_with (abs_path [''data'', ''projects'']\<lparr>components := map Normal [''data'', ''projects''] @ [Normal ''app'']\<rparr>) (alias_root default_policy)"
    "abs_path [''data'', ''projects'']\<lparr>components := map Normal [''data'', ''projects''] @ [Normal ''app'']\<rparr> = path_from ''/data/projects/app''"
    by code_simp+
  have "normalize_project_path_with_policy sample_host
    (alias_root default_policy\<lparr>components := components (alias_root default_policy) @ [Normal ''app'']\<rparr>) default_policy = Inr sample_normalized"
    using sample_host_normalized eqs(5) by simp
  from alias_same_identity [OF sample_host_wf eqs(1) sample_host_root eqs(2-4) this eqs(6)]
  show ?thesis unfolding eqs(7) by (auto simp: sample_normalized_def)
qed

text \<open>Where the alias root is a directory, the mapped entry is checked by its name only: a project
  that is a link out of the canonical root is accepted under the alias spelling and refused under the
  canonical one.\<close>

theorem alias_directory_entry_escapes:
  "(\<exists>n. normalize_project_path sample_linked_host (path_from ''/dp/app'') = Inr n \<and>
      canonicalize sample_linked_host (abs_path (canonical_path n)) = Inr [''srv'', ''app''] \<and>
      \<not> prefix (np_canonical_root n) [''srv'', ''app'']) \<and>
   (\<exists>e. normalize_project_path sample_linked_host (path_from ''/data/projects/app'') = Inl e \<and>
      ne_kind e = OutsideCanonicalRoot)"
proof -
  have "case normalize_project_path sample_linked_host (path_from ''/dp/app'') of
     Inl _ \<Rightarrow> False
   | Inr n \<Rightarrow> canonicalize sample_linked_host (abs_path (canonical_path n)) = Inr [''srv'', ''app''] \<and>
       \<not> prefix (np_canonical_root n) [''srv'', ''app'']"
    by code_simp
  moreover have "case normalize_project_path sample_linked_host (path_from ''/data/projects/app'') of
     Inl e \<Rightarrow> ne_kind e = OutsideCanonicalRoot | Inr _ \<Rightarrow> False"
    by code_simp
  ultimately show ?thesis by (simp split: sum.splits)
qed

end
