(* ===== verification/Cargo_Graph.thy ===== *)
theory Cargo_Graph
  imports Path_Topology "HOL-Library.AList" "HOL-Library.Char_ord" "HOL-Library.List_Lexorder"
    "HOL-Library.Product_Lexorder"
begin

text \<open>
  The graph of local Cargo packages, \<open>rch-common/src/cargo_path_deps.rs\<close>: the graph under construction,
  the depth-first search that keeps what is reachable from the workspace roots and reports a cycle,
  and the cycle-tolerant closure. Packages are named by their canonical root directory. The free text
  of errors is left out.
\<close>

section \<open>Graphs and errors\<close>

record cargo_path_dependency_package =
  package_root :: cpath
  pkg_manifest_path :: cpath
  package_name :: string
  workspace_member :: bool

record cargo_path_dependency_edge =
  edge_from :: cpath
  edge_to :: cpath
  dependency_name :: string

record cargo_path_dependency_graph =
  entry_manifest_path :: cpath
  workspace_root :: "cpath option"
  root_packages :: "cpath list"
  packages :: "cargo_path_dependency_package list"
  edges :: "cargo_path_dependency_edge list"

text \<open>A materialization closure has the same fields as a graph.\<close>

type_synonym cargo_path_materialization_closure = cargo_path_dependency_graph

datatype cargo_path_dependency_error_kind =
    ManifestParseFailure
  | MissingPathDependency
  | CyclicDependency
  | PathPolicyViolation
  | MetadataParseFailure
  | MetadataInvocationFailure

record cargo_path_dependency_error =
  err_kind :: cargo_path_dependency_error_kind
  err_manifest_path :: "path option"
  err_dependency_name :: "string option"
  err_dependency_path :: "path option"
  err_cycle :: "cpath list"

definition dep_error :: "cargo_path_dependency_error_kind \<Rightarrow> cargo_path_dependency_error" where
  "dep_error k = \<lparr>err_kind = k, err_manifest_path = None, err_dependency_name = None,
     err_dependency_path = None, err_cycle = []\<rparr>"

definition with_manifest_path :: "path \<Rightarrow> cargo_path_dependency_error \<Rightarrow> cargo_path_dependency_error" where
  "with_manifest_path p e = e\<lparr>err_manifest_path := Some p\<rparr>"

definition with_dependency_name :: "string \<Rightarrow> cargo_path_dependency_error \<Rightarrow> cargo_path_dependency_error" where
  "with_dependency_name n e = e\<lparr>err_dependency_name := Some n\<rparr>"

definition with_dependency_path :: "path \<Rightarrow> cargo_path_dependency_error \<Rightarrow> cargo_path_dependency_error" where
  "with_dependency_path p e = e\<lparr>err_dependency_path := Some p\<rparr>"

definition with_cycle :: "cpath list \<Rightarrow> cargo_path_dependency_error \<Rightarrow> cargo_path_dependency_error" where
  "with_cycle c e = e\<lparr>err_cycle := c\<rparr>"

section \<open>The partial graph\<close>

text \<open>A \<open>BTreeSet\<close> is a sorted list without repetitions and grows by \<open>insort_insert\<close>; a \<open>BTreeMap\<close> is
  an association list, iterated in the order of its keys. The derived order of \<open>EdgeTail\<close> and
  \<open>EdgeRecord\<close> is the lexicographic one of their fields.\<close>

type_synonym edge_tail = "cpath \<times> string"
type_synonym edge_record = "cpath \<times> cpath \<times> string"
type_synonym adjacency = "(cpath \<times> edge_tail list) list"

record package_record =
  rec_manifest_path :: cpath
  rec_package_name :: string
  rec_workspace_member :: bool

record partial_graph =
  pg_workspace_root :: "cpath option"
  pg_roots :: "cpath list"
  pg_packages :: "(cpath \<times> package_record) list"
  pg_adjacency :: adjacency

definition partial_graph_default :: partial_graph where
  "partial_graph_default = \<lparr>pg_workspace_root = None, pg_roots = [], pg_packages = [], pg_adjacency = []\<rparr>"

definition btree_iter :: "('k :: linorder \<times> 'v) list \<Rightarrow> ('k \<times> 'v) list" where
  "btree_iter m = map (\<lambda>k. (k, the (map_of m k))) (sort (remdups (map fst m)))"

definition cargo_toml :: "cpath \<Rightarrow> cpath" where
  "cargo_toml root = root @ [''Cargo.toml'']"

definition display :: "cpath \<Rightarrow> string" where
  "display p = (if p = [] then ''/'' else concat (map (\<lambda>s. CHR ''/'' # s) p))"

definition default_package_name :: "cpath \<Rightarrow> string" where
  "default_package_name root = (if root = [] then display root else last root)"

definition add_root :: "cpath \<Rightarrow> partial_graph \<Rightarrow> partial_graph" where
  "add_root r g = g\<lparr>pg_roots := insort_insert r (pg_roots g)\<rparr>"

definition adjacency_entry :: "cpath \<Rightarrow> adjacency \<Rightarrow> adjacency" where
  "adjacency_entry r adj = (case map_of adj r of None \<Rightarrow> AList.update r [] adj | Some _ \<Rightarrow> adj)"

definition add_package :: "cpath \<Rightarrow> cpath \<Rightarrow> string \<Rightarrow> bool \<Rightarrow> partial_graph \<Rightarrow> partial_graph" where
  "add_package root manifest name member g =
     (let entry = (case map_of (pg_packages g) root of
            None \<Rightarrow> \<lparr>rec_manifest_path = manifest, rec_package_name = name, rec_workspace_member = member\<rparr>
          | Some existing \<Rightarrow>
              \<lparr>rec_manifest_path = manifest,
               rec_package_name = (if rec_package_name existing = default_package_name root
                                      \<and> name \<noteq> rec_package_name existing
                                   then name else rec_package_name existing),
               rec_workspace_member = (rec_workspace_member existing \<or> member)\<rparr>)
      in g\<lparr>pg_packages := AList.update root entry (pg_packages g),
           pg_adjacency := adjacency_entry root (pg_adjacency g)\<rparr>)"

definition tails :: "adjacency \<Rightarrow> cpath \<Rightarrow> edge_tail list" where
  "tails adj node = (case map_of adj node of None \<Rightarrow> [] | Some ts \<Rightarrow> ts)"

definition add_edge :: "cpath \<Rightarrow> cpath \<Rightarrow> string \<Rightarrow> partial_graph \<Rightarrow> partial_graph" where
  "add_edge from to name g =
     g\<lparr>pg_adjacency := AList.update from (insort_insert (to, name) (tails (pg_adjacency g) from)) (pg_adjacency g)\<rparr>"

section \<open>Reachability with cycle detection\<close>

datatype visit_state = Visiting | Visited

record traversal =
  visit_states :: "(cpath \<times> visit_state) list"
  stack :: "cpath list"
  reachable_nodes :: "cpath list"
  reachable_edges :: "edge_record list"

definition cycle_from_stack :: "cpath list \<Rightarrow> cpath \<Rightarrow> cpath list" where
  "cycle_from_stack st terminal =
     (if terminal \<in> set st then dropWhile (\<lambda>x. x \<noteq> terminal) st @ [terminal] else [terminal])"

definition cycle_error :: "traversal \<Rightarrow> cpath \<Rightarrow> cargo_path_dependency_error" where
  "cycle_error t node = with_cycle (cycle_from_stack (stack t) node) (dep_error CyclicDependency)"

definition enter :: "cpath \<Rightarrow> traversal \<Rightarrow> traversal" where
  "enter node t = t\<lparr>visit_states := AList.update node Visiting (visit_states t), stack := stack t @ [node],
     reachable_nodes := insort_insert node (reachable_nodes t)\<rparr>"

definition leave :: "cpath \<Rightarrow> traversal \<Rightarrow> traversal" where
  "leave node t = t\<lparr>visit_states := AList.update node Visited (visit_states t), stack := butlast (stack t)\<rparr>"

text \<open>The recursion of the source, with a bound on its depth; \<open>None\<close> means that the bound was too
  small, which \<open>traversal_total\<close> excludes for the bound \<open>finalize_graph\<close> uses.\<close>

fun traverse_for_reachable ::
  "nat \<Rightarrow> adjacency \<Rightarrow> cpath \<Rightarrow> traversal \<Rightarrow> (cargo_path_dependency_error + traversal) option"
and traverse_edges ::
  "nat \<Rightarrow> adjacency \<Rightarrow> cpath \<Rightarrow> edge_tail list \<Rightarrow> traversal \<Rightarrow> (cargo_path_dependency_error + traversal) option"
where
  "traverse_for_reachable 0 adj node t = None"
| "traverse_for_reachable (Suc n) adj node t =
     (case map_of (visit_states t) node of
        Some Visited \<Rightarrow> Some (Inr t)
      | Some Visiting \<Rightarrow> Some (Inl (cycle_error t node))
      | None \<Rightarrow>
          case traverse_edges n adj node (tails adj node) (enter node t) of
            None \<Rightarrow> None
          | Some (Inl e) \<Rightarrow> Some (Inl e)
          | Some (Inr t') \<Rightarrow> Some (Inr (leave node t')))"
| "traverse_edges n adj node [] t = Some (Inr t)"
| "traverse_edges n adj node (e # es) t =
     (let t1 = t\<lparr>reachable_edges := insort_insert (node, fst e, snd e) (reachable_edges t)\<rparr>
      in if map_of (visit_states t1) (fst e) = Some Visiting then Some (Inl (cycle_error t1 (fst e)))
         else
           case traverse_for_reachable n adj (fst e) t1 of
             None \<Rightarrow> None
           | Some (Inl err) \<Rightarrow> Some (Inl err)
           | Some (Inr t2) \<Rightarrow> traverse_edges n adj node es t2)"

fun traverse_roots ::
  "nat \<Rightarrow> adjacency \<Rightarrow> cpath list \<Rightarrow> traversal \<Rightarrow> (cargo_path_dependency_error + traversal) option" where
  "traverse_roots n adj [] t = Some (Inr t)"
| "traverse_roots n adj (r # rs) t =
     (case traverse_for_reachable n adj r t of
        None \<Rightarrow> None
      | Some (Inl e) \<Rightarrow> Some (Inl e)
      | Some (Inr t') \<Rightarrow> traverse_roots n adj rs t')"

definition graph_nodes :: "partial_graph \<Rightarrow> cpath list" where
  "graph_nodes g = pg_roots g @ map fst (pg_adjacency g) @ concat (map (map fst \<circ> snd) (pg_adjacency g))"

definition traversal_start :: traversal where
  "traversal_start = \<lparr>visit_states = [], stack = [], reachable_nodes = [], reachable_edges = []\<rparr>"

definition package_of :: "partial_graph \<Rightarrow> cpath \<Rightarrow> cargo_path_dependency_package" where
  "package_of g root =
     (case map_of (pg_packages g) root of
        Some p \<Rightarrow> \<lparr>package_root = root, pkg_manifest_path = rec_manifest_path p,
                   package_name = rec_package_name p, workspace_member = rec_workspace_member p\<rparr>
      | None \<Rightarrow> \<lparr>package_root = root, pkg_manifest_path = cargo_toml root,
                   package_name = default_package_name root, workspace_member = root \<in> set (pg_roots g)\<rparr>)"

definition edge_of :: "edge_record \<Rightarrow> cargo_path_dependency_edge" where
  "edge_of r = \<lparr>edge_from = fst r, edge_to = fst (snd r), dependency_name = snd (snd r)\<rparr>"

definition finalize_graph ::
  "cpath \<Rightarrow> partial_graph \<Rightarrow> (cargo_path_dependency_error + cargo_path_dependency_graph) option" where
  "finalize_graph entry g =
     (case traverse_roots (Suc (length (graph_nodes g))) (pg_adjacency g) (pg_roots g) traversal_start of
        None \<Rightarrow> None
      | Some (Inl e) \<Rightarrow> Some (Inl e)
      | Some (Inr t) \<Rightarrow>
          Some (Inr \<lparr>entry_manifest_path = entry, workspace_root = pg_workspace_root g,
            root_packages = pg_roots g, packages = map (package_of g) (reachable_nodes t),
            edges = map edge_of (reachable_edges t)\<rparr>))"

definition finalize_materialization_closure :: "cpath \<Rightarrow> partial_graph \<Rightarrow> cargo_path_materialization_closure" where
  "finalize_materialization_closure entry g =
     \<lparr>entry_manifest_path = entry, workspace_root = pg_workspace_root g, root_packages = pg_roots g,
      packages = map (\<lambda>(root, p). \<lparr>package_root = root, pkg_manifest_path = rec_manifest_path p,
        package_name = rec_package_name p, workspace_member = rec_workspace_member p\<rparr>) (btree_iter (pg_packages g)),
      edges = concat (map (\<lambda>(from, ts). map (\<lambda>t. edge_of (from, fst t, snd t)) ts) (btree_iter (pg_adjacency g)))\<rparr>"

section \<open>What the traversal computes\<close>

definition edge_rel :: "adjacency \<Rightarrow> (cpath \<times> cpath) set" where
  "edge_rel adj = {(a, b). \<exists>n. (b, n) \<in> set (tails adj a)}"

definition visited :: "traversal \<Rightarrow> cpath set" where
  "visited t = {v. map_of (visit_states t) v = Some Visited}"

definition visiting :: "traversal \<Rightarrow> cpath set" where
  "visiting t = {v. map_of (visit_states t) v = Some Visiting}"

text \<open>The invariant of the depth-first search over the nodes reachable from \<open>R\<close>: the stack is a path of
  the graph and holds the nodes in progress; the finished nodes are closed under edges and on no
  cycle; what was collected is what was seen.\<close>

definition stack_inv :: "adjacency \<Rightarrow> traversal \<Rightarrow> bool" where
  "stack_inv adj t \<longleftrightarrow>
     distinct (stack t) \<and> set (stack t) = visiting t \<and>
     successively (\<lambda>a b. (a, b) \<in> edge_rel adj) (stack t)"

definition finished_inv :: "adjacency \<Rightarrow> traversal \<Rightarrow> bool" where
  "finished_inv adj t \<longleftrightarrow>
     edge_rel adj `` visited t \<subseteq> visited t \<and> (\<forall>v \<in> visited t. (v, v) \<notin> (edge_rel adj)\<^sup>+)"

definition nodes_inv :: "adjacency \<Rightarrow> cpath set \<Rightarrow> traversal \<Rightarrow> bool" where
  "nodes_inv adj R t \<longleftrightarrow>
     sorted (reachable_nodes t) \<and> distinct (reachable_nodes t) \<and>
     set (reachable_nodes t) = visited t \<union> visiting t \<and> visited t \<union> visiting t \<subseteq> (edge_rel adj)\<^sup>* `` R"

definition edges_inv :: "adjacency \<Rightarrow> traversal \<Rightarrow> bool" where
  "edges_inv adj t \<longleftrightarrow>
     sorted (reachable_edges t) \<and> distinct (reachable_edges t) \<and>
     (\<forall>v \<in> visited t. \<forall>e \<in> set (tails adj v). (v, e) \<in> set (reachable_edges t)) \<and>
     (\<forall>(v, e) \<in> set (reachable_edges t). v \<in> visited t \<union> visiting t \<and> e \<in> set (tails adj v))"

definition trav_inv :: "adjacency \<Rightarrow> cpath set \<Rightarrow> traversal \<Rightarrow> bool" where
  "trav_inv adj R t \<longleftrightarrow> stack_inv adj t \<and> finished_inv adj t \<and> nodes_inv adj R t \<and> edges_inv adj t"

lemmas trav_inv_defs = trav_inv_def stack_inv_def finished_inv_def nodes_inv_def edges_inv_def

text \<open>A reported cycle is a closed walk of the graph that starts at a reachable node.\<close>

definition cycle_of :: "adjacency \<Rightarrow> cpath set \<Rightarrow> cpath list \<Rightarrow> bool" where
  "cycle_of adj R c \<longleftrightarrow>
     2 \<le> length c \<and> hd c = last c \<and> successively (\<lambda>a b. (a, b) \<in> edge_rel adj) c \<and>
     set c \<subseteq> (edge_rel adj)\<^sup>* `` R"

lemma set_insort_insert_eq [simp]: "set (insort_insert x xs) = insert x (set xs)"
  by (simp add: set_insort_insert)

lemma distinct_insort_insert_eq [simp]: "distinct (insort_insert x xs) = distinct (xs :: 'a :: linorder list)"
  by (simp add: insort_insert_key_def distinct_insort)

lemma sorted_insort_insert_eq [simp]: "sorted xs \<Longrightarrow> sorted (insort_insert x xs)"
  by (simp add: insort_insert_key_def sorted_insort)

lemma visited_simps [simp]:
  "visited (t\<lparr>reachable_edges := es\<rparr>) = visited t" "visiting (t\<lparr>reachable_edges := es\<rparr>) = visiting t"
  "visited (leave node t) = insert node (visited t)" "visiting (leave node t) = visiting t - {node}"
  "visiting (enter node t) = insert node (visiting t)" "visited (enter node t) = visited t - {node}"
  "visited traversal_start = {}" "visiting traversal_start = {}"
  by (auto simp: visited_def visiting_def leave_def enter_def update_conv traversal_start_def split: if_splits)

lemma trav_inv_start: "trav_inv adj R traversal_start"
  unfolding trav_inv_defs by (simp, simp add: traversal_start_def)

lemma visited_not_visiting: "visited t \<inter> visiting t = {}"
  by (auto simp: visited_def visiting_def)

lemma unseen: "map_of (visit_states t) v = None \<longleftrightarrow> v \<notin> visited t \<union> visiting t"
  by (cases "map_of (visit_states t) v") (auto simp: visited_def visiting_def intro: visit_state.exhaust)

lemma trav_inv_edge:
  assumes "trav_inv adj R t" "node \<in> visiting t" "e \<in> set (tails adj node)"
  shows "trav_inv adj R (t\<lparr>reachable_edges := insort_insert (node, e) (reachable_edges t)\<rparr>)"
  using assms by (auto simp: trav_inv_defs)

lemma enter_fields [simp]:
  "stack (enter node t) = stack t @ [node]" "reachable_edges (enter node t) = reachable_edges t"
  "reachable_nodes (enter node t) = insort_insert node (reachable_nodes t)"
  by (simp_all add: enter_def)

lemma leave_fields [simp]:
  "stack (leave node t) = butlast (stack t)" "reachable_edges (leave node t) = reachable_edges t"
  "reachable_nodes (leave node t) = reachable_nodes t"
  by (simp_all add: leave_def)

lemma trav_inv_enter:
  assumes inv: "trav_inv adj R t" and new: "node \<notin> visited t \<union> visiting t"
    and reach: "node \<in> (edge_rel adj)\<^sup>* `` R"
    and top: "stack t = [] \<or> (last (stack t), node) \<in> edge_rel adj"
  shows "trav_inv adj R (enter node t)"
proof -
  have [simp]: "visited t - {node} = visited t" using new by simp
  have "stack_inv adj (enter node t)"
    using inv new top by (auto simp: trav_inv_def stack_inv_def successively_append_iff)
  moreover have "finished_inv adj (enter node t)" using inv by (simp add: trav_inv_def finished_inv_def)
  moreover have "nodes_inv adj R (enter node t)" using inv reach by (auto simp: trav_inv_def nodes_inv_def)
  moreover have "edges_inv adj (enter node t)" using inv by (auto simp: trav_inv_def edges_inv_def)
  ultimately show ?thesis by (simp add: trav_inv_def)
qed

text \<open>Finishing a node whose successors are finished: a cycle through it would stay among the
  finished nodes.\<close>

lemma finished_inv_leave:
  assumes inv: "finished_inv adj t" and node: "node \<notin> visited t"
    and out: "edge_rel adj `` {node} \<subseteq> visited t"
  shows "finished_inv adj (leave node t)"
proof -
  have reach: "b \<in> visited t" if "(a, b) \<in> (edge_rel adj)\<^sup>*" "a \<in> visited t" for a b
    using that by (induction rule: rtrancl_induct) (use inv in \<open>auto simp: finished_inv_def\<close>)
  have "(node, node) \<notin> (edge_rel adj)\<^sup>+"
    using node out reach by (meson Image_singleton_iff subsetD tranclD)
  then show ?thesis using inv out by (auto simp: finished_inv_def)
qed

lemma trav_inv_leave:
  assumes inv: "trav_inv adj R t" and top: "stack t = st @ [node]"
    and succ: "\<forall>e \<in> set (tails adj node). fst e \<in> visited t \<and> (node, e) \<in> set (reachable_edges t)"
  shows "trav_inv adj R (leave node t)"
proof -
  have node: "node \<in> visiting t" "node \<notin> visited t" "node \<notin> set st"
    using inv top visited_not_visiting [of t] by (auto simp: trav_inv_def stack_inv_def)
  have out: "edge_rel adj `` {node} \<subseteq> visited t" using succ by (force simp: edge_rel_def)
  have "stack_inv adj (leave node t)"
    using inv top node(3) by (auto simp: trav_inv_def stack_inv_def successively_append_iff)
  moreover have "finished_inv adj (leave node t)"
    using finished_inv_leave inv node(2) out by (simp add: trav_inv_def)
  moreover have "nodes_inv adj R (leave node t)" using inv node(1) by (auto simp: trav_inv_def nodes_inv_def)
  moreover have "edges_inv adj (leave node t)"
    using inv succ by (auto simp: trav_inv_def edges_inv_def)
  ultimately show ?thesis by (simp add: trav_inv_def)
qed

lemma cycle_error_cycle:
  assumes inv: "trav_inv adj R t" and node: "node \<in> visiting t"
    and last: "(last (stack t), node) \<in> edge_rel adj"
  shows "err_kind (cycle_error t node) = CyclicDependency \<and> cycle_of adj R (err_cycle (cycle_error t node))"
proof -
  let ?d = "dropWhile (\<lambda>x. x \<noteq> node) (stack t)"
  have mem: "node \<in> set (stack t)" using inv node by (simp add: trav_inv_defs)
  then have ne: "?d \<noteq> []" by (auto simp: dropWhile_eq_Nil_conv)
  obtain pre where pre: "stack t = pre @ ?d" by (metis takeWhile_dropWhile_id)
  have d: "?d \<noteq> []" "hd ?d = node" "last ?d = last (stack t)"
    using ne hd_dropWhile [OF ne] last_appendR [OF ne, of pre] pre by simp_all
  have "successively (\<lambda>a b. (a, b) \<in> edge_rel adj) (pre @ ?d)"
    unfolding pre [symmetric] using inv by (simp add: trav_inv_defs)
  then have "successively (\<lambda>a b. (a, b) \<in> edge_rel adj) ?d" by (simp add: successively_append_iff)
  then have "successively (\<lambda>a b. (a, b) \<in> edge_rel adj) (?d @ [node])"
    using d last by (simp add: successively_append_iff)
  moreover have "set (stack t) \<subseteq> (edge_rel adj)\<^sup>* `` R" using inv by (simp add: trav_inv_defs)
  then have "set ?d \<subseteq> (edge_rel adj)\<^sup>* `` R" "node \<in> (edge_rel adj)\<^sup>* `` R"
    using mem set_dropWhileD by (metis subset_iff)+
  moreover have "2 \<le> length (?d @ [node])" using d(1) by (cases ?d) auto
  ultimately show ?thesis
    using d mem by (simp add: cycle_of_def cycle_error_def cycle_from_stack_def with_cycle_def dep_error_def)
qed

definition grown :: "traversal \<Rightarrow> traversal \<Rightarrow> bool" where
  "grown t t' \<longleftrightarrow> stack t' = stack t \<and> visited t \<subseteq> visited t' \<and> set (reachable_edges t) \<subseteq> set (reachable_edges t')"

lemma grown_refl [simp]: "grown t t"
  by (simp add: grown_def)

lemma grown_trans: "grown t t' \<Longrightarrow> grown t' t'' \<Longrightarrow> grown t t''"
  by (auto simp: grown_def)

text \<open>What one call leaves: a cycle of the graph, or a state that meets the invariant and in which the
  nodes asked for are finished.\<close>

fun call_ok ::
  "adjacency \<Rightarrow> cpath set \<Rightarrow> traversal \<Rightarrow> (traversal \<Rightarrow> bool) \<Rightarrow> (cargo_path_dependency_error + traversal) option \<Rightarrow> bool" where
  "call_ok adj R t P None = True"
| "call_ok adj R t P (Some (Inl e)) = (err_kind e = CyclicDependency \<and> cycle_of adj R (err_cycle e))"
| "call_ok adj R t P (Some (Inr t')) = (trav_inv adj R t' \<and> grown t t' \<and> P t')"

lemma call_ok_iff:
  "call_ok adj R t P r \<longleftrightarrow>
     (\<forall>e. r = Some (Inl e) \<longrightarrow> err_kind e = CyclicDependency \<and> cycle_of adj R (err_cycle e)) \<and>
     (\<forall>t'. r = Some (Inr t') \<longrightarrow> trav_inv adj R t' \<and> grown t t' \<and> P t')"
  by (cases r; cases "the r") auto

lemma edge_reachable:
  assumes "trav_inv adj R t" "node \<in> visiting t" "e \<in> set (tails adj node)"
  shows "fst e \<in> (edge_rel adj)\<^sup>* `` R" "(node, fst e) \<in> edge_rel adj"
proof -
  show edge: "(node, fst e) \<in> edge_rel adj"
    unfolding edge_rel_def by (simp, metis assms(3) prod.collapse)
  obtain r where "r \<in> R" "(r, node) \<in> (edge_rel adj)\<^sup>*"
    using assms(1,2) by (auto simp: trav_inv_def nodes_inv_def)
  then show "fst e \<in> (edge_rel adj)\<^sup>* `` R" using edge by (auto intro: rtrancl_into_rtrancl)
qed

lemma stack_top_visiting: "trav_inv adj R t \<Longrightarrow> stack t \<noteq> [] \<Longrightarrow> last (stack t) \<in> visiting t"
  by (metis last_in_set stack_inv_def trav_inv_def)

abbreviation edges_done :: "cpath \<Rightarrow> edge_tail list \<Rightarrow> traversal \<Rightarrow> bool" where
  "edges_done node es t \<equiv> \<forall>e \<in> set es. fst e \<in> visited t \<and> (node, e) \<in> set (reachable_edges t)"

lemma call_ok_leave:
  assumes new: "node \<notin> visited t \<union> visiting t"
    and ok: "call_ok adj R (enter node t) (edges_done node (tails adj node)) r"
  shows "call_ok adj R t (\<lambda>t'. node \<in> visited t')
    (case r of None \<Rightarrow> None | Some (Inl e) \<Rightarrow> Some (Inl e) | Some (Inr t') \<Rightarrow> Some (Inr (leave node t')))"
proof -
  have "trav_inv adj R (leave node t') \<and> grown t (leave node t')" if "r = Some (Inr t')" for t'
  proof -
    have t': "trav_inv adj R t'" "grown (enter node t) t'" "edges_done node (tails adj node) t'"
      using ok that by auto
    then have top: "stack t' = stack t @ [node]" by (simp add: grown_def)
    then have "trav_inv adj R (leave node t')" using trav_inv_leave t' by blast
    moreover have "grown t (leave node t')" using t'(2) top new by (auto simp: grown_def)
    ultimately show ?thesis by simp
  qed
  then show ?thesis using ok by (auto split: option.splits sum.splits)
qed

lemma call_ok_next:
  assumes "grown t t1" "(node, e) \<in> set (reachable_edges t1)" "grown t1 t2" "fst e \<in> visited t2"
    and "call_ok adj R t2 (edges_done node es) r"
  shows "call_ok adj R t (edges_done node (e # es)) r"
proof (cases r)
  case (Some y)
  then show ?thesis using assms by (cases y) (auto simp: grown_def)
qed simp

lemma traverse_correct:
  "trav_inv adj R t \<Longrightarrow> node \<in> (edge_rel adj)\<^sup>* `` R \<Longrightarrow>
     stack t = [] \<or> (last (stack t), node) \<in> edge_rel adj \<Longrightarrow>
     call_ok adj R t (\<lambda>t'. node \<in> visited t') (traverse_for_reachable n adj node t)"
  "trav_inv adj R t \<Longrightarrow> stack t \<noteq> [] \<Longrightarrow> last (stack t) = node \<Longrightarrow> set es \<subseteq> set (tails adj node) \<Longrightarrow>
     call_ok adj R t (edges_done node es) (traverse_edges n adj node es t)"
proof (induction n adj node t and n adj node es t rule: traverse_for_reachable_traverse_edges.induct)
  case (2 n adj node t)
  consider "map_of (visit_states t) node = None" | "node \<in> visiting t" | "node \<in> visited t"
    unfolding unseen by blast
  then show ?case
  proof cases
    case 1
    then have new: "node \<notin> visited t \<union> visiting t" by (simp add: unseen)
    have "trav_inv adj R (enter node t)" using trav_inv_enter "2.prems" new by blast
    then show ?thesis using "2.IH" [OF 1] call_ok_leave [OF new] 1 by simp
  next
    case 2
    then have "stack t \<noteq> []" using "2.prems"(1) by (auto simp: trav_inv_def stack_inv_def)
    then show ?thesis using cycle_error_cycle [OF "2.prems"(1) 2] "2.prems"(3) 2 by (simp add: visiting_def)
  next
    case 3
    then show ?thesis using "2.prems"(1) by (simp add: visited_def)
  qed
next
  case (4 n adj node e es t)
  let ?t1 = "t\<lparr>reachable_edges := insort_insert (node, fst e, snd e) (reachable_edges t)\<rparr>"
  have v: "node \<in> visiting t" using stack_top_visiting "4.prems" by blast
  have inv: "trav_inv adj R ?t1" using trav_inv_edge [OF "4.prems"(1) v, of e] "4.prems"(4) by simp
  have g1: "grown t ?t1" "(node, e) \<in> set (reachable_edges ?t1)" by (auto simp: grown_def)
  have e: "fst e \<in> (edge_rel adj)\<^sup>* `` R" "(node, fst e) \<in> edge_rel adj"
    using edge_reachable [OF "4.prems"(1) v] "4.prems"(4) by simp_all
  have top: "last (stack ?t1) = node" "stack ?t1 \<noteq> []" using "4.prems" by simp_all
  show ?case
  proof (cases "map_of (visit_states ?t1) (fst e) = Some Visiting")
    case True
    then have "fst e \<in> visiting ?t1" by (simp add: visiting_def)
    then show ?thesis using True cycle_error_cycle [OF inv] e(2) top by (simp add: Let_def)
  next
    case False
    let ?r = "traverse_for_reachable n adj (fst e) ?t1"
    have ok: "call_ok adj R ?t1 (\<lambda>t'. fst e \<in> visited t') ?r"
      using "4.IH"(1) [OF refl False inv e(1)] e(2) top by simp
    have "call_ok adj R t (edges_done node (e # es)) (traverse_edges n adj node es t2)" if t2: "?r = Some (Inr t2)" for t2
    proof -
      have t2': "trav_inv adj R t2" "grown ?t1 t2" "fst e \<in> visited t2" using ok t2 by auto
      then have "stack t2 \<noteq> []" "last (stack t2) = node" using top by (simp_all add: grown_def)
      then show ?thesis
        using "4.IH"(2) [OF refl False t2 refl t2'(1)] "4.prems"(4) call_ok_next [OF g1 t2'(2,3)] by simp
    qed
    then show ?thesis using False ok by (auto simp: Let_def split: option.splits sum.splits)
  qed
qed simp_all

text \<open>The depth bound: the stack holds distinct nodes of a finite set, so it cannot outgrow it.\<close>

lemma traverse_enough:
  assumes fin: "finite N" and edges: "edge_rel adj `` N \<subseteq> N"
  shows "trav_inv adj R t \<Longrightarrow> node \<in> (edge_rel adj)\<^sup>* `` R \<Longrightarrow>
     stack t = [] \<or> (last (stack t), node) \<in> edge_rel adj \<Longrightarrow>
     node \<in> N \<Longrightarrow> set (stack t) \<subseteq> N \<Longrightarrow> card N < n + length (stack t) \<Longrightarrow>
     traverse_for_reachable n adj node t \<noteq> None"
  and "trav_inv adj R t \<Longrightarrow> stack t \<noteq> [] \<Longrightarrow> last (stack t) = node \<Longrightarrow> set es \<subseteq> set (tails adj node) \<Longrightarrow>
     set (stack t) \<subseteq> N \<Longrightarrow> card N < n + length (stack t) \<Longrightarrow> traverse_edges n adj node es t \<noteq> None"
  using edges
proof (induction n adj node t and n adj node es t rule: traverse_for_reachable_traverse_edges.induct)
  case (1 adj node t)
  have "length (stack t) \<le> card N"
    using "1.prems"(1,5) fin by (metis card_mono distinct_card stack_inv_def trav_inv_def)
  then show ?case using "1.prems"(6) by simp
next
  case (2 n adj node t)
  show ?case
  proof (cases "map_of (visit_states t) node")
    case None
    then have "trav_inv adj R (enter node t)" using trav_inv_enter "2.prems"(1-3) by (simp add: unseen)
    then show ?thesis using "2.IH" [OF None] "2.prems"(4-7) None by (auto split: option.splits sum.splits)
  qed (auto split: visit_state.splits)
next
  case (4 n adj node e es t)
  let ?t1 = "t\<lparr>reachable_edges := insort_insert (node, fst e, snd e) (reachable_edges t)\<rparr>"
  have v: "node \<in> visiting t" using stack_top_visiting "4.prems"(1-3) by blast
  have inv: "trav_inv adj R ?t1" using trav_inv_edge [OF "4.prems"(1) v, of e] "4.prems"(4) by simp
  have e: "fst e \<in> (edge_rel adj)\<^sup>* `` R" "(node, fst e) \<in> edge_rel adj"
    using edge_reachable [OF "4.prems"(1) v] "4.prems"(4) by simp_all
  have "node \<in> N" using "4.prems"(1,5) v by (auto simp: trav_inv_def stack_inv_def)
  then have N: "fst e \<in> N" using e(2) "4.prems"(7) by blast
  show ?case
  proof (cases "map_of (visit_states ?t1) (fst e) = Some Visiting")
    case False
    let ?r = "traverse_for_reachable n adj (fst e) ?t1"
    have "?r \<noteq> None" using "4.IH"(1) [OF refl False inv e(1)] e(2) "4.prems" N by simp
    moreover have "traverse_edges n adj node es t2 \<noteq> None" if t2: "?r = Some (Inr t2)" for t2
    proof -
      have "call_ok adj R ?t1 (\<lambda>t'. fst e \<in> visited t') ?r"
        using traverse_correct(1) [OF inv e(1)] e(2) "4.prems"(3) by simp
      then have "trav_inv adj R t2" "stack t2 = stack t" using t2 by (simp_all add: grown_def)
      then show ?thesis using "4.IH"(2) [OF refl False t2 refl] "4.prems" by simp
    qed
    ultimately show ?thesis using False by (auto simp: Let_def split: sum.splits)
  qed (simp add: Let_def)
qed simp

lemma traverse_roots_correct:
  assumes "trav_inv adj R t" "stack t = []" "set rs \<subseteq> R"
  shows "call_ok adj R t (\<lambda>t'. set rs \<subseteq> visited t') (traverse_roots n adj rs t)"
  using assms
proof (induction rs arbitrary: t)
  case (Cons r rs)
  have r: "r \<in> (edge_rel adj)\<^sup>* `` R" using Cons.prems(3) by auto
  note ok = traverse_correct(1) [OF Cons.prems(1) r, of n]
  have "call_ok adj R t (\<lambda>t'. set (r # rs) \<subseteq> visited t') (traverse_roots n adj rs t')"
    if t': "traverse_for_reachable n adj r t = Some (Inr t')" for t'
  proof -
    have "trav_inv adj R t'" "grown t t'" "r \<in> visited t'" using ok t' Cons.prems(2) by simp_all
    moreover have "call_ok adj R t' (\<lambda>t''. set rs \<subseteq> visited t'') (traverse_roots n adj rs t')"
      using Cons.IH Cons.prems calculation by (simp add: grown_def)
    ultimately show ?thesis unfolding call_ok_iff grown_def by (simp, blast)
  qed
  then show ?case using ok Cons.prems(2) by (auto split: option.splits sum.splits)
qed simp

lemma traverse_roots_enough:
  assumes fin: "finite N" and edges: "edge_rel adj `` N \<subseteq> N" and n: "card N < n"
  shows "trav_inv adj R t \<Longrightarrow> stack t = [] \<Longrightarrow> set rs \<subseteq> R \<Longrightarrow> set rs \<subseteq> N \<Longrightarrow>
    traverse_roots n adj rs t \<noteq> None"
proof (induction rs arbitrary: t)
  case (Cons r rs)
  have r: "r \<in> (edge_rel adj)\<^sup>* `` R" using Cons.prems(3) by auto
  have "traverse_for_reachable n adj r t \<noteq> None"
    using traverse_enough(1) [OF fin edges Cons.prems(1) r] Cons.prems n by simp
  moreover have "traverse_roots n adj rs t' \<noteq> None" if "traverse_for_reachable n adj r t = Some (Inr t')" for t'
    using Cons.IH Cons.prems traverse_correct(1) [OF Cons.prems(1) r, of n] that by (simp add: grown_def)
  ultimately show ?case by (auto split: sum.splits)
qed simp

lemma tails_nodes: "(b, n) \<in> set (tails adj a) \<Longrightarrow> b \<in> set (concat (map (map fst \<circ> snd) adj))"
proof (cases "map_of adj a")
  case (Some ts)
  moreover assume "(b, n) \<in> set (tails adj a)"
  ultimately have "(a, ts) \<in> set adj" "b \<in> set (map fst ts)" by (auto simp: tails_def map_of_SomeD intro: rev_image_eqI)
  then show ?thesis by force
qed (simp add: tails_def)

lemma graph_nodes_closed: "edge_rel (pg_adjacency g) `` set (graph_nodes g) \<subseteq> set (graph_nodes g)"
proof
  fix b assume "b \<in> edge_rel (pg_adjacency g) `` set (graph_nodes g)"
  then obtain a n where "(b, n) \<in> set (tails (pg_adjacency g) a)" by (auto simp: edge_rel_def)
  from tails_nodes [OF this] show "b \<in> set (graph_nodes g)" by (simp add: graph_nodes_def)
qed

lemma traversal_total:
  "traverse_roots (Suc (length (graph_nodes g))) (pg_adjacency g) (pg_roots g) traversal_start \<noteq> None"
proof (rule traverse_roots_enough)
  show "card (set (graph_nodes g)) < Suc (length (graph_nodes g))" using card_length le_imp_less_Suc by blast
  show "trav_inv (pg_adjacency g) (set (pg_roots g)) traversal_start" by (rule trav_inv_start)
  show "set (pg_roots g) \<subseteq> set (graph_nodes g)" by (auto simp: graph_nodes_def)
qed (simp_all add: graph_nodes_closed traversal_start_def)

text \<open>An acyclic graph from its roots: no reachable node lies on a cycle.\<close>

definition acyclic_from :: "adjacency \<Rightarrow> cpath set \<Rightarrow> bool" where
  "acyclic_from adj R \<longleftrightarrow> (\<forall>v \<in> (edge_rel adj)\<^sup>* `` R. (v, v) \<notin> (edge_rel adj)\<^sup>+)"

lemma closed_walk_trancl:
  "successively (\<lambda>a b. (a, b) \<in> E) c \<Longrightarrow> 2 \<le> length c \<Longrightarrow> (hd c, last c) \<in> E\<^sup>+"
proof (induction c rule: induct_list012)
  case (3 a b c)
  then show ?case by (cases c) (auto intro: trancl_into_trancl2)
qed simp_all

lemma cycle_of_not_acyclic: "cycle_of adj R c \<Longrightarrow> \<not> acyclic_from adj R"
proof -
  assume c: "cycle_of adj R c"
  then have "(hd c, hd c) \<in> (edge_rel adj)\<^sup>+" using closed_walk_trancl by (metis cycle_of_def)
  moreover have "hd c \<in> (edge_rel adj)\<^sup>* `` R"
    using c by (metis cycle_of_def hd_in_set list.size(3) not_numeral_le_zero subsetD)
  ultimately show ?thesis by (auto simp: acyclic_from_def)
qed

lemma finished_traversal:
  assumes inv: "trav_inv adj R t" and st: "stack t = []" and roots: "R \<subseteq> visited t"
  shows "visited t = (edge_rel adj)\<^sup>* `` R" "visiting t = {}" "acyclic_from adj R"
    "set (reachable_nodes t) = (edge_rel adj)\<^sup>* `` R"
    "set (reachable_edges t) = {(v, e). v \<in> (edge_rel adj)\<^sup>* `` R \<and> e \<in> set (tails adj v)}"
proof -
  show none: "visiting t = {}" using inv st by (auto simp: trav_inv_def stack_inv_def)
  have reach: "b \<in> visited t" if "(a, b) \<in> (edge_rel adj)\<^sup>*" "a \<in> visited t" for a b
    using that by (induction rule: rtrancl_induct) (use inv in \<open>auto simp: trav_inv_def finished_inv_def\<close>)
  show eq: "visited t = (edge_rel adj)\<^sup>* `` R"
    using reach roots inv by (auto simp: trav_inv_def nodes_inv_def)
  show "acyclic_from adj R" using inv eq by (auto simp: acyclic_from_def trav_inv_def finished_inv_def)
  show "set (reachable_nodes t) = (edge_rel adj)\<^sup>* `` R" using inv eq none by (simp add: trav_inv_def nodes_inv_def)
  show "set (reachable_edges t) = {(v, e). v \<in> (edge_rel adj)\<^sup>* `` R \<and> e \<in> set (tails adj v)}"
    using inv none unfolding eq [symmetric] by (auto simp: trav_inv_def edges_inv_def)
qed

lemma finalize_graph_run:
  obtains e where "finalize_graph entry g = Some (Inl e)" "err_kind e = CyclicDependency"
      "cycle_of (pg_adjacency g) (set (pg_roots g)) (err_cycle e)"
  | t where "finalize_graph entry g = Some (Inr \<lparr>entry_manifest_path = entry, workspace_root = pg_workspace_root g,
        root_packages = pg_roots g, packages = map (package_of g) (reachable_nodes t),
        edges = map edge_of (reachable_edges t)\<rparr>)"
      "trav_inv (pg_adjacency g) (set (pg_roots g)) t" "stack t = []" "set (pg_roots g) \<subseteq> visited t"
proof -
  let ?r = "traverse_roots (Suc (length (graph_nodes g))) (pg_adjacency g) (pg_roots g) traversal_start"
  have "call_ok (pg_adjacency g) (set (pg_roots g)) traversal_start (\<lambda>t'. set (pg_roots g) \<subseteq> visited t') ?r"
    by (rule traverse_roots_correct) (simp_all add: trav_inv_start, simp add: traversal_start_def)
  then show thesis
    using traversal_total [of g] that
    by (cases ?r; cases "the ?r") (auto simp: finalize_graph_def grown_def traversal_start_def)
qed

text \<open>The nodes of a finalized graph and of its edges.\<close>

lemma finalized_graph_nodes:
  assumes "finalize_graph entry g = Some (Inr gr)"
  shows "set (map package_root (packages gr)) = (edge_rel (pg_adjacency g))\<^sup>* `` set (pg_roots g) \<and>
    (\<forall>e \<in> set (edges gr). edge_to e \<in> (edge_rel (pg_adjacency g))\<^sup>* `` set (pg_roots g))"
proof (rule finalize_graph_run [of entry g])
  fix t
  let ?adj = "pg_adjacency g" and ?R = "set (pg_roots g)"
  assume run: "finalize_graph entry g = Some (Inr \<lparr>entry_manifest_path = entry, workspace_root = pg_workspace_root g,
        root_packages = pg_roots g, packages = map (package_of g) (reachable_nodes t),
        edges = map edge_of (reachable_edges t)\<rparr>)"
    and inv: "trav_inv ?adj ?R t" and st: "stack t = []" and roots: "?R \<subseteq> visited t"
  note fin = finished_traversal [OF inv st roots]
  have step: "b \<in> (edge_rel ?adj)\<^sup>* `` ?R" if "a \<in> (edge_rel ?adj)\<^sup>* `` ?R" "(b, n) \<in> set (tails ?adj a)" for a b n
  proof -
    have "(a, b) \<in> edge_rel ?adj" using that(2) by (auto simp: edge_rel_def)
    then show ?thesis using that(1) by (auto intro: rtrancl_into_rtrancl)
  qed
  have "edge_to e \<in> (edge_rel ?adj)\<^sup>* `` ?R" if mem: "e \<in> edge_of ` set (reachable_edges t)" for e
  proof -
    obtain a b n where e: "e = edge_of (a, b, n)" "(a, b, n) \<in> set (reachable_edges t)" using mem by auto
    then have "a \<in> (edge_rel ?adj)\<^sup>* `` ?R" "(b, n) \<in> set (tails ?adj a)" using fin(5) by auto
    then show ?thesis using step e(1) by (simp add: edge_of_def)
  qed
  moreover have "map package_root (packages gr) = reachable_nodes t" "edges gr = map edge_of (reachable_edges t)"
    using assms run by (auto simp: package_of_def map_idI split: option.splits)
  ultimately show ?thesis using fin(4) by simp
qed (use assms in simp)

lemma finalize_graph_returns: "finalize_graph entry g \<noteq> None"
  by (rule finalize_graph_run [of entry g]) simp_all

text \<open>C15: The graph the resolver hands on: always a result; a cycle error names a closed walk among the
  nodes reachable from the roots; a graph has exactly the reachable packages and edges, in order and
  without repetition, and no cycle.\<close>

theorem resolver_graph_exact:
  "case finalize_graph entry g of
     None \<Rightarrow> False
   | Some (Inl e) \<Rightarrow>
       err_kind e = CyclicDependency \<and> cycle_of (pg_adjacency g) (set (pg_roots g)) (err_cycle e) \<and>
       \<not> acyclic_from (pg_adjacency g) (set (pg_roots g))
   | Some (Inr gr) \<Rightarrow>
       acyclic_from (pg_adjacency g) (set (pg_roots g)) \<and>
       sorted (map package_root (packages gr)) \<and> distinct (map package_root (packages gr)) \<and>
       set (map package_root (packages gr)) = (edge_rel (pg_adjacency g))\<^sup>* `` set (pg_roots g) \<and>
       distinct (edges gr) \<and>
       set (edges gr) = {\<lparr>edge_from = v, edge_to = to, dependency_name = n\<rparr> | v to n.
         v \<in> (edge_rel (pg_adjacency g))\<^sup>* `` set (pg_roots g) \<and> (to, n) \<in> set (tails (pg_adjacency g) v)}"
proof (rule finalize_graph_run [of entry g])
  fix e
  assume "finalize_graph entry g = Some (Inl e)" "err_kind e = CyclicDependency"
    "cycle_of (pg_adjacency g) (set (pg_roots g)) (err_cycle e)"
  then show ?thesis using cycle_of_not_acyclic by simp
next
  fix t
  let ?adj = "pg_adjacency g" and ?R = "set (pg_roots g)"
  assume run: "finalize_graph entry g = Some (Inr \<lparr>entry_manifest_path = entry, workspace_root = pg_workspace_root g,
        root_packages = pg_roots g, packages = map (package_of g) (reachable_nodes t),
        edges = map edge_of (reachable_edges t)\<rparr>)"
    and inv: "trav_inv ?adj ?R t" and st: "stack t = []" and roots: "?R \<subseteq> visited t"
  note fin = finished_traversal [OF inv st roots]
  have inj: "inj_on edge_of A" for A by (auto simp: inj_on_def edge_of_def)
  have "map (package_root \<circ> package_of g) xs = xs" for xs
    by (simp add: map_idI package_of_def split: option.splits)
  moreover have "set (map edge_of (reachable_edges t)) = {\<lparr>edge_from = v, edge_to = to, dependency_name = n\<rparr> | v to n.
         v \<in> (edge_rel ?adj)\<^sup>* `` ?R \<and> (to, n) \<in> set (tails ?adj v)}"
    unfolding set_map fin(5) by (auto simp: edge_of_def image_iff)
  ultimately show ?thesis
    using run fin(3,4) inv inj by (simp add: distinct_map trav_inv_def nodes_inv_def edges_inv_def)
qed

end
