(* ===== verification/Cargo_Resolver.thy ===== *)
theory Cargo_Resolver
  imports Cargo_Graph
begin

text \<open>
  The resolvers of \<open>rch-common/src/cargo_path_deps.rs\<close>: the active graph from cargo's metadata or from
  the manifests, and the materialization closure from the manifests. The file system is that of
  \<open>Path_Topology\<close>. Parameters are what runs outside the program: the metadata provider (cargo and the
  parse of its JSON output), the TOML parser, and the listing of a directory. The recursions over
  manifests carry a depth bound; \<open>manifest_resolution_returns\<close> gives a bound that suffices.
\<close>

section \<open>Fallible steps\<close>

text \<open>The \<open>?\<close> operator, and a loop whose body may return an error.\<close>

definition and_then :: "'e + 'a \<Rightarrow> ('a \<Rightarrow> 'e + 'b) \<Rightarrow> 'e + 'b" where
  "and_then r f = (case r of Inl e \<Rightarrow> Inl e | Inr x \<Rightarrow> f x)"

fun try_fold :: "('a \<Rightarrow> 's \<Rightarrow> 'e + 's) \<Rightarrow> 'a list \<Rightarrow> 's \<Rightarrow> 'e + 's" where
  "try_fold f [] s = Inr s"
| "try_fold f (x # xs) s = and_then (f x s) (try_fold f xs)"

section \<open>Path policy\<close>

definition with_context :: "path option \<Rightarrow> string option \<Rightarrow> cargo_path_dependency_error \<Rightarrow> cargo_path_dependency_error" where
  "with_context manifest name e =
     (let e1 = (case manifest of None \<Rightarrow> e | Some m \<Rightarrow> with_manifest_path m e)
      in case name of None \<Rightarrow> e1 | Some n \<Rightarrow> with_dependency_name n e1)"

definition normalize_path_for_policy ::
  "file_system \<Rightarrow> path_topology_policy \<Rightarrow> path \<Rightarrow> path option \<Rightarrow> string option \<Rightarrow> cargo_path_dependency_error + cpath" where
  "normalize_path_for_policy fs policy p manifest name =
     (case normalize_project_path_with_policy fs p policy of
        Inr n \<Rightarrow> Inr (canonical_path n)
      | Inl e \<Rightarrow>
          Inl (with_dependency_path p (with_context manifest name
            (dep_error (if ne_kind e = InputResolveFailed then MissingPathDependency else PathPolicyViolation)))))"

definition add_resolved_root :: "file_system \<Rightarrow> path \<Rightarrow> path list \<Rightarrow> path list" where
  "add_resolved_root fs candidate roots =
     (case canonicalize fs candidate of
        Inl _ \<Rightarrow> roots
      | Inr r \<Rightarrow> if abs_path r \<in> set roots then roots else roots @ [abs_path r])"

definition allowed_dependency_roots :: "file_system \<Rightarrow> path_topology_policy \<Rightarrow> path list" where
  "allowed_dependency_roots fs policy =
     fold (add_resolved_root fs) [canonical_root policy, alias_root policy]
       [canonical_root policy, alias_root policy]"

definition validate_absolute_dependency_scope ::
  "file_system \<Rightarrow> path_topology_policy \<Rightarrow> path \<Rightarrow> path \<Rightarrow> string \<Rightarrow> cargo_path_dependency_error + unit" where
  "validate_absolute_dependency_scope fs policy candidate manifest name =
     (if \<not> is_absolute candidate then Inr ()
      else
        case normalize_project_path_with_policy fs candidate policy of
          Inr _ \<Rightarrow> Inr ()
        | Inl _ \<Rightarrow>
            if list_ex (path_starts_with candidate) (allowed_dependency_roots fs policy) then Inr ()
            else Inl (with_dependency_path candidate (with_dependency_name name (with_manifest_path manifest
                   (dep_error PathPolicyViolation)))))"

definition resolve_dependency_candidate :: "cpath \<Rightarrow> string \<Rightarrow> path" where
  "resolve_dependency_candidate base raw =
     (let resolved = (if is_absolute (path_from raw) then path_from raw else join (abs_path base) (path_from raw))
      in if file_name resolved = Some ''Cargo.toml''
         then (case parent resolved of Some d \<Rightarrow> d | None \<Rightarrow> resolved)
         else resolved)"

text \<open>The checks on one dependency path, shared by the three resolvers: its scope, its existence, its
  canonical root and its manifest.\<close>

definition missing_dependency :: "cpath \<Rightarrow> string \<Rightarrow> path \<Rightarrow> cargo_path_dependency_error" where
  "missing_dependency manifest name p =
     with_dependency_path p (with_dependency_name name (with_manifest_path (abs_path manifest)
       (dep_error MissingPathDependency)))"

definition resolve_dependency_root ::
  "file_system \<Rightarrow> path_topology_policy \<Rightarrow> path \<Rightarrow> cpath \<Rightarrow> string \<Rightarrow> cargo_path_dependency_error + cpath" where
  "resolve_dependency_root fs policy candidate manifest name =
     and_then (validate_absolute_dependency_scope fs policy candidate (abs_path manifest) name) (\<lambda>_.
       if \<not> path_exists fs candidate then Inl (missing_dependency manifest name candidate)
       else
         and_then (normalize_path_for_policy fs policy candidate (Some (abs_path manifest)) (Some name)) (\<lambda>root.
           if \<not> is_file fs (abs_path (cargo_toml root))
           then Inl (missing_dependency manifest name (abs_path (cargo_toml root)))
           else Inr root))"

definition resolve_entry_manifest ::
  "file_system \<Rightarrow> path_topology_policy \<Rightarrow> path \<Rightarrow> cargo_path_dependency_error + cpath" where
  "resolve_entry_manifest fs policy entrypoint =
     and_then
       (if file_name entrypoint = Some ''Cargo.toml''
        then (case parent entrypoint of None \<Rightarrow> Inl (dep_error ManifestParseFailure) | Some d \<Rightarrow> Inr d)
        else Inr entrypoint) (\<lambda>candidate.
     and_then (normalize_path_for_policy fs policy candidate None None) (\<lambda>root.
       if \<not> is_file fs (abs_path (cargo_toml root))
       then Inl (with_manifest_path (abs_path (cargo_toml root)) (dep_error ManifestParseFailure))
       else Inr (cargo_toml root)))"

section \<open>Resolution from cargo metadata\<close>

record metadata_resolve_dep =
  rd_name :: string
  rd_pkg :: string
  dep_kinds :: "string option list"

record metadata_resolve_node =
  node_id :: string
  node_deps :: "metadata_resolve_dep list"

record metadata_resolve =
  resolve_root :: "string option"
  resolve_nodes :: "metadata_resolve_node list"

record metadata_dependency =
  dep_name :: string
  dep_path :: "string option"
  dep_optional :: bool

record metadata_package =
  mp_id :: string
  mp_name :: string
  mp_manifest_path :: string
  mp_dependencies :: "metadata_dependency list"

record metadata_document =
  doc_packages :: "metadata_package list"
  doc_workspace_members :: "string list"
  doc_workspace_root :: "string option"
  doc_resolve :: "metadata_resolve option"

record metadata_package_record =
  mr_package_id :: string
  mr_package_root :: cpath
  mr_manifest_path :: cpath
  mr_dependencies :: "metadata_dependency list"

definition is_runtime_relevant :: "metadata_resolve_dep \<Rightarrow> bool" where
  "is_runtime_relevant d \<longleftrightarrow> dep_kinds d = [] \<or> list_ex (\<lambda>k. k \<noteq> Some ''dev'') (dep_kinds d)"

record metadata_state =
  ms_partial :: partial_graph
  id_to_root :: "(string \<times> cpath) list"
  package_records :: "metadata_package_record list"

definition metadata_package_step ::
  "file_system \<Rightarrow> path_topology_policy \<Rightarrow> cpath \<Rightarrow> string list \<Rightarrow> metadata_package \<Rightarrow> metadata_state
     \<Rightarrow> cargo_path_dependency_error + metadata_state" where
  "metadata_package_step fs policy entry members p s =
     (case parent (path_from (mp_manifest_path p)) of
        None \<Rightarrow> Inl (with_manifest_path (abs_path entry) (dep_error MetadataParseFailure))
      | Some dir \<Rightarrow>
          let member = mp_id p \<in> set members
          in case normalize_path_for_policy fs policy dir (Some (abs_path entry)) None of
               Inl e \<Rightarrow> if \<not> member \<and> err_kind e = PathPolicyViolation then Inr s else Inl e
             | Inr root \<Rightarrow>
                 Inr (s\<lparr>ms_partial := add_package root (cargo_toml root) (mp_name p) member (ms_partial s),
                        id_to_root := AList.update (mp_id p) root (id_to_root s),
                        package_records := package_records s @
                          [\<lparr>mr_package_id = mp_id p, mr_package_root = root, mr_manifest_path = cargo_toml root,
                            mr_dependencies = mp_dependencies p\<rparr>]\<rparr>))"

definition resolved_dep_step ::
  "(string \<times> cpath) list \<Rightarrow> cpath \<Rightarrow> metadata_resolve_dep \<Rightarrow> partial_graph \<Rightarrow> partial_graph" where
  "resolved_dep_step ids from d g =
     (if \<not> is_runtime_relevant d then g
      else case map_of ids (rd_pkg d) of
        None \<Rightarrow> g
      | Some root \<Rightarrow> add_edge from root (rd_name d) (add_package root (cargo_toml root) (rd_name d) False g))"

definition declared_dep_step ::
  "file_system \<Rightarrow> path_topology_policy \<Rightarrow> metadata_package_record \<Rightarrow> metadata_dependency \<Rightarrow> partial_graph
     \<Rightarrow> cargo_path_dependency_error + partial_graph" where
  "declared_dep_step fs policy p d g =
     (if dep_optional d then Inr g
      else case dep_path d of
        None \<Rightarrow> Inr g
      | Some raw \<Rightarrow>
          and_then (resolve_dependency_root fs policy (resolve_dependency_candidate (mr_package_root p) raw)
                      (mr_manifest_path p) (dep_name d)) (\<lambda>root.
            Inr (add_edge (mr_package_root p) root (dep_name d)
                  (add_package root (cargo_toml root) (dep_name d) False g))))"

definition metadata_nodes :: "metadata_document \<Rightarrow> (string \<times> metadata_resolve_node) list" where
  "metadata_nodes doc =
     (case doc_resolve doc of None \<Rightarrow> [] | Some r \<Rightarrow> rev (map (\<lambda>n. (node_id n, n)) (resolve_nodes r)))"

definition metadata_edges_step ::
  "file_system \<Rightarrow> path_topology_policy \<Rightarrow> metadata_document \<Rightarrow> (string \<times> cpath) list \<Rightarrow> metadata_package_record
     \<Rightarrow> partial_graph \<Rightarrow> cargo_path_dependency_error + partial_graph" where
  "metadata_edges_step fs policy doc ids p g =
     (case map_of (metadata_nodes doc) (mr_package_id p) of
        Some node \<Rightarrow> Inr (fold (resolved_dep_step ids (mr_package_root p)) (node_deps node) g)
      | None \<Rightarrow> try_fold (declared_dep_step fs policy p) (mr_dependencies p) g)"

definition mark_member :: "cpath \<Rightarrow> partial_graph \<Rightarrow> partial_graph" where
  "mark_member root g = g\<lparr>pg_packages := AList.map_entry root (\<lambda>p. p\<lparr>rec_workspace_member := True\<rparr>) (pg_packages g)\<rparr>"

definition metadata_root ::
  "cpath \<Rightarrow> (string \<times> cpath) list \<Rightarrow> string \<Rightarrow> cargo_path_dependency_error + cpath" where
  "metadata_root entry ids i =
     (case map_of ids i of
        None \<Rightarrow> Inl (with_manifest_path (abs_path entry) (dep_error MetadataParseFailure))
      | Some root \<Rightarrow> Inr root)"

definition metadata_roots ::
  "cpath \<Rightarrow> metadata_document \<Rightarrow> (string \<times> cpath) list \<Rightarrow> partial_graph \<Rightarrow> cargo_path_dependency_error + partial_graph" where
  "metadata_roots entry doc ids g =
     (if doc_workspace_members doc \<noteq> [] then
        try_fold (\<lambda>i g. and_then (metadata_root entry ids i) (\<lambda>root. Inr (mark_member root (add_root root g))))
          (sort (remdups (doc_workspace_members doc))) g
      else
        case Option.bind (doc_resolve doc) resolve_root of
          Some i \<Rightarrow> and_then (metadata_root entry ids i) (\<lambda>root. Inr (add_root root g))
        | None \<Rightarrow>
            if entry = [] then Inl (with_manifest_path (abs_path entry) (dep_error MetadataParseFailure))
            else Inr (add_root (butlast entry) g))"

definition root_package_entry :: "cpath \<Rightarrow> partial_graph \<Rightarrow> partial_graph" where
  "root_package_entry root g =
     (case map_of (pg_packages g) root of
        Some _ \<Rightarrow> g
      | None \<Rightarrow> g\<lparr>pg_packages := AList.update root \<lparr>rec_manifest_path = cargo_toml root,
                   rec_package_name = default_package_name root, rec_workspace_member = True\<rparr> (pg_packages g)\<rparr>)"

definition metadata_partial ::
  "file_system \<Rightarrow> path_topology_policy \<Rightarrow> cpath \<Rightarrow> metadata_document \<Rightarrow> cargo_path_dependency_error + partial_graph" where
  "metadata_partial fs policy entry doc =
     and_then (try_fold (metadata_package_step fs policy entry (doc_workspace_members doc)) (doc_packages doc)
         \<lparr>ms_partial = partial_graph_default, id_to_root = [], package_records = []\<rparr>) (\<lambda>s.
     and_then (try_fold (metadata_edges_step fs policy doc (id_to_root s)) (package_records s) (ms_partial s)) (\<lambda>g.
     and_then (case doc_workspace_root doc of
                 None \<Rightarrow> Inr g
               | Some w \<Rightarrow>
                   and_then (normalize_path_for_policy fs policy (path_from w) (Some (abs_path entry)) None) (\<lambda>root.
                     Inr (g\<lparr>pg_workspace_root := Some root\<rparr>))) (\<lambda>g.
     and_then (metadata_roots entry doc (id_to_root s) g) (\<lambda>g.
       Inr (fold root_package_entry (pg_roots g) g)))))"

definition finalize_result ::
  "cpath \<Rightarrow> cargo_path_dependency_error + partial_graph
     \<Rightarrow> (cargo_path_dependency_error + cargo_path_dependency_graph) option" where
  "finalize_result entry r = (case r of Inl e \<Rightarrow> Some (Inl e) | Inr g \<Rightarrow> finalize_graph entry g)"

text \<open>The provider runs cargo and parses its output; an error of either is its result.\<close>

definition resolve_from_metadata ::
  "file_system \<Rightarrow> path_topology_policy \<Rightarrow> cpath \<Rightarrow> (cpath \<Rightarrow> cargo_path_dependency_error + metadata_document)
     \<Rightarrow> (cargo_path_dependency_error + cargo_path_dependency_graph) option" where
  "resolve_from_metadata fs policy entry metadata_provider =
     finalize_result entry (and_then (metadata_provider entry) (metadata_partial fs policy entry))"

section \<open>Manifests\<close>

text \<open>A parsed TOML document; a table is an association list in the order of the parser.\<close>

datatype toml =
    TString string
  | TInteger int
  | TFloat
  | TBoolean bool
  | TDatetime
  | TArray "toml list"
  | TTable "(string \<times> toml) list"

type_synonym toml_table = "(string \<times> toml) list"

fun as_table :: "toml \<Rightarrow> toml_table option" where
  "as_table (TTable t) = Some t"
| "as_table _ = None"

fun as_str :: "toml \<Rightarrow> string option" where
  "as_str (TString s) = Some s"
| "as_str _ = None"

fun as_bool :: "toml \<Rightarrow> bool option" where
  "as_bool (TBoolean b) = Some b"
| "as_bool _ = None"

fun as_array :: "toml \<Rightarrow> toml list option" where
  "as_array (TArray xs) = Some xs"
| "as_array _ = None"

definition get_table :: "toml_table \<Rightarrow> string \<Rightarrow> toml_table option" where
  "get_table t k = Option.bind (map_of t k) as_table"

definition get_flag :: "toml_table \<Rightarrow> string \<Rightarrow> bool" where
  "get_flag t k = (case Option.bind (map_of t k) as_bool of None \<Rightarrow> False | Some b \<Rightarrow> b)"

record manifest_dependency =
  dependency_key :: string
  dependency_path :: "string option"
  uses_workspace_inheritance :: bool

record manifest_document =
  doc_package_name :: "string option"
  has_workspace :: bool
  workspace_members :: "string list"
  workspace_path_dependencies :: "(string \<times> string) list"
  patch_path_dependencies :: "(string \<times> string) list"
  path_dependencies :: "manifest_dependency list"
  materialization_path_dependencies :: "manifest_dependency list"

fun dependency_spec :: "bool \<Rightarrow> string \<times> toml \<Rightarrow> manifest_dependency list" where
  "dependency_spec include_optional (name, TString _) =
     [\<lparr>dependency_key = name, dependency_path = None, uses_workspace_inheritance = False\<rparr>]"
| "dependency_spec include_optional (name, TTable t) =
     (if \<not> include_optional \<and> get_flag t ''optional'' then []
      else [\<lparr>dependency_key = name, dependency_path = Option.bind (map_of t ''path'') as_str,
             uses_workspace_inheritance = get_flag t ''workspace''\<rparr>])"
| "dependency_spec include_optional _ = []"

definition collect_dependency_specs :: "toml option \<Rightarrow> bool \<Rightarrow> manifest_dependency list" where
  "collect_dependency_specs v include_optional =
     (case Option.bind v as_table of
        None \<Rightarrow> []
      | Some t \<Rightarrow> concat (map (dependency_spec include_optional) t))"

definition named_path :: "string \<times> toml \<Rightarrow> (string \<times> string) option" where
  "named_path e =
     (case Option.bind (Option.bind (as_table (snd e)) (\<lambda>t. map_of t ''path'')) as_str of
        None \<Rightarrow> None
      | Some p \<Rightarrow> Some (fst e, p))"

text \<open>Inserting into a \<open>BTreeMap\<close> in the order of the list: the last entry of a key stays.\<close>

definition btree_insert_all :: "('k \<times> 'v) list \<Rightarrow> ('k \<times> 'v) list \<Rightarrow> ('k \<times> 'v) list" where
  "btree_insert_all kvs m = fold (\<lambda>(k, v). AList.update k v) kvs m"

definition collect_named_path_dependencies :: "toml \<Rightarrow> (string \<times> string) list" where
  "collect_named_path_dependencies v =
     (case as_table v of None \<Rightarrow> [] | Some t \<Rightarrow> btree_insert_all (List.map_filter named_path t) [])"

definition collect_patch_path_dependencies :: "toml_table \<Rightarrow> (string \<times> string) list" where
  "collect_patch_path_dependencies t =
     fold (\<lambda>source. btree_insert_all (collect_named_path_dependencies (snd source))) t []"

definition target_tables :: "toml_table \<Rightarrow> toml_table list" where
  "target_tables t = (case get_table t ''target'' of None \<Rightarrow> [] | Some ts \<Rightarrow> List.map_filter (as_table \<circ> snd) ts)"

definition manifest_document_of :: "toml_table \<Rightarrow> manifest_document" where
  "manifest_document_of t =
     \<lparr>doc_package_name = Option.bind (Option.bind (get_table t ''package'') (\<lambda>p. map_of p ''name'')) as_str,
      has_workspace = (map_of t ''workspace'' \<noteq> None),
      workspace_members =
        (case Option.bind (Option.bind (get_table t ''workspace'') (\<lambda>w. map_of w ''members'')) as_array of
           None \<Rightarrow> [] | Some ms \<Rightarrow> List.map_filter as_str ms),
      workspace_path_dependencies =
        (case Option.bind (get_table t ''workspace'') (\<lambda>w. map_of w ''dependencies'') of
           None \<Rightarrow> [] | Some v \<Rightarrow> collect_named_path_dependencies v),
      patch_path_dependencies =
        (case get_table t ''patch'' of None \<Rightarrow> [] | Some p \<Rightarrow> collect_patch_path_dependencies p),
      path_dependencies =
        concat (map (\<lambda>tt. concat (map (\<lambda>k. collect_dependency_specs (map_of tt k) False)
            [''dependencies'', ''build-dependencies''])) (t # target_tables t)),
      materialization_path_dependencies =
        concat (map (\<lambda>tt. concat (map (\<lambda>k. collect_dependency_specs (map_of tt k) True)
            [''dependencies'', ''build-dependencies'', ''dev-dependencies''])) (t # target_tables t))\<rparr>"

text \<open>\<open>parse\<close> stands for reading the file and for the \<open>toml\<close> crate.\<close>

definition read_manifest_document ::
  "(cpath \<Rightarrow> toml_table option) \<Rightarrow> cpath \<Rightarrow> cargo_path_dependency_error + manifest_document" where
  "read_manifest_document parse p =
     (case parse p of
        None \<Rightarrow> Inl (with_manifest_path (abs_path p) (dep_error ManifestParseFailure))
      | Some t \<Rightarrow> Inr (manifest_document_of t))"

section \<open>Workspace members\<close>

text \<open>\<open>*\<close> and \<open>?\<close> in one segment of a member pattern.\<close>

fun wildcard_match :: "string \<Rightarrow> string \<Rightarrow> bool" where
  "wildcard_match [] v = (v = [])"
| "wildcard_match (p # ps) v =
     (if p = CHR ''*'' then list_ex (\<lambda>i. wildcard_match ps (drop i v)) [0..<Suc (length v)]
      else if v = [] then False
      else if p = CHR ''?'' \<or> p = hd v then wildcard_match ps (tl v)
      else False)"

definition contains_glob :: "string \<Rightarrow> bool" where
  "contains_glob p = list_ex (\<lambda>c. c \<in> set ''*?['') p"

definition contains_wildcard :: "string \<Rightarrow> bool" where
  "contains_wildcard s = (CHR ''*'' \<in> set s \<or> CHR ''?'' \<in> set s)"

definition backslash_to_slash :: "string \<Rightarrow> string" where
  "backslash_to_slash s = map (\<lambda>c. if c = CHR 0x5C then CHR ''/'' else c) s"

text \<open>\<open>list_dir\<close> gives the names in a directory, \<open>None\<close> when the path is not a directory. The expansion
  of one segment over the candidates so far.\<close>

definition expand_segment :: "(path \<Rightarrow> string list option) \<Rightarrow> string \<Rightarrow> path list \<Rightarrow> path list" where
  "expand_segment list_dir seg candidates =
     (if seg = [] \<or> seg = ''.'' then candidates
      else if seg = ''..'' then map (\<lambda>c. case parent c of Some d \<Rightarrow> d | None \<Rightarrow> abs_path []) candidates
      else if contains_wildcard seg then
        concat (map (\<lambda>c. case list_dir c of
           None \<Rightarrow> []
         | Some names \<Rightarrow> map (\<lambda>n. c\<lparr>components := components c @ [Normal n]\<rparr>) (filter (wildcard_match seg) names)) candidates)
      else map (\<lambda>c. join c (path_from seg)) candidates)"

definition expand_member_pattern :: "(path \<Rightarrow> string list option) \<Rightarrow> cpath \<Rightarrow> string \<Rightarrow> path list" where
  "expand_member_pattern list_dir base pattern =
     (if \<not> contains_glob pattern then [join (abs_path base) (path_from pattern)]
      else fold (expand_segment list_dir) (split_slash [] (backslash_to_slash pattern)) [abs_path base])"

text \<open>The order of paths is that of their components, dots before names.\<close>

fun component_key :: "component \<Rightarrow> nat \<times> string" where
  "component_key CurDir = (0, [])"
| "component_key ParentDir = (1, [])"
| "component_key (Normal s) = (2, s)"

lemma component_key_inj: "component_key a = component_key b \<longleftrightarrow> a = b"
  by (cases a; cases b) auto

instantiation component :: linorder
begin

definition less_eq_component :: "component \<Rightarrow> component \<Rightarrow> bool" where
  "less_eq_component a b \<longleftrightarrow> component_key a \<le> component_key b"

definition less_component :: "component \<Rightarrow> component \<Rightarrow> bool" where
  "less_component a b \<longleftrightarrow> component_key a < component_key b"

instance
  by standard (auto simp: less_eq_component_def less_component_def component_key_inj [symmetric])

end

definition manifest_candidate :: "path \<Rightarrow> path" where
  "manifest_candidate c =
     (if file_name c = Some ''Cargo.toml'' then c else c\<lparr>components := components c @ [Normal ''Cargo.toml'']\<rparr>)"

definition member_candidate_step ::
  "file_system \<Rightarrow> cpath \<Rightarrow> string \<Rightarrow> path \<Rightarrow> path list \<Rightarrow> cargo_path_dependency_error + path list" where
  "member_candidate_step fs manifest member c manifests =
     (if \<not> is_file fs (manifest_candidate c)
      then Inl (missing_dependency manifest member (manifest_candidate c))
      else Inr (insort_insert_key components (manifest_candidate c) manifests))"

definition expand_workspace_members ::
  "file_system \<Rightarrow> (path \<Rightarrow> string list option) \<Rightarrow> cpath \<Rightarrow> string list \<Rightarrow> cpath
     \<Rightarrow> cargo_path_dependency_error + path list" where
  "expand_workspace_members fs list_dir root members manifest =
     try_fold (\<lambda>m. try_fold (member_candidate_step fs manifest m) (expand_member_pattern list_dir root m)) members []"

section \<open>Recursive resolution from manifests\<close>

text \<open>What stays fixed during one resolution, and the state the recursions thread. The cache holds the
  documents read so far.\<close>

record manifest_env =
  env_fs :: file_system
  env_policy :: path_topology_policy
  env_parse :: "cpath \<Rightarrow> toml_table option"
  env_workspace_root :: cpath
  env_members :: "path list"
  env_workspace_deps :: "(string \<times> string) list"
  env_patch_deps :: "(string \<times> string) list"

record manifest_visit =
  mv_partial :: partial_graph
  manifest_cache :: "(cpath \<times> manifest_document) list"
  mv_states :: "(cpath \<times> visit_state) list"
  mv_stack :: "cpath list"

definition resolve_manifest_dependency_candidate ::
  "manifest_env \<Rightarrow> cpath \<Rightarrow> manifest_dependency \<Rightarrow> path option" where
  "resolve_manifest_dependency_candidate env root d =
     (case dependency_path d of
        Some raw \<Rightarrow> Some (resolve_dependency_candidate root raw)
      | None \<Rightarrow>
          case (if uses_workspace_inheritance d then map_of (env_workspace_deps env) (dependency_key d) else None) of
            Some raw \<Rightarrow> Some (resolve_dependency_candidate (env_workspace_root env) raw)
          | None \<Rightarrow> map_option (resolve_dependency_candidate (env_workspace_root env))
                      (map_of (env_patch_deps env) (dependency_key d)))"

text \<open>The root of the package a manifest path names, when its manifest is there.\<close>

definition manifest_package_root :: "manifest_env \<Rightarrow> path \<Rightarrow> cargo_path_dependency_error + cpath" where
  "manifest_package_root env manifest =
     (case parent manifest of
        None \<Rightarrow> Inl (with_manifest_path manifest (dep_error ManifestParseFailure))
      | Some dir \<Rightarrow>
          and_then (normalize_path_for_policy (env_fs env) (env_policy env) dir (Some manifest) None) (\<lambda>root.
            if \<not> is_file (env_fs env) (abs_path (cargo_toml root))
            then Inl (with_manifest_path (abs_path (cargo_toml root)) (dep_error ManifestParseFailure))
            else Inr root))"

definition cached_document ::
  "manifest_env \<Rightarrow> cpath \<Rightarrow> (cpath \<times> manifest_document) list
     \<Rightarrow> cargo_path_dependency_error + manifest_document \<times> (cpath \<times> manifest_document) list" where
  "cached_document env p cache =
     (case map_of cache p of
        Some d \<Rightarrow> Inr (d, cache)
      | None \<Rightarrow> and_then (read_manifest_document (env_parse env) p) (\<lambda>d. Inr (d, AList.update p d cache)))"

definition register_package ::
  "manifest_env \<Rightarrow> cpath \<Rightarrow> manifest_document \<Rightarrow> bool \<Rightarrow> partial_graph \<Rightarrow> partial_graph" where
  "register_package env root doc mark g =
     (let member = mark \<or> abs_path (cargo_toml root) \<in> set (env_members env);
          g1 = add_package root (cargo_toml root)
                 (case doc_package_name doc of Some n \<Rightarrow> n | None \<Rightarrow> default_package_name root) member g
      in if member then add_root root g1 else g1)"

definition revisit :: "bool \<Rightarrow> cpath \<Rightarrow> partial_graph \<Rightarrow> partial_graph" where
  "revisit mark root g = (if mark then mark_member root (add_root root g) else g)"

definition manifest_cycle :: "cpath list \<Rightarrow> cpath \<Rightarrow> cargo_path_dependency_error" where
  "manifest_cycle st root = with_cycle (cycle_from_stack st root) (dep_error CyclicDependency)"

text \<open>The recursion of the active graph. As before the first argument bounds the depth.\<close>

fun visit_manifest_recursive ::
  "nat \<Rightarrow> manifest_env \<Rightarrow> path \<Rightarrow> bool \<Rightarrow> manifest_visit \<Rightarrow> (cargo_path_dependency_error + manifest_visit) option"
and visit_dependencies ::
  "nat \<Rightarrow> manifest_env \<Rightarrow> cpath \<Rightarrow> manifest_dependency list \<Rightarrow> manifest_visit
     \<Rightarrow> (cargo_path_dependency_error + manifest_visit) option"
where
  "visit_manifest_recursive 0 env manifest mark s = None"
| "visit_manifest_recursive (Suc n) env manifest mark s =
     (case manifest_package_root env manifest of
        Inl e \<Rightarrow> Some (Inl e)
      | Inr root \<Rightarrow>
          case map_of (mv_states s) root of
            Some Visiting \<Rightarrow> Some (Inl (manifest_cycle (mv_stack s) root))
          | Some Visited \<Rightarrow> Some (Inr (s\<lparr>mv_partial := revisit mark root (mv_partial s)\<rparr>))
          | None \<Rightarrow>
              case cached_document env (cargo_toml root) (manifest_cache s) of
                Inl e \<Rightarrow> Some (Inl e)
              | Inr (doc, cache) \<Rightarrow>
                  case visit_dependencies n env root (path_dependencies doc)
                         (s\<lparr>mv_states := AList.update root Visiting (mv_states s), mv_stack := mv_stack s @ [root],
                            manifest_cache := cache,
                            mv_partial := register_package env root doc mark (mv_partial s)\<rparr>) of
                    None \<Rightarrow> None
                  | Some (Inl e) \<Rightarrow> Some (Inl e)
                  | Some (Inr s') \<Rightarrow>
                      Some (Inr (s'\<lparr>mv_states := AList.update root Visited (mv_states s'),
                                   mv_stack := butlast (mv_stack s')\<rparr>)))"
| "visit_dependencies n env root [] s = Some (Inr s)"
| "visit_dependencies n env root (d # ds) s =
     (case resolve_manifest_dependency_candidate env root d of
        None \<Rightarrow> visit_dependencies n env root ds s
      | Some candidate \<Rightarrow>
          case resolve_dependency_root (env_fs env) (env_policy env) candidate (cargo_toml root) (dependency_key d) of
            Inl e \<Rightarrow> Some (Inl e)
          | Inr to \<Rightarrow>
              case visit_manifest_recursive n env (abs_path (cargo_toml to)) False
                     (s\<lparr>mv_partial := add_edge root to (dependency_key d) (mv_partial s)\<rparr>) of
                None \<Rightarrow> None
              | Some (Inl e) \<Rightarrow> Some (Inl e)
              | Some (Inr s') \<Rightarrow> visit_dependencies n env root ds s')"

text \<open>The recursion of the materialization closure: every dependency table, cycles allowed. A visited
  set takes the place of the states and the stack.\<close>

record materialization_visit =
  mz_partial :: partial_graph
  mz_cache :: "(cpath \<times> manifest_document) list"
  mz_visited :: "cpath list"

fun visit_manifest_for_materialization ::
  "nat \<Rightarrow> manifest_env \<Rightarrow> path \<Rightarrow> bool \<Rightarrow> materialization_visit
     \<Rightarrow> (cargo_path_dependency_error + materialization_visit) option"
and materialize_dependencies ::
  "nat \<Rightarrow> manifest_env \<Rightarrow> cpath \<Rightarrow> manifest_dependency list \<Rightarrow> materialization_visit
     \<Rightarrow> (cargo_path_dependency_error + materialization_visit) option"
where
  "visit_manifest_for_materialization 0 env manifest mark s = None"
| "visit_manifest_for_materialization (Suc n) env manifest mark s =
     (case manifest_package_root env manifest of
        Inl e \<Rightarrow> Some (Inl e)
      | Inr root \<Rightarrow>
          if root \<in> set (mz_visited s) then Some (Inr (s\<lparr>mz_partial := revisit mark root (mz_partial s)\<rparr>))
          else
            case cached_document env (cargo_toml root) (mz_cache s) of
              Inl e \<Rightarrow> Some (Inl e)
            | Inr (doc, cache) \<Rightarrow>
                materialize_dependencies n env root (materialization_path_dependencies doc)
                  \<lparr>mz_partial = register_package env root doc mark (mz_partial s), mz_cache = cache,
                   mz_visited = insort_insert root (mz_visited s)\<rparr>)"
| "materialize_dependencies n env root [] s = Some (Inr s)"
| "materialize_dependencies n env root (d # ds) s =
     (case resolve_manifest_dependency_candidate env root d of
        None \<Rightarrow> materialize_dependencies n env root ds s
      | Some candidate \<Rightarrow>
          case resolve_dependency_root (env_fs env) (env_policy env) candidate (cargo_toml root) (dependency_key d) of
            Inl e \<Rightarrow> Some (Inl e)
          | Inr to \<Rightarrow>
              case visit_manifest_for_materialization n env (abs_path (cargo_toml to)) False
                     (s\<lparr>mz_partial := add_edge root to (dependency_key d) (mz_partial s)\<rparr>) of
                None \<Rightarrow> None
              | Some (Inl e) \<Rightarrow> Some (Inl e)
              | Some (Inr s') \<Rightarrow> materialize_dependencies n env root ds s')"

fun visit_all ::
  "('a \<Rightarrow> 's \<Rightarrow> (cargo_path_dependency_error + 's) option) \<Rightarrow> 'a list \<Rightarrow> 's
     \<Rightarrow> (cargo_path_dependency_error + 's) option" where
  "visit_all f [] s = Some (Inr s)"
| "visit_all f (x # xs) s =
     (case f x s of
        None \<Rightarrow> None
      | Some (Inl e) \<Rightarrow> Some (Inl e)
      | Some (Inr s') \<Rightarrow> visit_all f xs s')"

text \<open>The entry document, its root and the member manifests, with which both resolutions start.\<close>

definition manifest_setup ::
  "file_system \<Rightarrow> path_topology_policy \<Rightarrow> (cpath \<Rightarrow> toml_table option) \<Rightarrow> (path \<Rightarrow> string list option) \<Rightarrow> cpath
     \<Rightarrow> cargo_path_dependency_error + manifest_document \<times> manifest_env" where
  "manifest_setup fs policy parse list_dir entry =
     and_then (read_manifest_document parse entry) (\<lambda>doc.
     and_then (case parent (abs_path entry) of
                 None \<Rightarrow> Inl (with_manifest_path (abs_path entry) (dep_error ManifestParseFailure))
               | Some dir \<Rightarrow> normalize_path_for_policy fs policy dir (Some (abs_path entry)) None) (\<lambda>root.
     and_then (expand_workspace_members fs list_dir root (workspace_members doc) entry) (\<lambda>members.
       Inr (doc, \<lparr>env_fs = fs, env_policy = policy, env_parse = parse, env_workspace_root = root,
         env_members = members, env_workspace_deps = workspace_path_dependencies doc,
         env_patch_deps = patch_path_dependencies doc\<rparr>))))"

definition entry_manifests :: "cpath \<Rightarrow> manifest_document \<Rightarrow> manifest_env \<Rightarrow> path list" where
  "entry_manifests entry doc env =
     env_members env @ (if doc_package_name doc \<noteq> None \<or> env_members env = [] then [abs_path entry] else [])"

definition start_graph :: "manifest_document \<Rightarrow> manifest_env \<Rightarrow> partial_graph" where
  "start_graph doc env =
     (if has_workspace doc then partial_graph_default\<lparr>pg_workspace_root := Some (env_workspace_root env)\<rparr>
      else partial_graph_default)"

definition resolve_from_manifest_fallback ::
  "nat \<Rightarrow> file_system \<Rightarrow> path_topology_policy \<Rightarrow> (cpath \<Rightarrow> toml_table option) \<Rightarrow> (path \<Rightarrow> string list option)
     \<Rightarrow> cpath \<Rightarrow> (cargo_path_dependency_error + cargo_path_dependency_graph) option" where
  "resolve_from_manifest_fallback n fs policy parse list_dir entry =
     (case manifest_setup fs policy parse list_dir entry of
        Inl e \<Rightarrow> Some (Inl e)
      | Inr (doc, env) \<Rightarrow>
          case visit_all (\<lambda>m. visit_manifest_recursive n env m True) (entry_manifests entry doc env)
                 \<lparr>mv_partial = start_graph doc env, manifest_cache = [], mv_states = [], mv_stack = []\<rparr> of
            None \<Rightarrow> None
          | Some (Inl e) \<Rightarrow> Some (Inl e)
          | Some (Inr s) \<Rightarrow> finalize_graph entry (mv_partial s))"

definition materialize_inherited ::
  "nat \<Rightarrow> manifest_env \<Rightarrow> cpath \<Rightarrow> string \<times> string \<Rightarrow> materialization_visit
     \<Rightarrow> (cargo_path_dependency_error + materialization_visit) option" where
  "materialize_inherited n env entry d s =
     (case resolve_dependency_root (env_fs env) (env_policy env)
             (resolve_dependency_candidate (env_workspace_root env) (snd d)) entry (fst d) of
        Inl e \<Rightarrow> Some (Inl e)
      | Inr to \<Rightarrow> visit_manifest_for_materialization n env (abs_path (cargo_toml to)) False s)"

definition resolve_materialization_from_manifests ::
  "nat \<Rightarrow> file_system \<Rightarrow> path_topology_policy \<Rightarrow> (cpath \<Rightarrow> toml_table option) \<Rightarrow> (path \<Rightarrow> string list option)
     \<Rightarrow> cpath \<Rightarrow> (cargo_path_dependency_error + cargo_path_materialization_closure) option" where
  "resolve_materialization_from_manifests n fs policy parse list_dir entry =
     (case manifest_setup fs policy parse list_dir entry of
        Inl e \<Rightarrow> Some (Inl e)
      | Inr (doc, env) \<Rightarrow>
          case visit_all (\<lambda>m. visit_manifest_for_materialization n env m True) (entry_manifests entry doc env)
                 \<lparr>mz_partial = start_graph doc env, mz_cache = [(entry, doc)], mz_visited = []\<rparr> of
            None \<Rightarrow> None
          | Some (Inl e) \<Rightarrow> Some (Inl e)
          | Some (Inr s) \<Rightarrow>
              case visit_all (materialize_inherited n env entry)
                     (btree_iter (env_workspace_deps env) @ btree_iter (env_patch_deps env)) s of
                None \<Rightarrow> None
              | Some (Inl e) \<Rightarrow> Some (Inl e)
              | Some (Inr s') \<Rightarrow> Some (Inr (finalize_materialization_closure entry (mz_partial s'))))"

text \<open>The active graph: cargo's metadata first, the manifests when that fails for any reason.\<close>

definition resolve_cargo_path_dependency_graph_with_policy ::
  "nat \<Rightarrow> file_system \<Rightarrow> path_topology_policy \<Rightarrow> (cpath \<Rightarrow> cargo_path_dependency_error + metadata_document)
     \<Rightarrow> (cpath \<Rightarrow> toml_table option) \<Rightarrow> (path \<Rightarrow> string list option) \<Rightarrow> path
     \<Rightarrow> (cargo_path_dependency_error + cargo_path_dependency_graph) option" where
  "resolve_cargo_path_dependency_graph_with_policy n fs policy provider parse list_dir entrypoint =
     (case resolve_entry_manifest fs policy entrypoint of
        Inl e \<Rightarrow> Some (Inl e)
      | Inr entry \<Rightarrow>
          case resolve_from_metadata fs policy entry provider of
            Some (Inr g) \<Rightarrow> Some (Inr g)
          | Some (Inl _) \<Rightarrow> resolve_from_manifest_fallback n fs policy parse list_dir entry
          | None \<Rightarrow> None)"

definition resolve_cargo_path_materialization_closure_with_policy ::
  "nat \<Rightarrow> file_system \<Rightarrow> path_topology_policy \<Rightarrow> (cpath \<Rightarrow> toml_table option) \<Rightarrow> (path \<Rightarrow> string list option) \<Rightarrow> path
     \<Rightarrow> (cargo_path_dependency_error + cargo_path_materialization_closure) option" where
  "resolve_cargo_path_materialization_closure_with_policy n fs policy parse list_dir entrypoint =
     (case resolve_entry_manifest fs policy entrypoint of
        Inl e \<Rightarrow> Some (Inl e)
      | Inr entry \<Rightarrow> resolve_materialization_from_manifests n fs policy parse list_dir entry)"

section \<open>Stable package roots\<close>

text \<open>Normalizing a canonical root again gives that root. It is so on a host whose alias root is a link
  into the canonical root.\<close>

definition stable :: "file_system \<Rightarrow> path_topology_policy \<Rightarrow> bool" where
  "stable fs policy \<longleftrightarrow>
     (\<forall>p n. normalize_project_path_with_policy fs p policy = Inr n \<longrightarrow>
        real fs (canonical_path n) \<and>
        (\<exists>n'. normalize_project_path_with_policy fs (abs_path (canonical_path n)) policy = Inr n' \<and>
           canonical_path n' = canonical_path n))"

definition linked_alias :: "file_system \<Rightarrow> path_topology_policy \<Rightarrow> bool" where
  "linked_alias fs policy \<longleftrightarrow>
     (\<exists>a raw root target. wf_fs fs \<and> alias_root policy = abs_path a \<and> a \<noteq> [] \<and>
        nodes fs a = Some (Symlink raw) \<and> real_dir fs (butlast a) \<and>
        canonicalize fs (canonical_root policy) = Inr root \<and>
        canonicalize fs (absolute_target (alias_root policy) raw) = Inr target \<and> prefix root target)"

lemma real_prefix_node:
  assumes "real fs q" "prefix a q" "a \<noteq> []"
  shows "nodes fs a \<in> {Some Directory, Some File}"
proof (cases "a = q")
  case False
  then have "prefix a (butlast q)" using assms(2) by (auto simp: prefix_def butlast_append)
  then have "real_dir fs a" using assms(1) real_dir_append by (metis prefix_def real_def)
  then show ?thesis using assms(3) by (cases a rule: rev_cases) auto
qed (use assms in \<open>auto simp: real_def\<close>)

lemma map_Normal_prefix: "prefix (map Normal a) (map Normal q) \<longleftrightarrow> prefix a q"
proof
  assume "prefix (map Normal a) (map Normal q)"
  then have "map Normal a = map Normal (take (length a) q)" by (metis length_map prefix_def take_map append_eq_conv_conj)
  then have "a = take (length a) q" by (metis component.inject list.inj_map_strong)
  then show "prefix a q" by (metis take_is_prefix)
qed (auto simp: prefix_def)


lemma linked_alias_facts:
  assumes "linked_alias fs policy"
  obtains root where "wf_fs fs" "canonicalize fs (canonical_root policy) = Inr root"
    "\<And>p ds. resolve_canonical_root fs p policy ds = Inr (root, ds @ [CanonicalRootResolved root])"
    "\<And>p ds. \<exists>ds'. verify_alias fs p (alias_root policy) root ds = Inr (None, ds')"
    "\<And>q. real fs q \<Longrightarrow> \<not> path_starts_with (abs_path q) (alias_root policy)"
proof -
  obtain a raw root target where l: "wf_fs fs" "alias_root policy = abs_path a" "a \<noteq> []"
    "nodes fs a = Some (Symlink raw)" "real_dir fs (butlast a)"
    "canonicalize fs (canonical_root policy) = Inr root"
    "canonicalize fs (absolute_target (alias_root policy) raw) = Inr target" "prefix root target"
    using assms unfolding linked_alias_def by blast
  obtain b c where a: "a = b @ [c]" using l(3) by (cases a rule: rev_cases) auto
  have "canonicalize fs (abs_path b) = Inr b" using l(5) a canonicalize_abs real_dir_real by simp
  moreover have "b = [] \<or> nodes fs b \<noteq> Some File"
    using l(5) a by (cases b rule: rev_cases) (simp_all flip: append_assoc)
  ultimately have "lstat fs (alias_root policy) = Inr (Symlink raw)"
    using l(2,4) a by (simp add: lstat_def file_name_def abs_path_def)
  then have v: "\<exists>ds'. verify_alias fs p (alias_root policy) root ds = Inr (None, ds')" for p ds
    using l(7,8) by (simp add: verify_alias_def)
  have "\<not> path_starts_with (abs_path q) (alias_root policy)" if "real fs q" for q
    using real_prefix_node [OF that, of a] l(2-4)
    by (auto simp: path_starts_with_def abs_path_def map_Normal_prefix)
  then show thesis
    using that l(1,6) v by (simp add: resolve_canonical_root_def path_exists_def)
qed

lemma linked_alias_stable:
  assumes "linked_alias fs policy"
  shows "stable fs policy"
  using assms
proof (rule linked_alias_facts)
  fix root
  assume fs: "wf_fs fs"
    and r: "\<And>p ds. resolve_canonical_root fs p policy ds = Inr (root, ds @ [CanonicalRootResolved root])"
    and v: "\<And>p ds. \<exists>ds'. verify_alias fs p (alias_root policy) root ds = Inr (None, ds')"
    and d: "\<And>q. real fs q \<Longrightarrow> \<not> path_starts_with (abs_path q) (alias_root policy)"
  have eq: "\<exists>ds used. normalize_project_path_with_policy fs p policy = normalize_resolved fs p root used None ds"
    if abs: "is_absolute p" for p
  proof (cases "path_starts_with p (alias_root policy)")
    case True
    obtain ds where "verify_alias fs p (alias_root policy) root
        [ReceivedInput p, VerifiedAbsoluteInput p, CanonicalRootResolved root, AliasPrefixDetected (alias_root policy)] = Inr (None, ds)"
      using v by blast
    then show ?thesis using abs r True by (auto simp: normalize_project_path_with_policy_def)
  qed (use abs r in \<open>auto simp: normalize_project_path_with_policy_def\<close>)
  have "real fs (canonical_path n) \<and>
      (\<exists>n'. normalize_project_path_with_policy fs (abs_path (canonical_path n)) policy = Inr n' \<and>
        canonical_path n' = canonical_path n)"
    if n: "normalize_project_path_with_policy fs p policy = Inr n" for p n
  proof -
    have "is_absolute p" using n by (auto simp: normalize_project_path_with_policy_def Let_def split: if_splits)
    then have N: "canonicalize fs p = Inr (canonical_path n)" "prefix root (canonical_path n)"
      using eq n normalize_resolved_Inr by fastforce+
    then have real: "real fs (canonical_path n)" using canonicalize_real [OF fs] by blast
    have "is_absolute (abs_path (canonical_path n))" by (simp add: abs_path_def)
    then show ?thesis
      using r d [OF real] N(2) canonicalize_abs [OF real] real
      by (simp add: normalize_project_path_with_policy_def normalize_resolved_def normalize_within_Inr)
  qed
  then show ?thesis unfolding stable_def by blast
qed

lemma stable_root:
  assumes "stable (env_fs env) (env_policy env)"
    and n: "normalize_project_path_with_policy (env_fs env) p (env_policy env) = Inr n" "canonical_path n = root"
    and f: "is_file (env_fs env) (abs_path (cargo_toml root))"
  shows "manifest_package_root env (abs_path (cargo_toml root)) = Inr root" "real (env_fs env) root"
proof -
  obtain n' where n': "normalize_project_path_with_policy (env_fs env) (abs_path root) (env_policy env) = Inr n'"
    "canonical_path n' = root" and real: "real (env_fs env) root"
    using assms(1) n by (auto simp: stable_def)
  have "parent (abs_path (cargo_toml root)) = Some (abs_path root)"
    by (simp add: parent_def abs_path_def cargo_toml_def)
  then show "manifest_package_root env (abs_path (cargo_toml root)) = Inr root"
    using n' f by (simp add: manifest_package_root_def and_then_def normalize_path_for_policy_def)
  show "real (env_fs env) root" by (rule real)
qed

lemma stable_dependency_root:
  assumes "stable (env_fs env) (env_policy env)"
    and ok: "resolve_dependency_root (env_fs env) (env_policy env) candidate manifest name = Inr to"
  shows "manifest_package_root env (abs_path (cargo_toml to)) = Inr to"
proof -
  obtain n where "normalize_project_path_with_policy (env_fs env) candidate (env_policy env) = Inr n"
    "canonical_path n = to" "is_file (env_fs env) (abs_path (cargo_toml to))"
    using ok by (auto simp: resolve_dependency_root_def and_then_def normalize_path_for_policy_def split: result_splits)
  then show ?thesis using stable_root assms(1) by blast
qed

lemma stable_root_again:
  assumes "stable (env_fs env) (env_policy env)" "manifest_package_root env m = Inr root"
  shows "manifest_package_root env (abs_path (cargo_toml root)) = Inr root" "real (env_fs env) root"
proof -
  obtain d n where "normalize_project_path_with_policy (env_fs env) d (env_policy env) = Inr n"
    "canonical_path n = root" "is_file (env_fs env) (abs_path (cargo_toml root))"
    using assms(2) by (auto simp: manifest_package_root_def and_then_def normalize_path_for_policy_def split: result_splits)
  then show "manifest_package_root env (abs_path (cargo_toml root)) = Inr root" "real (env_fs env) root"
    using stable_root assms(1) by blast+
qed

section \<open>What the two recursions visit\<close>

definition dep_target :: "manifest_env \<Rightarrow> cpath \<Rightarrow> manifest_dependency \<Rightarrow> cpath option" where
  "dep_target env root d =
     (case resolve_manifest_dependency_candidate env root d of
        None \<Rightarrow> None
      | Some c \<Rightarrow>
          case resolve_dependency_root (env_fs env) (env_policy env) c (cargo_toml root) (dependency_key d) of
            Inl _ \<Rightarrow> None
          | Inr to \<Rightarrow> Some to)"

text \<open>The dependency relation on package roots given by one of the two dependency lists of a manifest.\<close>

definition dep_rel :: "(manifest_document \<Rightarrow> manifest_dependency list) \<Rightarrow> manifest_env \<Rightarrow> (cpath \<times> cpath) set" where
  "dep_rel sel env = {(a, b). \<exists>doc d. read_manifest_document (env_parse env) (cargo_toml a) = Inr doc \<and>
     d \<in> set (sel doc) \<and> dep_target env a d = Some b}"

lemma dependency_spec_optional: "set (dependency_spec False e) \<subseteq> set (dependency_spec True e)"
  by (induction False e rule: dependency_spec.induct) auto

lemma collect_dependency_specs_optional:
  "set (collect_dependency_specs v False) \<subseteq> set (collect_dependency_specs v True)"
  using dependency_spec_optional by (fastforce simp: collect_dependency_specs_def split: option.splits)

lemma path_dependencies_materialized:
  "set (path_dependencies (manifest_document_of t)) \<subseteq> set (materialization_path_dependencies (manifest_document_of t))"
  using collect_dependency_specs_optional by (fastforce simp: manifest_document_of_def)

lemma dep_rel_materialized: "dep_rel path_dependencies env \<subseteq> dep_rel materialization_path_dependencies env"
  using path_dependencies_materialized
  by (fastforce simp: dep_rel_def read_manifest_document_def split: option.splits)

definition cache_ok :: "manifest_env \<Rightarrow> (cpath \<times> manifest_document) list \<Rightarrow> bool" where
  "cache_ok env c \<longleftrightarrow> (\<forall>p d. map_of c p = Some d \<longrightarrow> read_manifest_document (env_parse env) p = Inr d)"

lemma cached_document_ok:
  assumes "cache_ok env c" "cached_document env p c = Inr (doc, c')"
  shows "read_manifest_document (env_parse env) p = Inr doc \<and> cache_ok env c'"
  using assms by (auto simp: cached_document_def cache_ok_def and_then_def update_conv split: result_splits)

subsection \<open>The partial graph\<close>

lemma edge_rel_update: "edge_rel (AList.update a ts adj) = {(x, y). if x = a then y \<in> fst ` set ts else (x, y) \<in> edge_rel adj}"
  by (force simp: edge_rel_def tails_def update_conv)

lemma tails_adjacency_entry: "tails (adjacency_entry r adj) v = tails adj v"
  by (simp add: adjacency_entry_def tails_def update_conv split: option.splits)

lemma edge_rel_adjacency_entry [simp]: "edge_rel (adjacency_entry r adj) = edge_rel adj"
  by (simp add: edge_rel_def tails_adjacency_entry)

lemma edge_rel_add_edge [simp]: "edge_rel (pg_adjacency (add_edge a b n g)) = insert (a, b) (edge_rel (pg_adjacency g))"
  by (auto simp: add_edge_def edge_rel_update) (force simp: edge_rel_def)+

lemma graph_updates [simp]:
  "pg_adjacency (add_root r g) = pg_adjacency g" "set (pg_roots (add_root r g)) = insert r (set (pg_roots g))"
  "edge_rel (pg_adjacency (add_package r m n b g)) = edge_rel (pg_adjacency g)" "pg_roots (add_package r m n b g) = pg_roots g"
  "pg_roots (add_edge a c n g) = pg_roots g" "pg_roots (mark_member r g) = pg_roots g"
  "pg_adjacency (mark_member r g) = pg_adjacency g" "pg_packages (add_root r g) = pg_packages g"
  "pg_packages (add_edge a c n g) = pg_packages g"
  "fst ` set (pg_packages (mark_member r g)) = fst ` set (pg_packages g)"
  "fst ` set (pg_packages (add_package r m n b g)) = insert r (fst ` set (pg_packages g))"
  by (simp_all add: add_root_def add_package_def add_edge_def mark_member_def Let_def dom_map_entry dom_update)

lemma graph_helpers [simp]:
  "edge_rel (pg_adjacency (register_package env r doc b g)) = edge_rel (pg_adjacency g)"
  "edge_rel (pg_adjacency (revisit b r g)) = edge_rel (pg_adjacency g)"
  "fst ` set (pg_packages (register_package env r doc b g)) = insert r (fst ` set (pg_packages g))"
  "fst ` set (pg_packages (revisit b r g)) = fst ` set (pg_packages g)"
  by (simp_all add: register_package_def revisit_def Let_def)

lemma start_graph_empty [simp]:
  "edge_rel (pg_adjacency (start_graph doc env)) = {}" "pg_roots (start_graph doc env) = []"
  by (simp_all add: start_graph_def partial_graph_default_def edge_rel_def tails_def)

lemma roots_register:
  "set (pg_roots (register_package env r doc b g)) \<subseteq>
     set (pg_roots g) \<union> (if b \<or> abs_path (cargo_toml r) \<in> set (env_members env) then {r} else {})"
  by (auto simp: register_package_def Let_def)

lemma roots_revisit: "set (pg_roots (revisit b r g)) \<subseteq> set (pg_roots g) \<union> (if b then {r} else {})"
  by (auto simp: revisit_def)

subsection \<open>The active graph stays within the dependency relation\<close>

text \<open>Roots named by the entry manifests, and what the active recursion keeps of its graph.\<close>

definition entry_roots :: "manifest_env \<Rightarrow> path set \<Rightarrow> cpath set" where
  "entry_roots env M = {root. \<exists>m \<in> M. manifest_package_root env m = Inr root}"

definition active_ok :: "manifest_env \<Rightarrow> path set \<Rightarrow> manifest_visit \<Rightarrow> bool" where
  "active_ok env M s \<longleftrightarrow>
     cache_ok env (manifest_cache s) \<and>
     edge_rel (pg_adjacency (mv_partial s)) \<subseteq> dep_rel path_dependencies env \<and>
     set (pg_roots (mv_partial s)) \<subseteq> entry_roots env M"

lemma visit_dependencies_active:
  assumes visit: "\<And>m s s'. visit_manifest_recursive n env m False s = Some (Inr s') \<Longrightarrow> active_ok env M s \<Longrightarrow> active_ok env M s'"
    and doc: "read_manifest_document (env_parse env) (cargo_toml root) = Inr doc"
  shows "visit_dependencies n env root ds s = Some (Inr s') \<Longrightarrow> set ds \<subseteq> set (path_dependencies doc) \<Longrightarrow>
    active_ok env M s \<Longrightarrow> active_ok env M s'"
proof (induction ds arbitrary: s)
  case (Cons d ds)
  show ?case
  proof (cases "resolve_manifest_dependency_candidate env root d")
    case (Some c)
    obtain to s1 where to: "resolve_dependency_root (env_fs env) (env_policy env) c (cargo_toml root) (dependency_key d) = Inr to"
      "visit_manifest_recursive n env (abs_path (cargo_toml to)) False
         (s\<lparr>mv_partial := add_edge root to (dependency_key d) (mv_partial s)\<rparr>) = Some (Inr s1)"
      "visit_dependencies n env root ds s1 = Some (Inr s')"
      using Cons.prems(1) Some by (auto split: result_splits)
    have "(root, to) \<in> dep_rel path_dependencies env"
      using doc Some to(1) Cons.prems(2) by (auto simp: dep_rel_def dep_target_def)
    then have "active_ok env M (s\<lparr>mv_partial := add_edge root to (dependency_key d) (mv_partial s)\<rparr>)"
      using Cons.prems(3) by (simp add: active_ok_def)
    then show ?thesis using visit [OF to(2)] Cons.IH [OF to(3)] Cons.prems(2) by simp
  qed (use Cons in auto)
qed simp

lemma visit_manifest_active:
  assumes "stable (env_fs env) (env_policy env)" "set (env_members env) \<subseteq> M"
  shows "visit_manifest_recursive n env m mark s = Some (Inr s') \<Longrightarrow> (mark \<longrightarrow> m \<in> M) \<Longrightarrow>
    active_ok env M s \<Longrightarrow> active_ok env M s'"
proof (induction n arbitrary: m mark s s')
  case (Suc n)
  obtain root where root: "manifest_package_root env m = Inr root"
    using Suc.prems(1) by (auto split: result_splits)
  have again: "manifest_package_root env (abs_path (cargo_toml root)) = Inr root"
    using stable_root_again(1) [OF assms(1) root] .
  have member: "root \<in> entry_roots env M" if "mark \<or> abs_path (cargo_toml root) \<in> set (env_members env)"
    using that root again assms(2) Suc.prems(2) by (auto simp: entry_roots_def)
  consider "map_of (mv_states s) root = None" | "map_of (mv_states s) root = Some Visited"
    using Suc.prems(1) root by (auto split: option.splits visit_state.splits)
  then show ?case
  proof cases
    case 1
    obtain doc cache s1 where doc: "cached_document env (cargo_toml root) (manifest_cache s) = Inr (doc, cache)"
      and deps: "visit_dependencies n env root (path_dependencies doc)
        (s\<lparr>mv_states := AList.update root Visiting (mv_states s), mv_stack := mv_stack s @ [root],
           manifest_cache := cache, mv_partial := register_package env root doc mark (mv_partial s)\<rparr>) = Some (Inr s1)"
      and s': "s' = s1\<lparr>mv_states := AList.update root Visited (mv_states s1), mv_stack := butlast (mv_stack s1)\<rparr>"
      using Suc.prems(1) root 1 by (auto split: result_splits)
    note c = cached_document_ok [OF _ doc]
    have read: "read_manifest_document (env_parse env) (cargo_toml root) = Inr doc" "cache_ok env cache"
      using c Suc.prems(3) by (auto simp: active_ok_def)
    have "set (pg_roots (register_package env root doc mark (mv_partial s))) \<subseteq> entry_roots env M"
      using roots_register [of env root doc mark "mv_partial s"] member Suc.prems(3)
      by (auto simp: active_ok_def split: if_splits)
    then have "active_ok env M s1"
      using visit_dependencies_active [OF Suc.IH read(1) deps] Suc.prems(3) read(2) by (simp add: active_ok_def)
    then show ?thesis using s' by (simp add: active_ok_def)
  next
    case 2
    then have "s' = s\<lparr>mv_partial := revisit mark root (mv_partial s)\<rparr>" using Suc.prems(1) root by simp
    then show ?thesis
      using roots_revisit [of mark root "mv_partial s"] member Suc.prems(3)
      by (auto simp: active_ok_def split: if_splits)
  qed
qed simp

lemma visit_all_keeps:
  assumes "\<And>x s s'. x \<in> set xs \<Longrightarrow> f x s = Some (Inr s') \<Longrightarrow> P s \<Longrightarrow> P s'"
  shows "visit_all f xs s = Some (Inr s') \<Longrightarrow> P s \<Longrightarrow> P s'"
  using assms
proof (induction xs arbitrary: s)
  case (Cons x xs)
  from Cons.prems(1) obtain s1 where "f x s = Some (Inr s1)" "visit_all f xs s1 = Some (Inr s')"
    by (auto split: result_splits)
  moreover from this have "P s1" using Cons.prems(2,3) by auto
  ultimately show ?case using Cons.IH [of s1] Cons.prems(3) by (meson list.set_intros(2))
qed simp

subsection \<open>The materialization closure is closed\<close>

definition mat_ok :: "manifest_env \<Rightarrow> materialization_visit \<Rightarrow> bool" where
  "mat_ok env s \<longleftrightarrow> cache_ok env (mz_cache s) \<and> set (mz_visited s) \<subseteq> fst ` set (pg_packages (mz_partial s))"

text \<open>A step adds packages whose dependencies are visited when it ends.\<close>

definition mat_step :: "manifest_env \<Rightarrow> materialization_visit \<Rightarrow> materialization_visit \<Rightarrow> bool" where
  "mat_step env s s' \<longleftrightarrow>
     mat_ok env s' \<and> set (mz_visited s) \<subseteq> set (mz_visited s') \<and>
     dep_rel materialization_path_dependencies env `` (set (mz_visited s') - set (mz_visited s)) \<subseteq> set (mz_visited s')"

lemma mat_step_trans: "mat_step env s s1 \<Longrightarrow> mat_step env s1 s2 \<Longrightarrow> mat_step env s s2"
  unfolding mat_step_def by blast

lemma materialize_dependencies_step:
  assumes visit: "\<And>m mark s s'. visit_manifest_for_materialization n env m mark s = Some (Inr s') \<Longrightarrow> mat_ok env s \<Longrightarrow>
      mat_step env s s' \<and> (\<exists>root. manifest_package_root env m = Inr root \<and> root \<in> set (mz_visited s'))"
    and st: "stable (env_fs env) (env_policy env)"
  shows "materialize_dependencies n env root ds s = Some (Inr s') \<Longrightarrow> mat_ok env s \<Longrightarrow>
    mat_step env s s' \<and> (\<forall>d \<in> set ds. \<forall>to. dep_target env root d = Some to \<longrightarrow> to \<in> set (mz_visited s'))"
proof (induction ds arbitrary: s)
  case Nil
  then show ?case by (simp add: mat_step_def)
next
  case (Cons d ds)
  show ?case
  proof (cases "resolve_manifest_dependency_candidate env root d")
    case None
    then show ?thesis using Cons by (simp add: dep_target_def)
  next
    case (Some c)
    let ?s = "s\<lparr>mz_partial := add_edge root to (dependency_key d) (mz_partial s)\<rparr>"
    obtain to s1 where to: "resolve_dependency_root (env_fs env) (env_policy env) c (cargo_toml root) (dependency_key d) = Inr to"
      "visit_manifest_for_materialization n env (abs_path (cargo_toml to)) False
         (s\<lparr>mz_partial := add_edge root to (dependency_key d) (mz_partial s)\<rparr>) = Some (Inr s1)"
      "materialize_dependencies n env root ds s1 = Some (Inr s')"
      using Cons.prems(1) Some by (auto split: result_splits)
    have "mat_ok env (s\<lparr>mz_partial := add_edge root to (dependency_key d) (mz_partial s)\<rparr>)"
      using Cons.prems(2) by (simp add: mat_ok_def)
    then have 1: "mat_step env s s1" "to \<in> set (mz_visited s1)"
      using visit [OF to(2)] stable_dependency_root [OF st to(1)] by (auto simp: mat_step_def)
    then have 2: "mat_step env s1 s'" "\<forall>d \<in> set ds. \<forall>to. dep_target env root d = Some to \<longrightarrow> to \<in> set (mz_visited s')"
      using Cons.IH [OF to(3)] by (simp_all add: mat_step_def)
    have "dep_target env root d = Some to" using Some to(1) by (simp add: dep_target_def)
    moreover have "to \<in> set (mz_visited s')" using 1(2) 2(1) by (auto simp: mat_step_def)
    ultimately show ?thesis using mat_step_trans [OF 1(1) 2(1)] 2(2) by simp
  qed
qed

lemma visit_materialization_step:
  assumes st: "stable (env_fs env) (env_policy env)"
  shows "visit_manifest_for_materialization n env m mark s = Some (Inr s') \<Longrightarrow> mat_ok env s \<Longrightarrow>
    mat_step env s s' \<and> (\<exists>root. manifest_package_root env m = Inr root \<and> root \<in> set (mz_visited s'))"
proof (induction n arbitrary: m mark s s')
  case (Suc n)
  obtain root where root: "manifest_package_root env m = Inr root"
    using Suc.prems(1) by (auto split: result_splits)
  show ?case
  proof (cases "root \<in> set (mz_visited s)")
    case True
    then show ?thesis using Suc.prems root by (auto simp: mat_step_def mat_ok_def)
  next
    case False
    let ?s = "\<lambda>doc cache. \<lparr>mz_partial = register_package env root doc mark (mz_partial s), mz_cache = cache,
      mz_visited = insort_insert root (mz_visited s)\<rparr>"
    obtain doc cache where doc: "cached_document env (cargo_toml root) (mz_cache s) = Inr (doc, cache)"
      and deps: "materialize_dependencies n env root (materialization_path_dependencies doc) (?s doc cache) = Some (Inr s')"
      using Suc.prems(1) root False by (auto split: result_splits)
    have read: "read_manifest_document (env_parse env) (cargo_toml root) = Inr doc" "cache_ok env cache"
      using cached_document_ok [OF _ doc] Suc.prems(2) by (auto simp: mat_ok_def)
    have "mat_ok env (?s doc cache)" using Suc.prems(2) read(2) by (auto simp: mat_ok_def)
    then have step: "mat_step env (?s doc cache) s'"
      "\<forall>d \<in> set (materialization_path_dependencies doc). \<forall>to. dep_target env root d = Some to \<longrightarrow> to \<in> set (mz_visited s')"
      using materialize_dependencies_step [OF Suc.IH st deps] by auto
    have "dep_rel materialization_path_dependencies env `` {root} \<subseteq> set (mz_visited s')"
      using step(2) read(1) by (auto simp: dep_rel_def)
    then show ?thesis using step(1) root by (auto simp: mat_step_def)
  qed
qed simp

lemma visit_all_materialization:
  assumes "\<And>x s s'. f x s = Some (Inr s') \<Longrightarrow> mat_ok env s \<Longrightarrow> mat_step env s s' \<and> Q x s'"
    and mono: "\<And>x s s'. Q x s \<Longrightarrow> mat_step env s s' \<Longrightarrow> Q x s'"
  shows "visit_all f xs s = Some (Inr s') \<Longrightarrow> mat_ok env s \<Longrightarrow> mat_step env s s' \<and> (\<forall>x \<in> set xs. Q x s')"
proof (induction xs arbitrary: s)
  case Nil
  then show ?case by (simp add: mat_step_def)
next
  case (Cons x xs)
  from Cons.prems(1) obtain s1 where s1: "f x s = Some (Inr s1)" "visit_all f xs s1 = Some (Inr s')"
    by (auto split: result_splits)
  note a = assms(1) [OF s1(1) Cons.prems(2)]
  then have b: "mat_step env s1 s' \<and> (\<forall>x \<in> set xs. Q x s')" using Cons.IH [OF s1(2)] by (simp add: mat_step_def)
  then show ?case using a mat_step_trans mono by auto
qed

lemma materialize_inherited_step:
  assumes "stable (env_fs env) (env_policy env)" "materialize_inherited n env entry d s = Some (Inr s')" "mat_ok env s"
  shows "mat_step env s s'"
  using assms visit_materialization_step by (auto simp: materialize_inherited_def split: result_splits)

text \<open>A closure that was computed contains the entry packages and every local dependency of its
  packages, in whatever table it is declared.\<close>

lemma materialization_closed:
  assumes st: "stable fs policy" and su: "manifest_setup fs policy parse list_dir entry = Inr (doc, env)"
    and ok: "resolve_materialization_from_manifests n fs policy parse list_dir entry = Some (Inr c)"
  obtains V where "V \<subseteq> set (map package_root (packages c))"
    "entry_roots env (set (entry_manifests entry doc env)) \<subseteq> V"
    "dep_rel materialization_path_dependencies env `` V \<subseteq> V"
proof -
  have env: "stable (env_fs env) (env_policy env)" "env_parse env = parse" "read_manifest_document parse entry = Inr doc"
    using su st by (auto simp: manifest_setup_def and_then_def split: result_splits)
  let ?s0 = "\<lparr>mz_partial = start_graph doc env, mz_cache = [(entry, doc)], mz_visited = []\<rparr>"
  obtain s s' where s: "visit_all (\<lambda>m. visit_manifest_for_materialization n env m True) (entry_manifests entry doc env) ?s0 = Some (Inr s)"
    "visit_all (materialize_inherited n env entry) (btree_iter (env_workspace_deps env) @ btree_iter (env_patch_deps env)) s = Some (Inr s')"
    and c: "c = finalize_materialization_closure entry (mz_partial s')"
    using ok su by (auto simp: resolve_materialization_from_manifests_def split: result_splits)
  have start: "mat_ok env ?s0" using env(2,3) by (simp add: mat_ok_def cache_ok_def)
  have 1: "mat_step env ?s0 s \<and> (\<forall>m \<in> set (entry_manifests entry doc env).
      \<exists>root. manifest_package_root env m = Inr root \<and> root \<in> set (mz_visited s))"
    by (rule visit_all_materialization [OF _ _ s(1) start], rule visit_materialization_step [OF env(1)])
      (auto simp: mat_step_def)
  then have "mat_ok env s" by (simp add: mat_step_def)
  then have 2: "mat_step env s s'"
    using visit_all_materialization [of _ env "\<lambda>_ _. True", OF _ _ s(2)] materialize_inherited_step [OF env(1)]
    by blast
  show thesis
  proof (rule that [of "set (mz_visited s')"])
    have "map package_root (packages c) = map fst (btree_iter (pg_packages (mz_partial s')))"
      by (simp add: c finalize_materialization_closure_def case_prod_beta)
    then have "set (map package_root (packages c)) = fst ` set (pg_packages (mz_partial s'))"
      by (simp add: btree_iter_def comp_def)
    then show "set (mz_visited s') \<subseteq> set (map package_root (packages c))"
      using 2 by (simp add: mat_step_def mat_ok_def)
    show "entry_roots env (set (entry_manifests entry doc env)) \<subseteq> set (mz_visited s')"
      using 1 2 by (fastforce simp: entry_roots_def mat_step_def)
    have "mat_step env ?s0 s'" using 1 2 mat_step_trans by blast
    then show "dep_rel materialization_path_dependencies env `` set (mz_visited s') \<subseteq> set (mz_visited s')"
      by (simp add: mat_step_def)
  qed
qed

text \<open>C13: Every package of the active graph is in the materialization closure, whose computation follows
  all dependency tables: what the build needs is on the worker.\<close>

theorem active_graph_materialized:
  assumes host: "linked_alias fs policy"
    and active: "resolve_from_manifest_fallback n fs policy parse list_dir entry = Some (Inr g)"
    and all: "resolve_materialization_from_manifests n' fs policy parse list_dir entry = Some (Inr c)"
  shows "set (map package_root (packages g)) \<subseteq> set (map package_root (packages c)) \<and>
    (\<forall>e \<in> set (edges g). edge_to e \<in> set (map package_root (packages c)))"
proof -
  have st: "stable fs policy" by (rule linked_alias_stable [OF host])
  obtain doc env s where su: "manifest_setup fs policy parse list_dir entry = Inr (doc, env)"
    and s: "visit_all (\<lambda>m. visit_manifest_recursive n env m True) (entry_manifests entry doc env)
        \<lparr>mv_partial = start_graph doc env, manifest_cache = [], mv_states = [], mv_stack = []\<rparr> = Some (Inr s)"
    and g: "finalize_graph entry (mv_partial s) = Some (Inr g)"
    using active by (auto simp: resolve_from_manifest_fallback_def split: result_splits)
  let ?M = "set (entry_manifests entry doc env)" and ?adj = "pg_adjacency (mv_partial s)"
  have env: "stable (env_fs env) (env_policy env)"
    using su st by (auto simp: manifest_setup_def and_then_def split: result_splits)
  have "active_ok env ?M s"
    by (rule visit_all_keeps [OF _ s, of "active_ok env ?M"], rule visit_manifest_active [OF env])
      (auto simp: entry_manifests_def active_ok_def cache_ok_def)
  then have ok: "edge_rel ?adj \<subseteq> dep_rel path_dependencies env" "set (pg_roots (mv_partial s)) \<subseteq> entry_roots env ?M"
    by (auto simp: active_ok_def)
  obtain V where V: "V \<subseteq> set (map package_root (packages c))" "entry_roots env ?M \<subseteq> V"
    "dep_rel materialization_path_dependencies env `` V \<subseteq> V"
    using materialization_closed [OF st su all] by blast
  have "(edge_rel ?adj)\<^sup>* `` set (pg_roots (mv_partial s)) \<subseteq> V"
  proof -
    have closed: "edge_rel ?adj `` V \<subseteq> V" using ok(1) dep_rel_materialized V(3) by blast
    have "b \<in> V" if "(a, b) \<in> (edge_rel ?adj)\<^sup>*" "a \<in> V" for a b
      using that by (induction rule: rtrancl_induct) (use closed in auto)
    then show ?thesis using ok(2) V(2) by blast
  qed
  then show ?thesis using V(1) finalized_graph_nodes [OF g] by blast
qed

section \<open>The recursions end\<close>

text \<open>Package roots are real paths, of which a finite host has finitely many.\<close>

definition host_paths :: "file_system \<Rightarrow> cpath set" where
  "host_paths fs = insert [] (dom (nodes fs))"

lemma package_root_host_path:
  "stable (env_fs env) (env_policy env) \<Longrightarrow> manifest_package_root env m = Inr root \<Longrightarrow> root \<in> host_paths (env_fs env)"
  using stable_root_again(2) by (fastforce simp: real_def host_paths_def)

definition mv_visiting :: "manifest_visit \<Rightarrow> cpath set" where
  "mv_visiting s = {v. map_of (mv_states s) v = Some Visiting}"

definition mv_stack_ok :: "manifest_env \<Rightarrow> manifest_visit \<Rightarrow> bool" where
  "mv_stack_ok env s \<longleftrightarrow>
     distinct (mv_stack s) \<and> set (mv_stack s) = mv_visiting s \<and> set (mv_stack s) \<subseteq> host_paths (env_fs env)"

text \<open>What is shown of a call: it returns, and a success leaves the stack as it was.\<close>

definition returns ::
  "manifest_env \<Rightarrow> cpath list \<Rightarrow> (cargo_path_dependency_error + manifest_visit) option \<Rightarrow> bool" where
  "returns env st r \<longleftrightarrow> r \<noteq> None \<and> (\<forall>s'. r = Some (Inr s') \<longrightarrow> mv_stack_ok env s' \<and> mv_stack s' = st)"

lemma mv_stack_ok_partial [simp]: "mv_stack_ok env (s\<lparr>mv_partial := g\<rparr>) = mv_stack_ok env s"
  by (simp add: mv_stack_ok_def mv_visiting_def)

lemma mv_stack_ok_push:
  assumes "mv_stack_ok env s" "map_of (mv_states s) root = None" "root \<in> host_paths (env_fs env)"
  shows "mv_stack_ok env (s\<lparr>mv_states := AList.update root Visiting (mv_states s), mv_stack := mv_stack s @ [root],
    manifest_cache := cache, mv_partial := g\<rparr>)"
proof -
  have "mv_visiting (s\<lparr>mv_states := AList.update root Visiting (mv_states s), mv_stack := mv_stack s @ [root],
    manifest_cache := cache, mv_partial := g\<rparr>) = insert root (mv_visiting s)"
    by (auto simp: mv_visiting_def update_conv)
  moreover have "root \<notin> mv_visiting s" using assms(2) by (simp add: mv_visiting_def)
  ultimately show ?thesis using assms(1,3) by (auto simp: mv_stack_ok_def)
qed

lemma mv_stack_ok_pop:
  assumes "mv_stack_ok env s" "mv_stack s = st @ [root]"
  shows "mv_stack_ok env (s\<lparr>mv_states := AList.update root Visited (mv_states s), mv_stack := butlast (mv_stack s)\<rparr>)"
proof -
  have "mv_visiting (s\<lparr>mv_states := AList.update root Visited (mv_states s), mv_stack := butlast (mv_stack s)\<rparr>)
    = mv_visiting s - {root}"
    by (auto simp: mv_visiting_def update_conv)
  moreover have "set st = mv_visiting s - {root}" "distinct st" "set st \<subseteq> host_paths (env_fs env)"
    using assms by (auto simp: mv_stack_ok_def)
  ultimately show ?thesis using assms(2) by (simp add: mv_stack_ok_def)
qed

lemma visit_dependencies_returns:
  assumes "\<And>m s. mv_stack_ok env s \<Longrightarrow> mv_stack s = st \<Longrightarrow> returns env st (visit_manifest_recursive n env m False s)"
  shows "mv_stack_ok env s \<Longrightarrow> mv_stack s = st \<Longrightarrow> returns env st (visit_dependencies n env root ds s)"
proof (induction ds arbitrary: s)
  case (Cons d ds)
  show ?case
  proof (cases "resolve_manifest_dependency_candidate env root d")
    case (Some c)
    show ?thesis
    proof (cases "resolve_dependency_root (env_fs env) (env_policy env) c (cargo_toml root) (dependency_key d)")
      case (Inr to)
      let ?s = "s\<lparr>mv_partial := add_edge root to (dependency_key d) (mv_partial s)\<rparr>"
      have "mv_stack_ok env ?s" "mv_stack ?s = st" using Cons.prems by simp_all
      then have "returns env st (visit_manifest_recursive n env (abs_path (cargo_toml to)) False ?s)" by (rule assms)
      then obtain x where x: "visit_manifest_recursive n env (abs_path (cargo_toml to)) False ?s = Some x"
        "\<forall>s'. x = Inr s' \<longrightarrow> mv_stack_ok env s' \<and> mv_stack s' = st"
        by (auto simp: returns_def)
      then show ?thesis
      proof (cases x)
        case (Inr s')
        then show ?thesis using Some \<open>_ = Inr to\<close> x Cons.IH [of s'] by simp
      qed (use Some \<open>_ = Inr to\<close> in \<open>simp add: returns_def\<close>)
    qed (use Some in \<open>simp add: returns_def\<close>)
  qed (use Cons in simp)
qed (simp add: returns_def)

lemma visit_manifest_returns:
  assumes st: "stable (env_fs env) (env_policy env)" and fin: "finite (host_paths (env_fs env))"
  shows "mv_stack_ok env s \<Longrightarrow> card (host_paths (env_fs env)) < n + length (mv_stack s) \<Longrightarrow>
    returns env (mv_stack s) (visit_manifest_recursive n env m mark s)"
proof (induction n arbitrary: m mark s)
  case 0
  have "length (mv_stack s) \<le> card (host_paths (env_fs env))"
    using 0 fin by (metis card_mono distinct_card mv_stack_ok_def)
  then show ?case using 0 by simp
next
  case (Suc n)
  show ?case
  proof (cases "manifest_package_root env m")
    case (Inr root)
    consider "map_of (mv_states s) root = Some Visiting" | "map_of (mv_states s) root = Some Visited"
      | "map_of (mv_states s) root = None"
      by (metis not_None_eq visit_state.exhaust)
    then show ?thesis
    proof cases
      case 3
      show ?thesis
      proof (cases "cached_document env (cargo_toml root) (manifest_cache s)")
        case (Inr dc)
        obtain doc cache where dc: "dc = (doc, cache)" by fastforce
        let ?s = "s\<lparr>mv_states := AList.update root Visiting (mv_states s), mv_stack := mv_stack s @ [root],
          manifest_cache := cache, mv_partial := register_package env root doc mark (mv_partial s)\<rparr>"
        have root: "root \<in> host_paths (env_fs env)"
          using package_root_host_path [OF st \<open>manifest_package_root env m = Inr root\<close>] .
        have ok: "mv_stack_ok env ?s" using mv_stack_ok_push [OF Suc.prems(1) 3 root] .
        have "returns env (mv_stack s @ [root]) (visit_dependencies n env root (path_dependencies doc) ?s)"
          by (rule visit_dependencies_returns [OF _ ok]) (use Suc.IH Suc.prems(2) in fastforce)+
        then show ?thesis
          using \<open>manifest_package_root env m = Inr root\<close> 3 Inr dc mv_stack_ok_pop
          by (auto simp: returns_def split: sum.splits)
      qed (use Inr 3 in \<open>simp add: returns_def\<close>)
    qed (use Inr Suc.prems(1) in \<open>simp_all add: returns_def\<close>)
  qed (simp add: returns_def)
qed

text \<open>The visited set of the closure grows with every level of its recursion.\<close>

definition mat_room :: "manifest_env \<Rightarrow> nat \<Rightarrow> materialization_visit \<Rightarrow> bool" where
  "mat_room env n s \<longleftrightarrow>
     set (mz_visited s) \<subseteq> host_paths (env_fs env) \<and>
     card (host_paths (env_fs env)) < n + card (set (mz_visited s))"

lemma mat_room_grows:
  assumes "finite (host_paths (env_fs env))" "mat_room env n s" "set (mz_visited s) \<subseteq> set (mz_visited s')"
    "set (mz_visited s') \<subseteq> host_paths (env_fs env)"
  shows "mat_room env n s'"
  using assms card_mono [of "set (mz_visited s')" "set (mz_visited s)"] by (auto simp: mat_room_def)

definition mat_returns ::
  "manifest_env \<Rightarrow> nat \<Rightarrow> (cargo_path_dependency_error + materialization_visit) option \<Rightarrow> bool" where
  "mat_returns env n r \<longleftrightarrow> r \<noteq> None \<and> (\<forall>s'. r = Some (Inr s') \<longrightarrow> mat_room env n s')"

lemma mat_returns_Suc: "mat_returns env n r \<Longrightarrow> mat_returns env (Suc n) r"
  unfolding mat_returns_def mat_room_def by (auto intro: less_SucI)

lemma materialize_dependencies_returns:
  assumes visit: "\<And>m s. mat_room env n s \<Longrightarrow> mat_returns env n (visit_manifest_for_materialization n env m False s)"
  shows "mat_room env n s \<Longrightarrow> mat_returns env n (materialize_dependencies n env root ds s)"
proof (induction ds arbitrary: s)
  case (Cons d ds)
  show ?case
  proof (cases "resolve_manifest_dependency_candidate env root d")
    case (Some c)
    show ?thesis
    proof (cases "resolve_dependency_root (env_fs env) (env_policy env) c (cargo_toml root) (dependency_key d)")
      case (Inr to)
      let ?s = "s\<lparr>mz_partial := add_edge root to (dependency_key d) (mz_partial s)\<rparr>"
      have "mat_room env n ?s" using Cons.prems by (simp add: mat_room_def)
      then have "mat_returns env n (visit_manifest_for_materialization n env (abs_path (cargo_toml to)) False ?s)"
        by (rule visit)
      then obtain x where x: "visit_manifest_for_materialization n env (abs_path (cargo_toml to)) False ?s = Some x"
        "\<forall>s'. x = Inr s' \<longrightarrow> mat_room env n s'"
        by (auto simp: mat_returns_def)
      then show ?thesis
      proof (cases x)
        case (Inr s')
        then show ?thesis using Some \<open>_ = Inr to\<close> x Cons.IH [of s'] by simp
      qed (use Some \<open>_ = Inr to\<close> in \<open>simp add: mat_returns_def\<close>)
    qed (use Some in \<open>simp add: mat_returns_def\<close>)
  qed (use Cons in simp)
qed (simp add: mat_returns_def)

lemma visit_materialization_returns:
  assumes st: "stable (env_fs env) (env_policy env)" and fin: "finite (host_paths (env_fs env))"
  shows "mat_room env n s \<Longrightarrow> mat_returns env n (visit_manifest_for_materialization n env m mark s)"
proof (induction n arbitrary: m mark s)
  case 0
  then have "card (set (mz_visited s)) \<le> card (host_paths (env_fs env))"
    using card_mono [OF fin] by (simp add: mat_room_def)
  then show ?case using 0 by (simp add: mat_room_def)
next
  case (Suc n)
  show ?case
  proof (cases "manifest_package_root env m")
    case (Inr root)
    show ?thesis
    proof (cases "root \<in> set (mz_visited s)")
      case True
      then show ?thesis using Inr Suc.prems by (simp add: mat_returns_def mat_room_def)
    next
      case new: False
      show ?thesis
      proof (cases "cached_document env (cargo_toml root) (mz_cache s)")
        case (Inr dc)
        let ?s = "\<lparr>mz_partial = register_package env root (fst dc) mark (mz_partial s), mz_cache = snd dc,
          mz_visited = insort_insert root (mz_visited s)\<rparr>"
        have "root \<in> host_paths (env_fs env)"
          using package_root_host_path [OF st \<open>manifest_package_root env m = Inr root\<close>] .
        then have "mat_room env n ?s" using Suc.prems new by (simp add: mat_room_def)
        then have "mat_returns env n (materialize_dependencies n env root (materialization_path_dependencies (fst dc)) ?s)"
          using materialize_dependencies_returns [OF Suc.IH] by blast
        moreover obtain doc cache where "dc = (doc, cache)" by fastforce
        ultimately show ?thesis
          using \<open>manifest_package_root env m = Inr root\<close> new Inr mat_returns_Suc by simp
      qed (use Inr new in \<open>simp add: mat_returns_def\<close>)
    qed
  qed (simp add: mat_returns_def)
qed

lemma visit_all_returns:
  assumes "\<And>x s. P s \<Longrightarrow> f x s \<noteq> None" "\<And>x s s'. P s \<Longrightarrow> f x s = Some (Inr s') \<Longrightarrow> P s'"
  shows "P s \<Longrightarrow> visit_all f xs s \<noteq> None"
proof (induction xs arbitrary: s)
  case (Cons x xs)
  obtain y where "f x s = Some y" using assms(1) Cons.prems by blast
  then show ?case using assms(2) Cons by (cases y) auto
qed simp

lemma host_paths_card:
  "finite (dom (nodes fs)) \<Longrightarrow> finite (host_paths fs) \<and> card (host_paths fs) \<le> Suc (card (dom (nodes fs)))"
  by (simp add: host_paths_def card_insert_if)

lemma fallback_visits_return:
  assumes st: "stable (env_fs env) (env_policy env)" and fin: "finite (host_paths (env_fs env))"
    and N: "card (host_paths (env_fs env)) < n"
  shows "visit_all (\<lambda>m. visit_manifest_recursive n env m True) ms
    \<lparr>mv_partial = g, manifest_cache = [], mv_states = [], mv_stack = []\<rparr> \<noteq> None"
proof -
  let ?P = "\<lambda>s. mv_stack_ok env s \<and> mv_stack s = []"
  have visit: "returns env [] (visit_manifest_recursive n env m True s)" if "?P s" for m s
    using visit_manifest_returns [OF st fin, of s n m True] that N by simp
  show ?thesis
  proof (rule visit_all_returns [where P = ?P])
    show "visit_manifest_recursive n env m True s \<noteq> None" if "?P s" for m s
      using visit [OF that, of m] by (simp add: returns_def)
    show "?P s'" if "?P s" "visit_manifest_recursive n env m True s = Some (Inr s')" for m s s'
      using visit [OF that(1), of m] that(2) by (simp add: returns_def)
  qed (simp add: mv_stack_ok_def mv_visiting_def)
qed

lemma materialization_visits_return:
  assumes st: "stable (env_fs env) (env_policy env)" and fin: "finite (host_paths (env_fs env))"
    and N: "card (host_paths (env_fs env)) < n"
  shows "case visit_all (\<lambda>m. visit_manifest_for_materialization n env m True) ms
      \<lparr>mz_partial = g, mz_cache = c, mz_visited = []\<rparr> of
    None \<Rightarrow> False | Some (Inl e) \<Rightarrow> True | Some (Inr s) \<Rightarrow> visit_all (materialize_inherited n env entry) ds s \<noteq> None"
proof -
  let ?s = "\<lparr>mz_partial = g, mz_cache = c, mz_visited = []\<rparr>"
  let ?r = "visit_all (\<lambda>m. visit_manifest_for_materialization n env m True) ms ?s"
  have mat: "mat_returns env n (visit_manifest_for_materialization n env m mark s)" if "mat_room env n s" for m mark s
    using visit_materialization_returns [OF st fin that] .
  have start: "mat_room env n ?s" using N by (simp add: mat_room_def)
  have "?r \<noteq> None"
    by (rule visit_all_returns [where P = "mat_room env n"]) (use mat start in \<open>simp_all add: mat_returns_def\<close>)
  moreover have "mat_room env n s" if "?r = Some (Inr s)" for s
    by (rule visit_all_keeps [where P = "mat_room env n", OF _ that start]) (use mat in \<open>simp add: mat_returns_def\<close>)
  moreover have "visit_all (materialize_inherited n env entry) ds s \<noteq> None" if "mat_room env n s" for s
    by (rule visit_all_returns [where P = "mat_room env n"])
      (use that mat in \<open>simp_all add: materialize_inherited_def mat_returns_def split: sum.splits\<close>)
  ultimately show ?thesis by (simp split: option.splits sum.splits)
qed

text \<open>C39: On a finite host both resolutions return once the depth bound exceeds the number of its paths.\<close>

theorem manifest_resolution_returns:
  assumes host: "linked_alias fs policy" "finite (dom (nodes fs))" and n: "Suc (card (dom (nodes fs))) < n"
  shows "resolve_from_manifest_fallback n fs policy parse list_dir entry \<noteq> None \<and>
    resolve_materialization_from_manifests n fs policy parse list_dir entry \<noteq> None"
proof (cases "manifest_setup fs policy parse list_dir entry")
  case (Inr de)
  obtain doc env where de: "de = (doc, env)" by fastforce
  have env: "env_fs env = fs" "env_policy env = policy"
    using Inr de by (auto simp: manifest_setup_def and_then_def split: result_splits)
  have st: "stable (env_fs env) (env_policy env)" using linked_alias_stable [OF host(1)] env by simp
  have fin: "finite (host_paths (env_fs env))" and N: "card (host_paths (env_fs env)) < n"
    using host_paths_card [OF host(2)] n env by auto
  have "resolve_from_manifest_fallback n fs policy parse list_dir entry \<noteq> None"
    using Inr de fallback_visits_return [OF st fin N] finalize_graph_returns
    by (simp add: resolve_from_manifest_fallback_def split: option.splits sum.splits)
  moreover have "resolve_materialization_from_manifests n fs policy parse list_dir entry \<noteq> None"
    using Inr de materialization_visits_return [OF st fin N, where ms = "entry_manifests entry doc env" and g = "start_graph doc env"
        and c = "[(entry, doc)]" and entry = entry
        and ds = "btree_iter (env_workspace_deps env) @ btree_iter (env_patch_deps env)"]
    by (auto simp: resolve_materialization_from_manifests_def split: option.splits sum.splits)
  ultimately show ?thesis by simp
qed (simp add: resolve_from_manifest_fallback_def resolve_materialization_from_manifests_def)

section \<open>A workspace\<close>

text \<open>An application, a library it uses and a tool the library needs for its tests only.\<close>

definition sample_workspace :: file_system where
  "sample_workspace = \<lparr>nodes = map_of [([''data''], Directory), ([''data'', ''projects''], Directory),
     ([''data'', ''projects'', ''app''], Directory), ([''data'', ''projects'', ''app'', ''Cargo.toml''], File),
     ([''data'', ''projects'', ''lib''], Directory), ([''data'', ''projects'', ''lib'', ''Cargo.toml''], File),
     ([''data'', ''projects'', ''tool''], Directory), ([''data'', ''projects'', ''tool'', ''Cargo.toml''], File),
     ([''dp''], Symlink (path_from ''/data/projects''))], cwd = [], link_limit = 40\<rparr>"

definition sample_parse :: "cpath \<Rightarrow> toml_table option" where
  "sample_parse = map_of
     [([''data'', ''projects'', ''app'', ''Cargo.toml''],
        [(''package'', TTable [(''name'', TString ''app'')]),
         (''dependencies'', TTable [(''lib'', TTable [(''path'', TString ''../lib'')])])]),
      ([''data'', ''projects'', ''lib'', ''Cargo.toml''],
        [(''package'', TTable [(''name'', TString ''lib'')]),
         (''dev-dependencies'', TTable [(''tool'', TTable [(''path'', TString ''../tool'')])])]),
      ([''data'', ''projects'', ''tool'', ''Cargo.toml''],
        [(''package'', TTable [(''name'', TString ''tool'')])])]"

abbreviation sample_entry :: cpath where
  "sample_entry \<equiv> [''data'', ''projects'', ''app'', ''Cargo.toml'']"

lemma sample_workspace_linked: "linked_alias sample_workspace default_policy"
  unfolding linked_alias_def
proof (intro exI conjI)
  show "wf_fs sample_workspace" by (simp add: wf_fs_def sample_workspace_def)
  show "alias_root default_policy = abs_path [''dp'']" by code_simp
  show "nodes sample_workspace [''dp''] = Some (Symlink (path_from ''/data/projects''))"
    by (simp add: sample_workspace_def)
  show "canonicalize sample_workspace (canonical_root default_policy) = Inr [''data'', ''projects'']" by code_simp
  show "canonicalize sample_workspace (absolute_target (alias_root default_policy) (path_from ''/data/projects'')) =
    Inr [''data'', ''projects'']" by code_simp
qed simp_all

lemma sample_active:
  "case resolve_from_manifest_fallback 12 sample_workspace default_policy sample_parse (\<lambda>_. None) sample_entry of
     Some (Inr g) \<Rightarrow> map package_root (packages g) = [[''data'', ''projects'', ''app''], [''data'', ''projects'', ''lib'']]
   | _ \<Rightarrow> False"
  by code_simp

lemma sample_path_closure:
  "case resolve_materialization_from_manifests 12 sample_workspace default_policy sample_parse (\<lambda>_. None) sample_entry of
     Some (Inr c) \<Rightarrow> map package_root (packages c) =
       [[''data'', ''projects'', ''app''], [''data'', ''projects'', ''lib''], [''data'', ''projects'', ''tool'']]
   | _ \<Rightarrow> False"
  by code_simp

theorem active_graph_materialized_witness:
  "\<exists>g c. resolve_from_manifest_fallback 12 sample_workspace default_policy sample_parse (\<lambda>_. None) sample_entry = Some (Inr g) \<and>
     resolve_materialization_from_manifests 12 sample_workspace default_policy sample_parse (\<lambda>_. None) sample_entry = Some (Inr c) \<and>
     set (map package_root (packages g)) \<subseteq> set (map package_root (packages c)) \<and>
     [''data'', ''projects'', ''lib''] \<in> set (map package_root (packages g))"
proof -
  obtain g where g: "resolve_from_manifest_fallback 12 sample_workspace default_policy sample_parse (\<lambda>_. None) sample_entry = Some (Inr g)"
    "map package_root (packages g) = [[''data'', ''projects'', ''app''], [''data'', ''projects'', ''lib'']]"
    using sample_active by (auto split: option.splits sum.splits)
  obtain c where c: "resolve_materialization_from_manifests 12 sample_workspace default_policy sample_parse (\<lambda>_. None) sample_entry = Some (Inr c)"
    using sample_path_closure by (auto split: option.splits sum.splits)
  show ?thesis
    using active_graph_materialized [OF sample_workspace_linked g(1) c] g c by auto
qed

theorem manifest_resolution_returns_witness:
  "resolve_from_manifest_fallback 12 sample_workspace default_policy sample_parse (\<lambda>_. None) sample_entry \<noteq> None \<and>
   resolve_materialization_from_manifests 12 sample_workspace default_policy sample_parse (\<lambda>_. None) sample_entry \<noteq> None"
proof (rule manifest_resolution_returns [OF sample_workspace_linked])
  show "finite (dom (nodes sample_workspace))" by (simp add: sample_workspace_def)
  have "card (dom (nodes sample_workspace)) = 9"
    by (simp add: sample_workspace_def dom_map_of_conv_image_fst)
  then show "Suc (card (dom (nodes sample_workspace))) < 12" by simp
qed

text \<open>A host whose alias root is a directory, where a library is reached through a link. The edge to the
  library carries the unresolved name, the package is recorded under the resolved one: the library's own
  dependency falls out of the active graph.\<close>

definition sample_split_host :: file_system where
  "sample_split_host = \<lparr>nodes = map_of [([''data''], Directory), ([''data'', ''projects''], Directory),
     ([''data'', ''projects'', ''app''], Directory), ([''data'', ''projects'', ''app'', ''Cargo.toml''], File),
     ([''data'', ''projects'', ''lib''], Symlink (path_from ''/data/projects/store'')),
     ([''data'', ''projects'', ''store''], Directory), ([''data'', ''projects'', ''store'', ''Cargo.toml''], File),
     ([''data'', ''projects'', ''util''], Directory), ([''data'', ''projects'', ''util'', ''Cargo.toml''], File),
     ([''dp''], Directory), ([''dp'', ''lib''], Symlink (path_from ''/data/projects/lib''))],
     cwd = [], link_limit = 40\<rparr>"

definition sample_split_parse :: "cpath \<Rightarrow> toml_table option" where
  "sample_split_parse = map_of
     [([''data'', ''projects'', ''app'', ''Cargo.toml''],
        [(''package'', TTable [(''name'', TString ''app'')]),
         (''dependencies'', TTable [(''lib'', TTable [(''path'', TString ''/dp/lib'')])])]),
      ([''data'', ''projects'', ''store'', ''Cargo.toml''],
        [(''package'', TTable [(''name'', TString ''lib'')]),
         (''dependencies'', TTable [(''util'', TTable [(''path'', TString ''../util'')])])]),
      ([''data'', ''projects'', ''util'', ''Cargo.toml''],
        [(''package'', TTable [(''name'', TString ''util'')])])]"

theorem alias_entry_splits_graph:
  "case resolve_from_manifest_fallback 12 sample_split_host default_policy sample_split_parse (\<lambda>_. None) sample_entry of
     Some (Inr g) \<Rightarrow>
       map package_root (packages g) = [[''data'', ''projects'', ''app''], [''data'', ''projects'', ''lib'']]
   | _ \<Rightarrow> False"
  by code_simp

end
