(* ===== verification/Dependency_Plan.thy ===== *)
theory Dependency_Plan
  imports Cargo_Resolver
begin

text \<open>
  The dependency-closure planner, \<open>rch-common/src/dependency_closure_planner.rs\<close>: the order in which the
  packages of a resolved graph are synchronized, the actions with their reasons and risks, and the
  fail-open plans. The free text of issues and of the fail-open reason is left out.
\<close>

section \<open>Plans\<close>

datatype dependency_closure_plan_state = Ready | FailOpen

datatype dependency_risk_class = Low | Medium | High | Critical

datatype dependency_sync_reason = EntryPoint | WorkspaceMember | TransitivePathDependency

record dependency_sync_metadata =
  reason :: dependency_sync_reason
  sm_workspace_member :: bool
  root_package :: bool
  inbound_dependency_names :: "string list"
  dependent_roots :: "cpath list"
  sm_notes :: "string list"

record dependency_sync_action =
  order_index :: nat
  sa_package_root :: cpath
  sa_manifest_path :: cpath
  sa_package_name :: string
  risk :: dependency_risk_class
  sa_metadata :: dependency_sync_metadata

record dependency_plan_issue =
  code :: string
  issue_risk :: dependency_risk_class

record dependency_closure_plan =
  plan_state :: dependency_closure_plan_state
  plan_entry :: path
  plan_workspace_root :: "cpath option"
  canonical_roots :: "cpath list"
  sync_order :: "dependency_sync_action list"
  fail_open :: bool
  issues :: "dependency_plan_issue list"

definition is_ready :: "dependency_closure_plan \<Rightarrow> bool" where
  "is_ready p \<longleftrightarrow> plan_state p = Ready \<and> \<not> fail_open p"


section \<open>Dependency-first order\<close>

text \<open>Kahn's algorithm as it is written: a degree is counted per edge, the dependents of a package are a
  set. A missing degree or one that would drop below zero ends the search without a result.\<close>

type_synonym degrees = "(cpath \<times> nat) list"
type_synonym dependents = "(cpath \<times> cpath list) list"

definition order_nodes ::
  "cargo_path_dependency_package list \<Rightarrow> cargo_path_dependency_edge list \<Rightarrow> cpath list" where
  "order_nodes pks es = sort (remdups (map package_root pks @ map edge_from es @ map edge_to es))"

definition dependents_of :: "dependents \<Rightarrow> cpath \<Rightarrow> cpath list" where
  "dependents_of m node = (case map_of m node of None \<Rightarrow> [] | Some ds \<Rightarrow> ds)"

fun count_edges :: "cargo_path_dependency_edge list \<Rightarrow> degrees \<Rightarrow> dependents \<Rightarrow> (degrees \<times> dependents) option" where
  "count_edges [] deg m = Some (deg, m)"
| "count_edges (e # es) deg m =
     (case map_of deg (edge_from e) of
        None \<Rightarrow> None
      | Some k \<Rightarrow>
          count_edges es (AList.update (edge_from e) (Suc k) deg)
            (AList.update (edge_to e) (insort_insert (edge_from e) (dependents_of m (edge_to e))) m))"

fun relax :: "cpath list \<Rightarrow> cpath list \<Rightarrow> degrees \<Rightarrow> (cpath list \<times> degrees) option" where
  "relax [] ready deg = Some (ready, deg)"
| "relax (d # ds) ready deg =
     (case map_of deg d of
        None \<Rightarrow> None
      | Some 0 \<Rightarrow> None
      | Some (Suc k) \<Rightarrow> relax ds (if k = 0 then insort_insert d ready else ready) (AList.update d k deg))"

definition open_degrees :: "degrees \<Rightarrow> nat" where
  "open_degrees deg = length (filter (\<lambda>x. 0 < snd x) deg)"

lemma open_degrees_update:
  "map_of deg d = Some (Suc k) \<Longrightarrow>
     open_degrees (AList.update d k deg) + (if k = 0 then 1 else 0) = open_degrees deg"
  by (induction deg) (auto simp: open_degrees_def split: if_splits)

lemma length_insort_insert_le: "length (insort_insert x xs) \<le> Suc (length xs)"
  by (simp add: insort_insert_key_def)

lemma relax_measure:
  "relax ds ready deg = Some (ready', deg') \<Longrightarrow>
     length ready' + open_degrees deg' \<le> length ready + open_degrees deg"
proof (induction ds ready deg rule: relax.induct)
  case (2 d ds ready deg)
  then obtain k where k: "map_of deg d = Some (Suc k)" by (auto split: option.splits nat.splits)
  then have "length ready' + open_degrees deg'
      \<le> length (if k = 0 then insort_insert d ready else ready) + open_degrees (AList.update d k deg)"
    using 2 by simp
  then show ?case
    using open_degrees_update [OF k] length_insort_insert_le [of d ready] by (simp split: if_splits)
qed simp

function (sequential) order_loop :: "dependents \<Rightarrow> cpath list \<Rightarrow> degrees \<Rightarrow> cpath list \<Rightarrow> cpath list option" where
  "order_loop m [] deg order = Some order"
| "order_loop m (node # ready) deg order =
     (case relax (dependents_of m node) ready deg of
        None \<Rightarrow> None
      | Some (ready', deg') \<Rightarrow> order_loop m ready' deg' (order @ [node]))"
  by pat_completeness auto
termination order_loop
  by (relation "measure (\<lambda>(m, ready, deg, order). length ready + open_degrees deg)")
    (auto dest: relax_measure)

definition dependency_first_topological_order ::
  "cargo_path_dependency_package list \<Rightarrow> cargo_path_dependency_edge list \<Rightarrow> cpath list option" where
  "dependency_first_topological_order pks es =
     (case count_edges es (map (\<lambda>n. (n, 0)) (order_nodes pks es)) [] of
        None \<Rightarrow> None
      | Some (deg, m) \<Rightarrow>
          let ready = sort (remdups (map fst (filter (\<lambda>x. snd x = 0) deg)))
          in case order_loop m ready deg [] of
               None \<Rightarrow> None
             | Some order \<Rightarrow> if length order = length deg then Some order else None)"

section \<open>Planning\<close>

definition classify_sync_risk :: "dependency_sync_reason \<Rightarrow> nat \<Rightarrow> dependency_risk_class" where
  "classify_sync_risk r n =
     (case r of
        EntryPoint \<Rightarrow> Low
      | WorkspaceMember \<Rightarrow> Low
      | TransitivePathDependency \<Rightarrow> if n > 1 then High else Medium)"

definition inbound_names :: "cargo_path_dependency_edge list \<Rightarrow> cpath \<Rightarrow> string list" where
  "inbound_names es root = sort (remdups (map dependency_name (filter (\<lambda>e. edge_to e = root) es)))"

definition inbound_roots :: "cargo_path_dependency_edge list \<Rightarrow> cpath \<Rightarrow> cpath list" where
  "inbound_roots es root = sort (remdups (map edge_from (filter (\<lambda>e. edge_to e = root) es)))"

definition count_note :: "cpath list \<Rightarrow> string" where
  "count_note ds = ''dependent_root_count='' @ show_nat (length ds)"

definition planned_package :: "cargo_path_dependency_graph \<Rightarrow> cpath \<Rightarrow> cargo_path_dependency_package" where
  "planned_package g root =
     (case map_of (rev (map (\<lambda>p. (package_root p, p)) (packages g))) root of
        Some p \<Rightarrow> p
      | None \<Rightarrow> \<lparr>package_root = root, pkg_manifest_path = cargo_toml root,
                 package_name = (if root = [] then ''unknown'' else last root), workspace_member = False\<rparr>)"

definition active_action :: "cargo_path_dependency_graph \<Rightarrow> cpath \<Rightarrow> dependency_sync_action" where
  "active_action g root =
     (let p = planned_package g root;
          r = (if package_root p = butlast (entry_manifest_path g) then EntryPoint
               else if workspace_member p then WorkspaceMember else TransitivePathDependency);
          dependents = inbound_roots (edges g) (package_root p)
      in \<lparr>order_index = 0, sa_package_root = package_root p, sa_manifest_path = pkg_manifest_path p,
          sa_package_name = package_name p, risk = classify_sync_risk r (length dependents),
          sa_metadata = \<lparr>reason = r, sm_workspace_member = workspace_member p,
            root_package = package_root p \<in> set (root_packages g),
            inbound_dependency_names = inbound_names (edges g) (package_root p),
            dependent_roots = dependents, sm_notes = [count_note dependents]\<rparr>\<rparr>)"

definition materialization_action ::
  "cargo_path_materialization_closure \<Rightarrow> cargo_path_dependency_package \<Rightarrow> dependency_sync_action" where
  "materialization_action c p =
     (let r = (if workspace_member p then WorkspaceMember else TransitivePathDependency);
          dependents = inbound_roots (edges c) (package_root p)
      in \<lparr>order_index = 0, sa_package_root = package_root p, sa_manifest_path = pkg_manifest_path p,
          sa_package_name = package_name p, risk = classify_sync_risk r (length dependents),
          sa_metadata = \<lparr>reason = r, sm_workspace_member = workspace_member p,
            root_package = package_root p \<in> set (root_packages c),
            inbound_dependency_names = inbound_names (edges c) (package_root p),
            dependent_roots = dependents,
            sm_notes = [count_note dependents, ''materialization_only=true'', ''active_execution_edge=false'']\<rparr>\<rparr>)"

definition materialization_only ::
  "cargo_path_dependency_graph \<Rightarrow> cargo_path_materialization_closure option \<Rightarrow> dependency_sync_action list" where
  "materialization_only g mc =
     (case mc of
        None \<Rightarrow> []
      | Some c \<Rightarrow> map (materialization_action c)
          (filter (\<lambda>p. package_root p \<notin> package_root ` set (packages g)) (packages c)))"

definition number_actions :: "dependency_sync_action list \<Rightarrow> dependency_sync_action list" where
  "number_actions as = map (\<lambda>(i, a). a\<lparr>order_index := i\<rparr>) (zip [0..<length as] as)"

definition plan_dependency_closure_from_graph_and_materialization ::
  "cargo_path_dependency_graph \<Rightarrow> cargo_path_materialization_closure option \<Rightarrow> dependency_closure_plan" where
  "plan_dependency_closure_from_graph_and_materialization g mc =
     (case dependency_first_topological_order (packages g) (edges g) of
        None \<Rightarrow>
          \<lparr>plan_state = FailOpen, plan_entry = abs_path (entry_manifest_path g),
           plan_workspace_root = workspace_root g, canonical_roots = [], sync_order = [], fail_open = True,
           issues = [\<lparr>code = ''planner_non_deterministic_order'', issue_risk = Critical\<rparr>]\<rparr>
      | Some order \<Rightarrow>
          let actions = number_actions (materialization_only g mc @ map (active_action g) order)
          in \<lparr>plan_state = Ready, plan_entry = abs_path (entry_manifest_path g),
              plan_workspace_root = workspace_root g, canonical_roots = map sa_package_root actions,
              sync_order = actions, fail_open = False, issues = []\<rparr>)"

definition plan_dependency_closure_from_graph :: "cargo_path_dependency_graph \<Rightarrow> dependency_closure_plan" where
  "plan_dependency_closure_from_graph g = plan_dependency_closure_from_graph_and_materialization g None"

fun issue_class :: "cargo_path_dependency_error_kind \<Rightarrow> string \<times> dependency_risk_class" where
  "issue_class ManifestParseFailure = (''manifest-parse-failure'', Critical)"
| "issue_class MetadataParseFailure = (''metadata-parse-failure'', Critical)"
| "issue_class MetadataInvocationFailure = (''metadata-invocation-failure'', Critical)"
| "issue_class CyclicDependency = (''cyclic-path-dependency'', Critical)"
| "issue_class PathPolicyViolation = (''path-policy-violation'', High)"
| "issue_class MissingPathDependency = (''missing-path-dependency'', High)"

definition issue_from_resolver_error :: "cargo_path_dependency_error \<Rightarrow> dependency_plan_issue" where
  "issue_from_resolver_error e = \<lparr>code = fst (issue_class (err_kind e)), issue_risk = snd (issue_class (err_kind e))\<rparr>"

definition fail_open_plan_from_resolver_error :: "path \<Rightarrow> cargo_path_dependency_error \<Rightarrow> dependency_closure_plan" where
  "fail_open_plan_from_resolver_error entrypoint e =
     \<lparr>plan_state = FailOpen,
      plan_entry = (case err_manifest_path e of Some p \<Rightarrow> p | None \<Rightarrow> entrypoint),
      plan_workspace_root = None, canonical_roots = [], sync_order = [], fail_open = True,
      issues = [issue_from_resolver_error e]\<rparr>"

text \<open>The whole planner, over the two resolvers. \<open>None\<close> stands for a depth bound that was too small.\<close>

definition build_dependency_closure_plan_with_policy ::
  "nat \<Rightarrow> file_system \<Rightarrow> path_topology_policy \<Rightarrow> (cpath \<Rightarrow> cargo_path_dependency_error + metadata_document)
     \<Rightarrow> (cpath \<Rightarrow> toml_table option) \<Rightarrow> (path \<Rightarrow> string list option) \<Rightarrow> path \<Rightarrow> dependency_closure_plan option" where
  "build_dependency_closure_plan_with_policy n fs policy provider parse list_dir entrypoint =
     (case resolve_cargo_path_dependency_graph_with_policy n fs policy provider parse list_dir entrypoint of
        None \<Rightarrow> None
      | Some (Inl e) \<Rightarrow> Some (fail_open_plan_from_resolver_error entrypoint e)
      | Some (Inr g) \<Rightarrow>
          case resolve_cargo_path_materialization_closure_with_policy n fs policy parse list_dir
                 (case workspace_root g of Some w \<Rightarrow> abs_path w | None \<Rightarrow> entrypoint) of
            None \<Rightarrow> None
          | Some (Inl e) \<Rightarrow>
              let p = fail_open_plan_from_resolver_error entrypoint e
              in Some (p\<lparr>issues := \<lparr>code = ''materialization-closure-unavailable'', issue_risk = Critical\<rparr> # issues p\<rparr>)
          | Some (Inr c) \<Rightarrow> Some (plan_dependency_closure_from_graph_and_materialization g (Some c)))"

section \<open>The order is a dependency-first order\<close>

definition dep_pairs :: "cargo_path_dependency_edge list \<Rightarrow> (cpath \<times> cpath) set" where
  "dep_pairs es = (\<lambda>e. (edge_from e, edge_to e)) ` set es"

definition deps :: "cargo_path_dependency_edge list \<Rightarrow> cpath \<Rightarrow> cpath set" where
  "deps es v = edge_to ` set (filter (\<lambda>e. edge_from e = v) es)"

definition out_edges :: "cargo_path_dependency_edge list \<Rightarrow> cpath \<Rightarrow> nat" where
  "out_edges es v = length (filter (\<lambda>e. edge_from e = v) es)"

text \<open>No two edges between the same packages, under whatever names.\<close>

definition simple_edges :: "cargo_path_dependency_edge list \<Rightarrow> bool" where
  "simple_edges es = distinct (map (\<lambda>e. (edge_from e, edge_to e)) es)"

lemma deps_pairs: "t \<in> deps es v \<longleftrightarrow> (v, t) \<in> dep_pairs es"
  by (auto simp: deps_def dep_pairs_def)

lemma finite_deps [simp]: "finite (deps es v)"
  by (simp add: deps_def)

lemma card_deps_le: "card (deps es v) \<le> out_edges es v"
  unfolding deps_def out_edges_def by (metis card_length image_set length_map)

lemma distinct_pairs: "distinct (map (\<lambda>e. (f e, g e)) es) \<longleftrightarrow> (\<forall>v. distinct (map g (filter (\<lambda>e. f e = v) es)))"
proof (induction es)
  case (Cons e es)
  have "(f e, g e) \<in> set (map (\<lambda>e. (f e, g e)) es) \<longleftrightarrow> g e \<in> set (map g (filter (\<lambda>x. f x = f e) es))"
    by (auto simp: image_iff) metis
  then show ?case using Cons by auto
qed simp

lemma simple_edges_card: "simple_edges es \<longleftrightarrow> (\<forall>v. card (deps es v) = out_edges es v)"
proof -
  have "distinct (map edge_to xs) \<longleftrightarrow> card (edge_to ` set xs) = length xs" for xs :: "cargo_path_dependency_edge list"
    by (metis card_distinct distinct_card image_set length_map)
  then show ?thesis by (simp add: simple_edges_def distinct_pairs deps_def out_edges_def)
qed

lemma count_edges_correct:
  assumes "edge_from ` set es \<subseteq> set (map fst deg)"
  shows "\<exists>deg' m'. count_edges es deg m = Some (deg', m') \<and> map fst deg' = map fst deg \<and>
    (\<forall>v \<in> set (map fst deg). map_of deg' v = Some (the (map_of deg v) + out_edges es v)) \<and>
    (\<forall>t. set (dependents_of m' t) = set (dependents_of m t) \<union> {f. (f, t) \<in> dep_pairs es} \<and>
         (distinct (dependents_of m t) \<longrightarrow> distinct (dependents_of m' t)))"
  using assms
proof (induction es arbitrary: deg m)
  case Nil
  then show ?case by (force simp: out_edges_def dep_pairs_def dest: weak_map_of_SomeI)
next
  case (Cons e es)
  obtain k where k: "map_of deg (edge_from e) = Some k"
    using Cons.prems by (metis image_insert insert_subset list.simps(15) map_of_eq_None_iff not_None_eq set_map)
  let ?deg = "AList.update (edge_from e) (Suc k) deg"
  let ?m = "AList.update (edge_to e) (insort_insert (edge_from e) (dependents_of m (edge_to e))) m"
  have keys: "map fst ?deg = map fst deg" using Cons.prems by (simp add: update_keys)
  then obtain deg' m' where r: "count_edges es ?deg ?m = Some (deg', m')" "map fst deg' = map fst deg"
    "\<forall>v \<in> set (map fst deg). map_of deg' v = Some (the (map_of ?deg v) + out_edges es v)"
    "\<forall>t. set (dependents_of m' t) = set (dependents_of ?m t) \<union> {f. (f, t) \<in> dep_pairs es} \<and>
       (distinct (dependents_of ?m t) \<longrightarrow> distinct (dependents_of m' t))"
    using Cons.IH [of ?deg ?m] Cons.prems by auto
  have m: "dependents_of ?m t = (if t = edge_to e then insort_insert (edge_from e) (dependents_of m t) else dependents_of m t)" for t
    by (simp add: dependents_of_def update_conv)
  have "\<forall>v \<in> set (map fst deg). map_of deg' v = Some (the (map_of deg v) + out_edges (e # es) v)"
    using r(3) k by (auto simp: update_conv out_edges_def)
  moreover have "\<forall>t. set (dependents_of m' t) = set (dependents_of m t) \<union> {f. (f, t) \<in> dep_pairs (e # es)} \<and>
       (distinct (dependents_of m t) \<longrightarrow> distinct (dependents_of m' t))"
    using r(4) by (auto simp: m dep_pairs_def)
  ultimately show ?case using k r(1,2) by simp
qed

lemma relax_correct:
  assumes "distinct ds" "\<forall>d \<in> set ds. \<exists>k. map_of deg d = Some (Suc k)" "distinct ready"
  shows "\<exists>ready' deg'. relax ds ready deg = Some (ready', deg') \<and> distinct ready' \<and>
    set ready' = set ready \<union> {d \<in> set ds. map_of deg d = Some 1} \<and> map fst deg' = map fst deg \<and>
    (\<forall>v. map_of deg' v = (if v \<in> set ds then Some (the (map_of deg v) - 1) else map_of deg v))"
  using assms
proof (induction ds arbitrary: ready deg)
  case (Cons d ds)
  obtain k where k: "map_of deg d = Some (Suc k)" using Cons.prems(2) by auto
  let ?ready = "if k = 0 then insort_insert d ready else ready" and ?deg = "AList.update d k deg"
  have keys: "map fst ?deg = map fst deg" using k by (simp add: update_keys) (metis map_of_eq_None_iff option.distinct(1))
  have "\<forall>x \<in> set ds. \<exists>k. map_of ?deg x = Some (Suc k)" "distinct ?ready"
    using Cons.prems by (auto simp: update_conv)
  then obtain ready' deg' where r: "relax ds ?ready ?deg = Some (ready', deg')" "distinct ready'"
    "set ready' = set ?ready \<union> {x \<in> set ds. map_of ?deg x = Some 1}" "map fst deg' = map fst ?deg"
    "\<forall>v. map_of deg' v = (if v \<in> set ds then Some (the (map_of ?deg v) - 1) else map_of ?deg v)"
    using Cons.IH [of ?deg ?ready] Cons.prems(1) by auto
  have same: "{x \<in> set ds. map_of ?deg x = Some 1} = {x \<in> set ds. map_of deg x = Some 1}"
    using Cons.prems(1) by (intro Collect_cong) (auto simp: update_conv)
  have "{x \<in> set (d # ds). map_of deg x = Some 1} = {x \<in> set ds. map_of deg x = Some 1} \<union> (if k = 0 then {d} else {})"
    using k by auto
  then have "set ready' = set ready \<union> {x \<in> set (d # ds). map_of deg x = Some 1}"
    unfolding r(3) same by simp
  moreover have "map_of deg' v = (if v \<in> set (d # ds) then Some (the (map_of deg v) - 1) else map_of deg v)" for v
    using r(5) k Cons.prems(1) by (cases "v = d") (simp_all add: update_conv)
  ultimately show ?case using r(1,2,4) k keys by simp
qed simp

text \<open>The invariant of the loop: a degree is the number of edges to packages not placed yet; the ready
  packages are those whose degree is used up; everything placed has its dependencies before it.\<close>

definition placed_first :: "cargo_path_dependency_edge list \<Rightarrow> cpath list \<Rightarrow> bool" where
  "placed_first es order \<longleftrightarrow> (\<forall>xs v ys. order = xs @ v # ys \<longrightarrow> deps es v \<subseteq> set xs \<and> card (deps es v) = out_edges es v)"

definition order_inv ::
  "cargo_path_dependency_edge list \<Rightarrow> cpath set \<Rightarrow> cpath list \<Rightarrow> degrees \<Rightarrow> cpath list \<Rightarrow> bool" where
  "order_inv es V ready deg order \<longleftrightarrow>
     set order \<subseteq> V \<and> distinct order \<and> placed_first es order \<and> distinct ready \<and>
     (\<forall>v \<in> V. map_of deg v = Some (out_edges es v - card (deps es v \<inter> set order))) \<and>
     set ready = {v \<in> V. v \<notin> set order \<and> out_edges es v = card (deps es v \<inter> set order)}"

lemma placed_deps: "placed_first es order \<Longrightarrow> v \<in> set order \<Longrightarrow> deps es v \<subseteq> set order"
  by (fastforce simp: placed_first_def dest: split_list)

lemma used_up:
  assumes "out_edges es v = card (deps es v \<inter> A)"
  shows "deps es v \<subseteq> A" "card (deps es v) = out_edges es v"
proof -
  have "card (deps es v) \<le> card (deps es v \<inter> A)" using card_deps_le assms by metis
  then have "deps es v \<inter> A = deps es v" by (intro card_subset_eq) (auto simp: card_mono le_antisym)
  then show "deps es v \<subseteq> A" "card (deps es v) = out_edges es v" using assms by auto
qed

lemma open_edge: "t \<in> deps es v \<Longrightarrow> t \<notin> A \<Longrightarrow> card (deps es v \<inter> A) < out_edges es v"
  using psubset_card_mono [of "deps es v" "deps es v \<inter> A"] card_deps_le [of es v] by (fastforce)

lemma card_insert_node:
  "node \<notin> A \<Longrightarrow> card (deps es v \<inter> insert node A) = card (deps es v \<inter> A) + (if node \<in> deps es v then 1 else 0)"
  by (simp add: Int_insert_right)

lemma placed_first_snoc:
  assumes "placed_first es order" "deps es node \<subseteq> set order" "card (deps es node) = out_edges es node"
  shows "placed_first es (order @ [node])"
  unfolding placed_first_def
proof (intro allI impI)
  fix xs v ys assume eq: "order @ [node] = xs @ v # ys"
  show "deps es v \<subseteq> set xs \<and> card (deps es v) = out_edges es v"
  proof (cases ys rule: rev_cases)
    case Nil
    then show ?thesis using eq assms(2,3) by simp
  next
    case (snoc zs z)
    then have "order = xs @ v # zs" using eq by simp
    then show ?thesis using assms(1) unfolding placed_first_def by blast
  qed
qed

lemma order_step:
  assumes inv: "order_inv es V (node # ready) deg order"
    and V: "\<And>v. deps es v \<noteq> {} \<Longrightarrow> v \<in> V"
    and m: "set (dependents_of m node) = {f. node \<in> deps es f}" "distinct (dependents_of m node)"
  obtains ready' deg' where "relax (dependents_of m node) ready deg = Some (ready', deg')"
    "order_inv es V ready' deg' (order @ [node])"
proof -
  let ?O = "set order" and ?ds = "dependents_of m node"
  have node: "node \<in> V" "node \<notin> ?O" "deps es node \<subseteq> ?O" "card (deps es node) = out_edges es node"
  proof -
    have "node \<in> {v \<in> V. v \<notin> ?O \<and> out_edges es v = card (deps es v \<inter> ?O)}"
      using inv list.set_intros(1) [of node ready] unfolding order_inv_def by blast
    then show "node \<in> V" "node \<notin> ?O" "deps es node \<subseteq> ?O" "card (deps es node) = out_edges es node"
      using used_up [of es node ?O] by simp_all
  qed
  have deg: "map_of deg v = Some (out_edges es v - card (deps es v \<inter> ?O))" if "v \<in> V" for v
    using inv that by (simp add: order_inv_def)
  have ds: "d \<in> V" "d \<notin> ?O" "card (deps es d \<inter> ?O) < out_edges es d" if "d \<in> set ?ds" for d
    using that m(1) V node(2) inv placed_deps [of es order d] open_edge [of node es d ?O]
    by (auto simp: order_inv_def)
  have pos: "\<forall>d \<in> set ?ds. \<exists>k. map_of deg d = Some (Suc k)"
    using ds deg by (metis Suc_diff_Suc)
  have "distinct ready" using inv by (simp add: order_inv_def)
  from relax_correct [OF m(2) pos this] obtain ready' deg' where r: "relax ?ds ready deg = Some (ready', deg')" "distinct ready'"
    "set ready' = set ready \<union> {d \<in> set ?ds. map_of deg d = Some 1}"
    "\<forall>v. map_of deg' v = (if v \<in> set ?ds then Some (the (map_of deg v) - 1) else map_of deg v)"
    by blast
  have deg': "map_of deg' v = Some (out_edges es v - card (deps es v \<inter> insert node ?O))" if "v \<in> V" for v
    using r(4) deg [OF that] m(1) card_insert_node [OF node(2), of es v] by simp
  have ready': "v \<in> set ready' \<longleftrightarrow> v \<in> V \<and> v \<notin> insert node ?O \<and> out_edges es v = card (deps es v \<inter> insert node ?O)" for v
  proof (cases "node \<in> deps es v")
    case True
    then have v: "v \<in> set ?ds" using m(1) by simp
    have "v \<notin> set ready" using inv open_edge [OF True node(2)] by (auto simp: order_inv_def)
    moreover have "v \<noteq> node" using True node(2,3) by blast
    ultimately show ?thesis
      using r(3) v ds [OF v] deg card_insert_node [OF node(2), of es v] True by auto
  next
    case False
    then have "v \<notin> set ?ds" using m(1) by simp
    then show ?thesis
      using r(3) inv False card_insert_node [OF node(2), of es v] by (auto simp: order_inv_def)
  qed
  have "order_inv es V ready' deg' (order @ [node])"
    unfolding order_inv_def
  proof (intro conjI)
    show "placed_first es (order @ [node])" using placed_first_snoc node inv by (simp add: order_inv_def)
    show "set ready' = {v \<in> V. v \<notin> set (order @ [node]) \<and> out_edges es v = card (deps es v \<inter> set (order @ [node]))}"
      using ready' by auto
    show "\<forall>v \<in> V. map_of deg' v = Some (out_edges es v - card (deps es v \<inter> set (order @ [node])))"
      using deg' by simp
  qed (use inv node r(2) in \<open>auto simp: order_inv_def\<close>)
  then show thesis using that r(1) by blast
qed

lemma order_loop_correct:
  assumes V: "\<And>v. deps es v \<noteq> {} \<Longrightarrow> v \<in> V"
    and m: "\<And>t. set (dependents_of m t) = {f. t \<in> deps es f} \<and> distinct (dependents_of m t)"
  shows "order_inv es V ready deg order \<Longrightarrow>
    \<exists>deg' order'. order_loop m ready deg order = Some order' \<and> order_inv es V [] deg' order'"
  using m
proof (induction m ready deg order rule: order_loop.induct)
  case (2 m node ready deg order)
  obtain ready' deg' where r: "relax (dependents_of m node) ready deg = Some (ready', deg')"
    "order_inv es V ready' deg' (order @ [node])"
    using order_step [OF "2.prems"(1) V] "2.prems"(2) by blast
  then show ?case using "2.IH" [OF r(1) refl r(2) "2.prems"(2)] by simp
qed auto

lemma order_start:
  obtains deg m order deg' where
    "dependency_first_topological_order pks es = (if length order = length (order_nodes pks es) then Some order else None)"
    "order_inv es (set (order_nodes pks es)) [] deg' order"
proof -
  let ?N = "order_nodes pks es" and ?deg = "map (\<lambda>n. (n, 0 :: nat)) (order_nodes pks es)"
  have N: "distinct ?N" "edge_from ` set es \<subseteq> set ?N" by (auto simp: order_nodes_def)
  have zero: "v \<in> set xs \<Longrightarrow> map_of (map (\<lambda>n. (n, 0 :: nat)) xs) v = Some 0" for v :: cpath and xs
    by (induction xs) auto
  have keys: "map fst ?deg = ?N" by (simp add: comp_def)
  obtain deg m where cm: "count_edges es ?deg [] = Some (deg, m)" "map fst deg = ?N"
    "\<forall>v \<in> set ?N. map_of deg v = Some (the (map_of ?deg v) + out_edges es v)"
    "\<forall>t. set (dependents_of m t) = {f. (f, t) \<in> dep_pairs es} \<and> distinct (dependents_of m t)"
    using count_edges_correct [of es ?deg "[]"] N(2) unfolding keys by (auto simp: dependents_of_def)
  have deg: "map_of deg v = Some (out_edges es v)" if "v \<in> set ?N" for v using cm(3) zero that by simp
  let ?ready = "sort (remdups (map fst (filter (\<lambda>x. snd x = 0) deg)))"
  have mem: "(v, k) \<in> set deg \<longleftrightarrow> map_of deg v = Some k" for v k using cm(2) N(1) by simp
  have "set ?ready = {v \<in> set ?N. out_edges es v = 0}"
  proof -
    have "v \<in> set ?ready \<longleftrightarrow> map_of deg v = Some 0" for v using mem by force
    moreover have "map_of deg v = Some 0 \<Longrightarrow> v \<in> set ?N" for v
      unfolding cm(2) [symmetric] by (force dest: map_of_SomeD)
    ultimately have "v \<in> set ?ready \<longleftrightarrow> v \<in> set ?N \<and> out_edges es v = 0" for v
      using deg [of v] by (metis option.inject)
    then show ?thesis by blast
  qed
  then have inv: "order_inv es (set ?N) ?ready deg []"
    using deg by (simp add: order_inv_def placed_first_def)
  have V: "deps es v \<noteq> {} \<Longrightarrow> v \<in> set ?N" for v using N(2) by (auto simp: deps_def)
  obtain deg' order where loop: "order_loop m ?ready deg [] = Some order" "order_inv es (set ?N) [] deg' order"
    using order_loop_correct [OF V _ inv, of m] cm(4) by (auto simp: deps_pairs)
  have "length deg = length ?N" using cm(2) by (metis length_map)
  then show thesis
    using that loop cm(1) by (simp add: dependency_first_topological_order_def)
qed

definition before :: "'a list \<Rightarrow> 'a \<Rightarrow> 'a \<Rightarrow> bool" where
  "before xs a b \<longleftrightarrow> (\<exists>us vs ws. xs = us @ a # vs @ b # ws)"

lemma placed_before:
  assumes "placed_first es order" "v \<in> set order" "t \<in> deps es v"
  shows "before order t v"
proof -
  obtain xs ys where o: "order = xs @ v # ys" using assms(2) by (meson split_list)
  then have "t \<in> set xs" using assms(1,3) unfolding placed_first_def by blast
  then obtain us vs where "xs = us @ t # vs" by (meson split_list)
  then show ?thesis using o by (auto simp: before_def)
qed

lemma placed_trancl:
  assumes "placed_first es order" "order = xs @ v # ys" "(v, t) \<in> (dep_pairs es)\<^sup>+"
  shows "t \<in> set xs"
  using assms(3)
proof (induction rule: trancl_induct)
  case (base t)
  then show ?case using assms(1,2) unfolding placed_first_def deps_pairs [symmetric] by blast
next
  case (step t u)
  obtain us vs where xs: "xs = us @ t # vs" using step.IH by (meson split_list)
  then have "order = us @ t # (vs @ v # ys)" using assms(2) by simp
  then have "deps es t \<subseteq> set us" using assms(1) unfolding placed_first_def by blast
  then show ?case using step.hyps(2) xs by (auto simp: deps_pairs)
qed

lemma placed_acyclic:
  assumes "placed_first es order" "distinct order" "fst ` dep_pairs es \<subseteq> set order"
  shows "acyclic (dep_pairs es)"
proof (rule acyclicI, intro allI notI)
  fix v assume cyc: "(v, v) \<in> (dep_pairs es)\<^sup>+"
  then have "v \<in> set order" using assms(3) by (metis converse_tranclE fst_conv image_eqI subsetD)
  then obtain xs ys where o: "order = xs @ v # ys" by (meson split_list)
  then have "v \<in> set xs" using placed_trancl [OF assms(1) o cyc] by simp
  then show False using assms(2) o by simp
qed

text \<open>A loop that stops early leaves packages that each depend on one of them, or that have two edges to
  the same package.\<close>

lemma stuck_order:
  assumes inv: "order_inv es V [] deg order" and fin: "finite V" and closed: "dep_pairs es \<subseteq> V \<times> V"
    and rest: "V - set order \<noteq> {}"
  shows "\<not> (acyclic (dep_pairs es) \<and> simple_edges es)"
proof
  assume a: "acyclic (dep_pairs es) \<and> simple_edges es"
  have "finite (dep_pairs es)" by (simp add: dep_pairs_def)
  then have "wf ((dep_pairs es)\<inverse>)" using a finite_acyclic_wf_converse by blast
  then obtain v where v: "v \<in> V - set order" "\<And>t. (t, v) \<in> (dep_pairs es)\<inverse> \<Longrightarrow> t \<notin> V - set order"
    using rest by (metis wf_eq_minimal ex_in_conv)
  then have "deps es v \<subseteq> set order" using closed by (auto simp: deps_pairs)
  then have "out_edges es v = card (deps es v \<inter> set order)"
    using a simple_edges_card by (metis inf.absorb1)
  then show False using inv v(1) by (auto simp: order_inv_def)
qed

text \<open>An order is found exactly when the graph has no cycle and no two edges between the same packages;
  it lists every package once, each after all its dependencies.\<close>

lemma topological_order:
  "case dependency_first_topological_order pks es of
     None \<Rightarrow> \<not> (acyclic (dep_pairs es) \<and> simple_edges es)
   | Some order \<Rightarrow>
       acyclic (dep_pairs es) \<and> simple_edges es \<and> distinct order \<and>
       set order = package_root ` set pks \<union> edge_from ` set es \<union> edge_to ` set es \<and>
       (\<forall>e \<in> set es. before order (edge_to e) (edge_from e))"
proof (rule order_start [of pks es])
  fix order deg'
  let ?N = "order_nodes pks es"
  assume r: "dependency_first_topological_order pks es = (if length order = length ?N then Some order else None)"
    and inv: "order_inv es (set ?N) [] deg' order"
  have N: "distinct ?N" "set ?N = package_root ` set pks \<union> edge_from ` set es \<union> edge_to ` set es"
    by (auto simp: order_nodes_def)
  have o: "set order \<subseteq> set ?N" "distinct order" "placed_first es order" using inv by (simp_all add: order_inv_def)
  have pairs: "dep_pairs es \<subseteq> set ?N \<times> set ?N" unfolding N(2) by (auto simp: dep_pairs_def)
  show ?thesis
  proof (cases "length order = length ?N")
    case True
    then have all: "set order = set ?N" using o(1,2) N(1) by (metis card_subset_eq distinct_card List.finite_set)
    have "card (deps es v) = out_edges es v" for v
    proof (cases "v \<in> set order")
      case True
      then show ?thesis using o(3) unfolding placed_first_def by (metis split_list)
    next
      case False
      then have "filter (\<lambda>e. edge_from e = v) es = []" using all N(2) by (auto simp: filter_empty_conv)
      then show ?thesis by (simp add: deps_def out_edges_def)
    qed
    then have "simple_edges es" by (simp add: simple_edges_card)
    moreover have "acyclic (dep_pairs es)" using placed_acyclic [OF o(3,2)] pairs all by fastforce
    moreover have "before order (edge_to e) (edge_from e)" if "e \<in> set es" for e
      using placed_before [OF o(3)] that all N(2) by (auto simp: deps_def)
    ultimately show ?thesis using True r o(2) all N(2) by simp
  next
    case False
    then have "set order \<noteq> set ?N" using o(2) N(1) by (metis distinct_card)
    then have "set ?N - set order \<noteq> {}" using o(1) by blast
    from stuck_order [OF inv _ pairs this] show ?thesis using False r by simp
  qed
qed

section \<open>The plan\<close>

lemma planned_package_root [simp]: "package_root (planned_package g root) = root"
proof -
  have "package_root p = root" if "map_of (rev (map (\<lambda>p. (package_root p, p)) xs)) root = Some p" for xs p
    using map_of_SomeD [OF that] by auto
  then show ?thesis by (auto simp: planned_package_def split: option.splits)
qed

lemma active_action_root [simp]: "sa_package_root (active_action g root) = root"
  by (simp add: active_action_def Let_def)

lemma materialization_action_root [simp]: "sa_package_root (materialization_action c p) = package_root p"
  by (simp add: materialization_action_def Let_def)





text \<open>A graph the resolver hands on has no cycle.\<close>

lemma finalized_graph_acyclic:
  assumes "finalize_graph entry pg = Some (Inr g)"
  shows "acyclic (dep_pairs (edges g))"
proof (rule finalize_graph_run [of entry pg])
  fix t
  let ?adj = "pg_adjacency pg" and ?R = "set (pg_roots pg)"
  assume run: "finalize_graph entry pg = Some (Inr \<lparr>entry_manifest_path = entry, workspace_root = pg_workspace_root pg,
        root_packages = pg_roots pg, packages = map (package_of pg) (reachable_nodes t),
        edges = map edge_of (reachable_edges t)\<rparr>)"
    and inv: "trav_inv ?adj ?R t" and st: "stack t = []" and roots: "?R \<subseteq> visited t"
  note fin = finished_traversal [OF inv st roots]
  have pairs: "v \<in> (edge_rel ?adj)\<^sup>* `` ?R \<and> (v, w) \<in> edge_rel ?adj" if mem: "(v, w) \<in> dep_pairs (edges g)" for v w
  proof -
    have "edges g = map edge_of (reachable_edges t)" using assms run by auto
    then obtain n where "(v, w, n) \<in> set (reachable_edges t)"
      using mem by (auto simp: dep_pairs_def edge_of_def)
    then have "v \<in> (edge_rel ?adj)\<^sup>* `` ?R" "(w, n) \<in> set (tails ?adj v)" using fin(5) by auto
    then show ?thesis by (auto simp: edge_rel_def)
  qed
  show ?thesis
  proof (rule acyclicI, intro allI notI)
    fix v assume cyc: "(v, v) \<in> (dep_pairs (edges g))\<^sup>+"
    then obtain w where "(v, w) \<in> dep_pairs (edges g)" by (meson tranclD)
    then have "v \<in> (edge_rel ?adj)\<^sup>* `` ?R" using pairs by blast
    moreover have "(v, v) \<in> (edge_rel ?adj)\<^sup>+"
      using cyc pairs by (metis (no_types, lifting) subrelI trancl_mono)
    ultimately show False using fin(3) by (auto simp: acyclic_from_def)
  qed
qed (use assms in simp)

lemma plan_ready_iff:
  "is_ready (plan_dependency_closure_from_graph_and_materialization g mc) \<longleftrightarrow>
     acyclic (dep_pairs (edges g)) \<and> simple_edges (edges g)"
  using topological_order [where pks = "packages g" and es = "edges g"]
  by (auto simp: plan_dependency_closure_from_graph_and_materialization_def is_ready_def Let_def split: option.splits)

text \<open>Resolver and planner together: the plan of a resolved graph is ready exactly when no package
  depends on another one twice.\<close>

theorem resolved_plan_ready:
  assumes "finalize_graph entry pg = Some (Inr g)"
  shows "is_ready (plan_dependency_closure_from_graph_and_materialization g mc) \<longleftrightarrow> simple_edges (edges g)"
  using finalized_graph_acyclic [OF assms] by (simp add: plan_ready_iff)

section \<open>Samples\<close>






definition sample_renamed :: partial_graph where
  "sample_renamed = add_edge [''p'', ''app''] [''p'', ''lib''] ''lib_v2'' (add_edge [''p'', ''app''] [''p'', ''lib''] ''lib''
     (add_package [''p'', ''lib''] [''p'', ''lib'', ''Cargo.toml''] ''lib'' False
       (add_package [''p'', ''app''] [''p'', ''app'', ''Cargo.toml''] ''app'' True
         (add_root [''p'', ''app''] partial_graph_default))))"

text \<open>A package that uses another one under two names, which Cargo allows: the resolver accepts the graph, the
  planner gives up on it.\<close>

theorem renamed_dependency_fails_open:
  "\<exists>g. finalize_graph [''p'', ''app'', ''Cargo.toml''] sample_renamed = Some (Inr g) \<and>
     acyclic (dep_pairs (edges g)) \<and> \<not> is_ready (plan_dependency_closure_from_graph g)"
proof -
  have "case finalize_graph [''p'', ''app'', ''Cargo.toml''] sample_renamed of
      Some (Inr g) \<Rightarrow> \<not> is_ready (plan_dependency_closure_from_graph g) | _ \<Rightarrow> False"
    by code_simp
  then obtain g where g: "finalize_graph [''p'', ''app'', ''Cargo.toml''] sample_renamed = Some (Inr g)"
    "\<not> is_ready (plan_dependency_closure_from_graph g)"
    by (auto split: option.splits sum.splits)
  then show ?thesis using finalized_graph_acyclic [OF g(1)] by blast
qed

theorem resolved_plan_ready_witness:
  "\<exists>g. finalize_graph [''p'', ''app'', ''Cargo.toml''] sample_renamed = Some (Inr g) \<and> \<not> simple_edges (edges g) \<and>
     \<not> is_ready (plan_dependency_closure_from_graph_and_materialization g None)"
proof -
  have "case finalize_graph [''p'', ''app'', ''Cargo.toml''] sample_renamed of
      Some (Inr g) \<Rightarrow> \<not> simple_edges (edges g) | _ \<Rightarrow> False"
    by code_simp
  then obtain g where "finalize_graph [''p'', ''app'', ''Cargo.toml''] sample_renamed = Some (Inr g)"
    "\<not> simple_edges (edges g)"
    by (auto split: option.splits sum.splits)
  then show ?thesis using resolved_plan_ready [of "[''p'', ''app'', ''Cargo.toml'']" sample_renamed g None] by blast
qed

end
