(* ===== verification/Queue_Contract.thy ===== *)
theory Queue_Contract
  imports Prelude
begin

text \<open>
  What a command learns about its job: the identity and lifecycle of \<open>rch-common/src/job_identity.rs\<close> and
  the queue contract of \<open>rch-common/src/queue_contract.rs\<close>. Literals with a dash outside ASCII are kept
  as their bytes in UTF-8. The random part of a wrapper's identifier is an argument.
\<close>

section \<open>Job identity\<close>

record job_identity =
  local_wrapper_id :: string
  remote_build_id :: "nat option"

definition LOCAL_WRAPPER_ID_PREFIX :: string where
  "LOCAL_WRAPPER_ID_PREFIX = ''rchw-''"

definition new_local_wrapper_id :: "string \<Rightarrow> string" where
  "new_local_wrapper_id uuid = LOCAL_WRAPPER_ID_PREFIX @ uuid"

definition new_local :: "string \<Rightarrow> job_identity" where
  "new_local uuid = \<lparr>local_wrapper_id = new_local_wrapper_id uuid, remote_build_id = None\<rparr>"

definition admit_identity :: "nat \<Rightarrow> job_identity \<Rightarrow> job_identity" where
  "admit_identity r i = i\<lparr>remote_build_id := Some r\<rparr>"

definition is_admitted :: "job_identity \<Rightarrow> bool" where
  "is_admitted i \<longleftrightarrow> remote_build_id i \<noteq> None"

datatype job_lifecycle_state =
  FailedBeforeAdmissionState | QueuedState | Running | Finished | Abandoned

definition is_terminal :: "job_lifecycle_state \<Rightarrow> bool" where
  "is_terminal st \<longleftrightarrow> st \<in> {Finished, Abandoned, FailedBeforeAdmissionState}"

record job_signals =
  signal_admitted :: bool
  signal_started :: bool
  signal_completed :: bool
  signal_heartbeat_stale :: bool

definition derive_job_lifecycle_state :: "job_signals \<Rightarrow> job_lifecycle_state" where
  "derive_job_lifecycle_state s =
     (if signal_completed s then Finished
      else if \<not> signal_admitted s then FailedBeforeAdmissionState
      else if signal_heartbeat_stale s then Abandoned
      else if signal_started s then Running
      else QueuedState)"

record job_record =
  job_identity :: job_identity
  job_state :: job_lifecycle_state
  job_command :: string
  job_worker_id :: "string option"
  job_exit_code :: "int option"

definition correlate ::
  "job_identity \<Rightarrow> string \<Rightarrow> string option \<Rightarrow> int option \<Rightarrow> job_signals \<Rightarrow> job_record" where
  "correlate i command worker exit_code signals =
     (let s = signals\<lparr>signal_admitted := is_admitted i\<rparr>;
          s = (if exit_code \<noteq> None then s\<lparr>signal_completed := True\<rparr> else s)
      in \<lparr>job_identity = i, job_state = derive_job_lifecycle_state s, job_command = command,
          job_worker_id = worker, job_exit_code = exit_code\<rparr>)"

section \<open>Durable leases\<close>

record durable_job_lease =
  schema_version :: nat
  lease_identity :: job_identity
  wrapper_pid :: nat
  process_start_ticks :: "nat option"
  boot_id :: "string option"
  lease_state :: job_lifecycle_state
  lease_phase :: string
  lease_worker_id :: "string option"
  heartbeat_unix_ms :: "64 word"
  strict_remote :: bool
  self_healing_enabled :: bool
  lease_command_fingerprint :: string
  terminal_acknowledged :: bool

definition lease_new ::
  "job_identity \<Rightarrow> nat \<Rightarrow> nat option \<Rightarrow> string option \<Rightarrow> 64 word \<Rightarrow> bool \<Rightarrow> bool \<Rightarrow> string \<Rightarrow> durable_job_lease" where
  "lease_new i pid ticks boot now strict healing fingerprint =
     \<lparr>schema_version = 1, lease_identity = i, wrapper_pid = pid, process_start_ticks = ticks, boot_id = boot,
      lease_state = QueuedState, lease_phase = ''admission'', lease_worker_id = None,
      heartbeat_unix_ms = now, strict_remote = strict, self_healing_enabled = healing,
      lease_command_fingerprint = fingerprint, terminal_acknowledged = False\<rparr>"

definition lease_admit :: "nat \<Rightarrow> string \<Rightarrow> 64 word \<Rightarrow> durable_job_lease \<Rightarrow> durable_job_lease" where
  "lease_admit r worker now l =
     l\<lparr>lease_identity := admit_identity r (lease_identity l), lease_worker_id := Some worker,
       lease_state := Running, lease_phase := ''sync_up'', heartbeat_unix_ms := now\<rparr>"

definition lease_heartbeat :: "string \<Rightarrow> 64 word \<Rightarrow> durable_job_lease \<Rightarrow> durable_job_lease" where
  "lease_heartbeat phase now l = l\<lparr>lease_phase := phase, heartbeat_unix_ms := now\<rparr>"

definition acknowledge_terminal :: "64 word \<Rightarrow> durable_job_lease \<Rightarrow> durable_job_lease" where
  "acknowledge_terminal now l =
     l\<lparr>lease_state := Finished, lease_phase := ''finished'', heartbeat_unix_ms := now,
       terminal_acknowledged := True\<rparr>"

inductive lease_step :: "durable_job_lease \<Rightarrow> durable_job_lease \<Rightarrow> bool" where
  lease_step_admit: "lease_step l (lease_admit r worker now l)"
| lease_step_heartbeat: "lease_step l (lease_heartbeat phase now l)"
| lease_step_ack: "lease_step l (acknowledge_terminal now l)"

definition lease_start :: "durable_job_lease \<Rightarrow> bool" where
  "lease_start l \<longleftrightarrow> (\<exists>uuid pid ticks boot now strict healing fp.
     l = lease_new (new_local uuid) pid ticks boot now strict healing fp)"

text \<open>What the record always says: a job whose state is not the initial one, short of being finished, has
  a worker and a remote identifier, and a finished one was acknowledged.\<close>

definition lease_good :: "durable_job_lease \<Rightarrow> bool" where
  "lease_good l \<longleftrightarrow>
     lease_state l \<in> {QueuedState, Running, Finished} \<and>
     (lease_state l = Finished \<longrightarrow> terminal_acknowledged l) \<and>
     (lease_state l = Running \<longrightarrow> is_admitted (lease_identity l)) \<and>
     (is_admitted (lease_identity l) \<longleftrightarrow> lease_worker_id l \<noteq> None) \<and>
     (lease_state l = QueuedState \<longrightarrow> \<not> is_admitted (lease_identity l) \<and> \<not> terminal_acknowledged l)"

interpretation lease: transition_system lease_start lease_step lease_good
proof
  fix s t
  show "lease_start s \<Longrightarrow> lease_good s"
    by (auto simp: lease_start_def lease_new_def new_local_def lease_good_def is_admitted_def)
  show "lease_good s \<Longrightarrow> lease_step s t \<Longrightarrow> lease_good t"
    by (auto elim!: lease_step.cases
        simp: lease_good_def lease_admit_def lease_heartbeat_def acknowledge_terminal_def
          admit_identity_def is_admitted_def)
qed

text \<open>The correlated state follows the identity: a job is reported as failed before admission exactly if
  it has no remote identifier and no completion.\<close>

lemma correlate_state:
  "job_state (correlate i c w x s) = FailedBeforeAdmissionState \<longleftrightarrow>
     remote_build_id i = None \<and> x = None \<and> \<not> signal_completed s"
  "job_state (correlate i c w x s) = Finished \<longleftrightarrow> x \<noteq> None \<or> signal_completed s"
  by (auto simp: correlate_def derive_job_lifecycle_state_def is_admitted_def Let_def)

section \<open>The queue contract\<close>

record queue_options =
  opt_wait :: bool
  opt_follow :: bool
  wait_timeout_secs :: "64 word option"
  opt_no_start :: bool
  opt_strict :: bool

definition default_queue_options :: queue_options where
  "default_queue_options =
     \<lparr>opt_wait = False, opt_follow = False, wait_timeout_secs = None, opt_no_start = False, opt_strict = False\<rparr>"

datatype admission_state = AdmittedRunning | Queued | RejectedBeforeAdmission string

datatype wait_result = StartedAfterWait | TimedOut | WaitCancelled

datatype start_state = Started | NotStarted

datatype queue_contract_outcome =
    StartedRunning | WaitingStreamed | QueuedNotStarted | TimedOutQueued | CancelledBeforeStart
  | FailedBeforeAdmission string

fun outcome_start_state :: "queue_contract_outcome \<Rightarrow> start_state" where
  "outcome_start_state StartedRunning = Started"
| "outcome_start_state WaitingStreamed = Started"
| "outcome_start_state _ = NotStarted"

definition outcome_started :: "queue_contract_outcome \<Rightarrow> bool" where
  "outcome_started c \<longleftrightarrow> outcome_start_state c = Started"

fun outcome_as_str :: "queue_contract_outcome \<Rightarrow> string" where
  "outcome_as_str StartedRunning = ''started_running''"
| "outcome_as_str WaitingStreamed = ''waiting_streamed''"
| "outcome_as_str QueuedNotStarted = ''queued_not_started''"
| "outcome_as_str TimedOutQueued = ''timed_out_queued''"
| "outcome_as_str CancelledBeforeStart = ''cancelled_before_start''"
| "outcome_as_str (FailedBeforeAdmission _) = ''failed_before_admission''"

definition resolve_queue_contract ::
  "admission_state \<Rightarrow> queue_options \<Rightarrow> wait_result option \<Rightarrow> queue_contract_outcome" where
  "resolve_queue_contract admission opts waited =
     (case admission of
        RejectedBeforeAdmission reason \<Rightarrow> FailedBeforeAdmission reason
      | AdmittedRunning \<Rightarrow> StartedRunning
      | Queued \<Rightarrow>
          if opt_strict opts
          then FailedBeforeAdmission ''strict mode requires immediate admission; refusing to queue''
          else if opt_no_start opts \<or> \<not> (opt_wait opts \<or> opt_follow opts) then QueuedNotStarted
          else (case waited of
                  Some StartedAfterWait \<Rightarrow> WaitingStreamed
                | Some TimedOut \<Rightarrow> TimedOutQueued
                | Some WaitCancelled \<Rightarrow> CancelledBeforeStart
                | None \<Rightarrow> QueuedNotStarted))"

record queue_contract_response =
  response_job_id :: "string option"
  response_started :: bool
  response_outcome :: string
  response_reattachable :: bool
  response_detail :: string

definition em_dash :: string where
  "em_dash = [CHR 0xE2, CHR 0x80, CHR 0x94]"

fun outcome_detail :: "queue_contract_outcome \<Rightarrow> string" where
  "outcome_detail StartedRunning = ''admitted and running''"
| "outcome_detail WaitingStreamed = ''queued, then started; streaming''"
| "outcome_detail QueuedNotStarted = ''queued; not started '' @ em_dash @ '' reattach with the job id''"
| "outcome_detail TimedOutQueued =
     ''wait timed out while queued; not started '' @ em_dash @ '' reattach with the job id''"
| "outcome_detail CancelledBeforeStart = ''cancelled before it started''"
| "outcome_detail (FailedBeforeAdmission reason) = ''failed before admission: '' @ reason"

definition build_response :: "queue_contract_outcome \<Rightarrow> string option \<Rightarrow> queue_contract_response" where
  "build_response c job =
     \<lparr>response_job_id = job, response_started = outcome_started c, response_outcome = outcome_as_str c,
      response_reattachable = (job \<noteq> None \<and> \<not> outcome_started c), response_detail = outcome_detail c\<rparr>"

definition show_bool :: "bool \<Rightarrow> string" where
  "show_bool b = (if b then ''true'' else ''false'')"

definition render_response :: "queue_contract_response \<Rightarrow> string" where
  "render_response r =
     ''queue: '' @ response_outcome r @ '' (started='' @ show_bool (response_started r)
       @ '', reattachable='' @ show_bool (response_reattachable r)
       @ (case response_job_id r of None \<Rightarrow> [] | Some j \<Rightarrow> '', job='' @ j) @ '') '' @ em_dash @ '' ''
       @ response_detail r"

text \<open>A strict command is never left in the queue, and a command that was not admitted starts only if it
  was queued, was allowed to wait, and was seen to start.\<close>

lemma resolve_started:
  "outcome_started (resolve_queue_contract a opts w) \<longleftrightarrow>
     a = AdmittedRunning \<or>
     a = Queued \<and> \<not> opt_strict opts \<and> \<not> opt_no_start opts \<and> (opt_wait opts \<or> opt_follow opts) \<and>
       w = Some StartedAfterWait"
  by (auto simp: resolve_queue_contract_def outcome_started_def
      split: admission_state.splits option.splits wait_result.splits)

lemma resolve_strict:
  "opt_strict opts \<Longrightarrow> resolve_queue_contract a opts w \<notin> {QueuedNotStarted, TimedOutQueued, WaitingStreamed}"
  by (auto simp: resolve_queue_contract_def split: admission_state.splits)

lemma trim_not_blank: "\<not> is_whitespace c \<Longrightarrow> c \<in> set d \<Longrightarrow> trim d \<noteq> []"
  by (induction d) (auto simp: trim_def trim_start_def trim_end_def)

lemma render_not_blank: "trim (render_response r) \<noteq> []"
  by (rule trim_not_blank [of "CHR ''q''"]) (auto simp: render_response_def is_whitespace_def)

end
