(* ===== verification/Smoke_Profile.thy ===== *)
theory Smoke_Profile
  imports Prelude
begin

text \<open>
  The plan of a fleet smoke run and the event record of its log, \<open>rch-common/src/fleet_smoke_profile.rs\<close>.
  Load runs (\<open>Storm_Control\<close>) write the same records.
\<close>

section \<open>Scenarios\<close>

definition NO_REAL_WORKERS :: string where "NO_REAL_WORKERS = ''smoke_no_real_workers''"
definition REMOTE_AVAILABLE :: string where "REMOTE_AVAILABLE = ''smoke_remote_available''"
definition PROOF_REFUSAL_EXPECTED :: string where "PROOF_REFUSAL_EXPECTED = ''smoke_proof_refusal_expected''"
definition NOT_SELECTED :: string where "NOT_SELECTED = ''smoke_not_selected''"

datatype smoke_scenario =
    DaemonReachable | DesiredVsLiveFleet | WorkerCapabilitiesExactUserPath | DiskInodeAdmission
  | CargoCanary | ArtifactRetrieval | QueueAttachCancel | ProofModeRefusal | LoadStormControl

definition ALL_SCENARIOS :: "smoke_scenario list" where
  "ALL_SCENARIOS =
     [DaemonReachable, DesiredVsLiveFleet, WorkerCapabilitiesExactUserPath, DiskInodeAdmission,
      CargoCanary, ArtifactRetrieval, QueueAttachCancel, ProofModeRefusal]"

fun scenario_as_str :: "smoke_scenario \<Rightarrow> string" where
  "scenario_as_str DaemonReachable = ''daemon_reachable''"
| "scenario_as_str DesiredVsLiveFleet = ''desired_vs_live_fleet''"
| "scenario_as_str WorkerCapabilitiesExactUserPath = ''worker_capabilities_exact_user_path''"
| "scenario_as_str DiskInodeAdmission = ''disk_inode_admission''"
| "scenario_as_str CargoCanary = ''cargo_canary''"
| "scenario_as_str ArtifactRetrieval = ''artifact_retrieval''"
| "scenario_as_str QueueAttachCancel = ''queue_attach_cancel''"
| "scenario_as_str ProofModeRefusal = ''proof_mode_refusal''"
| "scenario_as_str LoadStormControl = ''load_storm_control''"

definition requires_real_worker :: "smoke_scenario \<Rightarrow> bool" where
  "requires_real_worker sc \<longleftrightarrow> sc \<noteq> DaemonReachable \<and> sc \<noteq> ProofModeRefusal"

section \<open>Planning\<close>

datatype profile_mode = Smoke | Soak | Load

record smoke_profile_inputs =
  workers_configured :: bool
  remote_execution_available :: bool
  dry_run :: bool
  profile_mode :: profile_mode
  input_selected_worker :: "string option"

definition no_workers :: smoke_profile_inputs where
  "no_workers =
     \<lparr>workers_configured = False, remote_execution_available = False, dry_run = False,
      profile_mode = Smoke, input_selected_worker = None\<rparr>"

datatype scenario_action = Run | DryRun | Skip string string | ExpectRefusal string string

fun is_executed :: "scenario_action \<Rightarrow> bool" where
  "is_executed Run = True"
| "is_executed (ExpectRefusal _ _) = True"
| "is_executed _ = False"

fun status_token :: "scenario_action \<Rightarrow> string" where
  "status_token Run = ''run''"
| "status_token DryRun = ''dry_run''"
| "status_token (Skip _ _) = ''skip''"
| "status_token (ExpectRefusal _ _) = ''expect_refusal''"

fun action_reason_code :: "scenario_action \<Rightarrow> string option" where
  "action_reason_code (Skip r _) = Some r"
| "action_reason_code (ExpectRefusal r _) = Some r"
| "action_reason_code _ = None"

record planned_scenario =
  planned_scenario :: smoke_scenario
  planned_action :: scenario_action

record smoke_profile_plan =
  plan_mode :: profile_mode
  plan_selected_worker :: "string option"
  plan_scenarios :: "planned_scenario list"
  overall_skipped :: bool

definition executed_count :: "smoke_profile_plan \<Rightarrow> nat" where
  "executed_count p = length (filter (\<lambda>x. is_executed (planned_action x)) (plan_scenarios p))"

definition plan_scenario :: "smoke_scenario \<Rightarrow> smoke_profile_inputs \<Rightarrow> scenario_action" where
  "plan_scenario sc inputs =
     (if sc = ProofModeRefusal then
        (if remote_execution_available inputs
         then Skip REMOTE_AVAILABLE
                ''remote execution is available, so proof-mode refusal cannot be exercised''
         else ExpectRefusal PROOF_REFUSAL_EXPECTED
                ''remote execution is unavailable; proof-mode must fail closed'')
      else if requires_real_worker sc \<and> \<not> workers_configured inputs
      then Skip NO_REAL_WORKERS ''no real workers configured; real-fleet scenario skipped''
      else if input_selected_worker inputs \<noteq> None \<and> sc = DesiredVsLiveFleet
      then Skip NOT_SELECTED ''fleet-wide scenario skipped under a single --worker selection''
      else if dry_run inputs then DryRun
      else Run)"

definition plan_smoke_profile :: "smoke_profile_inputs \<Rightarrow> smoke_profile_plan" where
  "plan_smoke_profile inputs =
     (let scenarios = map (\<lambda>sc. \<lparr>planned_scenario = sc, planned_action = plan_scenario sc inputs\<rparr>) ALL_SCENARIOS
      in \<lparr>plan_mode = profile_mode inputs, plan_selected_worker = input_selected_worker inputs,
          plan_scenarios = scenarios,
          overall_skipped =
            (\<not> list_ex (\<lambda>p. requires_real_worker (planned_scenario p) \<and> is_executed (planned_action p)) scenarios)\<rparr>)"

section \<open>Events\<close>

record smoke_profile_event =
  ev_run_id :: string
  ev_bead_id :: string
  ev_worker_id :: "string option"
  ev_scenario :: string
  ev_event :: string
  ev_status :: string
  ev_reason_code :: "string option"
  ev_command_fingerprint :: "string option"
  ev_duration_ms :: "64 word"
  ev_remote_target_dir :: "string option"
  ev_artifact_summary :: "string option"
  ev_local_job_id :: "string option"
  ev_remote_job_id :: "nat option"
  ev_queue_depth :: "nat option"
  ev_selected_worker :: "string option"
  ev_fallback_decision :: "string option"
  ev_detail :: "string option"

text \<open>\<open>Option::filter\<close>, and the struct literal the constructors share.\<close>

definition option_filter :: "('a \<Rightarrow> bool) \<Rightarrow> 'a option \<Rightarrow> 'a option" where
  "option_filter P x = (case x of Some a \<Rightarrow> if P a then Some a else None | None \<Rightarrow> None)"

definition plain_event ::
  "string \<Rightarrow> string \<Rightarrow> string option \<Rightarrow> smoke_scenario \<Rightarrow> string \<Rightarrow> string \<Rightarrow> string option \<Rightarrow> string option
     \<Rightarrow> 64 word \<Rightarrow> smoke_profile_event" where
  "plain_event run bead worker sc event status reason fingerprint duration =
     \<lparr>ev_run_id = run, ev_bead_id = bead, ev_worker_id = worker, ev_scenario = scenario_as_str sc,
      ev_event = event, ev_status = status, ev_reason_code = reason, ev_command_fingerprint = fingerprint,
      ev_duration_ms = duration, ev_remote_target_dir = None, ev_artifact_summary = None,
      ev_local_job_id = None, ev_remote_job_id = None, ev_queue_depth = None, ev_selected_worker = None,
      ev_fallback_decision = None, ev_detail = None\<rparr>"

definition event_planned ::
  "string \<Rightarrow> string \<Rightarrow> string option \<Rightarrow> planned_scenario \<Rightarrow> smoke_profile_event" where
  "event_planned run bead worker p =
     plain_event run bead (option_filter (\<lambda>_. requires_real_worker (planned_scenario p)) worker)
       (planned_scenario p) ''planned'' (status_token (planned_action p))
       (action_reason_code (planned_action p)) None 0"

definition event_started ::
  "string \<Rightarrow> string \<Rightarrow> string option \<Rightarrow> smoke_scenario \<Rightarrow> smoke_profile_event" where
  "event_started run bead worker sc =
     plain_event run bead (option_filter (\<lambda>_. requires_real_worker sc) worker) sc ''started'' ''run'' None None 0"

definition event_outcome ::
  "string \<Rightarrow> string \<Rightarrow> string option \<Rightarrow> smoke_scenario \<Rightarrow> bool \<Rightarrow> string option \<Rightarrow> string option \<Rightarrow> 64 word
     \<Rightarrow> smoke_profile_event" where
  "event_outcome run bead worker sc passed reason fingerprint duration =
     plain_event run bead (option_filter (\<lambda>_. requires_real_worker sc) worker) sc
       (if passed then ''passed'' else ''failed'') (if passed then ''ok'' else ''fail'')
       (option_filter (\<lambda>_. \<not> passed) reason) fingerprint duration"

definition event_refused ::
  "string \<Rightarrow> string \<Rightarrow> bool \<Rightarrow> string option \<Rightarrow> 64 word \<Rightarrow> smoke_profile_event" where
  "event_refused run bead held reason duration =
     plain_event run bead None ProofModeRefusal
       (if held then ''refused'' else ''failed'') (if held then ''ok'' else ''fail'') reason None duration"

definition with_job_ids :: "string option \<Rightarrow> nat option \<Rightarrow> smoke_profile_event \<Rightarrow> smoke_profile_event" where
  "with_job_ids l r ev = ev\<lparr>ev_local_job_id := l, ev_remote_job_id := r\<rparr>"

definition with_queue_depth :: "nat \<Rightarrow> smoke_profile_event \<Rightarrow> smoke_profile_event" where
  "with_queue_depth d ev = ev\<lparr>ev_queue_depth := Some d\<rparr>"

definition with_selected_worker :: "string option \<Rightarrow> smoke_profile_event \<Rightarrow> smoke_profile_event" where
  "with_selected_worker w ev = ev\<lparr>ev_selected_worker := w\<rparr>"

definition with_fallback_decision :: "string \<Rightarrow> smoke_profile_event \<Rightarrow> smoke_profile_event" where
  "with_fallback_decision d ev = ev\<lparr>ev_fallback_decision := Some d\<rparr>"

definition with_detail :: "string \<Rightarrow> smoke_profile_event \<Rightarrow> smoke_profile_event" where
  "with_detail d ev = ev\<lparr>ev_detail := Some d\<rparr>"

section \<open>What a plan does\<close>

text \<open>The fleet is exercised exactly if workers are configured and the run is not a dry one; the refusal of
  proof mode is exercised exactly if nothing can run remotely, also in a dry run and without workers.\<close>

lemma plan_exercises:
  "overall_skipped (plan_smoke_profile inputs) \<longleftrightarrow> dry_run inputs \<or> \<not> workers_configured inputs"
  "is_executed (plan_scenario ProofModeRefusal inputs) \<longleftrightarrow> \<not> remote_execution_available inputs"
  by (auto simp: plan_smoke_profile_def ALL_SCENARIOS_def plan_scenario_def requires_real_worker_def Let_def)

text \<open>In a real run with workers, the only scenarios not executed are those the selection or an available
  fleet rules out.\<close>

lemma plan_executed_count:
  assumes "workers_configured inputs" "\<not> dry_run inputs"
  shows "executed_count (plan_smoke_profile inputs) =
    8 - (if input_selected_worker inputs \<noteq> None then 1 else 0) - (if remote_execution_available inputs then 1 else 0)"
  using assms
  by (simp add: executed_count_def plan_smoke_profile_def ALL_SCENARIOS_def plan_scenario_def
      requires_real_worker_def Let_def)

end
