(* ===== verification/Storm_Control.thy ===== *)
theory Storm_Control
  imports Complex_Main Queue_Contract Smoke_Profile "HOL-Library.Product_Lexorder" "HOL-Library.Multiset" "HOL-Library.Char_ord" "HOL-Library.List_Lexorder"
begin

text \<open>
  The storm simulator, \<open>rch-common/src/storm_control.rs\<close>: a discrete-event simulation of many jobs that
  compete for the slots of a fleet, the recorder of real runs, and the checkers that judge the events of
  either. Times are \<open>64 word\<close> and slots \<open>32 word\<close>, so additions wrap as in a release build. Speeds and
  ratios, which are floating-point numbers in the source, are rationals. The \<open>BinaryHeap\<close> of pending events is
  the list of its elements in the order in which it yields them. The counters of remote identifiers and
  sequence numbers are \<open>nat\<close>; each grows by at most three per job.
\<close>

section \<open>Fleet and jobs\<close>

definition DECISION_REMOTE :: string where "DECISION_REMOTE = ''remote''"
definition DECISION_QUEUED :: string where "DECISION_QUEUED = ''queued''"
definition DECISION_LOCAL_FALLBACK :: string where "DECISION_LOCAL_FALLBACK = ''local_fallback''"
definition DECISION_QUEUE_TIMEOUT_FALLBACK :: string where "DECISION_QUEUE_TIMEOUT_FALLBACK = ''queue_timeout_fallback''"
definition DECISION_PROOF_REFUSED :: string where "DECISION_PROOF_REFUSED = ''proof_refused''"
definition DECISION_CANCELLED :: string where "DECISION_CANCELLED = ''cancelled''"

definition EVENT_QUEUED :: string where "EVENT_QUEUED = ''queued''"
definition EVENT_STARTED :: string where "EVENT_STARTED = ''started''"
definition EVENT_PASSED :: string where "EVENT_PASSED = ''passed''"
definition EVENT_FELL_BACK :: string where "EVENT_FELL_BACK = ''fell_back''"
definition EVENT_REFUSED :: string where "EVENT_REFUSED = ''refused''"
definition EVENT_CANCELLED :: string where "EVENT_CANCELLED = ''cancelled''"

definition PROOF_REFUSAL_REASON :: string where "PROOF_REFUSAL_REASON = ''RCH-E301''"

datatype worker_eligibility = Healthy | Degraded | TemporaryBypass | AdminDisabled | CapabilityInadmissible

definition eligibility_is_schedulable :: "worker_eligibility \<Rightarrow> bool" where
  "eligibility_is_schedulable e \<longleftrightarrow> e = Healthy \<or> e = Degraded"

record storm_worker =
  worker_name :: string
  total_slots :: "32 word"
  speed :: rat
  eligibility :: worker_eligibility

definition healthy :: "string \<Rightarrow> 32 word \<Rightarrow> rat \<Rightarrow> storm_worker" where
  "healthy i n v = \<lparr>worker_name = i, total_slots = n, speed = v, eligibility = Healthy\<rparr>"

definition with_eligibility :: "worker_eligibility \<Rightarrow> storm_worker \<Rightarrow> storm_worker" where
  "with_eligibility e w = w\<lparr>eligibility := e\<rparr>"

datatype job_policy = FailOpen | ForceRemote | Proof

definition allows_local_fallback :: "job_policy \<Rightarrow> bool" where
  "allows_local_fallback p \<longleftrightarrow> p = FailOpen \<or> p = ForceRemote"

datatype job_kind = Build | Test | Check

fun fingerprint :: "job_kind \<Rightarrow> string" where
  "fingerprint Build = ''cargo build''"
| "fingerprint Test = ''cargo test''"
| "fingerprint Check = ''cargo check''"

record storm_job =
  runtime_ms :: "64 word"
  job_slots :: "32 word"
  project_root :: string
  policy :: job_policy
  job_kind :: job_kind
  cancel_when_queued :: bool

definition build_job :: "64 word \<Rightarrow> 32 word \<Rightarrow> string \<Rightarrow> storm_job" where
  "build_job runtime slots dir =
     \<lparr>runtime_ms = runtime, job_slots = slots, project_root = dir, policy = FailOpen, job_kind = Build,
      cancel_when_queued = False\<rparr>"

definition with_policy :: "job_policy \<Rightarrow> storm_job \<Rightarrow> storm_job" where
  "with_policy p j = j\<lparr>policy := p\<rparr>"

definition with_kind :: "job_kind \<Rightarrow> storm_job \<Rightarrow> storm_job" where
  "with_kind k j = j\<lparr>job_kind := k\<rparr>"

definition cancelling :: "storm_job \<Rightarrow> storm_job" where
  "cancelling j = j\<lparr>cancel_when_queued := True\<rparr>"

record storm_config =
  cfg_run_id :: string
  cfg_bead_id :: string
  max_queue_depth :: nat
  queue_timeout_ms :: "64 word"
  fairness_window :: nat
  cancel_delay_ms :: "64 word"

definition storm_config_new :: "string \<Rightarrow> string \<Rightarrow> storm_config" where
  "storm_config_new run bead =
     \<lparr>cfg_run_id = run, cfg_bead_id = bead, max_queue_depth = 64, queue_timeout_ms = 30000,
      fairness_window = 16, cancel_delay_ms = 5\<rparr>"

record storm_summary =
  total_jobs :: nat
  remote_successes :: nat
  local_fallbacks :: nat
  proof_refusals :: nat
  queue_timeouts :: nat
  cancellations :: nat
  p95_queue_wait_ms :: "64 word"
  p95_end_to_end_ms :: "64 word"
  per_worker_slot_utilization :: "string \<rightharpoonup> rat"

record storm_run =
  run_events :: "smoke_profile_event list"
  run_summary :: storm_summary

section \<open>Events of a load run\<close>

definition make_load_event ::
  "storm_config \<Rightarrow> job_kind \<Rightarrow> string \<Rightarrow> string \<Rightarrow> string \<Rightarrow> string \<Rightarrow> string option \<Rightarrow> string option \<Rightarrow> nat option
     \<Rightarrow> 64 word \<Rightarrow> string option \<Rightarrow> nat option \<Rightarrow> smoke_profile_event" where
  "make_load_event cfg kind local_id event status decision worker selected depth duration detail remote =
     (let ev = event_started (cfg_run_id cfg) (cfg_bead_id cfg) worker LoadStormControl;
          ev = ev\<lparr>ev_event := event, ev_status := status, ev_duration_ms := duration,
                  ev_command_fingerprint := Some (fingerprint kind)\<rparr>;
          ev = with_fallback_decision decision (with_selected_worker selected (with_job_ids (Some local_id) remote ev));
          ev = (case depth of Some d \<Rightarrow> with_queue_depth d ev | None \<Rightarrow> ev)
      in case detail of Some d \<Rightarrow> with_detail d ev | None \<Rightarrow> ev)"

definition queued_guidance :: "string \<Rightarrow> string" where
  "queued_guidance local_id =
     render_response (build_response (resolve_queue_contract Queued default_queue_options None) (Some local_id))"

definition local_fallback_guidance :: string where
  "local_fallback_guidance =
     response_detail (build_response
       (resolve_queue_contract (RejectedBeforeAdmission ''fleet at capacity; ran locally (fail-open)'')
          default_queue_options None) None)"

definition queue_timeout_guidance :: "string \<Rightarrow> 64 word \<Rightarrow> string" where
  "queue_timeout_guidance local_id timeout =
     render_response (build_response
       (resolve_queue_contract Queued
          (default_queue_options\<lparr>opt_wait := True, wait_timeout_secs := Some (timeout div 1000)\<rparr>)
          (Some TimedOut)) (Some local_id))"

definition cancel_guidance :: "string \<Rightarrow> string" where
  "cancel_guidance local_id =
     render_response (build_response
       (resolve_queue_contract Queued (default_queue_options\<lparr>opt_wait := True\<rparr>) (Some WaitCancelled))
       (Some local_id))"

section \<open>The simulator's state\<close>

datatype disposition = Remote nat | LocalFallback | QueueTimeoutFallback | ProofRefused | Cancelled

record job_state =
  local_id :: string
  enqueued_at :: "64 word option"
  queue_wait_ms :: "64 word"
  started_at :: "64 word option"
  disposition :: "disposition option"

datatype ev_kind = Arrival nat | Completion nat "32 word" nat | Timeout nat | Cancel nat

record ev =
  ev_time :: "64 word"
  ev_seq :: nat
  ev_kind :: ev_kind

text \<open>What the simulator borrows, and its own fields.\<close>

record storm =
  workers :: "storm_worker list"
  jobs :: "storm_job list"
  cfg :: storm_config

record sim =
  used :: "32 word list"
  busy_slot_ms :: "nat list"
  selection_log :: "nat list"
  jstate :: "job_state list"
  queue :: "nat list"
  heap :: "ev list"
  events :: "smoke_profile_event list"
  next_remote_id :: nat
  next_seq :: nat
  clock :: "64 word"
  makespan :: "64 word"
  sim_timeouts :: nat

text \<open>\<open>format!("{i:04}")\<close>.\<close>

definition pad4 :: "nat \<Rightarrow> string" where
  "pad4 i = replicate (4 - length (show_nat i)) (CHR ''0'') @ show_nat i"

definition storm_local_id :: "nat \<Rightarrow> string" where
  "storm_local_id i = LOCAL_WRAPPER_ID_PREFIX @ pad4 i"

definition ev_key :: "ev \<Rightarrow> 64 word \<times> nat" where
  "ev_key x = (ev_time x, ev_seq x)"

definition heap_push :: "ev \<Rightarrow> ev list \<Rightarrow> ev list" where
  "heap_push x h = insort_key ev_key x h"

definition sim_new :: "storm \<Rightarrow> sim" where
  "sim_new st =
     \<lparr>used = replicate (length (workers st)) 0, busy_slot_ms = replicate (length (workers st)) 0,
      selection_log = [],
      jstate = map (\<lambda>i. \<lparr>local_id = storm_local_id i, enqueued_at = None, queue_wait_ms = 0,
                          started_at = None, disposition = None\<rparr>) [0..<length (jobs st)],
      queue = [],
      heap = foldl (\<lambda>h i. heap_push \<lparr>ev_time = 0, ev_seq = i, ev_kind = Arrival i\<rparr> h) [] [0..<length (jobs st)],
      events = [], next_remote_id = 1, next_seq = length (jobs st), clock = 0, makespan = 0, sim_timeouts = 0\<rparr>"

text \<open>\<open>seq\<close> with the push that follows it.\<close>

definition push_event :: "64 word \<Rightarrow> ev_kind \<Rightarrow> sim \<Rightarrow> sim" where
  "push_event t k s =
     s\<lparr>next_seq := next_seq s + 1, heap := heap_push \<lparr>ev_time = t, ev_seq = next_seq s, ev_kind = k\<rparr> (heap s)\<rparr>"

section \<open>Placement\<close>

definition select_step ::
  "sim \<Rightarrow> 32 word \<Rightarrow> (nat \<times> rat) option \<Rightarrow> nat \<times> storm_worker \<Rightarrow> (nat \<times> rat) option" where
  "select_step s slots best iw =
     (case iw of (i, w) \<Rightarrow>
        if \<not> eligibility_is_schedulable (eligibility w) then best
        else if total_slots w < slots then best
        else if total_slots w - used s ! i < slots then best
        else
          let recent = length (filter (\<lambda>x. x = i) (selection_log s));
              weight = speed w / (1 + of_nat recent)
          in case best of
               Some (_, bw) \<Rightarrow> if weight \<le> bw then best else Some (i, weight)
             | None \<Rightarrow> Some (i, weight))"

definition try_select :: "storm \<Rightarrow> 32 word \<Rightarrow> sim \<Rightarrow> nat option" where
  "try_select st slots s =
     map_option fst (foldl (select_step s slots) None (enumerate 0 (workers st)))"

definition ever_feasible :: "storm \<Rightarrow> 32 word \<Rightarrow> bool" where
  "ever_feasible st slots \<longleftrightarrow>
     list_ex (\<lambda>w. eligibility_is_schedulable (eligibility w) \<and> slots \<le> total_slots w) (workers st)"

definition queue_depth_u32 :: "sim \<Rightarrow> nat" where
  "queue_depth_u32 s = (if int (length (queue s)) < 2 ^ 32 then length (queue s) else nat (2 ^ 32 - 1))"

definition emit ::
  "storm \<Rightarrow> nat \<Rightarrow> string \<Rightarrow> string \<Rightarrow> string \<Rightarrow> string option \<Rightarrow> string option \<Rightarrow> nat option \<Rightarrow> 64 word
     \<Rightarrow> string option \<Rightarrow> nat option \<Rightarrow> sim \<Rightarrow> sim" where
  "emit st job event status decision worker selected depth duration detail remote s =
     s\<lparr>events := events s @
        [make_load_event (cfg st) (job_kind (jobs st ! job)) (local_id (jstate s ! job)) event status decision
           worker selected depth duration detail remote]\<rparr>"

definition update_job :: "nat \<Rightarrow> (job_state \<Rightarrow> job_state) \<Rightarrow> sim \<Rightarrow> sim" where
  "update_job job f s = s\<lparr>jstate := (jstate s)[job := f (jstate s ! job)]\<rparr>"

text \<open>\<open>place\<close>. The \<open>JobIdentity\<close> that the source builds there is dropped again.\<close>

definition place :: "storm \<Rightarrow> nat \<Rightarrow> nat \<Rightarrow> sim \<Rightarrow> sim" where
  "place st job worker s =
     (let spec = jobs st ! job;
          slots = job_slots spec;
          runtime = runtime_ms spec;
          s = s\<lparr>used := (used s)[worker := used s ! worker + slots],
                busy_slot_ms := (busy_slot_ms s)[worker := busy_slot_ms s ! worker + unat slots * unat runtime],
                selection_log :=
                  (let l = selection_log s @ [worker] in drop (length l - fairness_window (cfg st)) l)\<rparr>;
          wait = (case enqueued_at (jstate s ! job) of None \<Rightarrow> 0 | Some e \<Rightarrow> saturating_sub (clock s) e);
          remote = next_remote_id s;
          s = (update_job job
                (\<lambda>j. j\<lparr>queue_wait_ms := wait, started_at := Some (clock s), disposition := Some (Remote remote)\<rparr>)
                s)\<lparr>next_remote_id := remote + 1\<rparr>;
          name = worker_name (workers st ! worker);
          s = emit st job EVENT_STARTED ''run'' DECISION_REMOTE (Some name) (Some name)
                (Some (queue_depth_u32 s)) 0 (Some ''admitted and running'') (Some remote) s;
          finish = clock s + runtime
      in push_event finish (Completion worker slots job) (s\<lparr>makespan := max (makespan s) finish\<rparr>))"

definition enqueue :: "storm \<Rightarrow> nat \<Rightarrow> sim \<Rightarrow> sim" where
  "enqueue st job s =
     (let s = update_job job (\<lambda>j. j\<lparr>enqueued_at := Some (clock s)\<rparr>) s;
          s = s\<lparr>queue := queue s @ [job]\<rparr>;
          s = emit st job EVENT_QUEUED ''queued'' DECISION_QUEUED None None (Some (queue_depth_u32 s)) 0
                (Some (queued_guidance (local_id (jstate s ! job)))) None s;
          s = push_event (clock s + queue_timeout_ms (cfg st)) (Timeout job) s
      in if cancel_when_queued (jobs st ! job)
         then push_event (clock s + cancel_delay_ms (cfg st)) (Cancel job) s else s)"

section \<open>Dispositions\<close>

definition dispose_timeout :: "storm \<Rightarrow> nat \<Rightarrow> sim \<Rightarrow> sim" where
  "dispose_timeout st job s =
     (let s = s\<lparr>sim_timeouts := sim_timeouts s + 1\<rparr>;
          limit = queue_timeout_ms (cfg st);
          wait = (case enqueued_at (jstate s ! job) of
                    None \<Rightarrow> limit | Some e \<Rightarrow> min (saturating_sub (clock s) e) limit);
          s = update_job job (\<lambda>j. j\<lparr>queue_wait_ms := wait, disposition := Some QueueTimeoutFallback\<rparr>) s
      in emit st job EVENT_FELL_BACK ''local'' DECISION_QUEUE_TIMEOUT_FALLBACK None None None
           (runtime_ms (jobs st ! job)) (Some (queue_timeout_guidance (local_id (jstate s ! job)) limit)) None s)"

definition dispose_local_fallback :: "storm \<Rightarrow> nat \<Rightarrow> string \<Rightarrow> sim \<Rightarrow> sim" where
  "dispose_local_fallback st job decision s =
     emit st job EVENT_FELL_BACK ''local'' decision None None None (runtime_ms (jobs st ! job))
       (Some local_fallback_guidance) None
       (update_job job (\<lambda>j. j\<lparr>disposition := Some LocalFallback\<rparr>) s)"

definition map_last :: "('a \<Rightarrow> 'a) \<Rightarrow> 'a list \<Rightarrow> 'a list" where
  "map_last f xs = (if xs = [] then [] else butlast xs @ [f (last xs)])"

definition proof_refusal_detail :: string where
  "proof_refusal_detail = ''proof mode requires immediate remote admission; refused local fallback''"

definition dispose_proof_refused :: "storm \<Rightarrow> nat \<Rightarrow> sim \<Rightarrow> sim" where
  "dispose_proof_refused st job s =
     (let s = update_job job (\<lambda>j. j\<lparr>disposition := Some ProofRefused\<rparr>) s;
          s = emit st job EVENT_REFUSED ''refused'' DECISION_PROOF_REFUSED None None None 0
                (Some proof_refusal_detail) None s
      in s\<lparr>events := map_last (\<lambda>x. x\<lparr>ev_reason_code := Some PROOF_REFUSAL_REASON\<rparr>) (events s)\<rparr>)"

definition dispose_cancelled :: "storm \<Rightarrow> nat \<Rightarrow> sim \<Rightarrow> sim" where
  "dispose_cancelled st job s =
     (let wait = (case enqueued_at (jstate s ! job) of None \<Rightarrow> 0 | Some e \<Rightarrow> saturating_sub (clock s) e);
          s = update_job job (\<lambda>j. j\<lparr>queue_wait_ms := wait, disposition := Some Cancelled\<rparr>) s
      in emit st job EVENT_CANCELLED ''cancelled'' DECISION_CANCELLED None None None 0
           (Some (cancel_guidance (local_id (jstate s ! job)))) None s)"

section \<open>The event loop\<close>

definition on_arrival :: "storm \<Rightarrow> nat \<Rightarrow> sim \<Rightarrow> sim" where
  "on_arrival st job s =
     (let spec = jobs st ! job
      in if \<not> ever_feasible st (job_slots spec) then
           (if allows_local_fallback (policy spec) then dispose_local_fallback st job DECISION_LOCAL_FALLBACK s
            else dispose_proof_refused st job s)
         else case try_select st (job_slots spec) s of
             Some w \<Rightarrow> place st job w s
           | None \<Rightarrow>
               if \<not> allows_local_fallback (policy spec) then dispose_proof_refused st job s
               else if max_queue_depth (cfg st) \<le> length (queue s)
               then dispose_local_fallback st job DECISION_LOCAL_FALLBACK s
               else enqueue st job s)"

primrec drain_loop :: "storm \<Rightarrow> nat list \<Rightarrow> sim \<Rightarrow> sim" where
  "drain_loop st [] s = s"
| "drain_loop st (job # q) s =
     (if disposition (jstate s ! job) \<noteq> None then drain_loop st q (s\<lparr>queue := q\<rparr>)
      else case try_select st (job_slots (jobs st ! job)) s of
          Some w \<Rightarrow> drain_loop st q (place st job w (s\<lparr>queue := q\<rparr>))
        | None \<Rightarrow> s)"

definition drain_queue :: "storm \<Rightarrow> sim \<Rightarrow> sim" where
  "drain_queue st s = drain_loop st (queue s) s"

definition complete :: "storm \<Rightarrow> nat \<Rightarrow> 32 word \<Rightarrow> nat \<Rightarrow> sim \<Rightarrow> sim" where
  "complete st worker slots job s =
     (let s = s\<lparr>used := (used s)[worker := saturating_sub (used s ! worker) slots]\<rparr>;
          name = worker_name (workers st ! worker);
          remote = (case disposition (jstate s ! job) of Some (Remote r) \<Rightarrow> Some r | _ \<Rightarrow> None)
      in emit st job EVENT_PASSED ''ok'' DECISION_REMOTE (Some name) (Some name) None
           (runtime_ms (jobs st ! job)) (Some ''completed remotely'') remote s)"

definition on_completion :: "storm \<Rightarrow> nat \<Rightarrow> 32 word \<Rightarrow> nat \<Rightarrow> sim \<Rightarrow> sim" where
  "on_completion st worker slots job s = drain_queue st (complete st worker slots job s)"

definition remove_from_queue :: "nat \<Rightarrow> sim \<Rightarrow> sim" where
  "remove_from_queue job s = s\<lparr>queue := remove1 job (queue s)\<rparr>"

definition resolved :: "nat \<Rightarrow> sim \<Rightarrow> bool" where
  "resolved job s \<longleftrightarrow> disposition (jstate s ! job) \<noteq> None \<or> started_at (jstate s ! job) \<noteq> None"

definition on_timeout :: "storm \<Rightarrow> nat \<Rightarrow> sim \<Rightarrow> sim" where
  "on_timeout st job s = (if resolved job s then s else dispose_timeout st job (remove_from_queue job s))"

definition on_cancel :: "storm \<Rightarrow> nat \<Rightarrow> sim \<Rightarrow> sim" where
  "on_cancel st job s = (if resolved job s then s else dispose_cancelled st job (remove_from_queue job s))"

definition handle :: "storm \<Rightarrow> ev_kind \<Rightarrow> sim \<Rightarrow> sim" where
  "handle st k s =
     (case k of
        Arrival job \<Rightarrow> on_arrival st job s
      | Completion worker slots job \<Rightarrow> on_completion st worker slots job s
      | Timeout job \<Rightarrow> on_timeout st job s
      | Cancel job \<Rightarrow> on_cancel st job s)"

text \<open>The loop ends: an arrival outweighs the two events and the place in the queue it may leave behind,
  and a job that leaves the queue for a worker leaves one event.\<close>

definition ev_weight :: "ev \<Rightarrow> nat" where
  "ev_weight x = (case ev_kind x of Arrival _ \<Rightarrow> 4 | _ \<Rightarrow> 1)"

definition sim_weight :: "sim \<Rightarrow> nat" where
  "sim_weight s = sum_list (map ev_weight (heap s)) + length (queue s)"

lemma heap_push_weight: "sum_list (map ev_weight (heap_push x h)) = ev_weight x + sum_list (map ev_weight h)"
  by (induction h) (auto simp: heap_push_def)

lemmas sim_defs = place_def enqueue_def dispose_timeout_def dispose_local_fallback_def dispose_proof_refused_def
  dispose_cancelled_def emit_def update_job_def push_event_def complete_def remove_from_queue_def Let_def

lemma place_weight: "sim_weight (place st job w s) = sim_weight s + 1"
  by (simp add: sim_weight_def sim_defs heap_push_weight ev_weight_def)

lemma enqueue_weight: "sim_weight (enqueue st job s) \<le> sim_weight s + 3"
  by (simp add: sim_weight_def sim_defs heap_push_weight ev_weight_def)

lemma dispose_weight:
  "sim_weight (dispose_timeout st job s) = sim_weight s" "sim_weight (dispose_cancelled st job s) = sim_weight s"
  "sim_weight (dispose_local_fallback st job d s) = sim_weight s" "sim_weight (dispose_proof_refused st job s) = sim_weight s"
  "sim_weight (complete st w k job s) = sim_weight s" "sim_weight (remove_from_queue job s) < Suc (sim_weight s)"
  by (simp_all add: sim_weight_def sim_defs length_remove1 less_Suc_eq_le)

lemma drain_loop_weight: "queue s = q \<Longrightarrow> sim_weight (drain_loop st q s) \<le> sim_weight s"
proof (induction q arbitrary: s)
  case (Cons job q)
  let ?s = "s\<lparr>queue := q\<rparr>"
  have w: "sim_weight ?s + 1 = sim_weight s" using Cons.prems by (simp add: sim_weight_def)
  have p: "queue (place st job k ?s) = q" for k by (simp add: sim_defs)
  show ?case
    using Cons.IH [of ?s] Cons.IH [OF p] w place_weight [of st job _ ?s]
    by (auto split: option.split)
qed simp

lemma handle_weight: "sim_weight (handle st (ev_kind x) s) < sim_weight s + ev_weight x"
proof (cases "ev_kind x")
  case (Arrival job)
  then show ?thesis
    using enqueue_weight [of st job s] by (auto simp: handle_def on_arrival_def ev_weight_def place_weight dispose_weight Let_def
        split: option.splits)
next
  case (Completion w k job)
  have "sim_weight (drain_queue st (complete st w k job s)) \<le> sim_weight s"
    using drain_loop_weight [OF refl, of st "complete st w k job s"] by (simp add: drain_queue_def dispose_weight)
  with Completion show ?thesis by (simp add: handle_def on_completion_def ev_weight_def)
next
  case (Timeout job)
  then show ?thesis
    by (simp add: handle_def on_timeout_def ev_weight_def dispose_weight)
next
  case (Cancel job)
  then show ?thesis
    by (simp add: handle_def on_cancel_def ev_weight_def dispose_weight)
qed

function run_loop :: "storm \<Rightarrow> sim \<Rightarrow> sim" where
  "run_loop st s =
     (case heap s of
        [] \<Rightarrow> s
      | x # h \<Rightarrow> run_loop st (handle st (ev_kind x) (s\<lparr>heap := h, clock := ev_time x\<rparr>)))"
  by pat_completeness auto
termination run_loop
proof (relation "measure (\<lambda>(st, s). sim_weight s)", simp)
  fix st and s :: sim and x h
  assume "heap s = x # h"
  then have "sim_weight s = sim_weight (s\<lparr>heap := h, clock := ev_time x\<rparr>) + ev_weight x"
    by (simp add: sim_weight_def)
  with handle_weight [of st x "s\<lparr>heap := h, clock := ev_time x\<rparr>"]
  show "((st, handle st (ev_kind x) (s\<lparr>heap := h, clock := ev_time x\<rparr>)), st, s) \<in> measure (\<lambda>(st, s). sim_weight s)"
    by simp
qed

declare run_loop.simps [simp del]

definition run :: "storm \<Rightarrow> sim \<Rightarrow> sim" where
  "run st s =
     (let s = run_loop st s;
          stragglers = queue s
      in foldl (\<lambda>s job. if disposition (jstate s ! job) = None then dispose_timeout st job s else s)
           (s\<lparr>queue := []\<rparr>) stragglers)"

section \<open>Summary\<close>

text \<open>\<open>percentile\<close>, nearest rank.\<close>

definition percentile :: "64 word list \<Rightarrow> nat \<Rightarrow> 64 word" where
  "percentile values p =
     (if values = [] then 0
      else
        let n = length values;
            rank = max ((p * n + 99) div 100) 1
        in sort values ! min (rank - 1) (n - 1))"

definition count_disposition :: "(disposition option \<Rightarrow> bool) \<Rightarrow> sim \<Rightarrow> nat" where
  "count_disposition P s = length (filter (\<lambda>j. P (disposition j)) (jstate s))"

definition end_to_end :: "storm_job \<times> job_state \<Rightarrow> 64 word" where
  "end_to_end x =
     (case x of (j, js) \<Rightarrow>
        case disposition js of
          Some (Remote _) \<Rightarrow> queue_wait_ms js + runtime_ms j
        | Some LocalFallback \<Rightarrow> queue_wait_ms js + runtime_ms j
        | Some QueueTimeoutFallback \<Rightarrow> queue_wait_ms js + runtime_ms j
        | _ \<Rightarrow> queue_wait_ms js)"

definition utilization :: "32 word \<Rightarrow> 64 word \<Rightarrow> nat \<Rightarrow> rat" where
  "utilization slots total_ms busy =
     (let capacity = unat slots * unat total_ms in if capacity = 0 then 0 else of_nat busy / of_nat capacity)"

definition is_remote :: "disposition option \<Rightarrow> bool" where
  "is_remote d \<longleftrightarrow> (case d of Some (Remote _) \<Rightarrow> True | _ \<Rightarrow> False)"

definition u32_count :: "nat \<Rightarrow> nat" where
  "u32_count n = (if int n < 2 ^ 32 then n else nat (2 ^ 32 - 1))"

definition finish_run :: "storm \<Rightarrow> sim \<Rightarrow> storm_run" where
  "finish_run st s =
     (let total_ms = max (makespan s) 1
      in \<lparr>run_events = events s,
          run_summary =
            \<lparr>total_jobs = u32_count (length (jobs st)),
             remote_successes = count_disposition is_remote s,
             local_fallbacks =
               count_disposition (\<lambda>d. d = Some LocalFallback) s + count_disposition (\<lambda>d. d = Some QueueTimeoutFallback) s,
             proof_refusals = count_disposition (\<lambda>d. d = Some ProofRefused) s,
             queue_timeouts = sim_timeouts s,
             cancellations = count_disposition (\<lambda>d. d = Some Cancelled) s,
             p95_queue_wait_ms = percentile (map queue_wait_ms (jstate s)) 95,
             p95_end_to_end_ms = percentile (map end_to_end (zip (jobs st) (jstate s))) 95,
             per_worker_slot_utilization =
               foldl (\<lambda>m (i, w). m(worker_name w \<mapsto> utilization (total_slots w) total_ms (busy_slot_ms s ! i)))
                 Map.empty (enumerate 0 (workers st))\<rparr>\<rparr>)"

definition simulate_storm :: "storm_worker list \<Rightarrow> storm_job list \<Rightarrow> storm_config \<Rightarrow> storm_run" where
  "simulate_storm ws js c =
     (let st = \<lparr>workers = ws, jobs = js, cfg = c\<rparr>
      in finish_run st (run st (sim_new st)))"

section \<open>The live recorder\<close>

datatype live_disposition =
  LiveRemote | LiveLocalFallback | LiveQueueTimeoutFallback | LiveProofRefused | LiveCancelled

record live_job_outcome =
  outcome_local_job_id :: string
  outcome_remote_job_id :: "nat option"
  outcome_selected_worker :: "string option"
  outcome_slots :: "32 word"
  outcome_kind :: job_kind
  outcome_disposition :: live_disposition
  outcome_queued :: bool
  outcome_queue_wait_ms :: "64 word"
  outcome_runtime_ms :: "64 word"
  outcome_queue_depth :: "nat option"

definition live_is_remote :: "live_disposition \<Rightarrow> bool" where
  "live_is_remote d \<longleftrightarrow> d = LiveRemote"

definition live_is_local_fallback :: "live_disposition \<Rightarrow> bool" where
  "live_is_local_fallback d \<longleftrightarrow> d = LiveLocalFallback \<or> d = LiveQueueTimeoutFallback"

definition outcome_remote :: "string \<Rightarrow> string \<Rightarrow> nat \<Rightarrow> 32 word \<Rightarrow> 64 word \<Rightarrow> live_job_outcome" where
  "outcome_remote l worker r slots runtime =
     \<lparr>outcome_local_job_id = l, outcome_remote_job_id = Some r, outcome_selected_worker = Some worker,
      outcome_slots = slots, outcome_kind = Check, outcome_disposition = LiveRemote, outcome_queued = False,
      outcome_queue_wait_ms = 0, outcome_runtime_ms = runtime, outcome_queue_depth = None\<rparr>"

definition outcome_local_fallback :: "string \<Rightarrow> 32 word \<Rightarrow> 64 word \<Rightarrow> live_job_outcome" where
  "outcome_local_fallback l slots runtime =
     \<lparr>outcome_local_job_id = l, outcome_remote_job_id = None, outcome_selected_worker = None,
      outcome_slots = slots, outcome_kind = Check, outcome_disposition = LiveLocalFallback, outcome_queued = False,
      outcome_queue_wait_ms = 0, outcome_runtime_ms = runtime, outcome_queue_depth = None\<rparr>"

definition outcome_with_kind :: "job_kind \<Rightarrow> live_job_outcome \<Rightarrow> live_job_outcome" where
  "outcome_with_kind k a = a\<lparr>outcome_kind := k\<rparr>"

definition queued_for :: "64 word \<Rightarrow> nat option \<Rightarrow> live_job_outcome \<Rightarrow> live_job_outcome" where
  "queued_for wait depth a = a\<lparr>outcome_queued := True, outcome_queue_wait_ms := wait, outcome_queue_depth := depth\<rparr>"

definition with_disposition :: "live_disposition \<Rightarrow> live_job_outcome \<Rightarrow> live_job_outcome" where
  "with_disposition d a = a\<lparr>outcome_disposition := d\<rparr>"

definition live_queued_event :: "storm_config \<Rightarrow> live_job_outcome \<Rightarrow> smoke_profile_event" where
  "live_queued_event c a =
     make_load_event c (outcome_kind a) (outcome_local_job_id a) EVENT_QUEUED ''queued'' DECISION_QUEUED None None
       (outcome_queue_depth a) 0 (Some (queued_guidance (outcome_local_job_id a))) None"

definition live_terminal_events :: "storm_config \<Rightarrow> live_job_outcome \<Rightarrow> smoke_profile_event list" where
  "live_terminal_events c a =
     (case outcome_disposition a of
        LiveRemote \<Rightarrow>
          [make_load_event c (outcome_kind a) (outcome_local_job_id a) EVENT_STARTED ''run'' DECISION_REMOTE
             (outcome_selected_worker a) (outcome_selected_worker a) (outcome_queue_depth a) 0
             (Some ''admitted and running'') (outcome_remote_job_id a),
           make_load_event c (outcome_kind a) (outcome_local_job_id a) EVENT_PASSED ''ok'' DECISION_REMOTE
             (outcome_selected_worker a) (outcome_selected_worker a) None (outcome_runtime_ms a)
             (Some ''completed remotely'') (outcome_remote_job_id a)]
      | LiveLocalFallback \<Rightarrow>
          [make_load_event c (outcome_kind a) (outcome_local_job_id a) EVENT_FELL_BACK ''local''
             DECISION_LOCAL_FALLBACK None None None (outcome_runtime_ms a) (Some local_fallback_guidance) None]
      | LiveQueueTimeoutFallback \<Rightarrow>
          [make_load_event c (outcome_kind a) (outcome_local_job_id a) EVENT_FELL_BACK ''local''
             DECISION_QUEUE_TIMEOUT_FALLBACK None None None (outcome_runtime_ms a)
             (Some (queue_timeout_guidance (outcome_local_job_id a) (queue_timeout_ms c))) None]
      | LiveProofRefused \<Rightarrow>
          [(make_load_event c (outcome_kind a) (outcome_local_job_id a) EVENT_REFUSED ''refused''
              DECISION_PROOF_REFUSED None None None 0 (Some proof_refusal_detail) None)
            \<lparr>ev_reason_code := Some PROOF_REFUSAL_REASON\<rparr>]
      | LiveCancelled \<Rightarrow>
          [make_load_event c (outcome_kind a) (outcome_local_job_id a) EVENT_CANCELLED ''cancelled''
             DECISION_CANCELLED None None None 0 (Some (cancel_guidance (outcome_local_job_id a))) None])"

definition live_job_events :: "storm_config \<Rightarrow> live_job_outcome \<Rightarrow> smoke_profile_event list" where
  "live_job_events c a =
     (if outcome_queued a then [live_queued_event c a] else []) @ live_terminal_events c a"

definition live_end_to_end :: "live_job_outcome \<Rightarrow> 64 word" where
  "live_end_to_end a =
     (if outcome_disposition a \<in> {LiveProofRefused, LiveCancelled} then outcome_queue_wait_ms a
      else saturating_add (outcome_queue_wait_ms a) (outcome_runtime_ms a))"

definition live_busy :: "live_job_outcome list \<Rightarrow> string \<Rightarrow> nat" where
  "live_busy outcomes name =
     sum_list (map (\<lambda>a. unat (outcome_slots a) * unat (outcome_runtime_ms a))
       (filter (\<lambda>a. outcome_disposition a = LiveRemote \<and> outcome_selected_worker a = Some name) outcomes))"

definition live_makespan :: "live_job_outcome list \<Rightarrow> 64 word" where
  "live_makespan outcomes =
     foldl (\<lambda>m a. if outcome_disposition a \<in> {LiveProofRefused, LiveCancelled} then m else max m (live_end_to_end a))
       0 outcomes"

definition live_count :: "live_disposition list \<Rightarrow> live_job_outcome list \<Rightarrow> nat" where
  "live_count ds outcomes = length (filter (\<lambda>a. outcome_disposition a \<in> set ds) outcomes)"

definition summarize_live :: "storm_worker list \<Rightarrow> live_job_outcome list \<Rightarrow> storm_summary" where
  "summarize_live ws outcomes =
     (let total_ms = max (live_makespan outcomes) 1
      in \<lparr>total_jobs = u32_count (length outcomes),
          remote_successes = live_count [LiveRemote] outcomes,
          local_fallbacks = live_count [LiveLocalFallback, LiveQueueTimeoutFallback] outcomes,
          proof_refusals = live_count [LiveProofRefused] outcomes,
          queue_timeouts = live_count [LiveQueueTimeoutFallback] outcomes,
          cancellations = live_count [LiveCancelled] outcomes,
          p95_queue_wait_ms = percentile (map outcome_queue_wait_ms outcomes) 95,
          p95_end_to_end_ms = percentile (map live_end_to_end outcomes) 95,
          per_worker_slot_utilization =
            foldl (\<lambda>m w. m(worker_name w \<mapsto>
                utilization (total_slots w) total_ms (live_busy outcomes (worker_name w)))) Map.empty ws\<rparr>)"

definition build_live_storm_run :: "storm_config \<Rightarrow> storm_worker list \<Rightarrow> live_job_outcome list \<Rightarrow> storm_run" where
  "build_live_storm_run c ws outcomes =
     \<lparr>run_events = concat (map (live_job_events c) outcomes), run_summary = summarize_live ws outcomes\<rparr>"

section \<open>Checkers\<close>

text \<open>A report has the verdict and the violations it names; their wording is left out.\<close>

datatype violation =
    TooManyPlacements string nat nat
  | SharedRemoteId nat "string set"
  | FallbackStorm nat nat
  | LacksGuidance string string
  | NeverTerminated string
  | IneligibleWorker string worker_eligibility string "string option"

record invariant_report =
  report_name :: string
  passed :: bool
  violations :: "violation list"

definition report :: "string \<Rightarrow> violation list \<Rightarrow> invariant_report" where
  "report name vs = \<lparr>report_name = name, passed = (vs = []), violations = vs\<rparr>"

definition placements_on :: "smoke_profile_event list \<Rightarrow> string \<Rightarrow> nat" where
  "placements_on evs name =
     length (filter (\<lambda>x. ev_event x = EVENT_STARTED \<and> ev_selected_worker x = Some name) evs)"

definition check_load_fairness ::
  "smoke_profile_event list \<Rightarrow> storm_worker list \<Rightarrow> rat \<Rightarrow> invariant_report" where
  "check_load_fairness evs ws tolerance =
     (let schedulable = filter (\<lambda>w. eligibility_is_schedulable (eligibility w)) ws;
          names = sorted_list_of_set (set (map worker_name schedulable));
          total = sum_list (map (placements_on evs) names)
      in if length schedulable \<le> 1 then report ''load_fairness'' []
         else if total = 0 then report ''load_fairness'' []
         else
           let fair_share = of_nat total / of_nat (length schedulable);
               cap = fair_share * tolerance
           in report ''load_fairness''
                (map (\<lambda>i. TooManyPlacements i (placements_on evs i) total)
                  (filter (\<lambda>i. cap < of_nat (placements_on evs i)) names)))"

text \<open>\<open>unwrap_or_default\<close>.\<close>

definition local_or_default :: "smoke_profile_event \<Rightarrow> string" where
  "local_or_default x = (case ev_local_job_id x of Some l \<Rightarrow> l | None \<Rightarrow> [])"

definition remote_owners :: "smoke_profile_event list \<Rightarrow> nat \<Rightarrow> string set" where
  "remote_owners evs r = local_or_default ` set (filter (\<lambda>x. ev_remote_job_id x = Some r) evs)"

definition check_no_duplicate_remote_job_ids :: "smoke_profile_event list \<Rightarrow> invariant_report" where
  "check_no_duplicate_remote_job_ids evs =
     report ''no_duplicate_remote_job_ids''
       (map (\<lambda>r. SharedRemoteId r (remote_owners evs r))
         (filter (\<lambda>r. 1 < card (remote_owners evs r))
           (sorted_list_of_set (set (List.map_filter ev_remote_job_id evs)))))"

definition check_no_unbounded_local_fallback_storm :: "storm_summary \<Rightarrow> rat \<Rightarrow> invariant_report" where
  "check_no_unbounded_local_fallback_storm summary max_ratio =
     report ''no_unbounded_local_fallback_storm''
       (if total_jobs summary = 0 then []
        else if of_nat (local_fallbacks summary) / of_nat (total_jobs summary) \<le> max_ratio then []
        else [FallbackStorm (local_fallbacks summary) (total_jobs summary)])"

definition terminal_events :: "string list" where
  "terminal_events = [EVENT_PASSED, EVENT_FELL_BACK, EVENT_REFUSED, EVENT_CANCELLED]"

definition has_guidance :: "smoke_profile_event \<Rightarrow> bool" where
  "has_guidance x \<longleftrightarrow> (case ev_detail x of Some d \<Rightarrow> trim d \<noteq> [] | None \<Rightarrow> False)"

definition needs_guidance :: "smoke_profile_event \<Rightarrow> bool" where
  "needs_guidance x \<longleftrightarrow> ev_event x \<in> {EVENT_FELL_BACK, EVENT_CANCELLED} \<or> ev_event x = EVENT_QUEUED"

definition guidance_violation :: "smoke_profile_event \<Rightarrow> violation option" where
  "guidance_violation x =
     (case ev_local_job_id x of
        None \<Rightarrow> None
      | Some l \<Rightarrow> if needs_guidance x \<and> \<not> has_guidance x then Some (LacksGuidance l (ev_event x)) else None)"

definition check_attach_cancel_guidance :: "smoke_profile_event list \<Rightarrow> invariant_report" where
  "check_attach_cancel_guidance evs =
     (let all_jobs = set (List.map_filter ev_local_job_id evs);
          terminated = set (List.map_filter ev_local_job_id (filter (\<lambda>x. ev_event x \<in> set terminal_events) evs))
      in report ''attach_cancel_guidance''
           (List.map_filter guidance_violation evs @
            map NeverTerminated (sorted_list_of_set (all_jobs - terminated))))"

definition ineligible_workers :: "storm_worker list \<Rightarrow> string \<rightharpoonup> worker_eligibility" where
  "ineligible_workers ws =
     foldl (\<lambda>m w. m(worker_name w \<mapsto> eligibility w)) Map.empty (filter (\<lambda>w. \<not> eligibility_is_schedulable (eligibility w)) ws)"

definition ineligible_violations :: "storm_worker list \<Rightarrow> smoke_profile_event \<Rightarrow> violation list" where
  "ineligible_violations ws x =
     List.map_filter
       (\<lambda>candidate.
          case Option.bind candidate (ineligible_workers ws) of
            Some e \<Rightarrow>
              if ev_event x = EVENT_STARTED \<or> ev_event x = EVENT_PASSED
              then Some (IneligibleWorker (the candidate) e (ev_event x) (ev_local_job_id x)) else None
          | None \<Rightarrow> None)
       [ev_selected_worker x, ev_worker_id x]"

definition check_no_ineligible_worker_selected ::
  "smoke_profile_event list \<Rightarrow> storm_worker list \<Rightarrow> invariant_report" where
  "check_no_ineligible_worker_selected evs ws =
     report ''no_ineligible_worker_selected'' (concat (map (ineligible_violations ws) evs))"

definition check_all_invariants :: "storm_run \<Rightarrow> storm_worker list \<Rightarrow> rat \<Rightarrow> rat \<Rightarrow> invariant_report list" where
  "check_all_invariants r ws tolerance max_ratio =
     [check_load_fairness (run_events r) ws tolerance,
      check_no_duplicate_remote_job_ids (run_events r),
      check_no_unbounded_local_fallback_storm (run_summary r) max_ratio,
      check_attach_cancel_guidance (run_events r),
      check_no_ineligible_worker_selected (run_events r) ws]"

definition all_passed :: "invariant_report list \<Rightarrow> bool" where
  "all_passed reports \<longleftrightarrow> list_all passed reports"

end
