(* ===== verification/Storm_Run.thy ===== *)
theory Storm_Run
  imports Storm_Control
begin

text \<open>
  Every run of the storm simulator (\<open>Storm_Control\<close>). The handlers are taken apart into the steps of
  \<open>storm_step\<close>, each of which moves one job; the invariant says for every job what the state, the pending
  events and the emitted events of that job are. The events of a job in a finished run are those the live
  recorder writes for it, so the guarantees of the recorder and of the checkers carry over.
\<close>

section \<open>Selection\<close>

definition has_capacity :: "sim \<Rightarrow> 32 word \<Rightarrow> nat \<times> storm_worker \<Rightarrow> bool" where
  "has_capacity s slots iw \<longleftrightarrow>
     (case iw of (i, w) \<Rightarrow> eligibility_is_schedulable (eligibility w) \<and> slots \<le> total_slots w \<and> slots \<le> total_slots w - used s ! i)"

definition fair_weight :: "sim \<Rightarrow> nat \<times> storm_worker \<Rightarrow> rat" where
  "fair_weight s iw = (case iw of (i, w) \<Rightarrow> speed w / (1 + of_nat (length (filter (\<lambda>x. x = i) (selection_log s)))))"

lemma select_step_eq:
  "select_step s slots best iw =
     (if \<not> has_capacity s slots iw then best
      else case best of
          Some (_, bw) \<Rightarrow> if fair_weight s iw \<le> bw then best else Some (fst iw, fair_weight s iw)
        | None \<Rightarrow> Some (fst iw, fair_weight s iw))"
  by (auto simp: select_step_def has_capacity_def fair_weight_def Let_def not_less split: prod.splits option.splits)

text \<open>What the scan has found after a list of workers: nothing, when none has capacity, or the first of those
  with the largest weight.\<close>

lemma select_scan:
  "case foldl (select_step s slots) None iws of
     None \<Rightarrow> \<forall>iw \<in> set iws. \<not> has_capacity s slots iw
   | Some (i, bw) \<Rightarrow>
       (\<exists>k < length iws. fst (iws ! k) = i \<and> fair_weight s (iws ! k) = bw \<and> has_capacity s slots (iws ! k) \<and>
          (\<forall>m < length iws. has_capacity s slots (iws ! m) \<longrightarrow>
             fair_weight s (iws ! m) \<le> bw \<and> (m < k \<longrightarrow> fair_weight s (iws ! m) < bw)))"
proof (induction iws rule: rev_induct)
  case (snoc iw iws)
  show ?case
  proof (cases "foldl (select_step s slots) None iws")
    case None
    then have eq: "foldl (select_step s slots) None (iws @ [iw]) =
        (if has_capacity s slots iw then Some (fst iw, fair_weight s iw) else None)"
      by (simp add: select_step_eq [of _ _ _ iw])
    have "\<not> has_capacity s slots (iws ! m)" if "m < length iws" for m
      using snoc None that by simp
    then show ?thesis
      using snoc None unfolding eq by (auto simp: nth_append less_Suc_eq intro!: exI [of _ "length iws"])
  next
    case (Some p)
    obtain i bw where p: "p = (i, bw)" by fastforce
    from snoc Some p obtain k where k: "k < length iws" "fst (iws ! k) = i" "fair_weight s (iws ! k) = bw"
      "has_capacity s slots (iws ! k)"
      and best: "\<And>m. m < length iws \<Longrightarrow> has_capacity s slots (iws ! m) \<Longrightarrow>
         fair_weight s (iws ! m) \<le> bw \<and> (m < k \<longrightarrow> fair_weight s (iws ! m) < bw)" by auto
    show ?thesis
    proof (cases "has_capacity s slots iw \<and> bw < fair_weight s iw")
      case True
      then have "foldl (select_step s slots) None (iws @ [iw]) = Some (fst iw, fair_weight s iw)"
        using Some p by (simp add: select_step_eq [of _ _ _ iw] not_le)
      moreover have "fair_weight s (iws ! m) < fair_weight s iw"
        if "m < length iws" "has_capacity s slots (iws ! m)" for m using best [OF that] True by auto
      ultimately show ?thesis
        using True by (auto simp: nth_append less_Suc_eq less_imp_le intro!: exI [of _ "length iws"])
    next
      case False
      then have eq: "foldl (select_step s slots) None (iws @ [iw]) = Some (i, bw)"
        using Some p by (auto simp: select_step_eq [of _ _ _ iw] not_le)
      have "has_capacity s slots iw \<longrightarrow> fair_weight s iw \<le> bw" using False by auto
      with k best eq show ?thesis
        by (auto simp: nth_append less_Suc_eq intro!: exI [of _ k])
    qed
  qed
qed simp

definition worker_fits :: "storm \<Rightarrow> 32 word \<Rightarrow> sim \<Rightarrow> nat \<Rightarrow> bool" where
  "worker_fits st slots s i \<longleftrightarrow> i < length (workers st) \<and> has_capacity s slots (i, workers st ! i)"

definition worker_weight :: "storm \<Rightarrow> sim \<Rightarrow> nat \<Rightarrow> rat" where
  "worker_weight st s i = fair_weight s (i, workers st ! i)"

text \<open>The scheduler's choice: nobody exactly if no schedulable worker has room, and otherwise the first of the
  workers with room whose speed, divided by its recent placements plus one, is largest.\<close>

lemma try_select_choice:
  "try_select st slots s = None \<longleftrightarrow> (\<forall>i. \<not> worker_fits st slots s i)"
  "try_select st slots s = Some i \<Longrightarrow> worker_fits st slots s i \<and>
     (\<forall>k. worker_fits st slots s k \<longrightarrow>
        worker_weight st s k \<le> worker_weight st s i \<and> (k < i \<longrightarrow> worker_weight st s k < worker_weight st s i))"
proof -
  let ?e = "enumerate 0 (workers st)"
  have nth: "?e ! k = (k, workers st ! k)" if "k < length (workers st)" for k
    using that by (simp add: nth_enumerate_eq)
  show "try_select st slots s = None \<longleftrightarrow> (\<forall>i. \<not> worker_fits st slots s i)"
    using select_scan [where s = s and slots = slots and iws = ?e] nth
    by (auto simp: try_select_def worker_fits_def in_set_enumerate_eq split: option.splits)
  show "try_select st slots s = Some i \<Longrightarrow> worker_fits st slots s i \<and>
     (\<forall>k. worker_fits st slots s k \<longrightarrow>
        worker_weight st s k \<le> worker_weight st s i \<and> (k < i \<longrightarrow> worker_weight st s k < worker_weight st s i))"
    using select_scan [where s = s and slots = slots and iws = ?e]
    by (auto simp: try_select_def worker_fits_def worker_weight_def nth split: option.splits)
qed

section \<open>Steps\<close>

definition pop :: "ev \<Rightarrow> ev list \<Rightarrow> sim \<Rightarrow> sim" where
  "pop x h s = s\<lparr>heap := h, clock := ev_time x\<rparr>"

inductive storm_step :: "storm \<Rightarrow> sim \<Rightarrow> sim \<Rightarrow> bool" for st where
  arrive_fallback:
    "heap s = x # h \<Longrightarrow> ev_kind x = Arrival j \<Longrightarrow> allows_local_fallback (policy (jobs st ! j)) \<Longrightarrow>
     storm_step st s (dispose_local_fallback st j DECISION_LOCAL_FALLBACK (pop x h s))"
| arrive_refuse:
    "heap s = x # h \<Longrightarrow> ev_kind x = Arrival j \<Longrightarrow> \<not> allows_local_fallback (policy (jobs st ! j)) \<Longrightarrow>
     storm_step st s (dispose_proof_refused st j (pop x h s))"
| arrive_place:
    "heap s = x # h \<Longrightarrow> ev_kind x = Arrival j \<Longrightarrow> try_select st (job_slots (jobs st ! j)) (pop x h s) = Some w \<Longrightarrow>
     storm_step st s (place st j w (pop x h s))"
| arrive_enqueue:
    "heap s = x # h \<Longrightarrow> ev_kind x = Arrival j \<Longrightarrow> allows_local_fallback (policy (jobs st ! j)) \<Longrightarrow>
     length (queue s) < max_queue_depth (cfg st) \<Longrightarrow> storm_step st s (enqueue st j (pop x h s))"
| completion:
    "heap s = x # h \<Longrightarrow> ev_kind x = Completion w k j \<Longrightarrow> storm_step st s (complete st w k j (pop x h s))"
| admission:
    "queue s = j # q \<Longrightarrow> disposition (jstate s ! j) = None \<Longrightarrow> try_select st (job_slots (jobs st ! j)) s = Some w \<Longrightarrow>
     storm_step st s (place st j w (s\<lparr>queue := q\<rparr>))"
| skipped:
    "queue s = j # q \<Longrightarrow> disposition (jstate s ! j) \<noteq> None \<Longrightarrow> storm_step st s (s\<lparr>queue := q\<rparr>)"
| timed_out:
    "heap s = x # h \<Longrightarrow> ev_kind x = Timeout j \<Longrightarrow> \<not> resolved j s \<Longrightarrow>
     storm_step st s (dispose_timeout st j (remove_from_queue j (pop x h s)))"
| cancelled:
    "heap s = x # h \<Longrightarrow> ev_kind x = Cancel j \<Longrightarrow> \<not> resolved j s \<Longrightarrow>
     storm_step st s (dispose_cancelled st j (remove_from_queue j (pop x h s)))"
| stale:
    "heap s = x # h \<Longrightarrow> ev_kind x \<in> {Timeout j, Cancel j} \<Longrightarrow> resolved j s \<Longrightarrow> storm_step st s (pop x h s)"

text \<open>The event loop takes only these steps.\<close>

lemma pop_simps [simp]:
  "queue (pop x h s) = queue s" "heap (pop x h s) = h" "clock (pop x h s) = ev_time x" "jstate (pop x h s) = jstate s"
  "events (pop x h s) = events s" "used (pop x h s) = used s" "next_remote_id (pop x h s) = next_remote_id s"
  "next_seq (pop x h s) = next_seq s" "selection_log (pop x h s) = selection_log s"
  "sim_timeouts (pop x h s) = sim_timeouts s" "resolved j (pop x h s) = resolved j s"
  by (simp_all add: pop_def resolved_def)

lemma place_queue [simp]: "queue (place st j w s) = queue s"
  by (simp add: sim_defs)

lemma drain_steps: "queue s = q \<Longrightarrow> (storm_step st)\<^sup>*\<^sup>* s (drain_loop st q s)"
proof (induction q arbitrary: s)
  case (Cons j q)
  show ?case
  proof (cases "disposition (jstate s ! j) = None")
    case True
    then show ?thesis
      using admission [OF Cons.prems True] Cons.IH [of "place st j _ (s\<lparr>queue := q\<rparr>)"]
      by (auto split: option.split intro: converse_rtranclp_into_rtranclp)
  next
    case False
    then show ?thesis
      using skipped [OF Cons.prems False] Cons.IH [of "s\<lparr>queue := q\<rparr>"]
      by (auto intro: converse_rtranclp_into_rtranclp)
  qed
qed simp

lemma handle_steps:
  assumes h: "heap s = x # h"
  shows "(storm_step st)\<^sup>*\<^sup>* s (handle st (ev_kind x) (pop x h s))"
proof (cases "ev_kind x")
  case (Arrival j)
  then show ?thesis
    by (auto simp: handle_def on_arrival_def Let_def not_le split: option.split
        intro!: r_into_rtranclp arrive_fallback arrive_refuse arrive_place arrive_enqueue h)
next
  case (Completion w k j)
  have "storm_step st s (complete st w k j (pop x h s))" using h Completion by (rule completion)
  moreover have "(storm_step st)\<^sup>*\<^sup>* (complete st w k j (pop x h s)) (drain_queue st (complete st w k j (pop x h s)))"
    using drain_steps [OF refl] by (simp add: drain_queue_def)
  ultimately show ?thesis
    using Completion by (simp add: handle_def on_completion_def converse_rtranclp_into_rtranclp)
next
  case (Timeout j)
  then show ?thesis
    using stale [OF h, of j] timed_out [OF h Timeout] by (auto simp: handle_def on_timeout_def)
next
  case (Cancel j)
  then show ?thesis
    using stale [OF h, of j] cancelled [OF h Cancel] by (auto simp: handle_def on_cancel_def)
qed

lemma run_loop_steps: "(storm_step st)\<^sup>*\<^sup>* s (run_loop st s) \<and> heap (run_loop st s) = []"
proof (induction st s rule: run_loop.induct)
  case (1 st s)
  show ?case
  proof (cases "heap s")
    case Nil
    then show ?thesis by (simp add: run_loop.simps [of st s])
  next
    case (Cons x h)
    let ?t = "handle st (ev_kind x) (pop x h s)"
    have "run_loop st s = run_loop st ?t" using Cons by (simp add: run_loop.simps [of st s] pop_def)
    moreover have "(storm_step st)\<^sup>*\<^sup>* ?t (run_loop st ?t) \<and> heap (run_loop st ?t) = []"
      using 1 [OF Cons] by (simp add: pop_def)
    ultimately show ?thesis using handle_steps [OF Cons, of st] by (metis rtranclp_trans)
  qed
qed

section \<open>Events of one job\<close>

lemma make_load_event_sel [simp]:
  "ev_local_job_id (make_load_event c k l e st d w sel dep du det r) = Some l"
  "ev_event (make_load_event c k l e st d w sel dep du det r) = e"
  "ev_remote_job_id (make_load_event c k l e st d w sel dep du det r) = r"
  "ev_selected_worker (make_load_event c k l e st d w sel dep du det r) = sel"
  "ev_worker_id (make_load_event c k l e st d w sel dep du det r) = w"
  "ev_detail (make_load_event c k l e st d w sel dep du det r) = det"
  by (auto simp: make_load_event_def event_started_def plain_event_def with_job_ids_def with_selected_worker_def
      with_fallback_decision_def with_queue_depth_def with_detail_def option_filter_def requires_real_worker_def
      Let_def split: option.splits)

text \<open>An event without the queue depth, which the recorder of a finished run does not know.\<close>

definition strip :: "smoke_profile_event \<Rightarrow> smoke_profile_event" where
  "strip x = x\<lparr>ev_queue_depth := None\<rparr>"

lemma strip_make_load_event [simp]:
  "strip (make_load_event c k l e st d w sel dep du det r) = make_load_event c k l e st d w sel None du det r"
  "strip ((make_load_event c k l e st d w sel dep du det r)\<lparr>ev_reason_code := rc\<rparr>) =
     (make_load_event c k l e st d w sel None du det r)\<lparr>ev_reason_code := rc\<rparr>"
  by (auto simp: strip_def make_load_event_def event_started_def plain_event_def with_job_ids_def
      with_selected_worker_def with_fallback_decision_def with_queue_depth_def with_detail_def Let_def
      split: option.splits)

lemma strip_sel [simp]:
  "ev_local_job_id (strip x) = ev_local_job_id x" "ev_event (strip x) = ev_event x"
  "ev_remote_job_id (strip x) = ev_remote_job_id x" "ev_selected_worker (strip x) = ev_selected_worker x"
  "ev_worker_id (strip x) = ev_worker_id x" "ev_detail (strip x) = ev_detail x"
  by (simp_all add: strip_def)

lemma parse_digits_zeros: "parse_digits (replicate n (CHR ''0'') @ ds) = parse_digits ds"
  by (induction n) (simp_all add: parse_digits_def digit_value_def)

lemma storm_local_id_inject [simp]: "storm_local_id i = storm_local_id j \<longleftrightarrow> i = j"
proof
  assume "storm_local_id i = storm_local_id j"
  then have "parse_digits (pad4 i) = parse_digits (pad4 j)" by (simp add: storm_local_id_def)
  then show "i = j" by (simp add: pad4_def parse_digits_zeros parse_show_nat)
qed simp

definition of_job :: "nat \<Rightarrow> smoke_profile_event \<Rightarrow> bool" where
  "of_job j x \<longleftrightarrow> ev_local_job_id x = Some (storm_local_id j)"

lemma of_job_make_load_event [simp]:
  "of_job j (make_load_event c k (storm_local_id i) e st d w sel dep du det r) \<longleftrightarrow> i = j"
  "of_job j ((make_load_event c k (storm_local_id i) e st d w sel dep du det r)\<lparr>ev_reason_code := rc\<rparr>) \<longleftrightarrow> i = j"
  by (auto simp: of_job_def)

definition job_events :: "nat \<Rightarrow> smoke_profile_event list \<Rightarrow> smoke_profile_event list" where
  "job_events j evs = map strip (filter (of_job j) evs)"

lemma job_events_append [simp]: "job_events j (xs @ ys) = job_events j xs @ job_events j ys"
  by (simp add: job_events_def)

definition ev_job :: "ev \<Rightarrow> nat" where
  "ev_job x = (case ev_kind x of Arrival j \<Rightarrow> j | Completion _ _ j \<Rightarrow> j | Timeout j \<Rightarrow> j | Cancel j \<Rightarrow> j)"

definition pending :: "nat \<Rightarrow> ev multiset \<Rightarrow> ev multiset" where
  "pending j H = filter_mset (\<lambda>x. ev_job x = j) H"

lemma pending_add [simp]: "pending j (add_mset x H) = (if ev_job x = j then add_mset x (pending j H) else pending j H)"
  by (simp add: pending_def)

lemma mset_heap_push [simp]: "mset (heap_push x h) = add_mset x (mset h)"
  by (simp add: heap_push_def)

lemma sorted_heap_push: "sorted (map ev_key h) \<Longrightarrow> sorted (map ev_key (heap_push x h))"
  by (simp add: heap_push_def sorted_insort_key)

section \<open>The invariant\<close>

fun live_of :: "disposition \<Rightarrow> live_disposition" where
  "live_of (Remote _) = LiveRemote"
| "live_of LocalFallback = LiveLocalFallback"
| "live_of QueueTimeoutFallback = LiveQueueTimeoutFallback"
| "live_of ProofRefused = LiveProofRefused"
| "live_of Cancelled = LiveCancelled"

text \<open>What an observer of job \<open>j\<close>, placed on worker \<open>w\<close> if at all, would hand to the recorder.\<close>

definition observed :: "storm \<Rightarrow> nat \<Rightarrow> job_state \<Rightarrow> nat \<Rightarrow> live_job_outcome" where
  "observed st j js w =
     \<lparr>outcome_local_job_id = storm_local_id j,
      outcome_remote_job_id = (case disposition js of Some (Remote r) \<Rightarrow> Some r | _ \<Rightarrow> None),
      outcome_selected_worker = (if is_remote (disposition js) then Some (worker_name (workers st ! w)) else None),
      outcome_slots = job_slots (jobs st ! j), outcome_kind = job_kind (jobs st ! j),
      outcome_disposition = live_of (the (disposition js)), outcome_queued = (enqueued_at js \<noteq> None),
      outcome_queue_wait_ms = queue_wait_ms js, outcome_runtime_ms = runtime_ms (jobs st ! j),
      outcome_queue_depth = None\<rparr>"

definition trace :: "storm \<Rightarrow> nat \<Rightarrow> job_state \<Rightarrow> nat \<Rightarrow> smoke_profile_event list" where
  "trace st j js w = live_job_events (cfg st) (observed st j js w)"

definition arrival :: "nat \<Rightarrow> ev" where
  "arrival j = \<lparr>ev_time = 0, ev_seq = j, ev_kind = Arrival j\<rparr>"

definition queued_line :: "storm \<Rightarrow> nat \<Rightarrow> smoke_profile_event" where
  "queued_line st j =
     make_load_event (cfg st) (job_kind (jobs st ! j)) (storm_local_id j) EVENT_QUEUED ''queued'' DECISION_QUEUED None None
       None 0 (Some (queued_guidance (storm_local_id j))) None"

definition waiting :: "storm \<Rightarrow> nat \<Rightarrow> ev multiset \<Rightarrow> bool" where
  "waiting st j P \<longleftrightarrow>
     (\<exists>a b. P = add_mset \<lparr>ev_time = queue_timeout_ms (cfg st), ev_seq = a, ev_kind = Timeout j\<rparr>
        (if cancel_when_queued (jobs st ! j)
         then {#\<lparr>ev_time = cancel_delay_ms (cfg st), ev_seq = b, ev_kind = Cancel j\<rparr>#} else {#}))"

definition allowed :: "storm \<Rightarrow> nat \<Rightarrow> job_state \<Rightarrow> disposition \<Rightarrow> bool" where
  "allowed st j js d \<longleftrightarrow>
     (enqueued_at js = None \<longrightarrow> queue_wait_ms js = 0) \<and> queue_wait_ms js \<le> queue_timeout_ms (cfg st) \<and>
     (enqueued_at js \<noteq> None \<longrightarrow> enqueued_at js = Some 0 \<and> allows_local_fallback (policy (jobs st ! j))) \<and>
     (case d of
        Remote _ \<Rightarrow> True
      | LocalFallback \<Rightarrow> enqueued_at js = None \<and> allows_local_fallback (policy (jobs st ! j))
      | ProofRefused \<Rightarrow> enqueued_at js = None \<and> \<not> allows_local_fallback (policy (jobs st ! j))
      | QueueTimeoutFallback \<Rightarrow> enqueued_at js \<noteq> None
      | Cancelled \<Rightarrow> enqueued_at js \<noteq> None \<and> cancel_when_queued (jobs st ! j))"

definition settled :: "storm \<Rightarrow> nat \<Rightarrow> job_state \<Rightarrow> smoke_profile_event list \<Rightarrow> ev multiset \<Rightarrow> bool" where
  "settled st j js es P \<longleftrightarrow>
     (\<exists>w. (is_remote (disposition js) \<longrightarrow> w < length (workers st) \<and> eligibility_is_schedulable (eligibility (workers st ! w))) \<and>
        ((\<forall>x \<in># P. ev_kind x \<in> {Timeout j, Cancel j}) \<and> es = trace st j js w \<or>
         (\<exists>x R. is_remote (disposition js) \<and> ev_kind x = Completion w (job_slots (jobs st ! j)) j \<and> P = add_mset x R \<and>
            (\<forall>x \<in># R. ev_kind x \<in> {Timeout j, Cancel j}) \<and> es = butlast (trace st j js w))))"

definition job_ok ::
  "storm \<Rightarrow> nat \<Rightarrow> job_state \<Rightarrow> smoke_profile_event list \<Rightarrow> ev multiset \<Rightarrow> bool \<Rightarrow> bool" where
  "job_ok st j js es P inq \<longleftrightarrow>
     local_id js = storm_local_id j \<and>
     (case disposition js of
        None \<Rightarrow>
          started_at js = None \<and> queue_wait_ms js = 0 \<and>
          (case enqueued_at js of
             None \<Rightarrow> \<not> inq \<and> P = {#arrival j#} \<and> es = []
           | Some t \<Rightarrow> t = 0 \<and> inq \<and> allows_local_fallback (policy (jobs st ! j)) \<and> es = [queued_line st j] \<and> waiting st j P)
      | Some d \<Rightarrow> \<not> inq \<and> allowed st j js d \<and> settled st j js es P)"

definition jobs_inv :: "storm \<Rightarrow> sim \<Rightarrow> bool" where
  "jobs_inv st s \<longleftrightarrow> length (jstate s) = length (jobs st) \<and>
     (\<forall>j < length (jobs st).
        job_ok st j (jstate s ! j) (job_events j (events s)) (pending j (mset (heap s))) (j \<in> set (queue s)))"

definition bounds_inv :: "storm \<Rightarrow> sim \<Rightarrow> bool" where
  "bounds_inv st s \<longleftrightarrow>
     (\<forall>x \<in> set (heap s). ev_job x < length (jobs st)) \<and> sorted (map ev_key (heap s)) \<and>
     (\<forall>j \<in> set (queue s). j < length (jobs st)) \<and> distinct (queue s) \<and> length (queue s) \<le> max_queue_depth (cfg st) \<and>
     (queue s \<noteq> [] \<longrightarrow> clock s \<le> queue_timeout_ms (cfg st)) \<and>
     (\<forall>x \<in> set (events s). \<exists>j < length (jobs st). of_job j x)"

section \<open>What the operations leave behind\<close>

lemma local_id_update [simp]:
  "local_id v = local_id (xs ! j) \<Longrightarrow> local_id (xs[j := v] ! j) = local_id (xs ! j)"
  by (cases "j < length xs") (simp_all add: list_update_beyond)

definition waited :: "sim \<Rightarrow> job_state \<Rightarrow> 64 word" where
  "waited s js = (case enqueued_at js of None \<Rightarrow> 0 | Some e \<Rightarrow> saturating_sub (clock s) e)"

lemma place_proj [simp]:
  "jstate (place st j w s) = (jstate s)[j := (jstate s ! j)\<lparr>queue_wait_ms := waited s (jstate s ! j),
     started_at := Some (clock s), disposition := Some (Remote (next_remote_id s))\<rparr>]"
  "mset (heap (place st j w s)) = add_mset \<lparr>ev_time = clock s + runtime_ms (jobs st ! j), ev_seq = next_seq s,
     ev_kind = Completion w (job_slots (jobs st ! j)) j\<rparr> (mset (heap s))"
  "set (heap (place st j w s)) = insert \<lparr>ev_time = clock s + runtime_ms (jobs st ! j), ev_seq = next_seq s,
     ev_kind = Completion w (job_slots (jobs st ! j)) j\<rparr> (set (heap s))"
  "events (place st j w s) = events s @
     [make_load_event (cfg st) (job_kind (jobs st ! j)) (local_id (jstate s ! j)) EVENT_STARTED ''run'' DECISION_REMOTE
        (Some (worker_name (workers st ! w))) (Some (worker_name (workers st ! w))) (Some (queue_depth_u32 s)) 0
        (Some ''admitted and running'') (Some (next_remote_id s))]"
  "used (place st j w s) = (used s)[w := used s ! w + job_slots (jobs st ! j)]"
  "clock (place st j w s) = clock s" "next_remote_id (place st j w s) = next_remote_id s + 1"
  "sim_timeouts (place st j w s) = sim_timeouts s"
  by (auto simp: sim_defs waited_def heap_push_def set_insort_key queue_depth_u32_def cong: option.case_cong)

lemma place_sorted: "sorted (map ev_key (heap s)) \<Longrightarrow> sorted (map ev_key (heap (place st j w s)))"
  by (simp add: sim_defs sorted_heap_push)

definition queue_events :: "storm \<Rightarrow> nat \<Rightarrow> sim \<Rightarrow> ev multiset" where
  "queue_events st j s =
     add_mset \<lparr>ev_time = clock s + queue_timeout_ms (cfg st), ev_seq = next_seq s, ev_kind = Timeout j\<rparr>
       (if cancel_when_queued (jobs st ! j)
        then {#\<lparr>ev_time = clock s + cancel_delay_ms (cfg st), ev_seq = next_seq s + 1, ev_kind = Cancel j\<rparr>#} else {#})"

lemma enqueue_proj [simp]:
  "jstate (enqueue st j s) = (jstate s)[j := (jstate s ! j)\<lparr>enqueued_at := Some (clock s)\<rparr>]"
  "mset (heap (enqueue st j s)) = queue_events st j s + mset (heap s)"
  "queue (enqueue st j s) = queue s @ [j]"
  "events (enqueue st j s) = events s @
     [make_load_event (cfg st) (job_kind (jobs st ! j)) (local_id (jstate s ! j)) EVENT_QUEUED ''queued'' DECISION_QUEUED
        None None (Some (queue_depth_u32 (s\<lparr>queue := queue s @ [j]\<rparr>))) 0 (Some (queued_guidance (local_id (jstate s ! j)))) None]"
  "used (enqueue st j s) = used s" "clock (enqueue st j s) = clock s"
  "next_remote_id (enqueue st j s) = next_remote_id s" "sim_timeouts (enqueue st j s) = sim_timeouts s"
  by (auto simp: sim_defs queue_events_def queue_depth_u32_def)

lemma set_queue_events: "set_mset (queue_events st j s) \<subseteq> {x. ev_job x = j}"
  by (auto simp: queue_events_def ev_job_def)

lemma enqueue_sorted: "sorted (map ev_key (heap s)) \<Longrightarrow> sorted (map ev_key (heap (enqueue st j s)))"
  by (simp add: sim_defs sorted_heap_push)

lemma dispose_local_fallback_proj [simp]:
  "jstate (dispose_local_fallback st j d s) = (jstate s)[j := (jstate s ! j)\<lparr>disposition := Some LocalFallback\<rparr>]"
  "heap (dispose_local_fallback st j d s) = heap s" "queue (dispose_local_fallback st j d s) = queue s"
  "events (dispose_local_fallback st j d s) = events s @
     [make_load_event (cfg st) (job_kind (jobs st ! j)) (local_id (jstate s ! j)) EVENT_FELL_BACK ''local'' d None None None
        (runtime_ms (jobs st ! j)) (Some local_fallback_guidance) None]"
  "used (dispose_local_fallback st j d s) = used s" "clock (dispose_local_fallback st j d s) = clock s"
  "next_remote_id (dispose_local_fallback st j d s) = next_remote_id s"
  "sim_timeouts (dispose_local_fallback st j d s) = sim_timeouts s"
  by (simp_all add: sim_defs)

lemma dispose_proof_refused_proj [simp]:
  "jstate (dispose_proof_refused st j s) = (jstate s)[j := (jstate s ! j)\<lparr>disposition := Some ProofRefused\<rparr>]"
  "heap (dispose_proof_refused st j s) = heap s" "queue (dispose_proof_refused st j s) = queue s"
  "events (dispose_proof_refused st j s) = events s @
     [(make_load_event (cfg st) (job_kind (jobs st ! j)) (local_id (jstate s ! j)) EVENT_REFUSED ''refused''
        DECISION_PROOF_REFUSED None None None 0 (Some proof_refusal_detail) None)
        \<lparr>ev_reason_code := Some PROOF_REFUSAL_REASON\<rparr>]"
  "used (dispose_proof_refused st j s) = used s" "clock (dispose_proof_refused st j s) = clock s"
  "next_remote_id (dispose_proof_refused st j s) = next_remote_id s"
  "sim_timeouts (dispose_proof_refused st j s) = sim_timeouts s"
  by (simp_all add: sim_defs map_last_def)

lemma dispose_timeout_proj [simp]:
  "jstate (dispose_timeout st j s) = (jstate s)[j := (jstate s ! j)
     \<lparr>queue_wait_ms := (if enqueued_at (jstate s ! j) = None then queue_timeout_ms (cfg st)
        else min (waited s (jstate s ! j)) (queue_timeout_ms (cfg st))), disposition := Some QueueTimeoutFallback\<rparr>]"
  "heap (dispose_timeout st j s) = heap s" "queue (dispose_timeout st j s) = queue s"
  "events (dispose_timeout st j s) = events s @
     [make_load_event (cfg st) (job_kind (jobs st ! j)) (local_id (jstate s ! j)) EVENT_FELL_BACK ''local''
        DECISION_QUEUE_TIMEOUT_FALLBACK None None None (runtime_ms (jobs st ! j))
        (Some (queue_timeout_guidance (local_id (jstate s ! j)) (queue_timeout_ms (cfg st)))) None]"
  "used (dispose_timeout st j s) = used s" "clock (dispose_timeout st j s) = clock s"
  "next_remote_id (dispose_timeout st j s) = next_remote_id s"
  "sim_timeouts (dispose_timeout st j s) = sim_timeouts s + 1"
  by (auto simp: sim_defs waited_def split: option.splits)

lemma dispose_cancelled_proj [simp]:
  "jstate (dispose_cancelled st j s) = (jstate s)[j := (jstate s ! j)
     \<lparr>queue_wait_ms := waited s (jstate s ! j), disposition := Some Cancelled\<rparr>]"
  "heap (dispose_cancelled st j s) = heap s" "queue (dispose_cancelled st j s) = queue s"
  "events (dispose_cancelled st j s) = events s @
     [make_load_event (cfg st) (job_kind (jobs st ! j)) (local_id (jstate s ! j)) EVENT_CANCELLED ''cancelled''
        DECISION_CANCELLED None None None 0 (Some (cancel_guidance (local_id (jstate s ! j)))) None]"
  "used (dispose_cancelled st j s) = used s" "clock (dispose_cancelled st j s) = clock s"
  "next_remote_id (dispose_cancelled st j s) = next_remote_id s"
  "sim_timeouts (dispose_cancelled st j s) = sim_timeouts s"
  by (auto simp: sim_defs waited_def)

lemma complete_proj [simp]:
  "jstate (complete st w k j s) = jstate s" "heap (complete st w k j s) = heap s" "queue (complete st w k j s) = queue s"
  "events (complete st w k j s) = events s @
     [make_load_event (cfg st) (job_kind (jobs st ! j)) (local_id (jstate s ! j)) EVENT_PASSED ''ok'' DECISION_REMOTE
        (Some (worker_name (workers st ! w))) (Some (worker_name (workers st ! w))) None (runtime_ms (jobs st ! j))
        (Some ''completed remotely'') (case disposition (jstate s ! j) of Some (Remote r) \<Rightarrow> Some r | _ \<Rightarrow> None)]"
  "used (complete st w k j s) = (used s)[w := saturating_sub (used s ! w) k]" "clock (complete st w k j s) = clock s"
  "next_remote_id (complete st w k j s) = next_remote_id s" "sim_timeouts (complete st w k j s) = sim_timeouts s"
  by (simp_all add: sim_defs)

lemma remove_from_queue_proj [simp]:
  "jstate (remove_from_queue j s) = jstate s" "heap (remove_from_queue j s) = heap s"
  "queue (remove_from_queue j s) = remove1 j (queue s)" "events (remove_from_queue j s) = events s"
  "used (remove_from_queue j s) = used s" "clock (remove_from_queue j s) = clock s"
  "next_remote_id (remove_from_queue j s) = next_remote_id s" "sim_timeouts (remove_from_queue j s) = sim_timeouts s"
  by (simp_all add: remove_from_queue_def)

section \<open>Which job an event is about\<close>

lemma job_at:
  assumes "jobs_inv st s" "j < length (jobs st)"
  shows "job_ok st j (jstate s ! j) (job_events j (events s)) (pending j (mset (heap s))) (j \<in> set (queue s))"
  using assms by (simp add: jobs_inv_def)

lemma popped_pending:
  assumes "heap s = x # h" "ev_job x = j"
  shows "pending j (mset (heap s)) = add_mset x (pending j (mset h))"
  using assms by simp

lemma settled_kinds: "settled st j js es P \<Longrightarrow> x \<in># P \<Longrightarrow> ev_kind x \<noteq> Arrival j"
  by (fastforce simp: settled_def)

lemma waiting_kinds: "waiting st j P \<Longrightarrow> x \<in># P \<Longrightarrow> ev_kind x \<in> {Timeout j, Cancel j}"
  by (auto simp: waiting_def split: if_splits)

lemma waiting_timeout: "waiting st j P \<Longrightarrow> \<exists>y. y \<in># P \<and> ev_time y = queue_timeout_ms (cfg st)"
  unfolding waiting_def by (metis ev.select_convs(1) union_single_eq_member)

lemma arrival_in_hand:
  assumes "jobs_inv st s" "bounds_inv st s" "heap s = x # h" "ev_kind x = Arrival j"
  shows "j < length (jobs st)" "x = arrival j" "pending j (mset h) = {#}" "job_events j (events s) = []"
    "j \<notin> set (queue s)" "local_id (jstate s ! j) = storm_local_id j" "disposition (jstate s ! j) = None"
    "enqueued_at (jstate s ! j) = None" "started_at (jstate s ! j) = None" "queue_wait_ms (jstate s ! j) = 0"
proof -
  have x: "ev_job x = j" using assms(4) by (simp add: ev_job_def)
  then show j: "j < length (jobs st)" using assms(2,3) by (simp add: bounds_inv_def)
  note ok = job_at [OF assms(1) j, unfolded popped_pending [OF assms(3) x]]
  have d: "disposition (jstate s ! j) = None"
    using ok settled_kinds [of st j _ _ "add_mset x (pending j (mset h))" x] assms(4)
    by (auto simp: job_ok_def split: option.splits)
  moreover have e: "enqueued_at (jstate s ! j) = None"
    using ok d waiting_kinds [where x = x] assms(4) by (fastforce simp: job_ok_def split: option.splits)
  ultimately show "x = arrival j" "pending j (mset h) = {#}" "job_events j (events s) = []"
    "j \<notin> set (queue s)" "local_id (jstate s ! j) = storm_local_id j" "disposition (jstate s ! j) = None"
    "enqueued_at (jstate s ! j) = None" "started_at (jstate s ! j) = None" "queue_wait_ms (jstate s ! j) = 0"
    using ok by (auto simp: job_ok_def)
qed

lemma queued_job:
  assumes "jobs_inv st s" "j < length (jobs st)" "disposition (jstate s ! j) = None" "enqueued_at (jstate s ! j) \<noteq> None"
  shows "enqueued_at (jstate s ! j) = Some 0" "j \<in> set (queue s)" "allows_local_fallback (policy (jobs st ! j))"
    "job_events j (events s) = [queued_line st j]" "waiting st j (pending j (mset (heap s)))"
    "local_id (jstate s ! j) = storm_local_id j" "started_at (jstate s ! j) = None"
  using job_at [OF assms(1,2)] assms(3,4) by (auto simp: job_ok_def)

lemma in_queue:
  assumes "jobs_inv st s" "bounds_inv st s" "j \<in> set (queue s)"
  shows "j < length (jobs st)" "disposition (jstate s ! j) = None" "enqueued_at (jstate s ! j) \<noteq> None"
proof -
  show j: "j < length (jobs st)" using assms(2,3) by (simp add: bounds_inv_def)
  show "disposition (jstate s ! j) = None" "enqueued_at (jstate s ! j) \<noteq> None"
    using job_at [OF assms(1) j] assms(3) by (auto simp: job_ok_def split: option.splits)
qed

lemma unresolved:
  assumes "jobs_inv st s" "j < length (jobs st)"
  shows "resolved j s \<longleftrightarrow> disposition (jstate s ! j) \<noteq> None"
  using job_at [OF assms] by (auto simp: resolved_def job_ok_def split: option.splits)

text \<open>While somebody waits, the clock has not passed the limit: the pending timeout is not yet due.\<close>

lemma next_event_in_time:
  assumes "jobs_inv st s" "bounds_inv st s" "heap s = x # h" "queue s \<noteq> []"
  shows "ev_time x \<le> queue_timeout_ms (cfg st)"
proof -
  obtain j where j: "j \<in> set (queue s)" using assms(4) by (cases "queue s") auto
  from waiting_timeout [OF queued_job(5) [OF assms(1) in_queue [OF assms(1,2) j]]]
  obtain y where y: "y \<in># pending j (mset (heap s))" "ev_time y = queue_timeout_ms (cfg st)"
    by blast
  then have "y \<in> set (heap s)" by (simp add: pending_def)
  then have "ev_key x \<le> ev_key y" using assms(2,3) by (auto simp: bounds_inv_def)
  then show ?thesis using y(2) by (auto simp: ev_key_def)
qed

lemma one_job_changed:
  assumes "jobs_inv st s" "length (jstate t) = length (jobs st)"
    and "\<And>k. k < length (jobs st) \<Longrightarrow> k \<noteq> j \<Longrightarrow> jstate t ! k = jstate s ! k"
    and "\<And>k. k \<noteq> j \<Longrightarrow> job_events k (events t) = job_events k (events s)"
    and "\<And>k. k \<noteq> j \<Longrightarrow> pending k (mset (heap t)) = pending k (mset (heap s))"
    and "\<And>k. k \<noteq> j \<Longrightarrow> k \<in> set (queue t) \<longleftrightarrow> k \<in> set (queue s)"
    and "job_ok st j (jstate t ! j) (job_events j (events t)) (pending j (mset (heap t))) (j \<in> set (queue t))"
  shows "jobs_inv st t"
  unfolding jobs_inv_def
proof (intro conjI allI impI)
  fix k
  assume k: "k < length (jobs st)"
  show "job_ok st k (jstate t ! k) (job_events k (events t)) (pending k (mset (heap t))) (k \<in> set (queue t))"
    using job_at [OF assms(1) k] assms(3) [OF k] assms(4-7) by (cases "k = j") auto
qed (rule assms(2))

section \<open>The steps keep the jobs in order\<close>

lemma job_events_one [simp]:
  "job_events k [make_load_event c kd (storm_local_id j) e st d w sel dep du det r] =
     (if k = j then [make_load_event c kd (storm_local_id j) e st d w sel None du det r] else [])"
  "job_events k [(make_load_event c kd (storm_local_id j) e st d w sel dep du det r)\<lparr>ev_reason_code := rc\<rparr>] =
     (if k = j then [(make_load_event c kd (storm_local_id j) e st d w sel None du det r)\<lparr>ev_reason_code := rc\<rparr>] else [])"
  by (simp_all add: job_events_def)

lemma pending_union [simp]: "pending j (A + B) = pending j A + pending j B"
  by (simp add: pending_def)

lemmas trace_defs = trace_def live_job_events_def live_terminal_events_def live_queued_event_def observed_def
  queued_line_def is_remote_def

lemma dispose_local_fallback_ok:
  assumes "jobs_inv st s" "bounds_inv st s" "heap s = x # h" "ev_kind x = Arrival j"
    "allows_local_fallback (policy (jobs st ! j))"
  shows "jobs_inv st (dispose_local_fallback st j DECISION_LOCAL_FALLBACK (pop x h s))"
proof (rule one_job_changed [OF assms(1), where j = j])
  note hand = arrival_in_hand [OF assms(1-4)]
  have len: "length (jstate s) = length (jobs st)" using assms(1) by (simp add: jobs_inv_def)
  show "job_ok st j (jstate (dispose_local_fallback st j DECISION_LOCAL_FALLBACK (pop x h s)) ! j)
     (job_events j (events (dispose_local_fallback st j DECISION_LOCAL_FALLBACK (pop x h s))))
     (pending j (mset (heap (dispose_local_fallback st j DECISION_LOCAL_FALLBACK (pop x h s)))))
     (j \<in> set (queue (dispose_local_fallback st j DECISION_LOCAL_FALLBACK (pop x h s))))"
    using hand assms(5) len by (simp add: job_ok_def allowed_def settled_def trace_defs)
qed (use arrival_in_hand [OF assms(1-4)] assms(1,3) in
    \<open>auto simp: jobs_inv_def ev_job_def arrival_def\<close>)

lemma dispose_proof_refused_ok:
  assumes "jobs_inv st s" "bounds_inv st s" "heap s = x # h" "ev_kind x = Arrival j"
    "\<not> allows_local_fallback (policy (jobs st ! j))"
  shows "jobs_inv st (dispose_proof_refused st j (pop x h s))"
proof (rule one_job_changed [OF assms(1), where j = j])
  note hand = arrival_in_hand [OF assms(1-4)]
  have len: "length (jstate s) = length (jobs st)" using assms(1) by (simp add: jobs_inv_def)
  show "job_ok st j (jstate (dispose_proof_refused st j (pop x h s)) ! j)
     (job_events j (events (dispose_proof_refused st j (pop x h s))))
     (pending j (mset (heap (dispose_proof_refused st j (pop x h s)))))
     (j \<in> set (queue (dispose_proof_refused st j (pop x h s))))"
    using hand assms(5) len by (simp add: job_ok_def allowed_def settled_def trace_defs)
qed (use arrival_in_hand [OF assms(1-4)] assms(1,3) in
    \<open>auto simp: jobs_inv_def ev_job_def arrival_def\<close>)

lemma enqueue_ok:
  assumes "jobs_inv st s" "bounds_inv st s" "heap s = x # h" "ev_kind x = Arrival j"
    "allows_local_fallback (policy (jobs st ! j))"
  shows "jobs_inv st (enqueue st j (pop x h s))"
proof (rule one_job_changed [OF assms(1), where j = j])
  note hand = arrival_in_hand [OF assms(1-4)]
  have len: "length (jstate s) = length (jobs st)" using assms(1) by (simp add: jobs_inv_def)
  have t: "ev_time x = 0" using hand(2) by (simp add: arrival_def)
  have p: "pending k (queue_events st j (pop x h s)) = (if k = j then queue_events st j (pop x h s) else {#})" for k
    by (auto simp: queue_events_def ev_job_def pending_def)
  have w: "waiting st j (queue_events st j (pop x h s))" by (auto simp: waiting_def queue_events_def t)
  show "job_ok st j (jstate (enqueue st j (pop x h s)) ! j) (job_events j (events (enqueue st j (pop x h s))))
     (pending j (mset (heap (enqueue st j (pop x h s))))) (j \<in> set (queue (enqueue st j (pop x h s))))"
    using hand assms(5) len w p [of j] t by (simp add: job_ok_def queued_line_def)
  show "pending k (mset (heap (enqueue st j (pop x h s)))) = pending k (mset (heap s))" if "k \<noteq> j" for k
    using p [of k] that hand(2) assms(3) by (simp add: ev_job_def arrival_def)
qed (use arrival_in_hand [OF assms(1-4)] assms(1,3) in
    \<open>auto simp: jobs_inv_def\<close>)

text \<open>A placement, from the arrival or from the queue: the job was undecided, its events so far are those of
  its wait, and only deadlines of its wait are still pending.\<close>

lemma place_job_ok:
  assumes js: "local_id js = storm_local_id j" "disposition js = None"
    and enq: "enqueued_at js \<noteq> None \<Longrightarrow> enqueued_at js = Some 0 \<and> allows_local_fallback (policy (jobs st ! j)) \<and>
       clock s \<le> queue_timeout_ms (cfg st)"
    and es: "es = (if enqueued_at js = None then [] else [queued_line st j])"
    and P: "\<forall>x \<in># P. ev_kind x \<in> {Timeout j, Cancel j}"
    and w: "w < length (workers st)" "eligibility_is_schedulable (eligibility (workers st ! w))"
  shows "job_ok st j (js\<lparr>queue_wait_ms := waited s js, started_at := Some t, disposition := Some (Remote r)\<rparr>)
    (es @ [make_load_event (cfg st) (job_kind (jobs st ! j)) (storm_local_id j) EVENT_STARTED ''run'' DECISION_REMOTE
        (Some (worker_name (workers st ! w))) (Some (worker_name (workers st ! w))) None 0
        (Some ''admitted and running'') (Some r)])
    (add_mset \<lparr>ev_time = f, ev_seq = n, ev_kind = Completion w (job_slots (jobs st ! j)) j\<rparr> P) False"
proof -
  let ?js = "js\<lparr>queue_wait_ms := waited s js, started_at := Some t, disposition := Some (Remote r)\<rparr>"
  let ?x = "\<lparr>ev_time = f, ev_seq = n, ev_kind = Completion w (job_slots (jobs st ! j)) j\<rparr>"
  have wt: "allowed st j ?js (Remote r)"
    using enq by (cases "enqueued_at js") (auto simp: allowed_def waited_def saturating_sub_def)
  have tr: "es @ [make_load_event (cfg st) (job_kind (jobs st ! j)) (storm_local_id j) EVENT_STARTED ''run'' DECISION_REMOTE
        (Some (worker_name (workers st ! w))) (Some (worker_name (workers st ! w))) None 0
        (Some ''admitted and running'') (Some r)] = butlast (trace st j ?js w)"
    using es by (auto simp: trace_defs)
  have "settled st j ?js (butlast (trace st j ?js w)) (add_mset ?x P)"
    unfolding settled_def using w P
    by (intro exI [of _ w] conjI impI disjI2 exI [of _ ?x] exI [of _ P]) (simp_all add: is_remote_def)
  with wt tr js show ?thesis by (simp add: job_ok_def)
qed

lemma selected_worker:
  assumes "try_select st slots s = Some w"
  shows "w < length (workers st)" "eligibility_is_schedulable (eligibility (workers st ! w))"
    "slots \<le> total_slots (workers st ! w) - used s ! w"
  using try_select_choice(2) [OF assms] by (auto simp: worker_fits_def has_capacity_def)

lemma arrive_place_ok:
  assumes "jobs_inv st s" "bounds_inv st s" "heap s = x # h" "ev_kind x = Arrival j"
    "try_select st slots (pop x h s) = Some w"
  shows "jobs_inv st (place st j w (pop x h s))"
proof (rule one_job_changed [OF assms(1), where j = j])
  note hand = arrival_in_hand [OF assms(1-4)]
  have len: "length (jstate s) = length (jobs st)" using assms(1) by (simp add: jobs_inv_def)
  show "job_ok st j (jstate (place st j w (pop x h s)) ! j) (job_events j (events (place st j w (pop x h s))))
     (pending j (mset (heap (place st j w (pop x h s))))) (j \<in> set (queue (place st j w (pop x h s))))"
    using place_job_ok [where js = "jstate s ! j" and s = "pop x h s" and es = "[]" and P = "{#}", OF hand(6,7)
        _ _ _ selected_worker(1,2) [OF assms(5)]] hand len
    by (simp add: ev_job_def)
qed (use arrival_in_hand [OF assms(1-4)] assms(1,3) in \<open>auto simp: jobs_inv_def ev_job_def arrival_def\<close>)

lemma admission_ok:
  assumes "jobs_inv st s" "bounds_inv st s" "queue s = j # q" "try_select st slots s = Some w"
  shows "jobs_inv st (place st j w (s\<lparr>queue := q\<rparr>))"
proof (rule one_job_changed [OF assms(1), where j = j])
  have jq: "j \<in> set (queue s)" "j \<notin> set q" using assms(2,3) by (auto simp: bounds_inv_def)
  note queued = in_queue [OF assms(1,2) jq(1)]
  note job = queued_job [OF assms(1) queued]
  have c: "clock s \<le> queue_timeout_ms (cfg st)" using assms(2,3) by (simp add: bounds_inv_def)
  have len: "length (jstate s) = length (jobs st)" using assms(1) by (simp add: jobs_inv_def)
  have P: "\<forall>x \<in># pending j (mset (heap s)). ev_kind x \<in> {Timeout j, Cancel j}" using waiting_kinds [OF job(5)] by blast
  show "job_ok st j (jstate (place st j w (s\<lparr>queue := q\<rparr>)) ! j) (job_events j (events (place st j w (s\<lparr>queue := q\<rparr>))))
     (pending j (mset (heap (place st j w (s\<lparr>queue := q\<rparr>))))) (j \<in> set (queue (place st j w (s\<lparr>queue := q\<rparr>))))"
    using place_job_ok [where js = "jstate s ! j" and s = "s\<lparr>queue := q\<rparr>" and es = "[queued_line st j]", OF job(6) queued(2)
        _ _ P selected_worker(1,2) [OF assms(4)]] job queued len jq c
    by (simp add: ev_job_def)
qed (use queued_job(6) [OF assms(1) in_queue [OF assms(1,2)], of j] assms(1,3) in \<open>auto simp: jobs_inv_def ev_job_def\<close>)

lemma completion_in_hand:
  assumes "jobs_inv st s" "bounds_inv st s" "heap s = x # h" "ev_kind x = Completion w k j"
  obtains r where "j < length (jobs st)" "disposition (jstate s ! j) = Some (Remote r)" "w < length (workers st)"
    "eligibility_is_schedulable (eligibility (workers st ! w))" "k = job_slots (jobs st ! j)" "j \<notin> set (queue s)"
    "allowed st j (jstate s ! j) (Remote r)" "local_id (jstate s ! j) = storm_local_id j"
    "\<forall>y \<in># pending j (mset h). ev_kind y \<in> {Timeout j, Cancel j}"
    "job_events j (events s) = butlast (trace st j (jstate s ! j) w)"
proof -
  have x: "ev_job x = j" using assms(4) by (simp add: ev_job_def)
  have j: "j < length (jobs st)" using assms(2,3) x by (auto simp: bounds_inv_def)
  note ok = job_at [OF assms(1) j, unfolded popped_pending [OF assms(3) x]]
  have d: "disposition (jstate s ! j) \<noteq> None"
    using ok waiting_kinds [where x = x] assms(4) by (fastforce simp: job_ok_def arrival_def split: option.splits)
  then obtain e where e: "disposition (jstate s ! j) = Some e" by blast
  with ok have set: "settled st j (jstate s ! j) (job_events j (events s)) (add_mset x (pending j (mset h)))"
    and rest: "allowed st j (jstate s ! j) e" "local_id (jstate s ! j) = storm_local_id j" "j \<notin> set (queue s)"
    by (auto simp: job_ok_def)
  from set obtain v y R where v: "is_remote (disposition (jstate s ! j))" "v < length (workers st)"
    "eligibility_is_schedulable (eligibility (workers st ! v))" "ev_kind y = Completion v (job_slots (jobs st ! j)) j"
    "add_mset x (pending j (mset h)) = add_mset y R" "\<forall>z \<in># R. ev_kind z \<in> {Timeout j, Cancel j}"
    "job_events j (events s) = butlast (trace st j (jstate s ! j) v)"
    using assms(4) by (auto simp: settled_def)
  have "x \<notin># R" using v(6) assms(4) by auto
  then have "x = y" using v(5) by (metis insert_noteq_member)
  with v have "R = pending j (mset h)" "v = w" "k = job_slots (jobs st ! j)" using assms(4) by auto
  moreover obtain r where "e = Remote r" using v(1) e by (auto simp: is_remote_def split: disposition.splits)
  ultimately show thesis using that j v e rest by simp
qed

lemma complete_ok:
  assumes "jobs_inv st s" "bounds_inv st s" "heap s = x # h" "ev_kind x = Completion w k j"
  shows "jobs_inv st (complete st w k j (pop x h s))"
proof -
  obtain r where c: "j < length (jobs st)" "disposition (jstate s ! j) = Some (Remote r)" "w < length (workers st)"
    "eligibility_is_schedulable (eligibility (workers st ! w))" "k = job_slots (jobs st ! j)" "j \<notin> set (queue s)"
    "allowed st j (jstate s ! j) (Remote r)" "local_id (jstate s ! j) = storm_local_id j"
    "\<forall>y \<in># pending j (mset h). ev_kind y \<in> {Timeout j, Cancel j}"
    "job_events j (events s) = butlast (trace st j (jstate s ! j) w)"
    by (rule completion_in_hand [OF assms])
  let ?t = "complete st w k j (pop x h s)"
  have tr: "job_events j (events ?t) = trace st j (jstate s ! j) w"
    using c(2,8,10) by (simp add: trace_defs)
  show ?thesis
  proof (rule one_job_changed [OF assms(1), where j = j])
    have "settled st j (jstate s ! j) (trace st j (jstate s ! j) w) (pending j (mset h))"
      unfolding settled_def using c(3,4,9) by blast
    then show "job_ok st j (jstate ?t ! j) (job_events j (events ?t)) (pending j (mset (heap ?t))) (j \<in> set (queue ?t))"
      unfolding tr using c by (simp add: job_ok_def)
  qed (use c assms in \<open>auto simp: jobs_inv_def ev_job_def\<close>)
qed

lemma deadline_in_hand:
  assumes "jobs_inv st s" "bounds_inv st s" "heap s = x # h" "ev_kind x \<in> {Timeout j, Cancel j}" "\<not> resolved j s"
  shows "j < length (jobs st)" "disposition (jstate s ! j) = None" "enqueued_at (jstate s ! j) = Some 0"
    "allows_local_fallback (policy (jobs st ! j))" "job_events j (events s) = [queued_line st j]"
    "local_id (jstate s ! j) = storm_local_id j" "ev_time x \<le> queue_timeout_ms (cfg st)"
    "\<forall>y \<in># pending j (mset h). ev_kind y \<in> {Timeout j, Cancel j}" "j \<notin> set (remove1 j (queue s))"
    "ev_kind x = Cancel j \<Longrightarrow> cancel_when_queued (jobs st ! j)"
proof -
  have x: "ev_job x = j" using assms(4) by (auto simp: ev_job_def)
  then show j: "j < length (jobs st)" using assms(2,3) by (auto simp: bounds_inv_def)
  show d: "disposition (jstate s ! j) = None" using unresolved [OF assms(1) j] assms(5) by simp
  have e: "enqueued_at (jstate s ! j) \<noteq> None"
    using job_at [OF assms(1) j] d assms(4) popped_pending [OF assms(3) x]
    by (cases "enqueued_at (jstate s ! j)") (auto simp: job_ok_def arrival_def)
  note job = queued_job [OF assms(1) j d e]
  show "enqueued_at (jstate s ! j) = Some 0" "allows_local_fallback (policy (jobs st ! j))"
    "job_events j (events s) = [queued_line st j]" "local_id (jstate s ! j) = storm_local_id j"
    by (fact job)+
  have w: "waiting st j (add_mset x (pending j (mset h)))" using job(5) popped_pending [OF assms(3) x] by simp
  show "\<forall>y \<in># pending j (mset h). ev_kind y \<in> {Timeout j, Cancel j}"
    using waiting_kinds [OF w] by auto
  show "ev_time x \<le> queue_timeout_ms (cfg st)" using next_event_in_time [OF assms(1-3)] job(2) by (cases "queue s") simp_all
  show "j \<notin> set (remove1 j (queue s))" using assms(2) by (simp add: bounds_inv_def)
  show "cancel_when_queued (jobs st ! j)" if "ev_kind x = Cancel j"
    using w that by (auto simp: waiting_def add_eq_conv_ex split: if_splits)
qed

lemma dispose_timeout_ok:
  assumes "jobs_inv st s" "bounds_inv st s" "heap s = x # h" "ev_kind x = Timeout j" "\<not> resolved j s"
  shows "jobs_inv st (dispose_timeout st j (remove_from_queue j (pop x h s)))"
proof (rule one_job_changed [OF assms(1), where j = j])
  have x: "ev_kind x \<in> {Timeout j, Cancel j}" using assms(4) by simp
  note hand = deadline_in_hand [OF assms(1-3) x assms(5)]
  let ?t = "dispose_timeout st j (remove_from_queue j (pop x h s))"
  have len: "length (jstate s) = length (jobs st)" using assms(1) by (simp add: jobs_inv_def)
  show "job_ok st j (jstate ?t ! j) (job_events j (events ?t)) (pending j (mset (heap ?t))) (j \<in> set (queue ?t))"
    using hand len assms(2) by (simp add: job_ok_def allowed_def settled_def trace_defs bounds_inv_def)
qed (use deadline_in_hand(6) [OF assms(1-3) _ assms(5)] assms(1,3,4) in \<open>auto simp: jobs_inv_def ev_job_def\<close>)

lemma dispose_cancelled_ok:
  assumes "jobs_inv st s" "bounds_inv st s" "heap s = x # h" "ev_kind x = Cancel j" "\<not> resolved j s"
  shows "jobs_inv st (dispose_cancelled st j (remove_from_queue j (pop x h s)))"
proof (rule one_job_changed [OF assms(1), where j = j])
  have x: "ev_kind x \<in> {Timeout j, Cancel j}" using assms(4) by simp
  note hand = deadline_in_hand [OF assms(1-3) x assms(5)]
  let ?t = "dispose_cancelled st j (remove_from_queue j (pop x h s))"
  have len: "length (jstate s) = length (jobs st)" using assms(1) by (simp add: jobs_inv_def)
  show "job_ok st j (jstate ?t ! j) (job_events j (events ?t)) (pending j (mset (heap ?t))) (j \<in> set (queue ?t))"
    using hand len assms(2,4)
    by (simp add: job_ok_def allowed_def settled_def trace_defs bounds_inv_def waited_def saturating_sub_def)
qed (use deadline_in_hand(6) [OF assms(1-3) _ assms(5)] assms(1,3,4) in \<open>auto simp: jobs_inv_def ev_job_def\<close>)

lemma settled_deadline:
  assumes "settled st j js es (add_mset x P)" "ev_kind x \<in> {Timeout j, Cancel j}"
  shows "settled st j js es P"
proof -
  from assms(1) obtain w where w: "is_remote (disposition js) \<longrightarrow> w < length (workers st) \<and> eligibility_is_schedulable (eligibility (workers st ! w))"
    and c: "(\<forall>y \<in># add_mset x P. ev_kind y \<in> {Timeout j, Cancel j}) \<and> es = trace st j js w \<or>
       (\<exists>y R. is_remote (disposition js) \<and> ev_kind y = Completion w (job_slots (jobs st ! j)) j \<and> add_mset x P = add_mset y R \<and>
          (\<forall>x \<in># R. ev_kind x \<in> {Timeout j, Cancel j}) \<and> es = butlast (trace st j js w))"
    unfolding settled_def by blast
  from c show ?thesis
  proof
    assume "(\<forall>y \<in># add_mset x P. ev_kind y \<in> {Timeout j, Cancel j}) \<and> es = trace st j js w"
    with w show ?thesis unfolding settled_def by auto
  next
    assume "\<exists>y R. is_remote (disposition js) \<and> ev_kind y = Completion w (job_slots (jobs st ! j)) j \<and> add_mset x P = add_mset y R \<and>
          (\<forall>x \<in># R. ev_kind x \<in> {Timeout j, Cancel j}) \<and> es = butlast (trace st j js w)"
    then obtain y R where y: "is_remote (disposition js)" "ev_kind y = Completion w (job_slots (jobs st ! j)) j"
      "add_mset x P = add_mset y R" "\<forall>x \<in># R. ev_kind x \<in> {Timeout j, Cancel j}" "es = butlast (trace st j js w)" by blast
    have "x \<noteq> y" using y(2) assms(2) by auto
    then obtain K where "P = add_mset y K" "R = add_mset x K" using y(3) by (auto simp: add_eq_conv_ex)
    with w y show ?thesis unfolding settled_def by auto
  qed
qed

lemma stale_ok:
  assumes "jobs_inv st s" "bounds_inv st s" "heap s = x # h" "ev_kind x \<in> {Timeout j, Cancel j}" "resolved j s"
  shows "jobs_inv st (pop x h s)"
proof (rule one_job_changed [OF assms(1), where j = j])
  have x: "ev_job x = j" using assms(4) by (auto simp: ev_job_def)
  then have j: "j < length (jobs st)" using assms(2,3) by (auto simp: bounds_inv_def)
  obtain d where d: "disposition (jstate s ! j) = Some d" using unresolved [OF assms(1) j] assms(5) by blast
  have "settled st j (jstate s ! j) (job_events j (events s)) (add_mset x (pending j (mset h)))"
    using job_at [OF assms(1) j] d popped_pending [OF assms(3) x] by (simp add: job_ok_def)
  from settled_deadline [OF this assms(4)]
  show "job_ok st j (jstate (pop x h s) ! j) (job_events j (events (pop x h s))) (pending j (mset (heap (pop x h s))))
      (j \<in> set (queue (pop x h s)))"
    using job_at [OF assms(1) j] d by (simp add: job_ok_def)
qed (use assms(1,3,4) in \<open>auto simp: jobs_inv_def ev_job_def\<close>)

lemma jobs_inv_step: "storm_step st s t \<Longrightarrow> jobs_inv st s \<Longrightarrow> bounds_inv st s \<Longrightarrow> jobs_inv st t"
proof (induction rule: storm_step.cases)
  case (skipped s j q)
  then show ?case using in_queue(2) [of st s j] by simp
qed (auto intro: dispose_local_fallback_ok dispose_proof_refused_ok arrive_place_ok enqueue_ok complete_ok admission_ok
    dispose_timeout_ok dispose_cancelled_ok stale_ok)

section \<open>Bounds, slots and order\<close>

lemma set_heap_enqueue: "set (heap (enqueue st j s)) = set_mset (queue_events st j s) \<union> set (heap s)"
  by (metis enqueue_proj(2) set_mset_mset set_mset_union)

lemma sorted_pop: "sorted (map ev_key (heap s)) \<Longrightarrow> heap s = x # h \<Longrightarrow> sorted (map ev_key h)"
  by simp

lemma of_job_exists:
  "local_id (jstate s ! j) = storm_local_id j \<Longrightarrow> j < n \<Longrightarrow>
     \<exists>i < n. of_job i (make_load_event c kd (local_id (jstate s ! j)) e st d w sel dep du det r)"
  "local_id (jstate s ! j) = storm_local_id j \<Longrightarrow> j < n \<Longrightarrow>
     \<exists>i < n. of_job i ((make_load_event c kd (local_id (jstate s ! j)) e st d w sel dep du det r)\<lparr>ev_reason_code := rc\<rparr>)"
  by auto

lemma local_ids: "jobs_inv st s \<Longrightarrow> j < length (jobs st) \<Longrightarrow> local_id (jstate s ! j) = storm_local_id j"
  by (simp add: jobs_inv_def job_ok_def)

lemma popped_job: "bounds_inv st s \<Longrightarrow> heap s = x # h \<Longrightarrow> ev_job x < length (jobs st)"
  by (simp add: bounds_inv_def)

lemma bounds_inv_pop:
  assumes "jobs_inv st s" "bounds_inv st s" "heap s = x # h"
  shows "bounds_inv st (pop x h s)"
  using assms next_event_in_time [OF assms] by (auto simp: bounds_inv_def)

lemma bounds_inv_step:
  assumes "storm_step st s t" "jobs_inv st s" "bounds_inv st s"
  shows "bounds_inv st t"
  using assms(1)
proof cases
  case (arrive_fallback x h j)
  then show ?thesis
    using bounds_inv_pop [OF assms(2,3)] arrival_in_hand(1,6) [OF assms(2,3)]
    by (auto simp: bounds_inv_def of_job_exists)
next
  case (arrive_refuse x h j)
  then show ?thesis
    using bounds_inv_pop [OF assms(2,3)] arrival_in_hand(1,6) [OF assms(2,3)]
    by (auto simp: bounds_inv_def of_job_exists)
next
  case (arrive_place x h j w)
  then show ?thesis
    using bounds_inv_pop [OF assms(2,3)] arrival_in_hand(1,6) [OF assms(2,3)]
    by (auto simp: bounds_inv_def of_job_exists place_sorted ev_job_def)
next
  case (arrive_enqueue x h j)
  have t: "ev_time x = 0" using arrival_in_hand(2) [OF assms(2,3) arrive_enqueue(2,3)] by (simp add: arrival_def)
  show ?thesis
    using arrive_enqueue bounds_inv_pop [OF assms(2,3)] arrival_in_hand(1,5,6) [OF assms(2,3)] t
      set_queue_events [of st j "pop x h s"]
    by (auto simp: bounds_inv_def of_job_exists enqueue_sorted set_heap_enqueue)
next
  case (completion x h w k j)
  then have "j < length (jobs st)" using popped_job [OF assms(3)] by (force simp: ev_job_def)
  with completion show ?thesis
    using bounds_inv_pop [OF assms(2,3)] local_ids [OF assms(2)]
    by (auto simp: bounds_inv_def of_job_exists)
next
  case (admission j q w)
  have "j < length (jobs st)" using assms(3) admission by (simp add: bounds_inv_def)
  with admission show ?thesis
    using assms(3) local_ids [OF assms(2)] by (auto simp: bounds_inv_def of_job_exists place_sorted ev_job_def)
next
  case (skipped j q)
  then show ?thesis using assms(3) by (auto simp: bounds_inv_def)
next
  case (timed_out x h j)
  then have "j < length (jobs st)" using popped_job [OF assms(3)] by (force simp: ev_job_def)
  with timed_out show ?thesis
    using bounds_inv_pop [OF assms(2,3) timed_out(2)] local_ids [OF assms(2)] notin_set_remove1
    by (auto simp: bounds_inv_def of_job_exists distinct_remove1 length_remove1 dest: notin_set_remove1)
next
  case (cancelled x h j)
  then have "j < length (jobs st)" using popped_job [OF assms(3)] by (force simp: ev_job_def)
  with cancelled show ?thesis
    using bounds_inv_pop [OF assms(2,3) cancelled(2)] local_ids [OF assms(2)]
    by (auto simp: bounds_inv_def of_job_exists distinct_remove1 length_remove1 dest: notin_set_remove1)
next
  case (stale x h j)
  then show ?thesis using bounds_inv_pop [OF assms(2,3)] by simp
qed

subsection \<open>Slots\<close>

definition claim :: "nat \<Rightarrow> ev \<Rightarrow> nat" where
  "claim w x = (case ev_kind x of Completion v k _ \<Rightarrow> if v = w then unat k else 0 | _ \<Rightarrow> 0)"

definition claims :: "nat \<Rightarrow> ev multiset \<Rightarrow> nat" where
  "claims w H = sum_mset (image_mset (claim w) H)"

lemma claims_add [simp]: "claims w (add_mset x H) = claim w x + claims w H" "claims w {#} = 0"
  "claims w (A + B) = claims w A + claims w B"
  by (simp_all add: claims_def)

definition slots_inv :: "storm \<Rightarrow> sim \<Rightarrow> bool" where
  "slots_inv st s \<longleftrightarrow> length (used s) = length (workers st) \<and>
     (\<forall>w < length (workers st). unat (used s ! w) = claims w (mset (heap s)) \<and> used s ! w \<le> total_slots (workers st ! w))"

lemma add_within:
  assumes "k \<le> cap - u" "u \<le> (cap :: 32 word)"
  shows "unat (u + k) = unat u + unat k" "u + k \<le> cap"
proof -
  have "unat k \<le> unat cap - unat u" using assms by (simp add: word_le_nat_alt unat_sub)
  moreover have "unat u \<le> unat cap" using assms(2) by (simp add: word_le_nat_alt)
  ultimately have le: "unat u + unat k \<le> unat cap" by simp
  then show eq: "unat (u + k) = unat u + unat k" using unat_bound [of cap] by (intro unat_plus_no_overflow) simp
  show "u + k \<le> cap" using le eq by (simp add: word_le_nat_alt)
qed

lemma slots_inv_place:
  assumes "slots_inv st s" "try_select st (job_slots (jobs st ! j)) s = Some w" "heap t = heap s" "used t = used s"
  shows "slots_inv st (place st j w t)"
proof -
  note w = selected_worker [OF assms(2)]
  have "used s ! w \<le> total_slots (workers st ! w)" using assms(1) w(1) by (simp add: slots_inv_def)
  note a = add_within [OF w(3) this]
  show ?thesis
    using assms a w by (auto simp: slots_inv_def nth_list_update claim_def)
qed

lemma queue_events_claims [simp]: "claims w (queue_events st j s) = 0"
  by (simp add: queue_events_def claim_def)

lemma slots_inv_step:
  assumes "storm_step st s t" "jobs_inv st s" "bounds_inv st s" "slots_inv st s"
  shows "slots_inv st t"
  using assms(1)
proof cases
  case (completion x h w k j)
  obtain r where w: "w < length (workers st)" using completion_in_hand [OF assms(2,3) completion(2,3)] by blast
  then have "claims w (mset (heap s)) = unat k + claims w (mset h)" using completion by (simp add: claim_def)
  then have "unat (saturating_sub (used s ! w) k) = claims w (mset h)"
    using assms(4) w by (simp add: slots_inv_def unat_saturating_sub)
  moreover have "saturating_sub (used s ! w) k \<le> used s ! w"
    by (simp add: word_le_nat_alt unat_saturating_sub)
  ultimately show ?thesis
    using assms(4) w completion
    by (auto simp: slots_inv_def nth_list_update claim_def intro: order_trans)
next
  case (arrive_place x h j w)
  then have "slots_inv st (pop x h s)" using assms(4) by (simp add: slots_inv_def claim_def)
  from slots_inv_place [OF this arrive_place(4)] arrive_place(1) show ?thesis by simp
next
  case (admission j q w)
  then show ?thesis using slots_inv_place [OF assms(4) admission(4)] by simp
qed (use assms(4) in \<open>auto simp: slots_inv_def claim_def\<close>)

subsection \<open>Remote identifiers and the order of the queue\<close>

definition remote_of :: "sim \<Rightarrow> nat \<Rightarrow> nat option" where
  "remote_of s j = (case disposition (jstate s ! j) of Some (Remote r) \<Rightarrow> Some r | _ \<Rightarrow> None)"

definition was_queued :: "sim \<Rightarrow> nat \<Rightarrow> bool" where
  "was_queued s j \<longleftrightarrow> enqueued_at (jstate s ! j) \<noteq> None"

definition ids_inv :: "storm \<Rightarrow> sim \<Rightarrow> bool" where
  "ids_inv st s \<longleftrightarrow>
     (\<forall>j < length (jobs st). \<forall>r. remote_of s j = Some r \<longrightarrow> r < next_remote_id s) \<and>
     (\<forall>i < length (jobs st). \<forall>j < length (jobs st). i \<noteq> j \<longrightarrow> remote_of s i \<noteq> None \<longrightarrow> remote_of s i \<noteq> remote_of s j)"

definition arrivals_inv :: "storm \<Rightarrow> sim \<Rightarrow> bool" where
  "arrivals_inv st s \<longleftrightarrow>
     (\<forall>x \<in> set (heap s). \<forall>a. ev_kind x = Arrival a \<longrightarrow> (\<forall>j < length (jobs st). was_queued s j \<longrightarrow> j < a))"

definition fifo_inv :: "storm \<Rightarrow> sim \<Rightarrow> bool" where
  "fifo_inv st s \<longleftrightarrow> sorted (queue s) \<and>
     (\<forall>i \<in> set (queue s). \<forall>j < length (jobs st). was_queued s j \<and> remote_of s j \<noteq> None \<longrightarrow> j < i) \<and>
     (\<forall>i j p q. i < j \<and> j < length (jobs st) \<and> was_queued s i \<and> was_queued s j \<and>
        remote_of s i = Some p \<and> remote_of s j = Some q \<longrightarrow> p < q)"

definition storm_order_inv :: "storm \<Rightarrow> sim \<Rightarrow> bool" where
  "storm_order_inv st s \<longleftrightarrow> ids_inv st s \<and> arrivals_inv st s \<and> fifo_inv st s"

lemma fifo_first:
  "storm_order_inv st s \<Longrightarrow> i \<in> set (queue s) \<Longrightarrow> j < length (jobs st) \<Longrightarrow> was_queued s j \<Longrightarrow> remote_of s j \<noteq> None \<Longrightarrow> j < i"
  unfolding storm_order_inv_def fifo_inv_def by blast

lemma fifo_ids:
  "storm_order_inv st s \<Longrightarrow> i < j \<Longrightarrow> j < length (jobs st) \<Longrightarrow> was_queued s i \<Longrightarrow> was_queued s j \<Longrightarrow>
     remote_of s i = Some p \<Longrightarrow> remote_of s j = Some q \<Longrightarrow> p < q"
  unfolding storm_order_inv_def fifo_inv_def by blast

lemma ids_bound: "storm_order_inv st s \<Longrightarrow> j < length (jobs st) \<Longrightarrow> remote_of s j = Some r \<Longrightarrow> r < next_remote_id s"
  unfolding storm_order_inv_def ids_inv_def by blast

lemma ids_distinct:
  "storm_order_inv st s \<Longrightarrow> i < length (jobs st) \<Longrightarrow> j < length (jobs st) \<Longrightarrow> remote_of s i = Some r \<Longrightarrow> remote_of s j = Some r \<Longrightarrow> i = j"
  unfolding storm_order_inv_def ids_inv_def by (metis option.distinct(1))

lemma storm_order_inv_shrink:
  assumes "storm_order_inv st s" "next_remote_id t = next_remote_id s" "set (heap t) \<subseteq> set (heap s)"
    "sorted (queue t)" "set (queue t) \<subseteq> set (queue s)"
    "\<And>j. j < length (jobs st) \<Longrightarrow> remote_of t j = remote_of s j \<and> was_queued t j = was_queued s j"
  shows "storm_order_inv st t"
proof -
  have "ids_inv st t" using assms(1,2,6) by (simp add: storm_order_inv_def ids_inv_def)
  moreover have "arrivals_inv st t" using assms(1,3,6) unfolding storm_order_inv_def arrivals_inv_def by blast
  moreover have "fifo_inv st t"
    unfolding fifo_inv_def
  proof (intro conjI ballI allI impI)
    show "sorted (queue t)" by (rule assms(4))
    show "j < i" if "i \<in> set (queue t)" "j < length (jobs st)" "was_queued t j \<and> remote_of t j \<noteq> None" for i j
      using fifo_first [OF assms(1) subsetD [OF assms(5) that(1)] that(2)] that(3) assms(6) [OF that(2)] by simp
    fix i j p q
    assume a: "i < j \<and> j < length (jobs st) \<and> was_queued t i \<and> was_queued t j \<and> remote_of t i = Some p \<and> remote_of t j = Some q"
    then have "i < length (jobs st)" "j < length (jobs st)" by auto
    then show "p < q" using fifo_ids [OF assms(1), of i j p q] a assms(6) [of i] assms(6) [of j] by simp
  qed
  ultimately show ?thesis by (simp add: storm_order_inv_def)
qed

lemma arrival_event:
  assumes "jobs_inv st s" "bounds_inv st s" "y \<in> set (heap s)" "ev_kind y = Arrival a"
  shows "y = arrival a"
proof -
  have a: "a < length (jobs st)" using assms(2-4) by (force simp: bounds_inv_def ev_job_def)
  have y: "y \<in># pending a (mset (heap s))" using assms(3,4) by (simp add: pending_def ev_job_def)
  show ?thesis
    using job_at [OF assms(1) a] y settled_kinds [OF _ y] waiting_kinds [OF _ y] assms(4)
    by (fastforce simp: job_ok_def split: option.splits)
qed

lemma later_arrivals:
  assumes "jobs_inv st s" "bounds_inv st s" "heap s = x # h" "ev_kind x = Arrival j" "y \<in> set h" "ev_kind y = Arrival a"
  shows "j < a"
proof -
  note hand = arrival_in_hand [OF assms(1-4)]
  have "y = arrival a" using arrival_event [OF assms(1,2)] assms(3,5,6) by auto
  moreover have "ev_key x \<le> ev_key y" using assms(2,3,5) by (auto simp: bounds_inv_def)
  ultimately have "j \<le> a" using hand(2) by (auto simp: ev_key_def arrival_def)
  moreover have "ev_job y \<noteq> j" using hand(3) assms(5) by (auto simp: pending_def filter_mset_eq_conv)
  ultimately show ?thesis using assms(6) by (simp add: ev_job_def)
qed

lemma storm_order_inv_place:
  assumes inv: "storm_order_inv st s" "jobs_inv st s" and j: "j < length (jobs st)" "disposition (jstate s ! j) = None"
    and t: "jstate t = jstate s" "next_remote_id t = next_remote_id s" "set (heap t) \<subseteq> set (heap s)"
      "sorted (queue t)" "set (queue t) \<subseteq> set (queue s)"
    and first: "was_queued s j \<Longrightarrow> j \<in> set (queue s) \<and> (\<forall>i \<in> set (queue t). j < i)"
  shows "storm_order_inv st (place st j w t)"
proof -
  let ?p = "place st j w t"
  have len: "length (jstate s) = length (jobs st)" using inv(2) by (simp add: jobs_inv_def)
  have r: "remote_of ?p i = (if i = j then Some (next_remote_id s) else remote_of s i)" "was_queued ?p i = was_queued s i"
    if "i < length (jobs st)" for i
    using that len t(1,2) j(1) by (auto simp: remote_of_def was_queued_def nth_list_update)
  have none: "remote_of s j = None" using j(2) by (simp add: remote_of_def)
  have "ids_inv st ?p"
    unfolding ids_inv_def
  proof (intro conjI allI impI)
    show "p < next_remote_id ?p" if "i < length (jobs st)" "remote_of ?p i = Some p" for i p
      using that r(1) [OF that(1)] ids_bound [OF inv(1) that(1)] t(2) by (auto simp: less_Suc_eq split: if_splits)
    show "remote_of ?p a \<noteq> remote_of ?p b"
      if "a < length (jobs st)" "b < length (jobs st)" "a \<noteq> b" "remote_of ?p a \<noteq> None" for a b
      using that r(1) [OF that(1)] r(1) [OF that(2)] ids_distinct [OF inv(1) that(1,2)] ids_bound [OF inv(1)]
      by (metis less_irrefl option.exhaust)
  qed
  moreover have "arrivals_inv st ?p"
    using inv(1) t(3) r(2) by (auto simp: storm_order_inv_def arrivals_inv_def)
  moreover have "fifo_inv st ?p"
    unfolding fifo_inv_def
  proof (intro conjI ballI allI impI)
    show "sorted (queue ?p)" using t(4) by simp
    show "k < i" if "i \<in> set (queue ?p)" "k < length (jobs st)" "was_queued ?p k \<and> remote_of ?p k \<noteq> None" for i k
      using that r [OF that(2)] first fifo_first [OF inv(1) subsetD [OF t(5)] that(2), of i] by (auto split: if_splits)
    fix a b p q
    assume ab: "a < b \<and> b < length (jobs st) \<and> was_queued ?p a \<and> was_queued ?p b \<and> remote_of ?p a = Some p \<and> remote_of ?p b = Some q"
    then have lt: "a < b" "a < length (jobs st)" "b < length (jobs st)" by simp_all
    have "a \<noteq> j"
    proof
      assume "a = j"
      then have "j \<in> set (queue s)" "b \<noteq> j" using first ab r(2) [OF lt(2)] by auto
      then have "b < j" using fifo_first [OF inv(1) _ lt(3), of j] ab r [OF lt(3)] by simp
      with \<open>a = j\<close> lt(1) show False by simp
    qed
    then show "p < q"
      using ab r [OF lt(2)] r [OF lt(3)] fifo_ids [OF inv(1) lt(1,3)] ids_bound [OF inv(1) lt(2)]
      by (cases "b = j") auto
  qed
  ultimately show ?thesis by (simp add: storm_order_inv_def)
qed

lemma fifo_sorted: "storm_order_inv st s \<Longrightarrow> sorted (queue s)"
  unfolding storm_order_inv_def fifo_inv_def by blast

lemma storm_order_inv_enqueue:
  assumes "storm_order_inv st s" "jobs_inv st s" "bounds_inv st s" "heap s = x # h" "ev_kind x = Arrival j"
  shows "storm_order_inv st (enqueue st j (pop x h s))"
proof -
  let ?t = "enqueue st j (pop x h s)"
  note hand = arrival_in_hand [OF assms(2-5)]
  have len: "length (jstate s) = length (jobs st)" using assms(2) by (simp add: jobs_inv_def)
  have r: "remote_of ?t i = remote_of s i" "was_queued ?t i = (i = j \<or> was_queued s i)" if "i < length (jobs st)" for i
    using that len hand(1) by (auto simp: remote_of_def was_queued_def nth_list_update)
  have none: "remote_of s j = None" using hand(7) by (simp add: remote_of_def)
  have earlier: "i < j" if "i < length (jobs st)" "was_queued s i" for i
    using assms(1,4,5) that by (auto simp: storm_order_inv_def arrivals_inv_def)
  have q: "i < j" if "i \<in> set (queue s)" for i
    using earlier in_queue [OF assms(2,3) that] by (simp add: was_queued_def)
  have "ids_inv st ?t" using assms(1) by (simp add: storm_order_inv_def ids_inv_def r)
  moreover have "arrivals_inv st ?t"
    unfolding arrivals_inv_def
  proof (intro ballI allI impI)
    fix y a i
    assume y: "y \<in> set (heap ?t)" "ev_kind y = Arrival a" and i: "i < length (jobs st)" "was_queued ?t i"
    have "y \<in> set h" using y by (auto simp: set_heap_enqueue queue_events_def split: if_splits)
    then have "j < a" using later_arrivals [OF assms(2-5) _ y(2)] by blast
    then show "i < a" using earlier [OF i(1)] i(2) r(2) [OF i(1)] by auto
  qed
  moreover have "fifo_inv st ?t"
    unfolding fifo_inv_def
  proof (intro conjI ballI allI impI)
    show "sorted (queue ?t)"
      using fifo_sorted [OF assms(1)] q by (auto simp: sorted_append intro: less_imp_le)
    show "k < i" if "i \<in> set (queue ?t)" "k < length (jobs st)" "was_queued ?t k \<and> remote_of ?t k \<noteq> None" for i k
      using that r [OF that(2)] none earlier [OF that(2)] fifo_first [OF assms(1) _ that(2), of i] by auto
    fix a b p q
    assume ab: "a < b \<and> b < length (jobs st) \<and> was_queued ?t a \<and> was_queued ?t b \<and> remote_of ?t a = Some p \<and> remote_of ?t b = Some q"
    then have "a < length (jobs st)" "b < length (jobs st)" by auto
    then show "p < q" using ab r [of a] r [of b] none fifo_ids [OF assms(1), of a b p q] by auto
  qed
  ultimately show ?thesis by (simp add: storm_order_inv_def)
qed

lemma storm_order_inv_step:
  assumes "storm_step st s t" "jobs_inv st s" "bounds_inv st s" "storm_order_inv st s"
  shows "storm_order_inv st t"
proof -
  have len: "length (jstate s) = length (jobs st)" using assms(2) by (simp add: jobs_inv_def)
  have sq: "sorted (queue s)" "distinct (queue s)"
    using fifo_sorted [OF assms(4)] assms(3) by (simp_all add: bounds_inv_def)
  show ?thesis
    using assms(1)
  proof cases
    case (arrive_fallback x h j)
    note hand = arrival_in_hand [OF assms(2,3) arrive_fallback(2,3)]
    show ?thesis unfolding arrive_fallback(1)
      by (rule storm_order_inv_shrink [OF assms(4)])
        (use sq len hand(1,2,7) arrive_fallback in \<open>auto simp: remote_of_def was_queued_def nth_list_update sorted_remove1 dest: notin_set_remove1\<close>)
  next
    case (arrive_refuse x h j)
    note hand = arrival_in_hand [OF assms(2,3) arrive_refuse(2,3)]
    show ?thesis unfolding arrive_refuse(1)
      by (rule storm_order_inv_shrink [OF assms(4)])
        (use sq len hand(1,2,7) arrive_refuse in \<open>auto simp: remote_of_def was_queued_def nth_list_update sorted_remove1 dest: notin_set_remove1\<close>)
  next
    case (arrive_place x h j w)
    note hand = arrival_in_hand [OF assms(2,3) arrive_place(2,3)]
    show ?thesis unfolding arrive_place(1)
      by (rule storm_order_inv_place [OF assms(4,2) hand(1,7)]) (use sq arrive_place hand(8) in \<open>auto simp: was_queued_def\<close>)
  next
    case (arrive_enqueue x h j)
    then show ?thesis using storm_order_inv_enqueue [OF assms(4,2,3)] by simp
  next
    case (completion x h w k j)
    show ?thesis unfolding completion(1)
      by (rule storm_order_inv_shrink [OF assms(4)]) (use sq completion in \<open>auto simp: remote_of_def was_queued_def\<close>)
  next
    case (admission j q w)
    have jq: "j \<in> set (queue s)" using admission by simp
    show ?thesis unfolding admission(1)
      by (rule storm_order_inv_place [OF assms(4,2) in_queue(1,2) [OF assms(2,3) jq]])
        (use sq admission in \<open>auto simp: order.strict_iff_order\<close>)
  next
    case (skipped j q)
    show ?thesis unfolding skipped(1)
      by (rule storm_order_inv_shrink [OF assms(4)]) (use sq skipped in \<open>auto simp: remote_of_def was_queued_def\<close>)
  next
    case (timed_out x h j)
    have k: "ev_kind x \<in> {Timeout j, Cancel j}" using timed_out by simp
    note hand = deadline_in_hand [OF assms(2,3) timed_out(2) k timed_out(4)]
    show ?thesis unfolding timed_out(1)
      by (rule storm_order_inv_shrink [OF assms(4)])
        (use sq len hand(1,2,7) timed_out in \<open>auto simp: remote_of_def was_queued_def nth_list_update sorted_remove1 dest: notin_set_remove1\<close>)
  next
    case (cancelled x h j)
    have k: "ev_kind x \<in> {Timeout j, Cancel j}" using cancelled by simp
    note hand = deadline_in_hand [OF assms(2,3) cancelled(2) k cancelled(4)]
    show ?thesis unfolding cancelled(1)
      by (rule storm_order_inv_shrink [OF assms(4)])
        (use sq len hand(1,2,7) cancelled in \<open>auto simp: remote_of_def was_queued_def nth_list_update sorted_remove1 dest: notin_set_remove1\<close>)
  next
    case (stale x h j)
    show ?thesis unfolding stale(1)
      by (rule storm_order_inv_shrink [OF assms(4)]) (use sq stale in \<open>auto simp: remote_of_def was_queued_def\<close>)
  qed
qed

subsection \<open>The invariant as a whole\<close>

definition timeouts_inv :: "sim \<Rightarrow> bool" where
  "timeouts_inv s \<longleftrightarrow> sim_timeouts s = count_disposition (\<lambda>d. d = Some QueueTimeoutFallback) s"

lemma length_filter_update:
  "j < length xs \<Longrightarrow>
     length (filter P (xs[j := v])) + (if P (xs ! j) then 1 else 0) = length (filter P xs) + (if P v then 1 else 0)"
proof (induction xs arbitrary: j)
  case (Cons x xs)
  then show ?case by (cases j) auto
qed simp

lemma timeouts_inv_update:
  assumes "timeouts_inv s" "j < length (jstate s)" "disposition (jstate s ! j) = None" "jstate t = (jstate s)[j := v]"
    "sim_timeouts t = sim_timeouts s + (if disposition v = Some QueueTimeoutFallback then 1 else 0)"
  shows "timeouts_inv t"
  using assms length_filter_update [OF assms(2), where P = "\<lambda>j. disposition j = Some QueueTimeoutFallback" and v = v]
  by (simp add: timeouts_inv_def count_disposition_def)

lemma waited_queue [simp]: "waited (s\<lparr>queue := q\<rparr>) js = waited s js"
  by (simp add: waited_def cong: option.case_cong)

lemma timeouts_inv_step:
  assumes "storm_step st s t" "jobs_inv st s" "bounds_inv st s" "timeouts_inv s"
  shows "timeouts_inv t"
proof -
  have len: "length (jstate s) = length (jobs st)" using assms(2) by (simp add: jobs_inv_def)
  note arr = arrival_in_hand(1,7) [OF assms(2,3)]
  note upd = timeouts_inv_update [OF assms(4), unfolded len]
  show ?thesis
    using assms(1)
  proof cases
    case (admission j q w)
    then have jq: "j \<in> set (queue s)" by simp
    show ?thesis unfolding admission(1) by (rule upd [OF in_queue(1,2) [OF assms(2,3) jq]], simp, simp)
  next
    case (timed_out x h j)
    then have k: "ev_kind x \<in> {Timeout j, Cancel j}" by simp
    show ?thesis unfolding timed_out(1)
      by (rule upd [OF deadline_in_hand(1,2) [OF assms(2,3) timed_out(2) k timed_out(4)]], simp, simp)
  next
    case (cancelled x h j)
    then have k: "ev_kind x \<in> {Timeout j, Cancel j}" by simp
    show ?thesis unfolding cancelled(1)
      by (rule upd [OF deadline_in_hand(1,2) [OF assms(2,3) cancelled(2) k cancelled(4)]], simp, simp)
  next
    case (arrive_fallback x h j)
    show ?thesis unfolding arrive_fallback(1) by (rule upd [OF arr [OF arrive_fallback(2,3)]], simp, simp)
  next
    case (arrive_refuse x h j)
    show ?thesis unfolding arrive_refuse(1) by (rule upd [OF arr [OF arrive_refuse(2,3)]], simp, simp)
  next
    case (arrive_place x h j w)
    show ?thesis unfolding arrive_place(1) by (rule upd [OF arr [OF arrive_place(2,3)]], simp, simp)
  next
    case (arrive_enqueue x h j)
    show ?thesis unfolding arrive_enqueue(1)
      by (rule upd [OF arr [OF arrive_enqueue(2,3)]], simp, simp add: arr(2) [OF arrive_enqueue(2,3)])
  qed (use assms(4) in \<open>simp_all add: timeouts_inv_def count_disposition_def\<close>)
qed

definition storm_inv :: "storm \<Rightarrow> sim \<Rightarrow> bool" where
  "storm_inv st s \<longleftrightarrow> jobs_inv st s \<and> bounds_inv st s \<and> slots_inv st s \<and> storm_order_inv st s \<and> timeouts_inv s"

lemma sim_new_heap: "heap (sim_new st) = map arrival [0..<length (jobs st)]"
proof -
  have last: "insort_key ev_key (arrival n) (map arrival xs) = map arrival xs @ [arrival n]"
    if "\<forall>i \<in> set xs. i < n" for n xs
    using that by (induction xs) (auto simp: ev_key_def arrival_def)
  have "foldl (\<lambda>h i. heap_push (arrival i) h) [] [0..<n] = map arrival [0..<n]" for n
    by (induction n) (simp_all add: heap_push_def last)
  then show ?thesis by (simp add: sim_new_def arrival_def)
qed

lemma pending_arrivals: "distinct xs \<Longrightarrow> pending j (image_mset arrival (mset xs)) = (if j \<in> set xs then {#arrival j#} else {#})"
  by (induction xs) (auto simp: pending_def ev_job_def arrival_def)

lemma sim_new_pending: "j < n \<Longrightarrow> pending j (image_mset arrival (mset_set {0..<n})) = {#arrival j#}"
  using pending_arrivals [of "[0..<n]" j] by simp

lemma claims_arrivals: "claims w (image_mset arrival A) = 0"
  by (induction A) (simp_all add: claim_def arrival_def)

lemma sim_new_good: "storm_inv st (sim_new st)"
proof -
  have n: "jstate (sim_new st) = map (\<lambda>i. \<lparr>local_id = storm_local_id i, enqueued_at = None, queue_wait_ms = 0,
      started_at = None, disposition = None\<rparr>) [0..<length (jobs st)]" "queue (sim_new st) = []" "events (sim_new st) = []"
    "used (sim_new st) = replicate (length (workers st)) 0" "sim_timeouts (sim_new st) = 0"
    by (simp_all add: sim_new_def)
  have "jobs_inv st (sim_new st)"
    using sim_new_pending by (simp add: jobs_inv_def job_ok_def n sim_new_heap job_events_def)
  moreover have "bounds_inv st (sim_new st)"
    by (auto simp: bounds_inv_def n sim_new_heap ev_job_def arrival_def ev_key_def sorted_iff_nth_mono)
  moreover have "slots_inv st (sim_new st)" by (simp add: slots_inv_def n sim_new_heap claims_arrivals)
  moreover have "remote_of (sim_new st) j = None" "\<not> was_queued (sim_new st) j" if "j < length (jobs st)" for j
    using that by (simp_all add: remote_of_def was_queued_def n)
  then have "storm_order_inv st (sim_new st)"
    by (auto simp: storm_order_inv_def ids_inv_def arrivals_inv_def fifo_inv_def n)
  moreover have "timeouts_inv (sim_new st)" by (simp add: timeouts_inv_def count_disposition_def n filter_empty_conv)
  ultimately show ?thesis by (simp add: storm_inv_def)
qed

interpretation storm: transition_system "\<lambda>s. s = sim_new st" "storm_step st" "storm_inv st" for st
proof
  fix s t
  show "s = sim_new st \<Longrightarrow> storm_inv st s" by (simp add: sim_new_good)
  show "storm_inv st s \<Longrightarrow> storm_step st s t \<Longrightarrow> storm_inv st t"
    using jobs_inv_step bounds_inv_step slots_inv_step storm_order_inv_step timeouts_inv_step by (simp add: storm_inv_def)
qed

text \<open>The loop ends with every job decided, so nothing is left for the straggler pass of \<open>run\<close>.\<close>

lemma storm_final:
  fixes st
  defines "f \<equiv> run_loop st (sim_new st)"
  shows "storm_inv st f" "heap f = []" "queue f = []" "run st (sim_new st) = f"
    "j < length (jobs st) \<Longrightarrow> \<exists>d. disposition (jstate f ! j) = Some d \<and> allowed st j (jstate f ! j) d \<and>
       settled st j (jstate f ! j) (job_events j (events f)) {#}"
proof -
  show inv: "storm_inv st f"
    using storm.moves_good [OF conjunct1 [OF run_loop_steps]] sim_new_good unfolding f_def by blast
  show h: "heap f = []" using run_loop_steps by (simp add: f_def)
  have decided: "\<exists>d. disposition (jstate f ! j) = Some d \<and> allowed st j (jstate f ! j) d \<and>
       settled st j (jstate f ! j) (job_events j (events f)) {#}" if "j < length (jobs st)" for j
    using job_at [OF _ that, of f] inv h
    by (auto simp: storm_inv_def job_ok_def waiting_def pending_def split: option.splits)
  then show "j < length (jobs st) \<Longrightarrow> \<exists>d. disposition (jstate f ! j) = Some d \<and> allowed st j (jstate f ! j) d \<and>
       settled st j (jstate f ! j) (job_events j (events f)) {#}" .
  show q: "queue f = []"
  proof (rule ccontr)
    assume "queue f \<noteq> []"
    then obtain j where j: "j \<in> set (queue f)" by (cases "queue f") auto
    have "disposition (jstate f ! j) = None" "j < length (jobs st)"
      using in_queue [of st f j] inv j by (auto simp: storm_inv_def)
    with decided show False by fastforce
  qed
  show "run st (sim_new st) = f" using q by (simp add: run_def f_def [symmetric])
qed

section \<open>What the checkers check\<close>

lemma map_filter_Nil: "List.map_filter f xs = [] \<longleftrightarrow> (\<forall>x \<in> set xs. f x = None)"
  by (induction xs) (auto simp: List.map_filter_def split: option.splits)

lemma set_map_filter_Some: "set (List.map_filter f xs) = {y. \<exists>x \<in> set xs. f x = Some y}"
  by (force simp: List.map_filter_def image_iff)

lemma passed_report [simp]: "passed (report n vs) \<longleftrightarrow> vs = []"
  by (simp add: report_def)

definition event_guided :: "smoke_profile_event list \<Rightarrow> smoke_profile_event \<Rightarrow> bool" where
  "event_guided evs x \<longleftrightarrow>
     (\<forall>l. ev_local_job_id x = Some l \<longrightarrow>
        (needs_guidance x \<longrightarrow> has_guidance x) \<and>
        (\<exists>y \<in> set evs. ev_event y \<in> set terminal_events \<and> ev_local_job_id y = Some l))"

lemma check_guidance_iff:
  "passed (check_attach_cancel_guidance evs) \<longleftrightarrow> (\<forall>x \<in> set evs. event_guided evs x)"
proof -
  have fin: "finite (set (List.map_filter ev_local_job_id evs) - A)" for A by simp
  show ?thesis
    unfolding check_attach_cancel_guidance_def Let_def passed_report append_is_Nil_conv map_is_Nil_conv
      sorted_list_of_set_eq_Nil_iff [OF fin]
    unfolding map_filter_Nil set_map_filter_Some
    by (auto simp: event_guided_def guidance_violation_def split: option.splits if_splits)
qed

lemma check_duplicates_iff:
  "passed (check_no_duplicate_remote_job_ids evs) \<longleftrightarrow>
     (\<forall>x \<in> set evs. \<forall>y \<in> set evs. ev_remote_job_id x \<noteq> None \<longrightarrow> ev_remote_job_id x = ev_remote_job_id y \<longrightarrow>
        local_or_default x = local_or_default y)"
proof -
  have one: "\<not> 1 < card (remote_owners evs r) \<longleftrightarrow>
     (\<forall>a \<in> remote_owners evs r. \<forall>b \<in> remote_owners evs r. a = b)" for r
    using card_le_Suc0_iff_eq [of "remote_owners evs r"] by (simp add: remote_owners_def not_less)
  have L: "passed (check_no_duplicate_remote_job_ids evs) \<longleftrightarrow>
     (\<forall>r. (\<exists>x \<in> set evs. ev_remote_job_id x = Some r) \<longrightarrow>
        (\<forall>a \<in> remote_owners evs r. \<forall>b \<in> remote_owners evs r. a = b))"
    unfolding check_no_duplicate_remote_job_ids_def passed_report map_is_Nil_conv filter_empty_conv one
      set_sorted_list_of_set [OF finite_set]
    by (auto simp: set_map_filter_Some)
  have owners: "(\<forall>a \<in> remote_owners evs r. \<forall>b \<in> remote_owners evs r. a = b) \<longleftrightarrow>
     (\<forall>x \<in> set evs. \<forall>y \<in> set evs. ev_remote_job_id x = Some r \<longrightarrow> ev_remote_job_id y = Some r \<longrightarrow>
        local_or_default x = local_or_default y)" for r
    by (simp add: remote_owners_def) blast
  show ?thesis
    unfolding L owners
  proof (intro iffI ballI impI allI)
    fix x y
    assume all: "\<forall>r. (\<exists>x \<in> set evs. ev_remote_job_id x = Some r) \<longrightarrow>
        (\<forall>x \<in> set evs. \<forall>y \<in> set evs. ev_remote_job_id x = Some r \<longrightarrow> ev_remote_job_id y = Some r \<longrightarrow>
           local_or_default x = local_or_default y)"
      and xy: "x \<in> set evs" "y \<in> set evs" "ev_remote_job_id x \<noteq> None" "ev_remote_job_id x = ev_remote_job_id y"
    obtain r where "ev_remote_job_id x = Some r" using xy(3) by blast
    with all xy show "local_or_default x = local_or_default y" by metis
  next
    fix r x y
    assume all: "\<forall>x \<in> set evs. \<forall>y \<in> set evs. ev_remote_job_id x \<noteq> None \<longrightarrow> ev_remote_job_id x = ev_remote_job_id y \<longrightarrow>
           local_or_default x = local_or_default y"
      and xy: "x \<in> set evs" "y \<in> set evs" "ev_remote_job_id x = Some r" "ev_remote_job_id y = Some r"
    show "local_or_default x = local_or_default y" using all [rule_format, OF xy(1,2)] xy(3,4) by simp
  qed
qed

lemma ineligible_workers_None:
  "ineligible_workers ws i = None \<longleftrightarrow> (\<forall>w \<in> set ws. worker_name w = i \<longrightarrow> eligibility_is_schedulable (eligibility w))"
proof -
  have f: "foldl (\<lambda>m w. m(worker_name w \<mapsto> eligibility w)) m vs i = None \<longleftrightarrow> m i = None \<and> (\<forall>w \<in> set vs. worker_name w \<noteq> i)"
    for m :: "string \<rightharpoonup> worker_eligibility" and vs by (induction vs arbitrary: m) auto
  show ?thesis by (auto simp: ineligible_workers_def f)
qed

lemma ineligible_violations_Nil:
  "ineligible_violations ws x = [] \<longleftrightarrow>
     (ev_event x \<in> {EVENT_STARTED, EVENT_PASSED} \<longrightarrow>
        (\<forall>v \<in> {ev_selected_worker x, ev_worker_id x}. Option.bind v (ineligible_workers ws) = None))"
  unfolding ineligible_violations_def map_filter_Nil by (simp split: option.split)

lemma check_ineligible_iff:
  "passed (check_no_ineligible_worker_selected evs ws) \<longleftrightarrow>
     (\<forall>x \<in> set evs. ev_event x \<in> {EVENT_STARTED, EVENT_PASSED} \<longrightarrow>
        (\<forall>i. Some i \<in> {ev_selected_worker x, ev_worker_id x} \<longrightarrow> ineligible_workers ws i = None))"
proof -
  have b: "Option.bind v (ineligible_workers ws) = None \<longleftrightarrow> (\<forall>i. Some i = v \<longrightarrow> ineligible_workers ws i = None)" for v
    by (cases v) auto
  show ?thesis
    unfolding check_no_ineligible_worker_selected_def passed_report concat_eq_Nil_conv
    by (simp add: ineligible_violations_Nil b all_conj_distrib ball_conj_distrib)
qed

text \<open>None of the three reads the queue depth or the order of events.\<close>

lemma checks_strip:
  assumes "strip ` set evs = set es"
  shows "passed (check_attach_cancel_guidance evs) \<longleftrightarrow> passed (check_attach_cancel_guidance es)"
    "passed (check_no_duplicate_remote_job_ids evs) \<longleftrightarrow> passed (check_no_duplicate_remote_job_ids es)"
    "passed (check_no_ineligible_worker_selected evs ws) \<longleftrightarrow> passed (check_no_ineligible_worker_selected es ws)"
  unfolding check_guidance_iff check_duplicates_iff check_ineligible_iff event_guided_def assms [symmetric]
  by (auto simp: needs_guidance_def has_guidance_def local_or_default_def)

section \<open>What the recorder writes\<close>

lemma guidance_not_blank [simp]:
  "trim (queued_guidance l) \<noteq> []" "trim (queue_timeout_guidance l t) \<noteq> []" "trim (cancel_guidance l) \<noteq> []"
  "trim local_fallback_guidance \<noteq> []"
proof -
  show "trim local_fallback_guidance \<noteq> []"
    by (rule trim_not_blank [of "CHR ''f''"])
      (simp_all add: local_fallback_guidance_def build_response_def resolve_queue_contract_def is_whitespace_def)
qed (simp_all add: queued_guidance_def queue_timeout_guidance_def cancel_guidance_def render_not_blank)

lemmas event_tokens = EVENT_QUEUED_def EVENT_STARTED_def EVENT_PASSED_def EVENT_FELL_BACK_def EVENT_REFUSED_def
  EVENT_CANCELLED_def terminal_events_def

lemma live_job_events_guided: "x \<in> set (live_job_events c a) \<Longrightarrow> event_guided (live_job_events c a) x"
  by (cases "outcome_disposition a")
    (auto simp: live_job_events_def live_terminal_events_def live_queued_event_def event_guided_def needs_guidance_def
      has_guidance_def event_tokens split: if_splits)

lemma live_job_events_ids:
  assumes "x \<in> set (live_job_events c a)"
  shows "ev_local_job_id x = Some (outcome_local_job_id a)"
    "ev_remote_job_id x \<noteq> None \<Longrightarrow> outcome_disposition a = LiveRemote \<and> ev_remote_job_id x = outcome_remote_job_id a"
    "ev_event x \<in> {EVENT_STARTED, EVENT_PASSED} \<Longrightarrow> outcome_disposition a = LiveRemote \<and>
       ev_selected_worker x = outcome_selected_worker a \<and> ev_worker_id x = outcome_selected_worker a"
  using assms
  by (cases "outcome_disposition a"; auto simp: live_job_events_def live_terminal_events_def live_queued_event_def
      event_tokens split: if_splits)+

lemma live_started:
  "outcome_disposition a = LiveRemote \<Longrightarrow> \<exists>x \<in> set (live_job_events c a). ev_event x = EVENT_STARTED \<and>
     ev_remote_job_id x = outcome_remote_job_id a \<and> ev_selected_worker x = outcome_selected_worker a"
  by (simp add: live_job_events_def live_terminal_events_def)

text \<open>No recorded run leaves a wrapper behind. Whether it passes the other two checks depends only on what was
  observed: remote jobs with one identifier must be one wrapper, and a selected worker must be schedulable.\<close>

lemma live_run_guided: "passed (check_attach_cancel_guidance (run_events (build_live_storm_run c ws outcomes)))"
  unfolding check_guidance_iff build_live_storm_run_def
  using live_job_events_guided by (fastforce simp: event_guided_def)

lemma live_run_duplicates:
  "passed (check_no_duplicate_remote_job_ids (run_events (build_live_storm_run c ws outcomes))) \<longleftrightarrow>
     (\<forall>a \<in> set outcomes. \<forall>b \<in> set outcomes. outcome_disposition a = LiveRemote \<longrightarrow> outcome_disposition b = LiveRemote \<longrightarrow>
        outcome_remote_job_id a \<noteq> None \<longrightarrow> outcome_remote_job_id a = outcome_remote_job_id b \<longrightarrow>
        outcome_local_job_id a = outcome_local_job_id b)" (is "?L \<longleftrightarrow> ?R")
proof
  assume L: ?L
  show ?R
  proof (intro ballI impI)
    fix a b
    assume ab: "a \<in> set outcomes" "b \<in> set outcomes" "outcome_disposition a = LiveRemote" "outcome_disposition b = LiveRemote"
      "outcome_remote_job_id a \<noteq> None" "outcome_remote_job_id a = outcome_remote_job_id b"
    obtain x y where xy: "x \<in> set (live_job_events c a)" "ev_remote_job_id x = outcome_remote_job_id a"
      "y \<in> set (live_job_events c b)" "ev_remote_job_id y = outcome_remote_job_id b"
      using live_started [OF ab(3)] live_started [OF ab(4)] by metis
    then have "x \<in> set (run_events (build_live_storm_run c ws outcomes))" "y \<in> set (run_events (build_live_storm_run c ws outcomes))"
      using ab(1,2) by (auto simp: build_live_storm_run_def)
    then show "outcome_local_job_id a = outcome_local_job_id b"
      using L xy ab(5,6) live_job_events_ids(1) [OF xy(1)] live_job_events_ids(1) [OF xy(3)]
      unfolding check_duplicates_iff local_or_default_def by fastforce
  qed
next
  assume R: ?R
  show ?L
    unfolding check_duplicates_iff
  proof (intro ballI impI)
    fix x y
    assume "x \<in> set (run_events (build_live_storm_run c ws outcomes))" "y \<in> set (run_events (build_live_storm_run c ws outcomes))"
      and r: "ev_remote_job_id x \<noteq> None" "ev_remote_job_id x = ev_remote_job_id y"
    then obtain a b where ab: "a \<in> set outcomes" "x \<in> set (live_job_events c a)" "b \<in> set outcomes" "y \<in> set (live_job_events c b)"
      by (auto simp: build_live_storm_run_def)
    with R r live_job_events_ids(2) [OF ab(2)] live_job_events_ids(2) [OF ab(4)]
    have "outcome_local_job_id a = outcome_local_job_id b" by metis
    then show "local_or_default x = local_or_default y"
      using live_job_events_ids(1) [OF ab(2)] live_job_events_ids(1) [OF ab(4)] by (simp add: local_or_default_def)
  qed
qed

lemma live_run_eligible:
  "passed (check_no_ineligible_worker_selected (run_events (build_live_storm_run c ws outcomes)) ws) \<longleftrightarrow>
     (\<forall>a \<in> set outcomes. \<forall>i. outcome_disposition a = LiveRemote \<longrightarrow> outcome_selected_worker a = Some i \<longrightarrow>
        ineligible_workers ws i = None)" (is "?L \<longleftrightarrow> ?R")
proof
  assume L: ?L
  show ?R
  proof (intro ballI allI impI)
    fix a i
    assume a: "a \<in> set outcomes" "outcome_disposition a = LiveRemote" "outcome_selected_worker a = Some i"
    obtain x where x: "x \<in> set (live_job_events c a)" "ev_event x = EVENT_STARTED" "ev_selected_worker x = Some i"
      using live_started [OF a(2)] a(3) by metis
    have "x \<in> set (run_events (build_live_storm_run c ws outcomes))" using a(1) x(1) by (auto simp: build_live_storm_run_def)
    then show "ineligible_workers ws i = None" using L x(2,3) unfolding check_ineligible_iff by simp
  qed
next
  assume R: ?R
  show ?L
    unfolding check_ineligible_iff
  proof (intro ballI allI impI)
    fix x i
    assume "x \<in> set (run_events (build_live_storm_run c ws outcomes))" and e: "ev_event x \<in> {EVENT_STARTED, EVENT_PASSED}"
      and i: "Some i \<in> {ev_selected_worker x, ev_worker_id x}"
    then obtain a where a: "a \<in> set outcomes" "x \<in> set (live_job_events c a)" by (auto simp: build_live_storm_run_def)
    show "ineligible_workers ws i = None" using R a(1) live_job_events_ids(3) [OF a(2) e] i by auto
  qed
qed

section \<open>Finished runs\<close>

abbreviation storm_of :: "storm_worker list \<Rightarrow> storm_job list \<Rightarrow> storm_config \<Rightarrow> storm" where
  "storm_of ws js c \<equiv> \<lparr>workers = ws, jobs = js, cfg = c\<rparr>"

abbreviation final :: "storm \<Rightarrow> sim" where
  "final st \<equiv> run_loop st (sim_new st)"

lemma simulate_storm_final:
  "simulate_storm ws js c = finish_run (storm_of ws js c) (final (storm_of ws js c))"
  by (simp add: simulate_storm_def storm_final(4) Let_def)

lemma simulate_events: "run_events (simulate_storm ws js c) = events (final (storm_of ws js c))"
  by (simp add: simulate_storm_final finish_run_def Let_def)


lemma final_workers:
  "\<exists>W. \<forall>j < length (jobs st).
     (is_remote (disposition (jstate (final st) ! j)) \<longrightarrow>
        W j < length (workers st) \<and> eligibility_is_schedulable (eligibility (workers st ! W j))) \<and>
     job_events j (events (final st)) = trace st j (jstate (final st) ! j) (W j)"
proof -
  have "\<exists>w. (is_remote (disposition (jstate (final st) ! j)) \<longrightarrow> w < length (workers st) \<and> eligibility_is_schedulable (eligibility (workers st ! w))) \<and>
     job_events j (events (final st)) = trace st j (jstate (final st) ! j) w" if "j < length (jobs st)" for j
    using storm_final(5) [OF that] by (auto simp: settled_def)
  then show ?thesis by metis
qed

text \<open>Every event belongs to one job, so the events of a run are those of its jobs.\<close>

lemma events_by_job:
  assumes "\<forall>x \<in> set evs. \<exists>j < n. of_job j x"
  shows "mset (map strip evs) = mset (concat (map (\<lambda>j. job_events j evs) [0..<n]))"
  using assms
proof (induction evs)
  case Nil
  then show ?case by (simp add: job_events_def)
next
  case (Cons x evs)
  then obtain j where j: "j < n" "of_job j x" by auto
  have split: "[0..<n] = [0..<j] @ j # [Suc j..<n]" 
    using j(1) upt_add_eq_append [of 0 j "n - j"] by (simp add: upt_conv_Cons)
  have one: "job_events k (x # evs) = (if k = j then strip x # job_events k evs else job_events k evs)" for k
    using j(2) by (auto simp: job_events_def of_job_def)
  have eqs: "map (\<lambda>k. job_events k (x # evs)) [0..<j] = map (\<lambda>k. job_events k evs) [0..<j]"
    "map (\<lambda>k. job_events k (x # evs)) [Suc j..<n] = map (\<lambda>k. job_events k evs) [Suc j..<n]"
    by (simp_all add: one)
  have "mset (concat (map (\<lambda>k. job_events k (x # evs)) [0..<n])) =
      add_mset (strip x) (mset (concat (map (\<lambda>k. job_events k evs) [0..<n])))"
    unfolding split map_append list.map concat_append concat.simps eqs one [of j] by simp
  moreover have "mset (map strip evs) = mset (concat (map (\<lambda>j. job_events j evs) [0..<n]))" using Cons by simp
  ultimately show ?case by simp
qed

definition outcomes_of :: "storm \<Rightarrow> (nat \<Rightarrow> nat) \<Rightarrow> live_job_outcome list" where
  "outcomes_of st W = map (\<lambda>j. observed st j (jstate (final st) ! j) (W j)) [0..<length (jobs st)]"



lemma outcomes_events:
  assumes "\<forall>j < length (jobs st). job_events j (events (final st)) = trace st j (jstate (final st) ! j) (W j)"
  shows "map (live_job_events (cfg st)) (outcomes_of st W) = map (\<lambda>j. job_events j (events (final st))) [0..<length (jobs st)]"
  using assms by (simp add: outcomes_of_def trace_def)

lemma final_recorded:
  "\<exists>W. (\<forall>j < length (jobs st). is_remote (disposition (jstate (final st) ! j)) \<longrightarrow>
        W j < length (workers st) \<and> eligibility_is_schedulable (eligibility (workers st ! W j))) \<and>
     map (live_job_events (cfg st)) (outcomes_of st W) = map (\<lambda>j. job_events j (events (final st))) [0..<length (jobs st)] \<and>
     mset (map strip (events (final st))) = mset (run_events (build_live_storm_run (cfg st) ws (outcomes_of st W)))"
proof -
  obtain W where W: "\<forall>j < length (jobs st). (is_remote (disposition (jstate (final st) ! j)) \<longrightarrow>
        W j < length (workers st) \<and> eligibility_is_schedulable (eligibility (workers st ! W j))) \<and>
     job_events j (events (final st)) = trace st j (jstate (final st) ! j) (W j)"
    using final_workers by blast
  then have ev: "map (live_job_events (cfg st)) (outcomes_of st W) = map (\<lambda>j. job_events j (events (final st))) [0..<length (jobs st)]"
    using outcomes_events by blast
  have "\<forall>x \<in> set (events (final st)). \<exists>j < length (jobs st). of_job j x"
    using storm_final(1) [of st] by (simp add: storm_inv_def bounds_inv_def)
  from events_by_job [OF this]
  have "mset (map strip (events (final st))) = mset (run_events (build_live_storm_run (cfg st) ws (outcomes_of st W)))"
    by (simp only: build_live_storm_run_def storm_run.select_convs ev)
  with W ev show ?thesis by blast
qed



lemma outcome_remote_job:
  assumes "a \<in> set (outcomes_of st W)" "outcome_disposition a = LiveRemote"
  shows "\<exists>j < length (jobs st). a = observed st j (jstate (final st) ! j) (W j) \<and>
    outcome_remote_job_id a = remote_of (final st) j \<and> is_remote (disposition (jstate (final st) ! j))"
  using assms storm_final(5) [of _ st]
  by (fastforce simp: outcomes_of_def observed_def remote_of_def is_remote_def split: option.splits disposition.splits elim: live_of.elims)

lemma outcome_remote_unique:
  assumes "a \<in> set (outcomes_of st W)" "b \<in> set (outcomes_of st W)" "outcome_disposition a = LiveRemote"
    "outcome_disposition b = LiveRemote" "outcome_remote_job_id a \<noteq> None" "outcome_remote_job_id a = outcome_remote_job_id b"
  shows "outcome_local_job_id a = outcome_local_job_id b"
proof -
  have ord: "storm_order_inv st (final st)" using storm_final(1) [of st] by (simp add: storm_inv_def)
  obtain i k where ik: "i < length (jobs st)" "k < length (jobs st)" "outcome_remote_job_id a = remote_of (final st) i"
    "outcome_remote_job_id b = remote_of (final st) k" "outcome_local_job_id a = storm_local_id i" "outcome_local_job_id b = storm_local_id k"
    using outcome_remote_job [OF assms(1,3)] outcome_remote_job [OF assms(2,4)] by (auto simp: observed_def)
  obtain r where "remote_of (final st) i = Some r" "remote_of (final st) k = Some r" using assms(5,6) ik(3,4) by auto
  then have "i = k" using ids_distinct [OF ord] ik(1,2) by simp
  with ik(5,6) show ?thesis by simp
qed

text \<open>C21: 
  In a fleet whose workers have names of their own, every simulated storm passes the three checks that ask for no
  tolerance: no remote identifier is shared by two wrappers, every wrapper ends with a terminal event and has
  guidance while it is not running, and no worker that must not be scheduled receives work.
\<close>

theorem storm_run_coherent:
  assumes "distinct (map worker_name ws)"
  shows "passed (check_no_duplicate_remote_job_ids (run_events (simulate_storm ws js c))) \<and>
    passed (check_attach_cancel_guidance (run_events (simulate_storm ws js c))) \<and>
    passed (check_no_ineligible_worker_selected (run_events (simulate_storm ws js c)) ws)"
proof -
  let ?st = "storm_of ws js c"
  obtain W where W: "\<forall>j < length js. is_remote (disposition (jstate (final ?st) ! j)) \<longrightarrow>
        W j < length ws \<and> eligibility_is_schedulable (eligibility (ws ! W j))"
    and all: "mset (map strip (events (final ?st))) = mset (run_events (build_live_storm_run c ws (outcomes_of ?st W)))"
    using final_recorded [of ?st ws] by auto
  let ?o = "outcomes_of ?st W"
  have same: "strip ` set (run_events (simulate_storm ws js c)) = set (run_events (build_live_storm_run c ws ?o))"
    using all unfolding simulate_events by (metis list.set_map mset_eq_setD)
  have dup: "passed (check_no_duplicate_remote_job_ids (run_events (build_live_storm_run c ws ?o)))"
    unfolding live_run_duplicates using outcome_remote_unique by blast
  have "ineligible_workers ws i = None"
    if a: "a \<in> set ?o" "outcome_disposition a = LiveRemote" "outcome_selected_worker a = Some i" for a i
  proof -
    obtain j where j: "j < length js" "a = observed ?st j (jstate (final ?st) ! j) (W j)" "is_remote (disposition (jstate (final ?st) ! j))"
      using outcome_remote_job [OF a(1,2)] by auto
    then have "W j < length ws" "eligibility_is_schedulable (eligibility (ws ! W j))" "worker_name (ws ! W j) = i"
      using W a(3) by (auto simp: observed_def)
    then show ?thesis
      unfolding ineligible_workers_None using assms by (metis distinct_map in_set_conv_nth inj_onD)
  qed
  then show ?thesis using dup live_run_guided live_run_eligible [of c ws ?o] unfolding checks_strip [OF same] by blast
qed





text \<open>The identifiers are handed out in the order in which jobs start.\<close>

definition started_inv :: "sim \<Rightarrow> bool" where
  "started_inv s \<longleftrightarrow> 1 \<le> next_remote_id s \<and>
     map ev_remote_job_id (filter (\<lambda>x. ev_event x = EVENT_STARTED) (events s)) = map Some [1..<next_remote_id s]"

lemma started_inv_step: "storm_step st s t \<Longrightarrow> started_inv s \<Longrightarrow> started_inv t"
  by (induction rule: storm_step.cases) (auto simp: started_inv_def event_tokens)

interpretation starts: transition_system "\<lambda>s. s = sim_new st" "storm_step st" started_inv for st
proof
  fix s t
  show "s = sim_new st \<Longrightarrow> started_inv s" by (simp add: started_inv_def sim_new_def)
  show "started_inv s \<Longrightarrow> storm_step st s t \<Longrightarrow> started_inv t" by (rule started_inv_step)
qed

lemma trace_events:
  assumes "disposition js = Some d" "x \<in> set (trace st j js w)"
  shows "ev_event x = EVENT_QUEUED \<Longrightarrow> enqueued_at js \<noteq> None"
    "ev_event x = EVENT_STARTED \<Longrightarrow> ev_remote_job_id x = (case disposition js of Some (Remote r) \<Rightarrow> Some r | _ \<Rightarrow> None)"
  using assms by (cases d; auto simp: trace_defs event_tokens split: if_splits)+

lemma final_event:
  assumes "x \<in> set (run_events (simulate_storm ws js c))" "of_job j x" "j < length js"
  shows "ev_event x = EVENT_QUEUED \<Longrightarrow> was_queued (final (storm_of ws js c)) j"
    "ev_event x = EVENT_STARTED \<Longrightarrow> ev_remote_job_id x = remote_of (final (storm_of ws js c)) j"
proof -
  let ?st = "storm_of ws js c"
  have j: "j < length (jobs ?st)" using assms(3) by simp
  obtain d where d: "disposition (jstate (final ?st) ! j) = Some d" using storm_final(5) [OF j] by blast
  obtain w where "job_events j (events (final ?st)) = trace ?st j (jstate (final ?st) ! j) w"
    using final_workers [of ?st] assms(3) by auto
  moreover have "strip x \<in> set (job_events j (events (final ?st)))"
    using assms(1,2) by (simp add: simulate_events job_events_def)
  ultimately have "strip x \<in> set (trace ?st j (jstate (final ?st) ! j) w)" by simp
  from trace_events [OF d this]
  show "ev_event x = EVENT_QUEUED \<Longrightarrow> was_queued (final ?st) j"
    "ev_event x = EVENT_STARTED \<Longrightarrow> ev_remote_job_id x = remote_of (final ?st) j"
    by (simp_all add: was_queued_def remote_of_def)
qed

text \<open>
  The queue is fair: remote identifiers number the starts of a run in the order of its events, and of two jobs that
  both waited and both started, the one submitted first started first.
\<close>

theorem storm_queue_fifo:
  assumes "i < j" "j < length js"
    and evs: "evs = run_events (simulate_storm ws js c)" "{u, v, x, y} \<subseteq> set evs"
    and queued: "of_job i u" "ev_event u = EVENT_QUEUED" "of_job j v" "ev_event v = EVENT_QUEUED"
    and started: "of_job i x" "ev_event x = EVENT_STARTED" "of_job j y" "ev_event y = EVENT_STARTED"
  shows "\<exists>n p q. map ev_remote_job_id (filter (\<lambda>x. ev_event x = EVENT_STARTED) evs) = map Some [1..<n] \<and>
    ev_remote_job_id x = Some p \<and> ev_remote_job_id y = Some q \<and> p < q"
proof -
  let ?f = "final (storm_of ws js c)"
  have ord: "storm_order_inv (storm_of ws js c) ?f" using storm_final(1) [of "storm_of ws js c"] by (simp add: storm_inv_def)
  have "started_inv ?f"
    using starts.moves_good [OF conjunct1 [OF run_loop_steps]] starts.start_good by blast
  then have num: "map ev_remote_job_id (filter (\<lambda>x. ev_event x = EVENT_STARTED) evs) = map Some [1..<next_remote_id ?f]"
    using evs(1) by (simp add: started_inv_def simulate_events)
  have q: "was_queued ?f i" "was_queued ?f j"
    using final_event(1) queued evs assms(1,2) by auto
  have r: "ev_remote_job_id x = remote_of ?f i" "ev_remote_job_id y = remote_of ?f j"
    using final_event(2) started evs assms(1,2) by auto
  have some: "ev_remote_job_id z \<noteq> None" if "z \<in> set evs" "ev_event z = EVENT_STARTED" for z
  proof -
    have "ev_remote_job_id z \<in> set (map ev_remote_job_id (filter (\<lambda>x. ev_event x = EVENT_STARTED) evs))" using that by auto
    then show ?thesis unfolding num by auto
  qed
  obtain p where p: "ev_remote_job_id x = Some p" using some [of x] evs(2) started(2) by auto
  obtain q' where q': "ev_remote_job_id y = Some q'" using some [of y] evs(2) started(4) by auto
  have "p < q'" using fifo_ids [OF ord assms(1) _ q] assms(2) r p q' by simp
  with num p q' show ?thesis by blast
qed

section \<open>An example\<close>

definition sample_fleet :: "storm_worker list" where
  "sample_fleet = [healthy ''w1'' 1 100, with_eligibility AdminDisabled (healthy ''w2'' 4 100)]"

definition sample_storm :: "storm_job list" where
  "sample_storm =
     [build_job 10 1 ''p0'', build_job 10 1 ''p1'', build_job 10 1 ''p2'', with_policy Proof (build_job 10 1 ''p3'')]"

definition sample_config :: storm_config where
  "sample_config = storm_config_new ''run-1'' ''bead-1''"

lemma sample_events:
  "map (\<lambda>x. (ev_event x, ev_local_job_id x, ev_remote_job_id x)) (run_events (simulate_storm sample_fleet sample_storm sample_config)) =
   [(''started'', Some ''rchw-0000'', Some 1), (''queued'', Some ''rchw-0001'', None), (''queued'', Some ''rchw-0002'', None),
    (''refused'', Some ''rchw-0003'', None), (''passed'', Some ''rchw-0000'', Some 1), (''started'', Some ''rchw-0001'', Some 2),
    (''passed'', Some ''rchw-0001'', Some 2), (''started'', Some ''rchw-0002'', Some 3), (''passed'', Some ''rchw-0002'', Some 3)]"
  by code_simp

lemma sample_event:
  assumes "k < 9"
  shows "run_events (simulate_storm sample_fleet sample_storm sample_config) ! k \<in>
      set (run_events (simulate_storm sample_fleet sample_storm sample_config))"
    and "(ev_event (run_events (simulate_storm sample_fleet sample_storm sample_config) ! k),
      ev_local_job_id (run_events (simulate_storm sample_fleet sample_storm sample_config) ! k),
      ev_remote_job_id (run_events (simulate_storm sample_fleet sample_storm sample_config) ! k)) =
     [(''started'', Some ''rchw-0000'', Some 1), (''queued'', Some ''rchw-0001'', None), (''queued'', Some ''rchw-0002'', None),
      (''refused'', Some ''rchw-0003'', None), (''passed'', Some ''rchw-0000'', Some 1), (''started'', Some ''rchw-0001'', Some 2),
      (''passed'', Some ''rchw-0001'', Some 2), (''started'', Some ''rchw-0002'', Some 3), (''passed'', Some ''rchw-0002'', Some 3)] ! k"
proof -
  let ?evs = "run_events (simulate_storm sample_fleet sample_storm sample_config)"
  have len: "length ?evs = 9" using arg_cong [OF sample_events, of length] by simp
  with assms show "?evs ! k \<in> set ?evs" by simp
  show "(ev_event (?evs ! k), ev_local_job_id (?evs ! k), ev_remote_job_id (?evs ! k)) =
     [(''started'', Some ''rchw-0000'', Some 1), (''queued'', Some ''rchw-0001'', None), (''queued'', Some ''rchw-0002'', None),
      (''refused'', Some ''rchw-0003'', None), (''passed'', Some ''rchw-0000'', Some 1), (''started'', Some ''rchw-0001'', Some 2),
      (''passed'', Some ''rchw-0001'', Some 2), (''started'', Some ''rchw-0002'', Some 3), (''passed'', Some ''rchw-0002'', Some 3)] ! k"
    unfolding sample_events [symmetric] using assms len by simp
qed

lemma sample_wrappers: "storm_local_id 1 = ''rchw-0001''" "storm_local_id 2 = ''rchw-0002''"
  by code_simp+

theorem storm_queue_fifo_witness:
  "\<exists>x y n p q. map ev_remote_job_id (filter (\<lambda>x. ev_event x = EVENT_STARTED)
       (run_events (simulate_storm sample_fleet sample_storm sample_config))) = map Some [1..<n] \<and>
     of_job 1 x \<and> of_job 2 y \<and> ev_remote_job_id x = Some p \<and> ev_remote_job_id y = Some q \<and> p < q"
proof -
  let ?evs = "run_events (simulate_storm sample_fleet sample_storm sample_config)"
  have ids: "of_job 1 (?evs ! 1)" "of_job 2 (?evs ! 2)" "of_job 1 (?evs ! 5)" "of_job 2 (?evs ! 7)"
    using sample_event(2) [of 1] sample_event(2) [of 2] sample_event(2) [of 5] sample_event(2) [of 7]
    by (simp_all add: of_job_def sample_wrappers [unfolded One_nat_def])
  have kinds: "ev_event (?evs ! 1) = EVENT_QUEUED" "ev_event (?evs ! 2) = EVENT_QUEUED"
    "ev_event (?evs ! 5) = EVENT_STARTED" "ev_event (?evs ! 7) = EVENT_STARTED"
    using sample_event(2) [of 1] sample_event(2) [of 2] sample_event(2) [of 5] sample_event(2) [of 7]
    by (simp_all add: event_tokens)
  have sub: "{?evs ! 1, ?evs ! 2, ?evs ! 5, ?evs ! 7} \<subseteq> set ?evs" using sample_event(1) by simp
  have len: "(1 :: nat) < 2" "2 < length sample_storm" by (simp_all add: sample_storm_def)
  show ?thesis
    using storm_queue_fifo [OF len refl sub ids(1) kinds(1) ids(2) kinds(2) ids(3) kinds(3) ids(4) kinds(4)] ids(3,4) by blast
qed

theorem storm_run_coherent_witness:
  "distinct (map worker_name sample_fleet) \<and>
   passed (check_no_ineligible_worker_selected (run_events (simulate_storm sample_fleet sample_storm sample_config)) sample_fleet)"
proof -
  have "distinct (map worker_name sample_fleet)" by (simp add: sample_fleet_def healthy_def with_eligibility_def)
  with storm_run_coherent [OF this, of sample_storm sample_config] show ?thesis by simp
qed




text \<open>A head of the queue that is cancelled, or times out, is not followed by another look at the queue. Here the
  first queued job needs both slots; it is cancelled while one slot is free, and the job behind it, which needs one
  slot, falls back to a local run although that slot stays free throughout its wait.\<close>

definition blocked_jobs :: "storm_job list" where
  "blocked_jobs = [build_job 100 1 ''a'', build_job 3 1 ''b'', cancelling (build_job 10 2 ''c''), build_job 10 1 ''d'']"

lemma cancelled_head_blocks_queue:
  "map (\<lambda>x. (ev_event x, ev_local_job_id x)) (run_events (simulate_storm [healthy ''w1'' 2 100] blocked_jobs
       (sample_config\<lparr>queue_timeout_ms := 50\<rparr>))) =
   [(''started'', Some ''rchw-0000''), (''started'', Some ''rchw-0001''), (''queued'', Some ''rchw-0002''),
    (''queued'', Some ''rchw-0003''), (''passed'', Some ''rchw-0001''), (''cancelled'', Some ''rchw-0002''),
    (''fell_back'', Some ''rchw-0003''), (''passed'', Some ''rchw-0000'')]"
  by code_simp

end
