(* ===== verification/Masking.thy ===== *)
theory Masking
  imports Prelude
begin

text \<open>
  What reaches a log: \<open>truncate_at_char_boundary\<close>, \<open>find_value_end\<close> and \<open>mask_sensitive_command\<close> of
  \<open>rch-common/src/util.rs\<close>, and \<open>redact_path\<close> and \<open>redact_secrets\<close> of \<open>rch-common/src/redaction.rs\<close>.
  The pattern loop of the masker works on the whole string and a search position; it is shown equal to a
  recursion over the part not yet searched, on which the properties are proved. The compiled patterns of the
  regular expression library are an argument, as the list of their \<open>replace_all\<close> functions.
\<close>

section \<open>Cutting on a character boundary\<close>

definition is_continuation :: "char \<Rightarrow> bool" where
  "is_continuation c \<longleftrightarrow> (let n = of_char c :: nat in 128 \<le> n \<and> n < 192)"

definition is_char_boundary :: "string \<Rightarrow> nat \<Rightarrow> bool" where
  "is_char_boundary s i \<longleftrightarrow> i = 0 \<or> i = length s \<or> i < length s \<and> \<not> is_continuation (s ! i)"

fun boundary_before :: "string \<Rightarrow> nat \<Rightarrow> nat" where
  "boundary_before s 0 = 0"
| "boundary_before s (Suc i) = (if is_char_boundary s (Suc i) then Suc i else boundary_before s i)"

definition truncate_at_char_boundary :: "string \<Rightarrow> nat \<Rightarrow> string" where
  "truncate_at_char_boundary s n = (if length s \<le> n then s else take (boundary_before s n) s)"

section \<open>Masking a command\<close>

fun find_value_end_from :: "char option \<Rightarrow> bool \<Rightarrow> string \<Rightarrow> nat" where
  "find_value_end_from q esc [] = 0"
| "find_value_end_from q esc (c # cs) =
     (if esc then Suc (find_value_end_from q False cs)
      else if c = CHR 0x5C then Suc (find_value_end_from q True cs)
      else case q of
        Some d \<Rightarrow> Suc (find_value_end_from (if c = d then None else Some d) False cs)
      | None \<Rightarrow>
          if c = CHR 0x22 \<or> c = CHR 0x27 then Suc (find_value_end_from (Some c) False cs)
          else if is_whitespace c then 0
          else Suc (find_value_end_from None False cs))"

definition find_value_end :: "string \<Rightarrow> nat" where
  "find_value_end s = find_value_end_from None False s"

fun find_str :: "string \<Rightarrow> string \<Rightarrow> nat option" where
  "find_str p [] = (if p = [] then Some 0 else None)"
| "find_str p (c # cs) = (if starts_with (c # cs) p then Some 0 else map_option Suc (find_str p cs))"

lemma find_str_Some: "find_str p s = Some k \<Longrightarrow> k + length p \<le> length s"
  by (induction s arbitrary: k) (auto split: if_splits simp: starts_with_iff prefix_length_le dest: prefix_length_le)

function mask_loop :: "string \<Rightarrow> string \<Rightarrow> string \<Rightarrow> nat \<Rightarrow> string" where
  "mask_loop pattern replacement result search_start =
     (if search_start < length result \<and> pattern \<noteq> [] then
        case find_str pattern (drop search_start result) of
          None \<Rightarrow> result
        | Some start \<Rightarrow>
            let abs_start = search_start + start;
                value_start = abs_start + length pattern;
                value_end = value_start + find_value_end (drop value_start result)
            in mask_loop pattern replacement (take abs_start result @ replacement @ drop value_end result)
                 (abs_start + length replacement)
      else result)"
  by pat_completeness auto
termination
  by (relation "measure (\<lambda>(p, r, s, i). length s - i)") (auto dest!: find_str_Some simp flip: length_greater_0_conv)

definition mask_keys :: "string list" where
  "mask_keys =
     [''CARGO_REGISTRY_TOKEN='', ''GITHUB_TOKEN='', ''GH_TOKEN='', ''DATABASE_URL='', ''DB_PASSWORD='', ''API_KEY='',
      ''API_SECRET='', ''SECRET_KEY='', ''SECRET='', ''PASSWORD='', ''PASS='', ''TOKEN='', ''AUTH_TOKEN='',
      ''ACCESS_TOKEN='', ''PRIVATE_KEY='', ''AWS_SECRET_ACCESS_KEY='', ''AWS_ACCESS_KEY_ID='', ''STRIPE_SECRET_KEY='',
      ''OPENAI_API_KEY='', ''ANTHROPIC_API_KEY='', ''--token '', ''--token='', ''--password '', ''--password='',
      ''--api-key '', ''--api-key='', ''--secret '', ''--secret='']"

text \<open>In the table of the code every replacement is its pattern followed by three stars.\<close>

definition stars :: string where
  "stars = ''***''"

definition mask_sensitive_command :: "string \<Rightarrow> string" where
  "mask_sensitive_command cmd = fold (\<lambda>pattern result. mask_loop pattern (pattern @ stars) result 0) mask_keys cmd"

definition redact_secrets :: "(string \<Rightarrow> string) list \<Rightarrow> string \<Rightarrow> string" where
  "redact_secrets shaped text = fold (\<lambda>replace_all out. replace_all out) shaped (mask_sensitive_command text)"

fun redact_path_markers :: "string list \<Rightarrow> string \<Rightarrow> string" where
  "redact_path_markers [] path = path"
| "redact_path_markers (marker # ms) path =
     (case find_str marker path of
        None \<Rightarrow> redact_path_markers ms path
      | Some i \<Rightarrow>
          let tail = drop (i + length marker) path
          in take (i + length marker) path @ ''<redacted>'' @ dropWhile (\<lambda>c. c \<noteq> CHR ''/'') tail)"

definition redact_path :: "string \<Rightarrow> string" where
  "redact_path path = redact_path_markers [''/home/'', ''/Users/''] path"

section \<open>The loop as a recursion over the rest\<close>

function mask_rest :: "string \<Rightarrow> string \<Rightarrow> string" where
  "mask_rest p s =
     (if p = [] then s
      else case find_str p s of
        None \<Rightarrow> s
      | Some k \<Rightarrow>
          let v = drop (k + length p) s
          in take k s @ p @ stars @ mask_rest p (drop (find_value_end v) v))"
  by pat_completeness auto
termination
  by (relation "measure (\<lambda>(p, s). length s)") (auto dest!: find_str_Some simp flip: length_greater_0_conv)

declare mask_loop.simps [simp del] mask_rest.simps [simp del]

lemma mask_rest_Nil [simp]: "mask_rest p [] = []"
  by (simp add: mask_rest.simps)

lemma mask_loop_rest:
  "r = p @ stars \<Longrightarrow> i \<le> length s \<Longrightarrow> mask_loop p r s i = take i s @ mask_rest p (drop i s)"
proof (induction p r s i rule: mask_loop.induct)
  case (1 p r s i)
  show ?case
  proof (cases "i < length s \<and> p \<noteq> []")
    case False
    then show ?thesis using 1(3)
      by (subst mask_loop.simps, subst mask_rest.simps) auto
  next
    case True
    show ?thesis
    proof (cases "find_str p (drop i s)")
      case None
      with True show ?thesis by (simp add: mask_loop.simps [of p r s i] mask_rest.simps [of p "drop i s"])
    next
      case (Some k)
      let ?ve = "i + k + length p + find_value_end (drop (i + k + length p) s)"
      let ?s = "take (i + k) s @ r @ drop ?ve s"
      have k: "i + k + length p \<le> length s" using find_str_Some [OF Some] True by auto
      have "mask_loop p r s i = mask_loop p r ?s (i + k + length r)"
        using True Some by (simp add: mask_loop.simps [of p r s i] Let_def)
      also have "\<dots> = take (i + k + length r) ?s @ mask_rest p (drop (i + k + length r) ?s)"
        by (rule 1(1) [OF True Some refl refl refl 1(2)]) (use k in simp)
      also have "\<dots> = take i s @ mask_rest p (drop i s)"
        using True Some k 1(2) by (simp add: mask_rest.simps [of p "drop i s"] Let_def take_add ac_simps)
      finally show ?thesis .
    qed
  qed
qed

lemma mask_sensitive_command_rest: "mask_sensitive_command cmd = fold mask_rest mask_keys cmd"
  by (simp add: mask_sensitive_command_def mask_loop_rest)

section \<open>What follows a key\<close>

definition at_break :: "string \<Rightarrow> bool" where
  "at_break s \<longleftrightarrow> s = [] \<or> is_whitespace (hd s)"

lemma value_end_break: "at_break (drop (find_value_end_from q e s) s)"
proof (induction s arbitrary: q e)
  case Nil
  then show ?case by (simp add: at_break_def)
next
  case (Cons c cs)
  have "at_break (c # cs)" if "is_whitespace c" using that by (simp add: at_break_def)
  with Cons show ?case by (simp split: option.split)
qed

lemma value_end_stars: "at_break w \<Longrightarrow> find_value_end (stars @ w) = 3"
  by (cases w) (auto simp: at_break_def find_value_end_def stars_def is_whitespace_def)

lemma find_str_None: "find_str p s = None \<longleftrightarrow> \<not> sublist p s"
proof (induction s)
  case Nil
  then show ?case by (simp add: sublist_def)
next
  case (Cons c cs)
  then show ?case by (auto simp: starts_with_iff sublist_Cons_right)
qed

lemma find_str_least:
  "find_str p s = Some k \<Longrightarrow> \<exists>t. s = take k s @ p @ t \<and> (\<forall>u v. s = u @ p @ v \<longrightarrow> k \<le> length u)"
proof (induction s arbitrary: k)
  case Nil
  then show ?case by (auto split: if_splits)
next
  case (Cons c cs)
  show ?case
  proof (cases "starts_with (c # cs) p")
    case True
    with Cons.prems show ?thesis by (auto simp: starts_with_iff prefix_def)
  next
    case False
    with Cons.prems obtain j where j: "k = Suc j" "find_str p cs = Some j" by auto
    from Cons.IH [OF j(2)] obtain t where
      t: "cs = take j cs @ p @ t" "\<forall>u v. cs = u @ p @ v \<longrightarrow> j \<le> length u" by blast
    have "k \<le> length u" if "c # cs = u @ p @ v" for u v
      using that False t(2) j(1) by (cases u) (auto simp: starts_with_iff prefix_def)
    with t(1) j(1) show ?thesis by auto
  qed
qed

text \<open>A key has no star in it and does not start with a space, so an occurrence never straddles a mask.\<close>

definition maskable :: "string \<Rightarrow> bool" where
  "maskable p \<longleftrightarrow> p \<noteq> [] \<and> CHR ''*'' \<notin> set p \<and> \<not> is_whitespace (hd p)"

lemma maskable_keys: "list_all maskable mask_keys"
  by code_simp

definition masked :: "string \<Rightarrow> string \<Rightarrow> bool" where
  "masked p s \<longleftrightarrow> (\<forall>u v. s = u @ p @ v \<longrightarrow> (\<exists>w. v = stars @ w \<and> at_break w))"

lemma maskedD: "masked p s \<Longrightarrow> s = u @ p @ v \<Longrightarrow> \<exists>w. v = stars @ w \<and> at_break w"
  by (auto simp: masked_def)

lemma masked_suffix: "masked p (x @ s) \<Longrightarrow> masked p s"
  by (auto simp: masked_def)

lemma masked_drop: "masked p s \<Longrightarrow> masked p (drop n s)"
  using masked_suffix [of p "take n s" "drop n s"] by simp

lemma straddle:
  assumes p: "maskable p" and eq: "u @ p @ v = x @ stars @ y"
  shows "(\<exists>v'. x = u @ p @ v' \<and> v = v' @ stars @ y) \<or> (\<exists>u'. y = u' @ p @ v)"
proof -
  let ?n = "length u" and ?m = "length p" and ?k = "length x"
  have len: "length stars = 3" by (simp add: stars_def)
  consider "?n + ?m \<le> ?k" | "?k + 3 \<le> ?n" | "?k < ?n + ?m" "?n < ?k + 3" by linarith
  then show ?thesis
  proof cases
    case 1
    then have "take (?n + ?m) (u @ p @ v) = take (?n + ?m) x" using eq by simp
    then have "x = u @ p @ drop (?n + ?m) x" by (metis append.assoc append_take_drop_id append_eq_conv_conj length_append)
    with eq show ?thesis by (metis append.assoc append_same_eq same_append_eq)
  next
    case 2
    then have "drop (?k + 3) (u @ p @ v) = drop (?k + 3) u @ p @ v" by simp
    moreover have "drop (?k + 3) (x @ stars @ y) = y" using len by simp
    ultimately show ?thesis using eq by metis
  next
    case 3
    obtain i where i: "?n \<le> i" "i - ?n < ?m" "?k \<le> i" "i - ?k < 3"
    proof
      have "0 < ?m" using p by (simp add: maskable_def)
      with 3 show "?n \<le> max ?n ?k" "max ?n ?k - ?n < ?m" "?k \<le> max ?n ?k" "max ?n ?k - ?k < 3" by linarith+
    qed
    have "(u @ p @ v) ! i = p ! (i - ?n)" using i by (simp add: nth_append)
    moreover have "(x @ stars @ y) ! i = stars ! (i - ?k)" using i len by (simp add: nth_append)
    moreover have "stars ! (i - ?k) = CHR ''*''"
      using i(4) by (auto simp: stars_def less_Suc_eq numeral_3_eq_3)
    ultimately have "p ! (i - ?n) = CHR ''*''" using eq by simp
    with i(2) p show ?thesis by (metis maskable_def nth_mem)
  qed
qed

section \<open>The masker\<close>

lemma mask_rest_step:
  assumes "maskable p" and "find_str p s = Some k"
  obtains x t where "s = x @ p @ t" "length x = k" "\<forall>u v. s = u @ p @ v \<longrightarrow> k \<le> length u"
    "mask_rest p s = (x @ p) @ stars @ mask_rest p (drop (find_value_end t) t)"
proof -
  from find_str_least [OF assms(2)] obtain t where
    t: "s = take k s @ p @ t" "\<forall>u v. s = u @ p @ v \<longrightarrow> k \<le> length u" by blast
  have len: "length (take k s) = k" using find_str_Some [OF assms(2)] by simp
  have "drop (k + length p) s = t" using t(1) len by (metis add.commute append_eq_conv_conj drop_drop)
  then have "mask_rest p s = (take k s @ p) @ stars @ mask_rest p (drop (find_value_end t) t)"
    using assms by (simp add: mask_rest.simps [of p s] Let_def maskable_def)
  with t len that show ?thesis by blast
qed

lemma mask_rest_None: "find_str p s = None \<Longrightarrow> mask_rest p s = s"
  by (simp add: mask_rest.simps)

lemma mask_rest_break:
  assumes "maskable p" and "at_break s"
  shows "at_break (mask_rest p s)"
proof (cases "find_str p s")
  case None
  then show ?thesis using assms by (simp add: mask_rest_None)
next
  case (Some k)
  then obtain x t where s: "s = x @ p @ t" "mask_rest p s = (x @ p) @ stars @ mask_rest p (drop (find_value_end t) t)"
    using mask_rest_step [OF assms(1)] by metis
  from assms s(1) show ?thesis unfolding s(2) by (cases x) (auto simp: at_break_def maskable_def)
qed

lemma mask_rest_masks:
  "maskable p \<Longrightarrow> masked p (mask_rest p s)"
proof (induction p s rule: mask_rest.induct)
  case (1 p s)
  show ?case
  proof (cases "find_str p s")
    case None
    then show ?thesis by (auto simp: mask_rest_None masked_def find_str_None sublist_def)
  next
    case (Some k)
    obtain x t where s: "s = x @ p @ t" "length x = k" "\<forall>u v. s = u @ p @ v \<longrightarrow> k \<le> length u"
      and m: "mask_rest p s = (x @ p) @ stars @ mask_rest p (drop (find_value_end t) t)"
      by (rule mask_rest_step [OF 1(2) Some])
    let ?y = "mask_rest p (drop (find_value_end t) t)"
    have t: "drop (k + length p) s = t" using s(1,2) by simp
    have IH: "masked p ?y" using 1(1) [OF _ Some refl 1(2)] 1(2) t by (simp add: maskable_def)
    have brk: "at_break ?y"
      by (rule mask_rest_break [OF 1(2)]) (simp add: find_value_end_def value_end_break)
    have "\<exists>w. v = stars @ w \<and> at_break w" if eq: "mask_rest p s = u @ p @ v" for u v
    proof -
      from eq m have "u @ p @ v = (x @ p) @ stars @ ?y" by simp
      from straddle [OF 1(2) this] show ?thesis
      proof (elim disjE exE conjE)
        fix v' assume v: "x @ p = u @ p @ v'" "v = v' @ stars @ ?y"
        then have "s = u @ p @ (v' @ t)" using s(1) by (metis append.assoc)
        with s(2,3) have "length x \<le> length u" by blast
        with arg_cong [OF v(1), of length] have "v' = []" by simp
        with v(2) brk show ?thesis by simp
      qed (use IH in \<open>auto dest: maskedD\<close>)
    qed
    then show ?thesis by (auto simp: masked_def)
  qed
qed

lemma masked_around:
  assumes p: "maskable p" and q: "maskable q"
    and old: "masked q ((x @ p) @ r)" and occ: "x @ p = u @ q @ v" and brk: "at_break y"
  shows "\<exists>w. v @ stars @ y = stars @ w \<and> at_break w"
proof (cases "v = []")
  case True
  with brk show ?thesis by simp
next
  case False
  from maskedD [OF old, of u "v @ r"] occ obtain w where w: "v @ r = stars @ w" "at_break w" by auto
  have hd: "hd v = CHR ''*''" using w(1) False by (cases v) (auto simp: stars_def)
  have "\<not> length v \<le> length p"
  proof
    assume "length v \<le> length p"
    then have "drop (length p - length v) p = v"
      using arg_cong [OF occ, of "drop (length x + length p - length v)"] arg_cong [OF occ, of length] by simp
    then have "set v \<subseteq> set p" by (metis set_drop_subset)
    with hd False p show False by (auto simp: maskable_def dest: hd_in_set)
  qed
  then have "length p < length v" by simp
  moreover from this have "drop (length v - length p) v = p"
    using arg_cong [OF occ, of "drop (length x)"] arg_cong [OF occ, of length]
    by (simp add: drop_append [of _ u] drop_append [of _ q])
  ultimately obtain z where z: "v = z @ p" "z \<noteq> []"
    by (intro that [of "take (length v - length p) v"]) (metis append_take_drop_id, auto)
  obtain c p' where c: "p = c # p'" "c \<noteq> CHR ''*''" "\<not> is_whitespace c" using p by (cases p) (auto simp: maskable_def)
  from w c z obtain z' where "z = stars @ z'" "z' \<noteq> []" "at_break z'"
    by (auto simp: stars_def at_break_def Cons_eq_append_conv append_eq_Cons_conv hd_append split: if_splits)
  with z show ?thesis by (intro exI [of _ "z' @ p @ stars @ y"]) (auto simp: at_break_def)
qed

lemma mask_rest_keeps:
  "maskable p \<Longrightarrow> maskable q \<Longrightarrow> masked q s \<Longrightarrow> masked q (mask_rest p s)"
proof (induction p s rule: mask_rest.induct)
  case (1 p s)
  show ?case
  proof (cases "find_str p s")
    case None
    then show ?thesis using 1 by (simp add: mask_rest_None)
  next
    case (Some k)
    obtain x t where s: "s = x @ p @ t" "length x = k"
      and m: "mask_rest p s = (x @ p) @ stars @ mask_rest p (drop (find_value_end t) t)"
      by (rule mask_rest_step [OF 1(2) Some])
    let ?y = "mask_rest p (drop (find_value_end t) t)"
    have t: "drop (k + length p) s = t" using s(1,2) by simp
    have "masked q (drop (find_value_end t) t)" using 1(4) s(1) by (metis masked_suffix masked_drop append.assoc)
    then have IH: "masked q ?y" using 1(1) [OF _ Some refl 1(2,3)] 1(2) t by (simp add: maskable_def)
    have brk: "at_break ?y"
      by (rule mask_rest_break [OF 1(2)]) (simp add: find_value_end_def value_end_break)
    have old: "masked q ((x @ p) @ t)" using 1(4) s(1) by simp
    have "\<exists>w. v = stars @ w \<and> at_break w" if eq: "mask_rest p s = u @ q @ v" for u v
    proof -
      from eq m have "u @ q @ v = (x @ p) @ stars @ ?y" by simp
      from straddle [OF 1(3) this] show ?thesis
      proof (elim disjE exE conjE)
        fix v' assume v: "x @ p = u @ q @ v'" "v = v' @ stars @ ?y"
        from masked_around [OF 1(2,3) old v(1) brk] v(2) show ?thesis by simp
      qed (use IH in \<open>auto dest: maskedD\<close>)
    qed
    then show ?thesis by (auto simp: masked_def)
  qed
qed

lemma mask_rest_idem: "maskable p \<Longrightarrow> masked p s \<Longrightarrow> mask_rest p s = s"
proof (induction p s rule: mask_rest.induct)
  case (1 p s)
  show ?case
  proof (cases "find_str p s")
    case None
    then show ?thesis by (simp add: mask_rest_None)
  next
    case (Some k)
    obtain x t where s: "s = x @ p @ t" "length x = k"
      and m: "mask_rest p s = (x @ p) @ stars @ mask_rest p (drop (find_value_end t) t)"
      by (rule mask_rest_step [OF 1(2) Some])
    from maskedD [OF 1(3) s(1)] obtain w where w: "t = stars @ w" "at_break w" by blast
    then have d: "drop (find_value_end t) t = w" by (simp add: value_end_stars) (simp add: stars_def)
    have "masked p w" using 1(3) s(1) w(1) by (metis masked_suffix append.assoc)
    moreover have "drop (k + length p) s = t" using s(1,2) by simp
    ultimately have "mask_rest p w = w" using 1(1) [OF _ Some refl 1(2)] 1(2) d by (simp add: maskable_def)
    with m d s(1) w(1) show ?thesis by simp
  qed
qed

lemma fold_mask_masked:
  "list_all maskable ps \<Longrightarrow> q \<in> set ps \<or> maskable q \<and> masked q s \<Longrightarrow> masked q (fold mask_rest ps s)"
  by (induction ps arbitrary: s) (auto simp: mask_rest_masks mask_rest_keeps list_all_iff)

lemma fold_mask_idem: "list_all (\<lambda>p. maskable p \<and> masked p s) ps \<Longrightarrow> fold mask_rest ps s = s"
  by (induction ps) (auto simp: mask_rest_idem)

section \<open>Properties\<close>

text \<open>C16: In a masked command every occurrence of every key of the table is followed by exactly three stars, up to the
  next white space or the end of the text; masking a masked command again changes nothing.\<close>

theorem mask_sensitive_command_masks:
  assumes "key \<in> set mask_keys" and "mask_sensitive_command cmd = u @ key @ v"
  shows "(\<exists>w. v = ''***'' @ w \<and> (w = [] \<or> is_whitespace (hd w))) \<and>
    mask_sensitive_command (mask_sensitive_command cmd) = mask_sensitive_command cmd"
proof
  have all: "masked q (mask_sensitive_command cmd)" if "q \<in> set mask_keys" for q
    using that maskable_keys by (simp add: mask_sensitive_command_rest fold_mask_masked)
  from maskedD [OF all [OF assms(1)] assms(2)]
  show "\<exists>w. v = ''***'' @ w \<and> (w = [] \<or> is_whitespace (hd w))" by (simp add: stars_def at_break_def)
  show "mask_sensitive_command (mask_sensitive_command cmd) = mask_sensitive_command cmd"
    unfolding mask_sensitive_command_rest [of "mask_sensitive_command cmd"]
    by (rule fold_mask_idem) (use all maskable_keys in \<open>simp add: list_all_iff\<close>)
qed

lemma masked_sample: "mask_sensitive_command ''run TOKEN=abc x'' = ''run '' @ ''TOKEN='' @ ''*** x''"
  by code_simp

theorem mask_sensitive_command_masks_witness:
  "''TOKEN='' \<in> set mask_keys \<and> (\<exists>w. ''*** x'' = ''***'' @ w \<and> (w = [] \<or> is_whitespace (hd w)))"
proof -
  have "''TOKEN='' \<in> set mask_keys" by (simp add: mask_keys_def)
  with mask_sensitive_command_masks [OF this masked_sample] show ?thesis by blast
qed

text \<open>The mask stops at the first white space: a flag followed by two spaces keeps its value.\<close>

lemma doubled_space_leaks: "mask_sensitive_command ''--password  hunter2'' = ''--password *** hunter2''"
  by code_simp

text \<open>\<open>redact_path\<close> looks for \<open>/home/\<close> first and stops there, so the user of an earlier \<open>/Users/\<close> segment stays.\<close>

lemma second_marker_stays: "redact_path ''/Users/alice/home/bob/x'' = ''/Users/alice/home/<redacted>/x''"
  by code_simp

lemma truncate_short: "length (truncate_at_char_boundary s n) \<le> n"
proof -
  have "boundary_before s n \<le> n" by (induction n) auto
  then show ?thesis by (auto simp: truncate_at_char_boundary_def)
qed

lemma truncate_boundary:
  "\<exists>k. truncate_at_char_boundary s n = take k s \<and> is_char_boundary s k"
proof -
  have "is_char_boundary s (boundary_before s n)" by (induction n) (auto simp: is_char_boundary_def)
  moreover have "is_char_boundary s (length s)" by (simp add: is_char_boundary_def)
  ultimately show ?thesis by (auto simp: truncate_at_char_boundary_def intro: exI [of _ "length s"])
qed

end
