(* ===== verification/Incident_Ledger.thy ===== *)
theory Incident_Ledger
  imports Masking "HOL-Library.List_Lexorder" "HOL-Library.Char_ord"
begin

text \<open>
  The incident vocabulary of \<open>rch-common/src/incident.rs\<close> and the append-only ledger of
  \<open>rch-common/src/incident_ledger.rs\<close>. The ledger file is a list of bytes, or absent; the JSON printer and
  parser are arguments, and so is the list of the redactor's compiled patterns. Every step of an append or a
  compaction that can fail in the operating system has a field in the record of faults, so the error paths are
  branches of the model; a failing write leaves the bytes it had written.
\<close>

section \<open>Reason codes\<close>

datatype incident_reason_code =
    NoAdmissibleWorkers
  | CriticalPressure
  | InsufficientSlots
  | HardPreflight
  | ActiveProjectExclusion
  | MissingRuntimeToolchainTarget
  | OsArchMismatch
  | TelemetryStale
  | CircuitOpen
  | DaemonSocketRefused
  | LocalFallbackReason
  | ProofRefusal
  | RsyncVanishedFile
  | ArtifactMiss
  | QueueAmbiguity
  | DiskFull
  | WrongUserPathWorkerBinary
  | ToolchainDrift

definition ALL_REASONS :: "incident_reason_code list" where
  "ALL_REASONS =
     [NoAdmissibleWorkers, CriticalPressure, InsufficientSlots, HardPreflight, ActiveProjectExclusion,
      MissingRuntimeToolchainTarget, OsArchMismatch, TelemetryStale, CircuitOpen, DaemonSocketRefused,
      LocalFallbackReason, ProofRefusal, RsyncVanishedFile, ArtifactMiss, QueueAmbiguity, DiskFull,
      WrongUserPathWorkerBinary, ToolchainDrift]"

fun reason_code_str :: "incident_reason_code \<Rightarrow> string" where
  "reason_code_str NoAdmissibleWorkers = ''RCH-I001''"
| "reason_code_str CriticalPressure = ''RCH-I002''"
| "reason_code_str InsufficientSlots = ''RCH-I003''"
| "reason_code_str HardPreflight = ''RCH-I004''"
| "reason_code_str ActiveProjectExclusion = ''RCH-I005''"
| "reason_code_str MissingRuntimeToolchainTarget = ''RCH-I006''"
| "reason_code_str OsArchMismatch = ''RCH-I007''"
| "reason_code_str TelemetryStale = ''RCH-I008''"
| "reason_code_str CircuitOpen = ''RCH-I009''"
| "reason_code_str DaemonSocketRefused = ''RCH-I010''"
| "reason_code_str LocalFallbackReason = ''RCH-I011''"
| "reason_code_str ProofRefusal = ''RCH-I012''"
| "reason_code_str RsyncVanishedFile = ''RCH-I013''"
| "reason_code_str ArtifactMiss = ''RCH-I014''"
| "reason_code_str QueueAmbiguity = ''RCH-I015''"
| "reason_code_str DiskFull = ''RCH-I016''"
| "reason_code_str WrongUserPathWorkerBinary = ''RCH-I017''"
| "reason_code_str ToolchainDrift = ''RCH-I018''"

fun failure_class_str :: "incident_reason_code \<Rightarrow> string" where
  "failure_class_str NoAdmissibleWorkers = ''no admissible workers''"
| "failure_class_str CriticalPressure = ''critical pressure''"
| "failure_class_str InsufficientSlots = ''insufficient slots''"
| "failure_class_str HardPreflight = ''hard preflight''"
| "failure_class_str ActiveProjectExclusion = ''active project exclusion''"
| "failure_class_str MissingRuntimeToolchainTarget = ''missing runtime/toolchain/Rust target''"
| "failure_class_str OsArchMismatch = ''OS/arch mismatch''"
| "failure_class_str TelemetryStale = ''telemetry stale/age unknown''"
| "failure_class_str CircuitOpen = ''circuit open''"
| "failure_class_str DaemonSocketRefused = ''daemon socket refused''"
| "failure_class_str LocalFallbackReason = ''local fallback''"
| "failure_class_str ProofRefusal = ''proof refusal''"
| "failure_class_str RsyncVanishedFile = ''rsync vanished file''"
| "failure_class_str ArtifactMiss = ''artifact miss''"
| "failure_class_str QueueAmbiguity = ''queue ambiguity''"
| "failure_class_str DiskFull = ''disk full''"
| "failure_class_str WrongUserPathWorkerBinary = ''wrong user/path worker binary''"
| "failure_class_str ToolchainDrift = ''toolchain drift''"

definition from_code_str :: "string \<Rightarrow> incident_reason_code option" where
  "from_code_str code = List.find (\<lambda>r. reason_code_str r = code) ALL_REASONS"

lemma from_code_str_code: "from_code_str (reason_code_str r) = Some r"
  by (cases r) (simp_all add: from_code_str_def ALL_REASONS_def)

lemma from_code_str_sound: "from_code_str s = Some r \<Longrightarrow> reason_code_str r = s"
  by (auto simp: from_code_str_def find_Some_iff)

section \<open>Events\<close>

datatype incident_event_type =
  SelectionEvent | AdmissionEvent | FallbackEvent | ProofEvent | DoctorEvent | TelemetryEvent | ArtifactRetrievalEvent | WorkerLifecycle

datatype incident_source = HookSource | DaemonSource | WorkerSource | DoctorSource | CliSource

datatype selected_mode = LocalMode | RemoteMode | DeferredMode

record control_state =
  requested_worker :: "string option"
  requested_profile :: "string option"
  strict_remote_policy :: bool
  queue_policy :: "string option"
  visibility_mode :: "string option"
  wait_timeout_ms :: "64 word option"
  target_dir_policy :: "string option"

definition control_state_default :: control_state where
  "control_state_default =
     \<lparr>requested_worker = None, requested_profile = None, strict_remote_policy = False, queue_policy = None,
      visibility_mode = None, wait_timeout_ms = None, target_dir_policy = None\<rparr>"

definition control_is_empty :: "control_state \<Rightarrow> bool" where
  "control_is_empty c \<longleftrightarrow> c = control_state_default"

text \<open>An ordered map is the list of its entries in increasing order of the keys.\<close>

fun btree_insert :: "'k :: linorder \<Rightarrow> 'v \<Rightarrow> ('k \<times> 'v) list \<Rightarrow> ('k \<times> 'v) list" where
  "btree_insert k v [] = [(k, v)]"
| "btree_insert k v ((k', v') # m) =
     (if k < k' then (k, v) # (k', v') # m
      else if k = k' then (k, v) # m
      else (k', v') # btree_insert k v m)"

record incident_event =
  inc_schema_version :: string
  event_type :: incident_event_type
  reason_code :: incident_reason_code
  project_id :: string
  command_fingerprint :: string
  inc_worker_id :: "string option"
  selected_mode :: selected_mode
  local_fallback_allowed :: bool
  inc_source :: incident_source
  occurred_at_unix_ms :: "64 word"
  control :: control_state
  details :: "(string \<times> string) list"

definition incident_schema_version :: string where
  "incident_schema_version = ''1.0.0''"

definition incident_event_new ::
  "incident_event_type \<Rightarrow> incident_reason_code \<Rightarrow> incident_source \<Rightarrow> string \<Rightarrow> string \<Rightarrow> selected_mode
    \<Rightarrow> bool \<Rightarrow> 64 word \<Rightarrow> incident_event" where
  "incident_event_new ty reason src project fingerprint mode fallback at =
     \<lparr>inc_schema_version = incident_schema_version, event_type = ty, reason_code = reason, project_id = project,
      command_fingerprint = fingerprint, inc_worker_id = None, selected_mode = mode, local_fallback_allowed = fallback,
      inc_source = src, occurred_at_unix_ms = at, control = control_state_default, details = []\<rparr>"

definition with_worker_id :: "string \<Rightarrow> incident_event \<Rightarrow> incident_event" where
  "with_worker_id w e = e\<lparr>inc_worker_id := Some w\<rparr>"

definition with_control :: "control_state \<Rightarrow> incident_event \<Rightarrow> incident_event" where
  "with_control c e = e\<lparr>control := c\<rparr>"

definition incident_with_detail :: "string \<Rightarrow> string \<Rightarrow> incident_event \<Rightarrow> incident_event" where
  "incident_with_detail k v e = e\<lparr>details := btree_insert k v (details e)\<rparr>"

definition redacted :: "(string \<Rightarrow> string) list \<Rightarrow> incident_event \<Rightarrow> incident_event" where
  "redacted shaped e = e\<lparr>details := map (map_prod id (redact_secrets shaped)) (details e)\<rparr>"

section \<open>The ledger\<close>

record ledger_config =
  max_entries :: nat
  max_bytes :: nat

definition DEFAULT_MAX_ENTRIES :: nat where
  "DEFAULT_MAX_ENTRIES = 5000"

definition DEFAULT_MAX_BYTES :: nat where
  "DEFAULT_MAX_BYTES = 4 * 1024 * 1024"

definition ledger_config_default :: ledger_config where
  "ledger_config_default = \<lparr>max_entries = DEFAULT_MAX_ENTRIES, max_bytes = DEFAULT_MAX_BYTES\<rparr>"



text \<open>UTF-8 as the standard library validates it: no overlong form, no surrogate, nothing above the last code point.\<close>

definition byte_in :: "nat \<Rightarrow> nat \<Rightarrow> char \<Rightarrow> bool" where
  "byte_in lo hi c \<longleftrightarrow> (let n = of_char c in lo \<le> n \<and> n \<le> hi)"

fun valid_utf8 :: "string \<Rightarrow> bool" where
  "valid_utf8 [] = True"
| "valid_utf8 (a # s) =
     (if byte_in 0 127 a then valid_utf8 s
      else case s of
        [] \<Rightarrow> False
      | b # s2 \<Rightarrow>
          if byte_in 194 223 a then byte_in 128 191 b \<and> valid_utf8 s2
          else case s2 of
            [] \<Rightarrow> False
          | c # s3 \<Rightarrow>
              if byte_in 224 239 a then
                (if byte_in 224 224 a then byte_in 160 191 b
                 else if byte_in 237 237 a then byte_in 128 159 b
                 else byte_in 128 191 b) \<and> byte_in 128 191 c \<and> valid_utf8 s3
              else case s3 of
                [] \<Rightarrow> False
              | d # s4 \<Rightarrow>
                  byte_in 240 244 a \<and>
                  (if byte_in 240 240 a then byte_in 144 191 b
                   else if byte_in 244 244 a then byte_in 128 143 b
                   else byte_in 128 191 b) \<and> byte_in 128 191 c \<and> byte_in 128 191 d \<and> valid_utf8 s4)"

text \<open>\<open>BufRead::lines\<close>: a piece up to a newline loses it and a carriage return before it; what follows the last
  newline is a line when it is not empty. A line that is not UTF-8 is an error.\<close>

definition line_feed :: char where
  "line_feed = CHR 0x0A"

definition strip_cr :: "string \<Rightarrow> string" where
  "strip_cr l = (if l \<noteq> [] \<and> last l = CHR 0x0D then butlast l else l)"

fun buf_lines_from :: "string \<Rightarrow> string \<Rightarrow> string list" where
  "buf_lines_from acc [] = (if acc = [] then [] else [acc])"
| "buf_lines_from acc (c # cs) =
     (if c = line_feed then strip_cr acc # buf_lines_from [] cs else buf_lines_from (acc @ [c]) cs)"

definition buf_lines :: "string \<Rightarrow> string list" where
  "buf_lines s = buf_lines_from [] s"

record ledger_read_stats =
  parsed :: nat
  skipped :: nat

fun read_lines ::
  "(string \<Rightarrow> 'e option) \<Rightarrow> string list \<Rightarrow> 'e list \<times> ledger_read_stats \<Rightarrow> 'e list \<times> ledger_read_stats" where
  "read_lines from_str [] (events, stats) = (events, stats)"
| "read_lines from_str (line # ls) (events, stats) =
     (if \<not> valid_utf8 line then (events, stats\<lparr>skipped := skipped stats + 1\<rparr>)
      else let trimmed = trim line
           in if trimmed = [] then read_lines from_str ls (events, stats)
              else case from_str trimmed of
                Some e \<Rightarrow> read_lines from_str ls (events @ [e], stats\<lparr>parsed := parsed stats + 1\<rparr>)
              | None \<Rightarrow> read_lines from_str ls (events, stats\<lparr>skipped := skipped stats + 1\<rparr>))"

definition read_all_with_stats :: "(string \<Rightarrow> 'e option) \<Rightarrow> string option \<Rightarrow> 'e list \<times> ledger_read_stats" where
  "read_all_with_stats from_str file =
     (case file of
        None \<Rightarrow> ([], \<lparr>parsed = 0, skipped = 0\<rparr>)
      | Some s \<Rightarrow> read_lines from_str (buf_lines s) ([], \<lparr>parsed = 0, skipped = 0\<rparr>))"

definition read_all :: "(string \<Rightarrow> 'e option) \<Rightarrow> string option \<Rightarrow> 'e list" where
  "read_all from_str file = fst (read_all_with_stats from_str file)"


datatype ledger_error =
  CreateDirFailed | SerializeFailed | OpenFailed | WriteFailed | TempOpenFailed | TempWriteFailed | RenameFailed

record ledger_faults =
  create_dir_fault :: bool
  open_fault :: bool
  write_fault :: "nat option"
  metadata_fault :: bool
  read_fault :: bool
  temp_open_fault :: bool
  temp_write_fault :: bool
  rename_fault :: bool

definition no_faults :: ledger_faults where
  "no_faults =
     \<lparr>create_dir_fault = False, open_fault = False, write_fault = None, metadata_fault = False, read_fault = False,
      temp_open_fault = False, temp_write_fault = False, rename_fault = False\<rparr>"

fun ledger_lines :: "('e \<Rightarrow> string option) \<Rightarrow> 'e list \<Rightarrow> string option" where
  "ledger_lines to_string [] = Some []"
| "ledger_lines to_string (e # es) =
     (case to_string e of
        None \<Rightarrow> None
      | Some line \<Rightarrow> map_option (\<lambda>rest. line @ line_feed # rest) (ledger_lines to_string es))"

definition compact ::
  "ledger_config \<Rightarrow> ('e \<Rightarrow> string option) \<Rightarrow> (string \<Rightarrow> 'e option) \<Rightarrow> ledger_faults \<Rightarrow> string option
    \<Rightarrow> (ledger_error + unit) \<times> string option" where
  "compact cfg to_string from_str io file =
     (let events = read_all from_str (if read_fault io then None else file);
          kept = drop (length events - max_entries cfg) events
      in if temp_open_fault io then (Inl TempOpenFailed, file)
         else case ledger_lines to_string kept of
           None \<Rightarrow> (Inl SerializeFailed, file)
         | Some body \<Rightarrow>
             if temp_write_fault io then (Inl TempWriteFailed, file)
             else if rename_fault io then (Inl RenameFailed, file)
             else (Inr (), Some body))"

definition contents :: "string option \<Rightarrow> string" where
  "contents file = (case file of None \<Rightarrow> [] | Some s \<Rightarrow> s)"

definition ledger_append ::
  "ledger_config \<Rightarrow> (string \<Rightarrow> string) list \<Rightarrow> (incident_event \<Rightarrow> string option) \<Rightarrow> (string \<Rightarrow> incident_event option)
    \<Rightarrow> ledger_faults \<Rightarrow> incident_event \<Rightarrow> string option \<Rightarrow> (ledger_error + unit) \<times> string option" where
  "ledger_append cfg shaped to_string from_str io event file =
     (if create_dir_fault io then (Inl CreateDirFailed, file)
      else case to_string (redacted shaped event) of
        None \<Rightarrow> (Inl SerializeFailed, file)
      | Some line \<Rightarrow>
          let bytes = line @ [line_feed]
          in if open_fault io then (Inl OpenFailed, file)
             else case write_fault io of
               Some n \<Rightarrow> (Inl WriteFailed, Some (contents file @ take n bytes))
             | None \<Rightarrow>
                 let file' = contents file @ bytes
                 in if \<not> metadata_fault io \<and> max_bytes cfg < length file'
                    then compact cfg to_string from_str io (Some file')
                    else (Inr (), Some file'))"

section \<open>Lines and files\<close>




definition whole_lines :: "string \<Rightarrow> bool" where
  "whole_lines s \<longleftrightarrow> s = [] \<or> last s = line_feed"

definition ledger_ok :: "string option \<Rightarrow> bool" where
  "ledger_ok file \<longleftrightarrow> whole_lines (contents file) \<and> list_all valid_utf8 (buf_lines (contents file))"

lemma buf_lines_from_append:
  "s \<noteq> [] \<Longrightarrow> last s = line_feed \<Longrightarrow> buf_lines_from acc (s @ t) = buf_lines_from acc s @ buf_lines t"
proof (induction s arbitrary: acc)
  case (Cons c cs)
  then show ?case by (cases "cs = []") (auto simp: buf_lines_def)
qed simp

lemma buf_lines_append: "whole_lines s \<Longrightarrow> buf_lines (s @ t) = buf_lines s @ buf_lines t"
  by (cases "s = []") (simp_all add: whole_lines_def buf_lines_from_append [of s "[]" t] buf_lines_def [of s]
    buf_lines_def [of "s @ t"], simp add: buf_lines_def)




lemma read_lines_append:
  "list_all valid_utf8 ls \<Longrightarrow> read_lines p (ls @ ls') acc = read_lines p ls' (read_lines p ls acc)"
  by (induction p ls acc rule: read_lines.induct) (auto simp: Let_def split: option.splits)

lemma read_lines_prefix: "prefix (fst acc) (fst (read_lines p ls acc))"
  by (induction p ls acc rule: read_lines.induct) (auto simp: Let_def split: option.splits, metis append_prefixD)




lemma read_all_grows:
  assumes "ledger_ok file"
  shows "\<exists>es. read_all p (Some (contents file @ t)) = read_all p file @ es"
proof -
  have "read_all p (Some (contents file @ t)) = fst (read_lines p (buf_lines t) (read_all_with_stats p file))"
    using assms by (cases "file")
      (simp_all add: ledger_ok_def contents_def read_all_def read_all_with_stats_def buf_lines_append read_lines_append)
  with read_lines_prefix [of "read_all_with_stats p file" p "buf_lines t"] show ?thesis by (auto simp: read_all_def prefix_def)
qed



section \<open>Properties\<close>



text \<open>A failed append takes nothing away, whatever failed: the events read before are still read, in the same order.\<close>

lemma failed_append_keeps:
  assumes "ledger_ok file" and "fst (ledger_append cfg shaped to_string from_str io e file) = Inl err"
  shows "\<exists>es. read_all from_str (snd (ledger_append cfg shaped to_string from_str io e file)) = read_all from_str file @ es"
  using assms read_all_grows [OF assms(1), of from_str]
  by (auto simp: ledger_append_def compact_def Let_def split: option.splits if_splits)

definition ledger_run ::
  "ledger_config \<Rightarrow> (string \<Rightarrow> string) list \<Rightarrow> (incident_event \<Rightarrow> string option) \<Rightarrow> (string \<Rightarrow> incident_event option)
    \<Rightarrow> incident_event list \<Rightarrow> string option" where
  "ledger_run cfg shaped to_string from_str es =
     fold (\<lambda>e file. snd (ledger_append cfg shaped to_string from_str no_faults e file)) es None"


text \<open>Three events printed by their fingerprint, and a ledger that keeps two.\<close>

definition sample_incident :: "string \<Rightarrow> incident_event" where
  "sample_incident fp = incident_event_new SelectionEvent CircuitOpen DaemonSource ''proj'' fp RemoteMode False 7"

definition sample_to_string :: "incident_event \<Rightarrow> string option" where
  "sample_to_string e = Some (command_fingerprint e)"

definition sample_from_str :: "string \<Rightarrow> incident_event option" where
  "sample_from_str s = List.find (\<lambda>e. command_fingerprint e = s) (map sample_incident [''e1'', ''e2'', ''e3''])"

definition sample_ledger :: ledger_config where
  "sample_ledger = \<lparr>max_entries = 2, max_bytes = 8\<rparr>"

definition sample_incidents :: "incident_event list" where
  "sample_incidents = map sample_incident [''e1'', ''e2'', ''e3'']"



lemma sample_ledger_run:
  "map command_fingerprint (read_all sample_from_str
     (ledger_run sample_ledger [] sample_to_string sample_from_str sample_incidents)) = [''e2'', ''e3'']"
  by code_simp

text \<open>Three ways an event is lost. A write cut short leaves no newline, and the next event, appended without an error, is
  read as part of the torn line. A line that is not UTF-8 ends the read, and the compaction after it writes back only
  what precedes that line. A compaction that cannot open the ledger for reading takes it for empty, and succeeds.\<close>

lemma torn_line_swallows_next:
  "let torn = snd (ledger_append sample_ledger [] sample_to_string sample_from_str (no_faults\<lparr>write_fault := Some 1\<rparr>)
         (sample_incident ''e1'') None);
       next = ledger_append sample_ledger [] sample_to_string sample_from_str no_faults (sample_incident ''e2'') torn
   in fst next = Inr () \<and> read_all sample_from_str (snd next) = []"
  by code_simp

lemma invalid_line_drops_rest:
  "let file = Some (CHR 0xFF # line_feed # ''e1'' @ line_feed # ''e2'' @ [line_feed])
   in read_all sample_from_str file = [] \<and> compact sample_ledger sample_to_string sample_from_str no_faults file = (Inr (), Some [])"
  by code_simp

lemma unreadable_ledger_emptied:
  "compact cfg to_string from_str (no_faults\<lparr>read_fault := True\<rparr>) file = (Inr (), Some [])"
  by (simp add: compact_def no_faults_def read_all_def read_all_with_stats_def)

end
