(* ===== verification/Bypass.thy ===== *)
theory Bypass
  imports Lifecycle Incident_Ledger
begin

text \<open>
  Temporary bypass of a sick worker: the record, its bookkeeping and the two durable stores of
  \<open>rch-common/src/bypass_record.rs\<close>, the migration of admin-disabled workers of the same file, and the probe and
  canary decisions of \<open>rch-common/src/bypass_recovery.rs\<close>. The sources say what a caller does with a decision: it
  keeps the record it is handed, runs the canary, or clears the record; the relations \<open>recovering\<close> and \<open>rejoins\<close>
  run the decisions that way over any sequence of probes. The JSON printer and parser of a store are arguments.
\<close>

section \<open>Failure classes\<close>

text \<open>The classes are the causes of a bypass of \<open>Lifecycle\<close>.\<close>

definition ALL_CLASSES :: "bypass_failure_class list" where
  "ALL_CLASSES =
     [Ssh, WorkerBinary, RuntimeToolchain, DiskInodePressure, StaleTelemetry, PathSync, ArtifactRetrieval, CircuitBreaker,
      bypass_failure_class.OsArchMismatch]"

fun class_as_str :: "bypass_failure_class \<Rightarrow> string" where
  "class_as_str Ssh = ''ssh''"
| "class_as_str WorkerBinary = ''worker_binary''"
| "class_as_str RuntimeToolchain = ''runtime_toolchain''"
| "class_as_str DiskInodePressure = ''disk_inode_pressure''"
| "class_as_str StaleTelemetry = ''stale_telemetry''"
| "class_as_str PathSync = ''path_sync''"
| "class_as_str ArtifactRetrieval = ''artifact_retrieval''"
| "class_as_str CircuitBreaker = ''circuit_breaker''"
| "class_as_str bypass_failure_class.OsArchMismatch = ''os_arch_mismatch''"

fun incident_reason_of :: "bypass_failure_class \<Rightarrow> incident_reason_code" where
  "incident_reason_of Ssh = HardPreflight"
| "incident_reason_of WorkerBinary = WrongUserPathWorkerBinary"
| "incident_reason_of RuntimeToolchain = MissingRuntimeToolchainTarget"
| "incident_reason_of DiskInodePressure = DiskFull"
| "incident_reason_of StaleTelemetry = TelemetryStale"
| "incident_reason_of PathSync = RsyncVanishedFile"
| "incident_reason_of ArtifactRetrieval = ArtifactMiss"
| "incident_reason_of CircuitBreaker = CircuitOpen"
| "incident_reason_of bypass_failure_class.OsArchMismatch = incident_reason_code.OsArchMismatch"

definition class_from_str_opt :: "string \<Rightarrow> bypass_failure_class option" where
  "class_from_str_opt s = List.find (\<lambda>c. class_as_str c = s) ALL_CLASSES"

lemma class_from_str_opt_str: "class_from_str_opt (class_as_str c) = Some c"
  by (cases c) (simp_all add: class_from_str_opt_def ALL_CLASSES_def)

section \<open>Backoff and record\<close>

datatype bypass_state = TemporaryBypass | RecoveredPendingCanary

definition saturating_mul :: "'a :: len word \<Rightarrow> 'a word \<Rightarrow> 'a word" where
  "saturating_mul a b = (if unat a * unat b < 2 ^ LENGTH('a) then a * b else - 1)"

record bypass_backoff =
  current_ms :: "64 word"
  attempts :: "32 word"
  max_ms :: "64 word"

definition DEFAULT_INITIAL_MS :: "64 word" where
  "DEFAULT_INITIAL_MS = 30000"

definition DEFAULT_MAX_MS :: "64 word" where
  "DEFAULT_MAX_MS = 900000"

definition backoff_initial :: bypass_backoff where
  "backoff_initial = \<lparr>current_ms = DEFAULT_INITIAL_MS, attempts = 0, max_ms = DEFAULT_MAX_MS\<rparr>"

definition backoff_advanced :: "bypass_backoff \<Rightarrow> bypass_backoff" where
  "backoff_advanced b =
     (let doubled = saturating_mul (current_ms b) 2
      in \<lparr>current_ms = (if max_ms b < doubled then max_ms b else doubled),
          attempts = saturating_add (attempts b) 1,
          max_ms = max_ms b\<rparr>)"

record auto_rejoin_criteria =
  required_consecutive_passes :: "32 word"
  canary_required :: bool

definition auto_rejoin_default :: auto_rejoin_criteria where
  "auto_rejoin_default = \<lparr>required_consecutive_passes = 2, canary_required = True\<rparr>"

record bypass_record =
  bp_schema_version :: string
  bp_worker_id :: string
  bp_host :: string
  bp_user :: string
  failure_class :: bypass_failure_class
  bp_reason_code :: incident_reason_code
  bp_state :: bypass_state
  first_failure_unix_ms :: "64 word"
  last_failure_unix_ms :: "64 word"
  next_probe_unix_ms :: "64 word"
  backoff :: bypass_backoff
  consecutive_failures :: "32 word"
  consecutive_passes :: "32 word"
  last_diagnostic :: string
  auto_rejoin :: auto_rejoin_criteria
  bp_local_fallback_allowed :: bool
  bp_details :: "(string \<times> string) list"

definition bypass_record_schema_version :: string where
  "bypass_record_schema_version = ''1.0.0''"

definition bypass_record_new ::
  "string \<Rightarrow> string \<Rightarrow> string \<Rightarrow> bypass_failure_class \<Rightarrow> 64 word \<Rightarrow> bypass_record" where
  "bypass_record_new worker host user class first_failure =
     \<lparr>bp_schema_version = bypass_record_schema_version, bp_worker_id = worker, bp_host = host, bp_user = user, failure_class = class,
      bp_reason_code = incident_reason_of class, bp_state = TemporaryBypass, first_failure_unix_ms = first_failure,
      last_failure_unix_ms = first_failure,
      next_probe_unix_ms = saturating_add first_failure (current_ms backoff_initial),
      backoff = backoff_initial, consecutive_failures = 1, consecutive_passes = 0, last_diagnostic = [],
      auto_rejoin = auto_rejoin_default, bp_local_fallback_allowed = True, bp_details = []\<rparr>"

text \<open>Diagnostics are cut after a number of characters: a character starts at a byte that does not continue one.\<close>

definition MAX_DIAGNOSTIC_CHARS :: nat where
  "MAX_DIAGNOSTIC_CHARS = 512"

definition char_count :: "string \<Rightarrow> nat" where
  "char_count s = length (filter (\<lambda>c. \<not> is_continuation c) s)"

fun char_offset :: "nat \<Rightarrow> string \<Rightarrow> nat" where
  "char_offset n [] = 0"
| "char_offset n (c # cs) =
     (if is_continuation c then Suc (char_offset n cs)
      else if n = 0 then 0
      else Suc (char_offset (n - 1) cs))"

definition ellipsis :: string where
  "ellipsis = [CHR 0xE2, CHR 0x80, CHR 0xA6]"

definition truncate_diagnostic :: "string \<Rightarrow> string" where
  "truncate_diagnostic s =
     (if char_count s \<le> MAX_DIAGNOSTIC_CHARS then s else take (char_offset MAX_DIAGNOSTIC_CHARS s) s @ ellipsis)"

definition with_diagnostic :: "string \<Rightarrow> bypass_record \<Rightarrow> bypass_record" where
  "with_diagnostic d r = r\<lparr>last_diagnostic := truncate_diagnostic d\<rparr>"

definition with_local_fallback_allowed :: "bool \<Rightarrow> bypass_record \<Rightarrow> bypass_record" where
  "with_local_fallback_allowed b r = r\<lparr>bp_local_fallback_allowed := b\<rparr>"

definition with_auto_rejoin :: "auto_rejoin_criteria \<Rightarrow> bypass_record \<Rightarrow> bypass_record" where
  "with_auto_rejoin c r = r\<lparr>auto_rejoin := c\<rparr>"

definition bypass_with_detail :: "string \<Rightarrow> string \<Rightarrow> bypass_record \<Rightarrow> bypass_record" where
  "bypass_with_detail k v r = r\<lparr>bp_details := btree_insert k v (bp_details r)\<rparr>"

definition bypass_record_failure :: "64 word \<Rightarrow> string \<Rightarrow> bypass_record \<Rightarrow> bypass_record" where
  "bypass_record_failure now diagnostic r =
     (let b = backoff_advanced (backoff r)
      in r\<lparr>last_failure_unix_ms := now,
           consecutive_failures := saturating_add (consecutive_failures r) 1,
           consecutive_passes := 0,
           backoff := b,
           next_probe_unix_ms := saturating_add now (current_ms b),
           bp_state := TemporaryBypass,
           last_diagnostic := (if diagnostic = [] then last_diagnostic r else truncate_diagnostic diagnostic)\<rparr>)"

definition record_probe_pass :: "64 word \<Rightarrow> bypass_record \<Rightarrow> bool \<times> bypass_record" where
  "record_probe_pass now r =
     (let passes = saturating_add (consecutive_passes r) 1;
          met = required_consecutive_passes (auto_rejoin r) \<le> passes
      in (met,
          r\<lparr>consecutive_passes := passes,
            consecutive_failures := 0,
            next_probe_unix_ms := saturating_add now (current_ms (backoff r)),
            bp_state := (if met \<and> canary_required (auto_rejoin r) then RecoveredPendingCanary else bp_state r)\<rparr>))"

definition probe_due :: "64 word \<Rightarrow> bypass_record \<Rightarrow> bool" where
  "probe_due now r \<longleftrightarrow> next_probe_unix_ms r \<le> now"

section \<open>Recovery decisions\<close>

record recovery_probe =
  ssh_ok :: bool
  worker_binary_ok :: bool
  protocol_ok :: bool
  toolchain_ok :: bool
  disk_ok :: bool
  load_ok :: bool
  telemetry_ok :: bool

definition all_ok :: recovery_probe where
  "all_ok =
     \<lparr>ssh_ok = True, worker_binary_ok = True, protocol_ok = True, toolchain_ok = True, disk_ok = True, load_ok = True,
      telemetry_ok = True\<rparr>"

definition fully_healthy :: "recovery_probe \<Rightarrow> bool" where
  "fully_healthy p \<longleftrightarrow>
     ssh_ok p \<and> worker_binary_ok p \<and> protocol_ok p \<and> toolchain_ok p \<and> disk_ok p \<and> load_ok p \<and> telemetry_ok p"

definition first_failure :: "recovery_probe \<Rightarrow> string option" where
  "first_failure p =
     (if \<not> ssh_ok p then Some ''ssh''
      else if \<not> worker_binary_ok p then Some ''worker_binary''
      else if \<not> protocol_ok p then Some ''protocol''
      else if \<not> toolchain_ok p then Some ''toolchain''
      else if \<not> disk_ok p then Some ''disk''
      else if \<not> load_ok p then Some ''load''
      else if \<not> telemetry_ok p then Some ''telemetry''
      else None)"

lemma first_failure_healthy: "first_failure p = None \<longleftrightarrow> fully_healthy p"
  by (simp add: first_failure_def fully_healthy_def)

datatype canary_outcome = CanaryPassed | CanaryFailed

datatype probe_decision =
    StayBypassed string bypass_record
  | KeepProbing "32 word" "32 word" bypass_record
  | ReadyForCanary bypass_record
  | Rejoin

datatype canary_decision = CanaryRejoin | Relapse bypass_record

definition decide_probe :: "bypass_record \<Rightarrow> recovery_probe \<Rightarrow> 64 word \<Rightarrow> probe_decision" where
  "decide_probe r p now =
     (if \<not> fully_healthy p then
        let dim = (case first_failure p of Some d \<Rightarrow> d | None \<Rightarrow> ''unknown'')
        in StayBypassed dim (bypass_record_failure now (''recovery probe failed: '' @ dim) r)
      else
        let (criteria_met, r') = record_probe_pass now r
        in if \<not> criteria_met then KeepProbing (consecutive_passes r') (required_consecutive_passes (auto_rejoin r')) r'
           else if canary_required (auto_rejoin r') then ReadyForCanary r'
           else Rejoin)"

definition decide_canary :: "bypass_record \<Rightarrow> canary_outcome \<Rightarrow> 64 word \<Rightarrow> canary_decision" where
  "decide_canary r outcome now =
     (case outcome of
        CanaryPassed \<Rightarrow> CanaryRejoin
      | CanaryFailed \<Rightarrow> Relapse (bypass_record_failure now ''canary build failed'' r))"

section \<open>Durable stores\<close>

text \<open>Both stores of the file have one shape: a map from worker to record, read from and written to one document as the
  list of its records. \<open>persist\<close> writes a temporary file and renames it; the map in memory changes before that.\<close>

record store_faults =
  st_create_dir_fault :: bool
  st_temp_open_fault :: bool
  st_temp_write_fault :: bool
  st_rename_fault :: bool

definition store_no_faults :: store_faults where
  "store_no_faults =
     \<lparr>st_create_dir_fault = False, st_temp_open_fault = False, st_temp_write_fault = False, st_rename_fault = False\<rparr>"

definition store_load :: "('r \<Rightarrow> string) \<Rightarrow> (string \<Rightarrow> 'r list option) \<Rightarrow> string option \<Rightarrow> (string \<times> 'r) list" where
  "store_load key from_slice file =
     (case Option.bind file from_slice of
        None \<Rightarrow> []
      | Some records \<Rightarrow> fold (\<lambda>r. btree_insert (key r) r) records [])"

definition store_persist ::
  "('r list \<Rightarrow> string option) \<Rightarrow> store_faults \<Rightarrow> (string \<times> 'r) list \<Rightarrow> string option
    \<Rightarrow> (ledger_error + unit) \<times> string option" where
  "store_persist to_vec io m file =
     (if st_create_dir_fault io then (Inl CreateDirFailed, file)
      else case to_vec (map snd m) of
        None \<Rightarrow> (Inl SerializeFailed, file)
      | Some body \<Rightarrow>
          if st_temp_open_fault io then (Inl TempOpenFailed, file)
          else if st_temp_write_fault io then (Inl TempWriteFailed, file)
          else if st_rename_fault io then (Inl RenameFailed, file)
          else (Inr (), Some body))"

definition store_get :: "string \<Rightarrow> (string \<times> 'r) list \<Rightarrow> 'r option" where
  "store_get w m = map_of m w"

definition store_contains :: "string \<Rightarrow> (string \<times> 'r) list \<Rightarrow> bool" where
  "store_contains w m \<longleftrightarrow> map_of m w \<noteq> None"

definition store_all :: "(string \<times> 'r) list \<Rightarrow> 'r list" where
  "store_all m = map snd m"

definition store_upsert ::
  "('r \<Rightarrow> string) \<Rightarrow> ('r list \<Rightarrow> string option) \<Rightarrow> store_faults \<Rightarrow> 'r \<Rightarrow> (string \<times> 'r) list \<Rightarrow> string option
    \<Rightarrow> (ledger_error + unit) \<times> (string \<times> 'r) list \<times> string option" where
  "store_upsert key to_vec io r m file =
     (let m' = btree_insert (key r) r m; (res, file') = store_persist to_vec io m' file in (res, m', file'))"

definition store_remove ::
  "('r list \<Rightarrow> string option) \<Rightarrow> store_faults \<Rightarrow> string \<Rightarrow> (string \<times> 'r) list \<Rightarrow> string option
    \<Rightarrow> (ledger_error + 'r option) \<times> (string \<times> 'r) list \<times> string option" where
  "store_remove to_vec io w m file =
     (case map_of m w of
        None \<Rightarrow> (Inr None, m, file)
      | Some r \<Rightarrow>
          let m' = filter (\<lambda>e. fst e \<noteq> w) m; (res, file') = store_persist to_vec io m' file
          in (case res of Inl err \<Rightarrow> Inl err | Inr _ \<Rightarrow> Inr (Some r), m', file'))"

record admin_disable_record =
  ad_worker_id :: string
  ad_reason :: "string option"
  disabled_unix_ms :: "64 word"

subsection \<open>The document is the store\<close>

definition store_wf :: "('r \<Rightarrow> string) \<Rightarrow> (string \<times> 'r) list \<Rightarrow> bool" where
  "store_wf key m \<longleftrightarrow> sorted_wrt (<) (map fst m) \<and> list_all (\<lambda>(k, r). k = key r) m"

lemma set_btree_insert: "set (map fst (btree_insert k v m)) = insert k (set (map fst m))"
  by (induction k v m rule: btree_insert.induct) auto

lemma store_wf_insert: "store_wf key m \<Longrightarrow> store_wf key (btree_insert (key r) r m)"
proof (induction "key r" r m rule: btree_insert.induct)
  case (2 v k' v' m)
  have "set (map fst (btree_insert (key v) v m)) = insert (key v) (set (map fst m))" by (rule set_btree_insert)
  with 2 show ?case by (fastforce simp: store_wf_def)
qed (simp add: store_wf_def)

lemma map_of_btree_insert: "map_of (btree_insert k v m) = (map_of m)(k \<mapsto> v)"
  by (induction k v m rule: btree_insert.induct) (auto simp: fun_eq_iff)

lemma btree_insert_last: "list_all (\<lambda>x. fst x < k) m \<Longrightarrow> btree_insert k v m = m @ [(k, v)]"
  by (induction k v m rule: btree_insert.induct) auto

lemma fold_btree_insert: "store_wf key m \<Longrightarrow> fold (\<lambda>r. btree_insert (key r) r) (map snd m) [] = m"
proof (induction m rule: rev_induct)
  case (snoc x m)
  then have "store_wf key m" "list_all (\<lambda>e. fst e < fst x) m" "fst x = key (snd x)"
    by (auto simp: store_wf_def sorted_wrt_append list_all_iff)
  with snoc.IH btree_insert_last [of "fst x" m "snd x"] show ?case by (cases x) simp
qed simp

lemma store_wf_load: "store_wf key (store_load key from_slice file)"
proof -
  have "store_wf key m \<Longrightarrow> store_wf key (fold (\<lambda>r. btree_insert (key r) r) rs m)" for rs :: "'a list" and m
    by (induction rs arbitrary: m) (auto intro: store_wf_insert)
  from this [of "[]"] show ?thesis by (auto simp: store_load_def store_wf_def split: option.splits)
qed

lemma load_persisted:
  assumes "store_wf key m" and "store_persist to_vec io m file = (Inr (), file')"
    and "\<forall>rs body. to_vec rs = Some body \<longrightarrow> from_slice body = Some rs"
  shows "store_load key from_slice file' = m"
proof -
  from assms(2) obtain body where "to_vec (map snd m) = Some body" "file' = Some body"
    by (auto simp: store_persist_def split: if_splits option.splits)
  with assms show ?thesis by (simp add: store_load_def fold_btree_insert)
qed

lemma map_of_filter_key: "map_of (filter (\<lambda>e. fst e \<noteq> w) m) = (map_of m)(w := None)"
  by (induction m) (auto simp: fun_eq_iff)

section \<open>Migration of disabled workers\<close>

record disabled_worker_snapshot =
  ds_worker_id :: string
  ds_host :: string
  ds_user :: string
  disabled_reason :: "string option"
  disabled_at_unix_ms :: "64 word option"

datatype disabled_migration = Migrate bypass_record | KeepDisabled string

definition disable_table :: "(string list \<times> bypass_failure_class) list" where
  "disable_table =
     [([''no space'', ''enospc'', ''disk full'', ''inode'', ''disk pressure''], DiskInodePressure),
      ([''toolchain'', ''rustup'', ''nightly'', ''missing target'', ''rustc''], RuntimeToolchain),
      ([''rch-wkr'', ''worker binary'', ''wrong user'', ''wrong path'', ''no such file''], WorkerBinary),
      ([''circuit''], CircuitBreaker),
      ([''telemetry'', ''stale'', ''heartbeat''], StaleTelemetry),
      ([''rsync'', ''vanished'', ''path sync'', ''source sync''], PathSync),
      ([''artifact''], ArtifactRetrieval),
      ([''os/arch'', ''architecture'', ''arch mismatch'', ''triple''], bypass_failure_class.OsArchMismatch),
      ([''ssh'', ''connection refused'', ''connection reset'', ''connection failed'', ''connection timed out'',
        ''unreachable'', ''timed out'', ''auth'', ''permission denied''], Ssh)]"

definition classify_disable_reason :: "string \<Rightarrow> bypass_failure_class option" where
  "classify_disable_reason reason =
     (let r = map to_ascii_lowercase reason
      in if trim r = [] then None
         else map_option snd (List.find (\<lambda>(needles, class). list_ex (contains_str r) needles) disable_table))"

text \<open>\<open>Debug\<close> of a string, on ASCII text: quoted, with the escapes of the standard library.\<close>

definition debug_char :: "char \<Rightarrow> string" where
  "debug_char c =
     (let n = of_char c :: nat
      in if c = CHR 0x22 then [CHR 0x5C, CHR 0x22]
         else if c = CHR 0x5C then [CHR 0x5C, CHR 0x5C]
         else if n = 0 then [CHR 0x5C, CHR ''0'']
         else if n = 9 then [CHR 0x5C, CHR ''t'']
         else if n = 10 then [CHR 0x5C, CHR ''n'']
         else if n = 13 then [CHR 0x5C, CHR ''r'']
         else if n < 16 then CHR 0x5C # ''u{'' @ [hex_digit n] @ ''}''
         else if n < 32 \<or> n = 127 then CHR 0x5C # ''u{'' @ [hex_digit (n div 16), hex_digit (n mod 16)] @ ''}''
         else [c])"

definition debug_str :: "string \<Rightarrow> string" where
  "debug_str s = CHR 0x22 # concat (map debug_char s) @ [CHR 0x22]"

definition em_dash_bytes :: string where
  "em_dash_bytes = [CHR 0xE2, CHR 0x80, CHR 0x94]"

definition migrate_disabled_worker :: "disabled_worker_snapshot \<Rightarrow> 64 word \<Rightarrow> disabled_migration" where
  "migrate_disabled_worker s now =
     (case disabled_reason s of
        None \<Rightarrow> KeepDisabled (''no disable reason recorded '' @ em_dash_bytes @ '' treat as deliberate operator disable'')
      | Some reason \<Rightarrow>
          (case classify_disable_reason reason of
             None \<Rightarrow> KeepDisabled (''disable reason does not look transient: '' @ debug_str reason)
           | Some class \<Rightarrow>
               let first = (case disabled_at_unix_ms s of Some t \<Rightarrow> t | None \<Rightarrow> now);
                   r = bypass_with_detail ''migrated_from'' ''admin_disabled''
                         (with_diagnostic (''migrated from admin-disabled: '' @ reason)
                           (bypass_record_new (ds_worker_id s) (ds_host s) (ds_user s) class first))
               in Migrate (r\<lparr>next_probe_unix_ms := now\<rparr>)))"

section \<open>Recovery runs\<close>

datatype recovery_event = Probe recovery_probe "64 word" | Canary canary_outcome "64 word"

text \<open>\<open>recovering r0 h r\<close>: the worker whose bypass began with the record \<open>r0\<close> is still bypassed after the events \<open>h\<close>,
  newest first, and \<open>r\<close> is the record kept.\<close>

inductive recovering :: "bypass_record \<Rightarrow> recovery_event list \<Rightarrow> bypass_record \<Rightarrow> bool" for r0 :: bypass_record where
  fresh: "recovering r0 [] r0"
| stay: "recovering r0 h r \<Longrightarrow> decide_probe r p now = StayBypassed d r' \<Longrightarrow> recovering r0 (Probe p now # h) r'"
| keep: "recovering r0 h r \<Longrightarrow> decide_probe r p now = KeepProbing n m r' \<Longrightarrow> recovering r0 (Probe p now # h) r'"
| ready: "recovering r0 h r \<Longrightarrow> decide_probe r p now = ReadyForCanary r' \<Longrightarrow> recovering r0 (Probe p now # h) r'"
| relapse: "recovering r0 h r \<Longrightarrow> bp_state r = RecoveredPendingCanary \<Longrightarrow> decide_canary r o' now = Relapse r' \<Longrightarrow>
    recovering r0 (Canary o' now # h) r'"


fun healthy_event :: "recovery_event \<Rightarrow> bool" where
  "healthy_event (Probe p now) = fully_healthy p"
| "healthy_event (Canary o' now) = False"

definition healthy_streak :: "recovery_event list \<Rightarrow> nat" where
  "healthy_streak h = length (takeWhile healthy_event h)"

definition setbacks :: "recovery_event list \<Rightarrow> nat" where
  "setbacks h = length (filter (\<lambda>e. \<not> healthy_event e) h)"

definition event_time :: "recovery_event \<Rightarrow> 64 word" where
  "event_time e = (case e of Probe p now \<Rightarrow> now | Canary o' now \<Rightarrow> now)"

definition bypass_begin :: "string \<Rightarrow> string \<Rightarrow> string \<Rightarrow> bypass_failure_class \<Rightarrow> 64 word \<Rightarrow> auto_rejoin_criteria \<Rightarrow> bypass_record" where
  "bypass_begin worker host user class t c = with_auto_rejoin c (bypass_record_new worker host user class t)"

text \<open>What the record says of the events so far.\<close>

definition recovery_inv :: "auto_rejoin_criteria \<Rightarrow> recovery_event list \<Rightarrow> bypass_record \<Rightarrow> bool" where
  "recovery_inv c h r \<longleftrightarrow>
     auto_rejoin r = c \<and>
     unat (consecutive_passes r) = min (healthy_streak h) (2 ^ 32 - 1) \<and>
     (bp_state r = RecoveredPendingCanary \<longrightarrow>
        canary_required c \<and> 0 < healthy_streak h \<and> required_consecutive_passes c \<le> consecutive_passes r) \<and>
     max_ms (backoff r) = DEFAULT_MAX_MS \<and>
     unat (current_ms (backoff r)) = min 900000 (30000 * 2 ^ setbacks h)"

lemma streak_simps [simp]:
  "healthy_streak [] = 0"
  "healthy_event e \<Longrightarrow> healthy_streak (e # h) = Suc (healthy_streak h)"
  "\<not> healthy_event e \<Longrightarrow> healthy_streak (e # h) = 0"
  "setbacks [] = 0"
  "healthy_event e \<Longrightarrow> setbacks (e # h) = setbacks h"
  "\<not> healthy_event e \<Longrightarrow> setbacks (e # h) = Suc (setbacks h)"
  by (simp_all add: healthy_streak_def setbacks_def)

lemma unat_saturating_mul:
  "unat (saturating_mul a b) = min (unat a * unat b) (2 ^ LENGTH('a) - 1)" for a b :: "'a :: len word"
proof (cases "unat a * unat b < 2 ^ LENGTH('a)")
  case True
  then show ?thesis by (simp add: saturating_mul_def unat_word_ariths)
qed (simp add: saturating_mul_def)

lemma saturating_add_ge: "a \<le> saturating_add a b"
proof -
  have "unat a \<le> 2 ^ LENGTH('a) - 1" using unat_bound [of a] by linarith
  then show ?thesis by (simp add: word_le_nat_alt unat_saturating_add)
qed

lemma backoff_step:
  assumes "max_ms b = DEFAULT_MAX_MS" and "unat (current_ms b) = min 900000 (30000 * 2 ^ n)"
  shows "unat (current_ms (backoff_advanced b)) = min 900000 (30000 * 2 ^ Suc n)"
proof -
  have cur: "unat (current_ms b) \<le> 900000" using assms(2) by simp
  then have dbl: "unat (saturating_mul (current_ms b) 2) = 2 * unat (current_ms b)" by (simp add: unat_saturating_mul)
  have mx: "unat (max_ms b) = 900000" by (simp add: assms(1) DEFAULT_MAX_MS_def)
  have "unat (current_ms (backoff_advanced b)) = min 900000 (2 * unat (current_ms b))"
    using dbl mx by (simp add: backoff_advanced_def Let_def word_less_nat_alt)
  with assms(2) show ?thesis by simp
qed

lemma inv_failure:
  assumes "recovery_inv c h r" and "\<not> healthy_event e"
  shows "recovery_inv c (e # h) (bypass_record_failure now d r)"
proof -
  have "unat (current_ms (backoff_advanced (backoff r))) = min 900000 (30000 * 2 ^ Suc (setbacks h))"
    by (rule backoff_step) (use assms(1) in \<open>simp_all add: recovery_inv_def\<close>)
  moreover have "max_ms (backoff_advanced (backoff r)) = DEFAULT_MAX_MS"
    using assms(1) by (simp add: recovery_inv_def backoff_advanced_def Let_def)
  ultimately show ?thesis using assms by (simp add: recovery_inv_def bypass_record_failure_def Let_def)
qed

lemma inv_pass:
  assumes "recovery_inv c h r" and "healthy_event e" and "record_probe_pass now r = (met, r')"
  shows "recovery_inv c (e # h) r'" and "met \<longleftrightarrow> required_consecutive_passes c \<le> consecutive_passes r'"
proof -
  have grow: "consecutive_passes r \<le> saturating_add (consecutive_passes r) 1" by (rule saturating_add_ge)
  have "unat (saturating_add (consecutive_passes r) 1) = min (Suc (healthy_streak h)) (2 ^ 32 - 1)"
    using assms(1) by (simp add: recovery_inv_def unat_saturating_add)
  with assms grow show "recovery_inv c (e # h) r'"
    by (auto simp: recovery_inv_def record_probe_pass_def Let_def split: if_splits)
  show "met \<longleftrightarrow> required_consecutive_passes c \<le> consecutive_passes r'"
    using assms by (auto simp: recovery_inv_def record_probe_pass_def Let_def)
qed

lemma decide_probe_sick: "\<not> fully_healthy p \<Longrightarrow> \<exists>d s. decide_probe r p now = StayBypassed d (bypass_record_failure now s r)"
  by (auto simp: decide_probe_def Let_def)

lemma decide_probe_well:
  assumes "fully_healthy p" and "record_probe_pass now r = (met, r')"
  shows "decide_probe r p now =
    (if \<not> met then KeepProbing (consecutive_passes r') (required_consecutive_passes (auto_rejoin r')) r'
     else if canary_required (auto_rejoin r') then ReadyForCanary r' else Rejoin)"
  using assms by (simp add: decide_probe_def)

lemma inv_probe:
  assumes "recovery_inv c h r"
    and "decide_probe r p now \<in> {StayBypassed d r', KeepProbing n m r', ReadyForCanary r'}"
  shows "recovery_inv c (Probe p now # h) r'"
proof (cases "fully_healthy p")
  case True
  obtain met r1 where pass: "record_probe_pass now r = (met, r1)" by fastforce
  have "recovery_inv c (Probe p now # h) r1" by (rule inv_pass(1) [OF assms(1) _ pass]) (simp add: True)
  with assms(2) decide_probe_well [OF True pass] show ?thesis by (auto split: if_splits)
next
  case False
  with decide_probe_sick [OF False, of r now] assms inv_failure [OF assms(1), of "Probe p now"] show ?thesis by auto
qed

lemma inv_begin: "recovery_inv c [] (bypass_begin worker host user class t c)"
  by (simp add: recovery_inv_def bypass_begin_def with_auto_rejoin_def bypass_record_new_def backoff_initial_def
    DEFAULT_INITIAL_MS_def DEFAULT_MAX_MS_def)

lemma recovering_inv:
  "recovering r0 h r \<Longrightarrow> recovery_inv c [] r0 \<Longrightarrow> recovery_inv c h r"
proof (induction rule: recovering.induct)
  case (relapse h r o' now r')
  then show ?case by (cases o') (auto simp: decide_canary_def intro: inv_failure)
qed (auto intro: inv_probe)






section \<open>Properties\<close>



text \<open>The probe schedule is bounded: after \<open>n\<close> setbacks the window is the initial 30 seconds doubled \<open>n\<close> times, at most
  15 minutes, and the next probe is due exactly one window after the latest event (or at the end of time).\<close>

theorem bypass_backoff_bounded:
  assumes "recovering (bypass_begin worker host user class t c) h r"
  shows "unat (current_ms (backoff r)) = min 900000 (30000 * 2 ^ setbacks h) \<and>
    next_probe_unix_ms r = saturating_add (if h = [] then t else event_time (hd h)) (current_ms (backoff r))"
proof
  show "unat (current_ms (backoff r)) = min 900000 (30000 * 2 ^ setbacks h)"
    using recovering_inv [OF assms inv_begin] by (simp add: recovery_inv_def)
  show "next_probe_unix_ms r = saturating_add (if h = [] then t else event_time (hd h)) (current_ms (backoff r))"
    using assms
    by cases (auto simp: bypass_begin_def with_auto_rejoin_def bypass_record_new_def decide_probe_def bypass_record_failure_def
      record_probe_pass_def decide_canary_def event_time_def Let_def split: if_splits canary_outcome.splits)
qed

text \<open>The store on disk is the store in memory. After a successful upsert a restart loads exactly the map held in
  memory: the worker's new record, and every other record as it was; a removal takes out exactly that worker. (The JSON
  document written for a list of records reads back as that list.)\<close>

theorem bypass_store_durable:
  assumes "store_wf bp_worker_id m" and "\<forall>rs body. to_vec rs = Some body \<longrightarrow> from_slice body = Some rs"
    and "store_upsert bp_worker_id to_vec io r m file = (Inr (), m1, file1)"
    and "store_remove to_vec io' w m1 file1 = (Inr removed, m2, file2)"
  shows "store_load bp_worker_id from_slice file1 = m1 \<and> store_load bp_worker_id from_slice file2 = m2 \<and>
    map_of m1 = (map_of m)(bp_worker_id r \<mapsto> r) \<and> removed = store_get w m1 \<and> map_of m2 = (map_of m1)(w := None)"
proof -
  from assms(3) have m1: "m1 = btree_insert (bp_worker_id r) r m" "store_persist to_vec io m1 file = (Inr (), file1)"
    by (auto simp: store_upsert_def Let_def split: prod.splits)
  have wf1: "store_wf bp_worker_id m1" unfolding m1(1) by (rule store_wf_insert [OF assms(1)])
  have ld1: "store_load bp_worker_id from_slice file1 = m1" by (rule load_persisted [OF wf1 m1(2) assms(2)])
  have mp1: "map_of m1 = (map_of m)(bp_worker_id r \<mapsto> r)"
    using assms(1) by (simp add: m1(1) map_of_btree_insert store_wf_def)
  have rm: "removed = store_get w m1 \<and> m2 = filter (\<lambda>e. fst e \<noteq> w) m1 \<and>
      (m2 = m1 \<and> file2 = file1 \<or> store_persist to_vec io' m2 file1 = (Inr (), file2))"
  proof (cases "map_of m1 w")
    case None
    then have "filter (\<lambda>e. fst e \<noteq> w) m1 = m1" by (auto simp: map_of_eq_None_iff filter_id_conv)
    with None assms(4) show ?thesis by (simp add: store_remove_def store_get_def)
  next
    case (Some x)
    with assms(4) show ?thesis by (auto simp: store_remove_def store_get_def Let_def split: prod.splits sum.splits)
  qed
  have wf2: "store_wf bp_worker_id m2"
    using wf1 conjunct1 [OF conjunct2 [OF rm]] by (auto simp: store_wf_def list_all_iff sorted_wrt_map sorted_wrt_filter)
  have "store_load bp_worker_id from_slice file2 = m2" using rm ld1 load_persisted [OF wf2 _ assms(2)] by metis
  moreover have "map_of m2 = (map_of m1)(w := None)" using rm by (simp add: map_of_filter_key)
  ultimately show ?thesis using ld1 mp1 rm by simp
qed

section \<open>Examples\<close>

definition sample_criteria :: auto_rejoin_criteria where
  "sample_criteria = \<lparr>required_consecutive_passes = 1, canary_required = True\<rparr>"

definition sample_bypass :: bypass_record where
  "sample_bypass = bypass_begin ''w1'' ''h'' ''u'' Ssh 1000 sample_criteria"

lemma all_ok_healthy [simp]: "fully_healthy all_ok"
  by (simp add: fully_healthy_def all_ok_def)




theorem bypass_backoff_bounded_witness:
  "unat (current_ms (backoff sample_bypass)) = 30000 \<and> next_probe_unix_ms sample_bypass = saturating_add 1000 30000"
  using bypass_backoff_bounded [OF recovering.fresh, of "''w1''" "''h''" "''u''" Ssh 1000 sample_criteria]
  by (simp add: sample_bypass_def bypass_begin_def with_auto_rejoin_def bypass_record_new_def backoff_initial_def
    DEFAULT_INITIAL_MS_def)

text \<open>A document that is the word \<open>one\<close> for the sample record alone, and the word \<open>none\<close> for no record.\<close>

definition sample_to_vec :: "bypass_record list \<Rightarrow> string option" where
  "sample_to_vec rs = (if rs = [sample_bypass] then Some ''one'' else if rs = [] then Some ''none'' else None)"

definition sample_from_slice :: "string \<Rightarrow> bypass_record list option" where
  "sample_from_slice s = (if s = ''one'' then Some [sample_bypass] else if s = ''none'' then Some [] else None)"

theorem bypass_store_durable_witness:
  "store_load bp_worker_id sample_from_slice (Some ''one'') = [(''w1'', sample_bypass)] \<and>
   store_load bp_worker_id sample_from_slice (Some ''none'') = []"
proof -
  have id: "bp_worker_id sample_bypass = ''w1''"
    by (simp add: sample_bypass_def bypass_begin_def with_auto_rejoin_def bypass_record_new_def)
  have wf: "store_wf bp_worker_id []" by (simp add: store_wf_def)
  have rt: "\<forall>rs body. sample_to_vec rs = Some body \<longrightarrow> sample_from_slice body = Some rs"
    by (auto simp: sample_to_vec_def sample_from_slice_def split: if_splits)
  have up: "store_upsert bp_worker_id sample_to_vec store_no_faults sample_bypass [] None =
      (Inr (), [(''w1'', sample_bypass)], Some ''one'')"
    by (simp add: store_upsert_def store_persist_def store_no_faults_def sample_to_vec_def id)
  have rm: "store_remove sample_to_vec store_no_faults ''w1'' [(''w1'', sample_bypass)] (Some ''one'') =
      (Inr (Some sample_bypass), [], Some ''none'')"
    by (simp add: store_remove_def store_persist_def store_no_faults_def sample_to_vec_def)
  from bypass_store_durable [OF wf rt up rm] show ?thesis by simp
qed

text \<open>The cut keeps 512 characters and adds one.\<close>

lemma char_count_cut: "n \<le> char_count s \<Longrightarrow> char_count (take (char_offset n s) s) = n"
proof (induction n s rule: char_offset.induct)
  case (2 n c cs)
  then show ?case by (cases "is_continuation c") (auto simp: char_count_def)
qed (simp add: char_count_def)

lemma truncated_diagnostic_chars:
  assumes "MAX_DIAGNOSTIC_CHARS < char_count s"
  shows "char_count (truncate_diagnostic s) = Suc MAX_DIAGNOSTIC_CHARS"
proof -
  have "char_count (a @ b) = char_count a + char_count b" for a b by (simp add: char_count_def)
  moreover have "char_count ellipsis = 1" by code_simp
  ultimately show ?thesis using assms char_count_cut [of MAX_DIAGNOSTIC_CHARS s] by (simp add: truncate_diagnostic_def)
qed

text \<open>A worker without a recorded reason, or with one that matches no needle, stays disabled; but a needle inside a longer
  word is enough, so an operator's own reason can put a worker back on probation.\<close>

lemma migration_needs_needle:
  "(\<exists>r. migrate_disabled_worker s now = Migrate r) \<longleftrightarrow>
   (\<exists>reason. disabled_reason s = Some reason \<and> classify_disable_reason reason \<noteq> None)"
  by (auto simp: migrate_disabled_worker_def Let_def split: option.splits)

lemma operator_reason_migrates: "classify_disable_reason ''retired by its author'' = Some Ssh"
  by code_simp

end
