(* ===== verification/Reclaim.thy ===== *)
theory Reclaim
  imports Incident_Ledger Queue_Contract
begin

text \<open>
  What may be deleted and what a stuck wrapper is told: the path guards of \<open>rch-common/src/stale_target_reap.rs\<close>,
  the reclaim planner of \<open>rch-common/src/disk_reclaim.rs\<close>, and the stuck-wrapper classifier of
  \<open>rch-common/src/job_recovery.rs\<close> over the lifecycle states of the job identity. The plan is pure in the sources:
  the sizes, idle times and activity of a candidate are its fields. The containment of a planned path in a managed
  root is stated on the directories the path names, with \<open>..\<close> popping one.
\<close>

section \<open>Path guards\<close>

definition is_ascii_alphanumeric :: "char \<Rightarrow> bool" where
  "is_ascii_alphanumeric c \<longleftrightarrow>
     (let n = of_char c :: nat in 48 \<le> n \<and> n \<le> 57 \<or> 65 \<le> n \<and> n \<le> 90 \<or> 97 \<le> n \<and> n \<le> 122)"

definition is_safe_reap_char :: "char \<Rightarrow> bool" where
  "is_safe_reap_char c \<longleftrightarrow> is_ascii_alphanumeric c \<or> c \<in> set ''/-_.''"

definition slash_count :: "string \<Rightarrow> nat" where
  "slash_count s = length (filter (\<lambda>c. c = CHR ''/'') s)"

definition trim_end_slashes :: "string \<Rightarrow> string" where
  "trim_end_slashes s = rev (dropWhile (\<lambda>c. c = CHR ''/'') (rev s))"

definition is_safe_reap_path :: "string \<Rightarrow> bool" where
  "is_safe_reap_path s \<longleftrightarrow>
     starts_with s ''/'' \<and> 2 \<le> slash_count s \<and> \<not> contains_str s ''..'' \<and> length s \<le> 4096 \<and> list_all is_safe_reap_char s"

definition is_safe_reap_base :: "string \<Rightarrow> bool" where
  "is_safe_reap_base s \<longleftrightarrow>
     starts_with s ''/'' \<and> 1 \<le> slash_count s \<and> 1 < length (trim_end_slashes s) \<and> \<not> contains_str s ''..'' \<and>
     length s \<le> 4096 \<and> list_all is_safe_reap_char s"

definition is_safe_reap_token :: "string \<Rightarrow> bool" where
  "is_safe_reap_token s \<longleftrightarrow>
     s \<noteq> [] \<and> s \<noteq> ''.'' \<and> s \<noteq> ''..'' \<and> CHR ''/'' \<notin> set s \<and> length s \<le> 255 \<and> list_all is_safe_reap_char s"

definition MIN_IDLE_HOURS :: "32 word" where
  "MIN_IDLE_HOURS = 1"

definition idle_minutes_from_hours :: "32 word \<Rightarrow> 64 word" where
  "idle_minutes_from_hours h = ucast (max h MIN_IDLE_HOURS) * 60"

text \<open>No character of a guarded path ends or escapes a double-quoted shell word, or is a pattern.\<close>

definition shell_meta :: string where
  "shell_meta = [CHR 0x22, CHR 0x24, CHR 0x27, CHR 0x5C, CHR 0x60, CHR 0x0A, CHR 0x20, CHR 0x21] @ '';|&<>()*?[]{}~#''"

lemma shell_meta_unsafe: "list_all (\<lambda>c. \<not> is_safe_reap_char c) shell_meta"
  by code_simp

lemma safe_path_no_meta: "is_safe_reap_path s \<Longrightarrow> set s \<inter> set shell_meta = {}"
  using shell_meta_unsafe by (auto simp: is_safe_reap_path_def list_all_iff)

lemma unat_idle_minutes: "unat (idle_minutes_from_hours h) = max (unat h) 1 * 60"
proof -
  have "unat (max h MIN_IDLE_HOURS) = max (unat h) 1"
    by (auto simp: MIN_IDLE_HOURS_def max_def word_le_nat_alt)
  moreover have "unat (max h MIN_IDLE_HOURS) < 2 ^ 32" using unat_bound [of "max h MIN_IDLE_HOURS"] by simp
  moreover from this have "unat (ucast (max h MIN_IDLE_HOURS) :: 64 word) = unat (max h MIN_IDLE_HOURS)"
    by (simp add: unsigned_ucast_eq take_bit_nat_eq_self)
  ultimately show ?thesis by (simp add: idle_minutes_from_hours_def unat_word_ariths)
qed

section \<open>The reclaim plan\<close>

datatype reclaim_category = StaleTargetDir | StaleCargoHome | LogRotation | OperatorRequiredManual

datatype reclaim_skip_reason = ActiveBuild | UnmanagedRoot | UnsafePath | NotStale | OperatorRequired

datatype reclaim_decision = Reclaim | Skip reclaim_skip_reason

definition is_reclaim :: "reclaim_decision \<Rightarrow> bool" where
  "is_reclaim d \<longleftrightarrow> d = Reclaim"

record reclaim_candidate =
  cand_path :: string
  cand_category :: reclaim_category
  cand_bytes :: "64 word"
  cand_inodes :: "64 word"
  idle_minutes :: "64 word"
  active_build :: bool

record reclaim_policy =
  managed_roots :: "string list"
  min_idle_minutes :: "64 word"

definition reclaim_policy_new :: "string list \<Rightarrow> 32 word \<Rightarrow> reclaim_policy" where
  "reclaim_policy_new roots idle_hours = \<lparr>managed_roots = roots, min_idle_minutes = idle_minutes_from_hours idle_hours\<rparr>"

definition is_within_managed_root :: "reclaim_policy \<Rightarrow> string \<Rightarrow> bool" where
  "is_within_managed_root policy path \<longleftrightarrow>
     list_ex (\<lambda>root. let root = trim_end_slashes root
        in root \<noteq> [] \<and> (path = root \<or> starts_with path (root @ ''/''))) (managed_roots policy)"

definition decide_candidate :: "reclaim_candidate \<Rightarrow> reclaim_policy \<Rightarrow> reclaim_decision" where
  "decide_candidate c policy =
     (if \<not> is_safe_reap_path (cand_path c) then Skip UnsafePath
      else if \<not> is_within_managed_root policy (cand_path c) then Skip UnmanagedRoot
      else if active_build c then Skip ActiveBuild
      else if cand_category c = OperatorRequiredManual then Skip OperatorRequired
      else if idle_minutes c < min_idle_minutes policy then Skip NotStale
      else Reclaim)"

record path_receipt =
  rcpt_path :: string
  rcpt_category :: reclaim_category
  rcpt_decision :: reclaim_decision
  rcpt_bytes :: "64 word"
  rcpt_inodes :: "64 word"

record reclaim_receipt =
  rcpt_managed_roots :: "string list"
  rcpt_min_idle_minutes :: "64 word"
  rcpt_paths :: "path_receipt list"
  planned_bytes :: "64 word"
  planned_inodes :: "64 word"
  actual_bytes :: "64 word option"
  actual_inodes :: "64 word option"

definition receipt_for :: "reclaim_policy \<Rightarrow> reclaim_candidate \<Rightarrow> path_receipt" where
  "receipt_for policy c =
     \<lparr>rcpt_path = cand_path c, rcpt_category = cand_category c, rcpt_decision = decide_candidate c policy,
      rcpt_bytes = cand_bytes c, rcpt_inodes = cand_inodes c\<rparr>"

fun plan_loop ::
  "reclaim_policy \<Rightarrow> reclaim_candidate list \<Rightarrow> path_receipt list \<times> 64 word \<times> 64 word
    \<Rightarrow> path_receipt list \<times> 64 word \<times> 64 word" where
  "plan_loop policy [] acc = acc"
| "plan_loop policy (c # cs) (paths, bytes, inodes) =
     plan_loop policy cs
       (paths @ [receipt_for policy c],
        (if is_reclaim (decide_candidate c policy) then saturating_add bytes (cand_bytes c) else bytes),
        (if is_reclaim (decide_candidate c policy) then saturating_add inodes (cand_inodes c) else inodes))"

definition plan_reclaim :: "reclaim_candidate list \<Rightarrow> reclaim_policy \<Rightarrow> reclaim_receipt" where
  "plan_reclaim cs policy =
     (let (paths, bytes, inodes) = plan_loop policy cs ([], 0, 0)
      in \<lparr>rcpt_managed_roots = managed_roots policy, rcpt_min_idle_minutes = min_idle_minutes policy, rcpt_paths = paths,
          planned_bytes = bytes, planned_inodes = inodes, actual_bytes = None, actual_inodes = None\<rparr>)"

definition reclaimable_paths :: "reclaim_receipt \<Rightarrow> string list" where
  "reclaimable_paths r = map rcpt_path (filter (\<lambda>p. is_reclaim (rcpt_decision p)) (rcpt_paths r))"

definition skipped_for :: "reclaim_skip_reason \<Rightarrow> reclaim_receipt \<Rightarrow> string list" where
  "skipped_for reason r = map rcpt_path (filter (\<lambda>p. rcpt_decision p = Skip reason) (rcpt_paths r))"

definition protected_active :: "reclaim_receipt \<Rightarrow> string list" where
  "protected_active r = skipped_for ActiveBuild r"

definition finalize :: "64 word \<Rightarrow> 64 word \<Rightarrow> reclaim_receipt \<Rightarrow> reclaim_receipt" where
  "finalize bytes inodes r = r\<lparr>actual_bytes := Some bytes, actual_inodes := Some inodes\<rparr>"

definition show_u64 :: "64 word \<Rightarrow> string" where
  "show_u64 w = show_nat (unat w)"

definition to_incident_event :: "string \<Rightarrow> 64 word \<Rightarrow> reclaim_receipt \<Rightarrow> incident_event" where
  "to_incident_event project at r =
     (let event = incident_with_detail ''skipped_unmanaged'' (show_nat (length (skipped_for UnmanagedRoot r)))
            (incident_with_detail ''protected_active'' (show_nat (length (protected_active r)))
            (incident_with_detail ''reclaimable'' (show_nat (length (reclaimable_paths r)))
            (incident_with_detail ''planned_inodes'' (show_u64 (planned_inodes r))
            (incident_with_detail ''planned_bytes'' (show_u64 (planned_bytes r))
            (with_control (control_state_default\<lparr>target_dir_policy := Some ''reclaim''\<rparr>)
            (incident_event_new WorkerLifecycle DiskFull DaemonSource project ''disk_reclaim'' LocalMode True at))))));
          event = (case actual_bytes r of Some b \<Rightarrow> incident_with_detail ''actual_bytes'' (show_u64 b) event | None \<Rightarrow> event)
      in case actual_inodes r of Some i \<Rightarrow> incident_with_detail ''actual_inodes'' (show_u64 i) event | None \<Rightarrow> event)"

definition render_receipt :: "reclaim_receipt \<Rightarrow> string" where
  "render_receipt r =
     ''reclaim: '' @ show_nat (length (reclaimable_paths r)) @ '' path(s) reclaimable, '' @ show_u64 (planned_bytes r)
       @ '' planned bytes, '' @ show_nat (length (protected_active r)) @ '' protected (active), ''
       @ show_nat (length (skipped_for UnmanagedRoot r)) @ '' unmanaged-skipped''"

section \<open>Stuck wrappers\<close>

record wrapper_state =
  ws_job_state :: job_lifecycle_state
  local_wrapper_waiting :: bool
  remote_absent :: bool
  reservation_failed_after_admission :: bool
  artifacts_pending :: bool

definition waiting_on :: "job_lifecycle_state \<Rightarrow> wrapper_state" where
  "waiting_on st =
     \<lparr>ws_job_state = st, local_wrapper_waiting = True, remote_absent = False, reservation_failed_after_admission = False,
      artifacts_pending = False\<rparr>"

datatype stuck_class =
    NotStuck
  | RemoteFinishedLocalWaiting
  | ArtifactRetrievalStuck
  | ReservationFailedAfterAdmission
  | DaemonForgotJob
  | AbandonedClass
  | NeverAdmitted

datatype recovery_action = NoneNeeded | Attach | CancelAction | Recover

definition is_stuck :: "stuck_class \<Rightarrow> bool" where
  "is_stuck c \<longleftrightarrow> c \<noteq> NotStuck"

fun recommended_action :: "stuck_class \<Rightarrow> recovery_action" where
  "recommended_action NotStuck = NoneNeeded"
| "recommended_action RemoteFinishedLocalWaiting = Attach"
| "recommended_action ArtifactRetrievalStuck = Recover"
| "recommended_action DaemonForgotJob = Recover"
| "recommended_action ReservationFailedAfterAdmission = CancelAction"
| "recommended_action AbandonedClass = CancelAction"
| "recommended_action NeverAdmitted = CancelAction"

fun stuck_reason_code :: "stuck_class \<Rightarrow> incident_reason_code option" where
  "stuck_reason_code NotStuck = None"
| "stuck_reason_code ArtifactRetrievalStuck = Some ArtifactMiss"
| "stuck_reason_code RemoteFinishedLocalWaiting = Some QueueAmbiguity"
| "stuck_reason_code ReservationFailedAfterAdmission = Some QueueAmbiguity"
| "stuck_reason_code DaemonForgotJob = Some QueueAmbiguity"
| "stuck_reason_code AbandonedClass = Some QueueAmbiguity"
| "stuck_reason_code NeverAdmitted = Some QueueAmbiguity"

record offered_commands =
  offer_attach :: "string option"
  offer_cancel :: "string option"
  offer_recover :: "string option"

definition jobs_command :: "string \<Rightarrow> string \<Rightarrow> string" where
  "jobs_command verb handle = ''rch jobs '' @ verb @ '' '' @ handle"

fun for_action :: "recovery_action \<Rightarrow> string \<Rightarrow> offered_commands" where
  "for_action NoneNeeded handle = \<lparr>offer_attach = None, offer_cancel = None, offer_recover = None\<rparr>"
| "for_action Attach handle =
     \<lparr>offer_attach = Some (jobs_command ''attach'' handle), offer_cancel = Some (jobs_command ''cancel'' handle),
      offer_recover = None\<rparr>"
| "for_action Recover handle =
     \<lparr>offer_attach = None, offer_cancel = Some (jobs_command ''cancel'' handle),
      offer_recover = Some (jobs_command ''recover'' handle)\<rparr>"
| "for_action CancelAction handle =
     \<lparr>offer_attach = None, offer_cancel = Some (jobs_command ''cancel'' handle),
      offer_recover = Some (jobs_command ''recover'' handle)\<rparr>"

definition classify_stuck_wrapper :: "wrapper_state \<Rightarrow> stuck_class" where
  "classify_stuck_wrapper s =
     (if \<not> local_wrapper_waiting s then NotStuck
      else if ws_job_state s = Finished then
        (if artifacts_pending s then ArtifactRetrievalStuck else RemoteFinishedLocalWaiting)
      else if reservation_failed_after_admission s then ReservationFailedAfterAdmission
      else if remote_absent s then DaemonForgotJob
      else case ws_job_state s of
        Abandoned \<Rightarrow> AbandonedClass
      | FailedBeforeAdmissionState \<Rightarrow> NeverAdmitted
      | QueuedState \<Rightarrow> NotStuck
      | Running \<Rightarrow> NotStuck
      | Finished \<Rightarrow> NotStuck)"

fun stuck_detail :: "stuck_class \<Rightarrow> string" where
  "stuck_detail NotStuck = ''wrapper is waiting on a healthy job; no recovery needed''"
| "stuck_detail RemoteFinishedLocalWaiting =
     ''remote build finished while the local wrapper was still waiting; attach to collect the result''"
| "stuck_detail ArtifactRetrievalStuck =
     ''build succeeded but artifact retrieval is stuck; recover to re-retrieve artifacts''"
| "stuck_detail ReservationFailedAfterAdmission =
     ''job was admitted but its reservation failed; cancel to release it cleanly''"
| "stuck_detail DaemonForgotJob =
     ''daemon no longer recognizes this job (likely restarted); recover to re-resolve its state''"
| "stuck_detail AbandonedClass =
     ''job heartbeat went stale with no completion; presumed dead '' @ em_dash @ '' cancel''"
| "stuck_detail NeverAdmitted =
     ''wrapper is waiting on a command that never passed admission; cancel to stop waiting''"

record stuck_wrapper_warning =
  warn_job :: job_identity
  stuck :: bool
  stuck_class :: stuck_class
  warn_action :: recovery_action
  warn_reason_code :: "incident_reason_code option"
  offered :: offered_commands
  warn_detail :: string

definition diagnose_stuck_wrapper :: "job_identity \<Rightarrow> wrapper_state \<Rightarrow> stuck_wrapper_warning" where
  "diagnose_stuck_wrapper job s =
     (let c = classify_stuck_wrapper s; a = recommended_action c
      in \<lparr>warn_job = job, stuck = is_stuck c, stuck_class = c, warn_action = a, warn_reason_code = stuck_reason_code c,
          offered = for_action a (local_wrapper_id job), warn_detail = stuck_detail c\<rparr>)"

section \<open>Where a path leads\<close>

fun path_segments_from :: "string \<Rightarrow> string \<Rightarrow> string list" where
  "path_segments_from acc [] = [acc]"
| "path_segments_from acc (c # cs) =
     (if c = CHR ''/'' then acc # path_segments_from [] cs else path_segments_from (acc @ [c]) cs)"

text \<open>The directory a path without links leads to: empty segments and \<open>.\<close> stay, \<open>..\<close> goes up.\<close>

definition enter_segment :: "string list \<Rightarrow> string \<Rightarrow> string list" where
  "enter_segment dir seg = (if seg = [] \<or> seg = ''.'' then dir else if seg = ''..'' then butlast dir else dir @ [seg])"

definition leads_to :: "string \<Rightarrow> string list" where
  "leads_to path = foldl enter_segment [] (path_segments_from [] path)"

lemma segments_split: "path_segments_from acc (a @ CHR ''/'' # b) = path_segments_from acc a @ path_segments_from [] b"
  by (induction a arbitrary: acc) auto

lemma segments_sublist: "seg \<in> set (path_segments_from acc s) \<Longrightarrow> sublist seg (acc @ s)"
proof (induction s arbitrary: acc)
  case (Cons c cs)
  show ?case
  proof (cases "c = CHR ''/''")
    case True
    with Cons.prems consider "seg = acc" | "seg \<in> set (path_segments_from [] cs)" by auto
    then show ?thesis
    proof cases
      case 2
      from Cons.IH [OF this] obtain x y where "cs = x @ seg @ y" by (auto simp: sublist_def)
      then have "acc @ c # cs = (acc @ c # x) @ seg @ y" by simp
      then show ?thesis unfolding sublist_def by blast
    qed simp
  next
    case False
    with Cons.prems have "seg \<in> set (path_segments_from (acc @ [c]) cs)" by simp
    from Cons.IH [OF this] show ?thesis by simp
  qed
qed simp

lemma foldl_enter: "''..'' \<notin> set segs \<Longrightarrow> foldl enter_segment dir segs = dir @ filter (\<lambda>s. s \<noteq> [] \<and> s \<noteq> ''.'') segs"
  by (induction segs arbitrary: dir) (auto simp: enter_segment_def)

lemma below_root:
  assumes "\<not> contains_str path ''..''" and "path = root \<or> starts_with path (root @ ''/'')"
  shows "prefix (leads_to root) (leads_to path)"
proof -
  have up: "''..'' \<notin> set (path_segments_from [] path)" using assms(1) segments_sublist [of "''..''" "[]" path] by (auto simp: contains_str_iff)
  from assms(2) show ?thesis
  proof
    assume "starts_with path (root @ ''/'')"
    then obtain rest where "path = root @ CHR ''/'' # rest" by (auto simp: starts_with_iff prefix_def)
    with up show ?thesis by (simp add: leads_to_def segments_split foldl_enter)
  qed simp
qed

section \<open>Properties\<close>

lemma plan_loop_eq:
  "plan_loop policy cs (paths, b, i) =
     (let rs = filter (\<lambda>c. is_reclaim (decide_candidate c policy)) cs
      in (paths @ map (receipt_for policy) cs, foldl saturating_add b (map cand_bytes rs),
          foldl saturating_add i (map cand_inodes rs)))"
  by (induction cs arbitrary: paths b i) (auto simp: Let_def)

lemma unat_saturating_sum:
  "unat (foldl saturating_add b ws) = min (unat b + (\<Sum>w \<leftarrow> ws. unat w)) (2 ^ LENGTH('a) - 1)" for b :: "'a :: len word"
proof (induction ws arbitrary: b)
  case Nil
  have "unat b \<le> 2 ^ LENGTH('a) - 1" using unat_bound [of b] by linarith
  then show ?case by simp
qed (simp add: unat_saturating_add)

lemma plan_reclaim_fields:
  "rcpt_paths (plan_reclaim cs policy) = map (receipt_for policy) cs"
  "planned_bytes (plan_reclaim cs policy) =
     foldl saturating_add 0 (map cand_bytes (filter (\<lambda>c. decide_candidate c policy = Reclaim) cs))"
  by (simp_all add: plan_reclaim_def plan_loop_eq Let_def is_reclaim_def)

lemma decide_reclaim:
  assumes "decide_candidate c policy = Reclaim"
  shows "is_safe_reap_path (cand_path c)" "is_within_managed_root policy (cand_path c)" "\<not> active_build c"
    "cand_category c \<noteq> OperatorRequiredManual" "min_idle_minutes policy \<le> idle_minutes c"
  using assms by (auto simp: decide_candidate_def split: if_splits)

text \<open>C20: Every path a reclaim plan offers for deletion belongs to a candidate that no active build covers, that needs no
  operator and has been idle for at least the configured hours and never less than one; its name cannot break out of a
  quoted shell word, and it leads into one of the managed roots. Every candidate has its receipt, and the planned bytes
  are the sum over the offered paths, held at the largest 64-bit number.\<close>

theorem reclaim_plan_safe:
  assumes "path \<in> set (reclaimable_paths (plan_reclaim cs (reclaim_policy_new roots hours)))"
  shows "\<exists>c root. c \<in> set cs \<and> cand_path c = path \<and> \<not> active_build c \<and> cand_category c \<noteq> OperatorRequiredManual \<and>
      60 * max (unat hours) 1 \<le> unat (idle_minutes c) \<and> set path \<inter> set shell_meta = {} \<and>
      root \<in> set roots \<and> trim_end_slashes root \<noteq> [] \<and> prefix (leads_to (trim_end_slashes root)) (leads_to path) \<and>
      map rcpt_path (rcpt_paths (plan_reclaim cs (reclaim_policy_new roots hours))) = map cand_path cs \<and>
      unat (planned_bytes (plan_reclaim cs (reclaim_policy_new roots hours))) =
        min (\<Sum>c \<leftarrow> filter (\<lambda>c. decide_candidate c (reclaim_policy_new roots hours) = Reclaim) cs. unat (cand_bytes c)) (2 ^ 64 - 1)"
proof -
  let ?pol = "reclaim_policy_new roots hours"
  from assms obtain c where c: "c \<in> set cs" "cand_path c = path" "decide_candidate c ?pol = Reclaim"
    by (auto simp: reclaimable_paths_def plan_reclaim_fields receipt_for_def is_reclaim_def)
  note d = decide_reclaim [OF c(3)]
  from d(2) c(2) obtain root where root: "root \<in> set roots" "trim_end_slashes root \<noteq> []"
    "path = trim_end_slashes root \<or> starts_with path (trim_end_slashes root @ ''/'')"
    by (auto simp: is_within_managed_root_def reclaim_policy_new_def list_ex_iff Let_def)
  have "\<not> contains_str path ''..''" using d(1) c(2) by (simp add: is_safe_reap_path_def)
  from below_root [OF this root(3)] have below: "prefix (leads_to (trim_end_slashes root)) (leads_to path)" .
  have "60 * max (unat hours) 1 \<le> unat (idle_minutes c)"
    using d(5) by (simp add: reclaim_policy_new_def word_le_nat_alt unat_idle_minutes mult.commute)
  with c d(3,4) safe_path_no_meta [OF d(1)] root(1,2) below show ?thesis
    by (auto simp: plan_reclaim_fields receipt_for_def unat_saturating_sum o_def intro!: exI [of _ c] exI [of _ root])
qed

definition sample_candidate :: reclaim_candidate where
  "sample_candidate =
     \<lparr>cand_path = ''/tmp/rch/p/.rch-target-w-job-1'', cand_category = StaleTargetDir, cand_bytes = 7, cand_inodes = 1,
      idle_minutes = 120, active_build = False\<rparr>"

lemma offered_alone:
  assumes "decide_candidate c policy = Reclaim"
  shows "reclaimable_paths (plan_reclaim [c] policy) = [cand_path c]"
  using assms by (simp add: reclaimable_paths_def plan_reclaim_fields receipt_for_def is_reclaim_def)

lemma sample_guards:
  "is_safe_reap_path ''/tmp/rch/p/.rch-target-w-job-1''" "is_safe_reap_path ''/tmp/rch''"
  by code_simp+

lemma sample_reclaimable:
  "reclaimable_paths (plan_reclaim [sample_candidate] (reclaim_policy_new [''/tmp/rch/''] 1)) = [cand_path sample_candidate]"
  by (rule offered_alone) (simp add: decide_candidate_def sample_candidate_def sample_guards is_within_managed_root_def
    reclaim_policy_new_def trim_end_slashes_def starts_with_def idle_minutes_from_hours_def MIN_IDLE_HOURS_def)

theorem reclaim_plan_safe_witness:
  "\<exists>root. root \<in> set [''/tmp/rch/''] \<and> prefix (leads_to (trim_end_slashes root)) (leads_to (cand_path sample_candidate))"
proof -
  have "cand_path sample_candidate \<in> set (reclaimable_paths (plan_reclaim [sample_candidate] (reclaim_policy_new [''/tmp/rch/''] 1)))"
    by (simp add: sample_reclaimable)
  from reclaim_plan_safe [OF this] show ?thesis by blast
qed

text \<open>The policy lets the root itself be a candidate: with the root's own path, all of it is offered.\<close>

lemma root_itself_offered:
  "reclaimable_paths (plan_reclaim [sample_candidate\<lparr>cand_path := ''/tmp/rch''\<rparr>] (reclaim_policy_new [''/tmp/rch''] 1)) = [''/tmp/rch'']"
  by (subst offered_alone) (simp_all add: decide_candidate_def sample_candidate_def sample_guards is_within_managed_root_def
    reclaim_policy_new_def trim_end_slashes_def starts_with_def idle_minutes_from_hours_def MIN_IDLE_HOURS_def)

text \<open>What a stuck wrapper is told fits the job. From the signals of the job record the wrapper is never told to cancel
  or recover a job that finished with its artifacts in place, only to attach; nor to attach or cancel a live job whose
  reservation holds and whom the daemon knows: it keeps waiting. Every stuck wrapper has a ledger code and a way out by
  \<open>cancel\<close>, and a wrapper that is not stuck is offered nothing.\<close>

lemma stuck_wrapper_advice:
  "let st = derive_job_lifecycle_state sig; s = (waiting_on st)\<lparr>remote_absent := absent,
         reservation_failed_after_admission := unreserved, artifacts_pending := pending\<rparr>;
       w = diagnose_stuck_wrapper job s
   in (warn_action w = Attach \<longleftrightarrow> signal_completed sig \<and> \<not> pending) \<and>
      (warn_action w = NoneNeeded \<longleftrightarrow>
         \<not> signal_completed sig \<and> signal_admitted sig \<and> \<not> signal_heartbeat_stale sig \<and> \<not> unreserved \<and> \<not> absent) \<and>
      (stuck w \<longleftrightarrow> warn_action w \<noteq> NoneNeeded) \<and> (stuck w \<longleftrightarrow> warn_reason_code w \<noteq> None) \<and>
      offer_cancel (offered w) = (if stuck w then Some (''rch jobs cancel '' @ local_wrapper_id job) else None)"
  by (auto simp: Let_def diagnose_stuck_wrapper_def classify_stuck_wrapper_def waiting_on_def derive_job_lifecycle_state_def
    is_stuck_def jobs_command_def)

end
