(* ===== verification/Spec2Isabelle.thy ===== *)
theory Spec2Isabelle
  imports Classifier Slot_Race Framing Breaker Transcript Fencing Serving Dependency_Plan Storm_Run Bypass Reclaim
begin

text \<open>
  A verification library for the remote compilation helper.

  \<^bold>\<open>The program.\<close> The helper intercepts the shell commands of coding agents and runs
  compilations on remote workers. It has two layers.

  The older one (crates \<open>rch\<close>, \<open>rchd\<close>, \<open>rch-common\<close>, \<open>rch-wkr\<close>) is a hook, a daemon and worker
  agents. The hook asks the classifier whether a command is a compilation it may take over and which
  text to send. The planner works out which local packages a build needs and in which order they are
  synchronized. The daemon keeps a pool of workers; each has a lifecycle, a circuit breaker and a
  counter of used slots that many tasks change at once.

  The newer one (crates \<open>rabs-*\<close>) is a build-result cache with a coordinator. A wrapper process speaks
  frames over a socket to an edge; a connect breaker guards the socket, the protocol negotiates a
  version and decides about falling back to a local run; transcripts and effects are delivered to the
  user across lost connections and crashes. An action has a key, computed from its descriptor; an
  attempt to execute it ends in an offer, which the coordinator admits into the metadata store as the
  published result of the key or refuses; published results are served through a gate and kept by
  the garbage collector; fences decide who may speak for the cluster.

  \<^bold>\<open>Theories and sources.\<close>

  \<^item> \<open>Prelude\<close>: Rust's string operations, words as naturals, saturating arithmetic, and the locale
    \<open>transition_system\<close>, through which each stateful component gets its reachability theorem.
  \<^item> \<open>Shell_Scan\<close>, \<open>Normalize\<close>, \<open>Classifier\<close> (\<open>rch-common/src/patterns.rs\<close>): the quote-aware scanners,
    the stripping of wrappers and assignments, and the tiers up to \<open>classify_command\<close> and its
    diagnostic twin. The specification of the scanners is the text that stands outside quotes. An
    accepted command is a single command of the reported tool without exposed operators; the rewrite
    of a chain loses nothing; the twin agrees with the classifier.
  \<^item> \<open>Circuit\<close> (\<open>CircuitStats\<close> of \<open>rch-common/src/types.rs\<close>), \<open>Lifecycle\<close>, \<open>Worker\<close>, \<open>Slot_Race\<close>
    (\<open>rchd/src/workers.rs\<close>): the operations as functions on records, then the compare-and-swap loops
    as atomic steps of a multiset of tasks. Slots are never overallocated, and a drained worker has
    no committed job.
  \<^item> \<open>Path_Topology\<close> (\<open>path_topology.rs\<close>), \<open>Cargo_Graph\<close>, \<open>Cargo_Resolver\<close> (\<open>cargo_path_deps.rs\<close>) and
    \<open>Dependency_Plan\<close> (\<open>dependency_closure_planner.rs\<close>, all in \<open>rch-common/src\<close>): normalization of
    project paths over a file system with links, the graph of local packages from cargo's metadata
    or from the manifests, the closure of what must be present on the worker, and the order of
    synchronization. The depth-first search returns exactly the reachable acyclic graph or a closed
    walk; the active graph lies in the materialized closure; the plan lists every package once with
    its dependencies first, or is empty.
  \<^item> \<open>Queue_Contract\<close> (\<open>job_identity.rs\<close>, \<open>queue_contract.rs\<close>), \<open>Smoke_Profile\<close> (\<open>fleet_smoke_profile.rs\<close>),
    \<open>Storm_Control\<close> and \<open>Storm_Run\<close> (\<open>storm_control.rs\<close>, all in \<open>rch-common/src\<close>): the identity and lease
    of a job, what a queued command is told, the plan and the event record of a smoke run, and the
    simulator of a build storm with the live recorder and the invariant checkers. \<open>Storm_Run\<close> splits
    the event loop into steps. A simulated storm passes the checkers, decides every job once, keeps
    slots and queue within their limits and the queue in order, and is matched job by job by the
    recorder.
  \<^item> \<open>Masking\<close> (\<open>util.rs\<close>, \<open>redaction.rs\<close>) and \<open>Incident_Ledger\<close> (\<open>incident.rs\<close>, \<open>incident_ledger.rs\<close>): after
    masking, every key is followed by stars only, and masking again changes nothing; the ledger, a
    file of lines with the faults of the operating system as branches, keeps at least the newest
    events of its retention bound, and a failed append takes nothing away.
  \<^item> \<open>Bypass\<close> (\<open>bypass_record.rs\<close>, \<open>bypass_recovery.rs\<close>) and \<open>Reclaim\<close> (\<open>disk_reclaim.rs\<close>, the guards of
    \<open>stale_target_reap.rs\<close>, \<open>job_recovery.rs\<close>): a bypassed worker rejoins only after its streak of
    healthy probes and the canary, and those always bring it back; the stores on disk are those in
    memory; a planned deletion leads into a managed root and never covers an active build. The causes
    of a bypass are those of \<open>Lifecycle\<close>, the journal events those of the ledger, the job states those
    of \<open>Queue_Contract\<close>.
  \<^item> \<open>Framing\<close>, \<open>Breaker\<close>, \<open>Local_Protocol\<close>, \<open>Transcript\<close>, \<open>Stateful_Delivery\<close> (\<open>framing.rs\<close>,
    \<open>wrapper_breaker.rs\<close>, \<open>local_protocol.rs\<close>, \<open>transcript_sequencing.rs\<close> and \<open>reconnect.rs\<close>,
    \<open>stateful_delivery.rs\<close> in \<open>rabs-protocol/src\<close>): decoding inverts encoding on streams cut
    anywhere; probes are at least a cooldown apart; what the user sees is a prefix of the canonical
    transcript; stateful effects happen exactly once across crashes. The locale \<open>frontier_reporter\<close>
    joins the lanes to the fallback decision.
  \<^item> \<open>Canonical\<close> (\<open>canonical.rs\<close>, \<open>typed_digest.rs\<close>, \<open>action_key.rs\<close> of \<open>rabs-key/src\<close>) and \<open>Manifest\<close>
    (\<open>rabs-protocol/src/result_identity.rs\<close>, \<open>rabs-cas/src/manifest_codec.rs\<close>): canonical bytes are
    injective on key inputs, and manifests survive their codec. The locales \<open>field_encoder\<close> and
    \<open>wire_field\<close> compose the proofs from single fields.
  \<^item> \<open>Metadata_Store\<close>, \<open>Publication\<close>, \<open>Gc\<close> (\<open>metadata_store.rs\<close>, \<open>publication.rs\<close>, \<open>gc.rs\<close> and
    \<open>pin_leases.rs\<close> in \<open>rabs-cas/src\<close>): the store's tables and transactions, the admission of offers
    over them, and the collector. Published rows are immutable, identifiers of generations are never
    reused, only admitted offers are committed, and no copy of a live object is collected in any
    interleaving of passes and store operations (locale \<open>collected_store\<close>).
  \<^item> \<open>Action_Machines\<close> (\<open>state_machines.rs\<close>, \<open>generation_fence.rs\<close>, \<open>serving_transitions.rs\<close> of
    \<open>rabs-action/src\<close>): the legality tables as abstract specifications. The store refines the
    generation fence, offer processing the publication slot, and the delivery engine the subscriber
    machine.
  \<^item> \<open>Fencing\<close> (\<open>authority.rs\<close>, \<open>generation.rs\<close>, \<open>worker_fence.rs\<close>, \<open>edge_fence.rs\<close> of
    \<open>rabs-protocol/src\<close> and the fence rows of the store) and \<open>Serving\<close> (\<open>rabs-protocol/src/serving.rs\<close>,
    \<open>rabs-cas/src/serving_state.rs\<close> and the serving rows): an issued authority fences its
    predecessor at every peer, an edge changes hands only by a completed handoff, and a divergence
    stops serving until a new record is written.

  \<^bold>\<open>Conventions.\<close> A struct is a \<open>record\<close>, an enum a \<open>datatype\<close> with the source's constructors, an error
  the left injection of a sum or \<open>None\<close>. An operation on state returns the state it leaves. A SQL
  table is an association list from primary key to row; a \<open>BTreeMap\<close> is an association list that is
  sorted where it is iterated, a \<open>BTreeSet\<close> a sorted list or a set.

  \<^item> Integers are words where the code relies on their width or where wrap-around is possible, and
    naturals with the range checks of the code where it checks; naturals without a check are counters
    of events (sequence numbers, positions), which stay far below \<open>2^64\<close>.
  \<^item> Text is ASCII, so bytes and characters coincide; the few literals outside it are kept as their bytes
    in UTF-8, and files are bytes, with UTF-8 checked where the code checks it. Free text of errors and logs is left out where
    nothing reads it; texts that other code parses or compares are kept.
  \<^item> Floating-point numbers occur only as \<open>rat\<close> (the error rate of the circuit, the confidence of a
    classification, the speeds and ratios of a storm), where the code writes decimal literals or divides two counters and compares.
  \<^item> Clocks are arguments, and nothing is assumed about successive readings unless a hypothesis says so.
  \<^item> SHA-256, the manifest resolver of the publisher, cargo and its JSON output, the TOML parser, the JSON
    library of the ledger and the stores, compiled regular expressions and directory listings are
    arguments of the definitions that use them.
  \<^item> Loops are structural recursions or have a termination proof. The recursions over manifests have a
    depth bound as an argument; \<open>Cargo_Resolver.manifest_resolution_returns\<close> shows that any bound above
    the number of file system nodes plus one suffices. The limit on links followed in a lookup is a
    field of the modelled file system, as it is the kernel's. Every other model function is total
    without a bound.

  \<^bold>\<open>Not modelled.\<close> What remains is mostly input and output: the hook's and the command line's process
  orchestration, rsync and ssh transfers, diagnostics, rollouts, self-update, terminal rendering, the
  daemon's asynchronous services, the worker agent, telemetry, the object store's files with their
  fsync ordering, the Linux sandbox, benchmark replay and the process entry points. Their behaviour is
  that of the programs and kernels they drive. The admission, proof, placement, readiness and fleet
  report modules of \<open>rch-common\<close> turn decisions and measurements into explanations for an operator and
  keep no state. Of the modelled components the following is left out:
  capability and pressure records of a worker, which are stored and returned unchanged; the tables of
  recipes, key breakdowns and trust, schema migration and the two SQL engines; the comparison of a
  recomputation with an eviction tombstone; the shell scripts around the reap guards; permissions and concurrent changes of the file system.
\<close>

end
